(* ===== verification/Prelude.thy ===== *)
theory Prelude
  imports Complex_Main "HOL-Library.Char_ord" "HOL-Library.List_Lexorder"
begin

text \<open>
  What every component of the development shares: the collections of simplification and
  introduction rules, Go strings as lists of bytes (\<open>char list\<close>, ordered bytewise as Go's
  \<open><\<close> orders strings), 64-bit integers with the wrap-around written out, decimal rendering
  (\<open>strconv.Itoa\<close>), the trimming of white space (\<open>strings.TrimSpace\<close>), and lemmas on
  lists and association lists that several components use.
\<close>

named_theorems graph_simps \<open>facts about edges, adjacency and searches\<close>
named_theorems state_simps \<open>how each operation of the runner changes each field of its state\<close>
named_theorems compile_defs \<open>the definitions a compiler pass unfolds to\<close>

subsection \<open>64-bit integers\<close>

text \<open>The value an \<open>int64\<close> holds after a computation whose exact result is \<open>x\<close>.\<close>

definition i64 :: "int \<Rightarrow> int" where
  "i64 x = (x + 2 ^ 63) mod 2 ^ 64 - 2 ^ 63"

definition fits_i64 :: "int \<Rightarrow> bool" where
  "fits_i64 x \<longleftrightarrow> - (2 ^ 63) \<le> x \<and> x < 2 ^ 63"

lemma i64_fits [simp]: "fits_i64 x \<Longrightarrow> i64 x = x"
  by (simp add: i64_def fits_i64_def)

lemma fits_i64_i64 [simp]: "fits_i64 (i64 x)"
proof -
  have "0 \<le> (x + 2 ^ 63) mod 2 ^ 64" "(x + 2 ^ 63) mod 2 ^ 64 < 2 ^ 64"
    by (rule pos_mod_sign, simp) (rule pos_mod_bound, simp)
  then show ?thesis by (simp add: i64_def fits_i64_def)
qed

subsection \<open>Decimal rendering and reading\<close>

definition digit_char :: "nat \<Rightarrow> char" where
  "digit_char d = char_of (48 + d)"

definition digit_val :: "char \<Rightarrow> nat" where
  "digit_val c = of_char c - 48"

definition is_digit :: "char \<Rightarrow> bool" where
  "is_digit c \<longleftrightarrow> 48 \<le> (of_char c :: nat) \<and> (of_char c :: nat) \<le> 57"

lemma digit_val_char [simp]: "d < 10 \<Longrightarrow> digit_val (digit_char d) = d"
  by (simp add: digit_val_def digit_char_def)

lemma is_digit_char [simp]: "d < 10 \<Longrightarrow> is_digit (digit_char d)"
  by (simp add: is_digit_def digit_char_def)

lemma digit_val_less: "is_digit c \<Longrightarrow> digit_val c < 10"
  by (auto simp: is_digit_def digit_val_def)

lemma digit_char_val [simp]: "is_digit c \<Longrightarrow> digit_char (digit_val c) = c"
  by (auto simp: is_digit_def digit_val_def digit_char_def)

fun dec_nat :: "nat \<Rightarrow> string" where
  "dec_nat n = (if n < 10 then [digit_char n] else dec_nat (n div 10) @ [digit_char (n mod 10)])"

declare dec_nat.simps [simp del]

definition itoa :: "int \<Rightarrow> string" where
  "itoa i = (if i < 0 then CHR ''-'' # dec_nat (nat (- i)) else dec_nat (nat i))"

definition digits_val :: "string \<Rightarrow> nat" where
  "digits_val s = foldl (\<lambda>acc c. 10 * acc + digit_val c) 0 s"

lemma digits_val_append: "digits_val (s @ [c]) = 10 * digits_val s + digit_val c"
  by (simp add: digits_val_def)

lemma digits_val_Nil [simp]: "digits_val [] = 0"
  by (simp add: digits_val_def)

lemma dec_nat_digits: "list_all is_digit (dec_nat n)"
proof (induction n rule: dec_nat.induct)
  case (1 n)
  then show ?case by (subst dec_nat.simps) auto
qed

lemma dec_nat_val [simp]: "digits_val (dec_nat n) = n"
proof (induction n rule: dec_nat.induct)
  case (1 n)
  show ?case
  proof (cases "n < 10")
    case True
    then show ?thesis by (subst dec_nat.simps) (simp add: digits_val_def)
  next
    case False
    with 1 show ?thesis by (subst dec_nat.simps) (simp add: digits_val_append)
  qed
qed

lemma dec_nat_not_Nil [simp]: "dec_nat n \<noteq> []"
  by (subst dec_nat.simps) simp

lemma dec_nat_inject [simp]: "dec_nat m = dec_nat n \<longleftrightarrow> m = n"
  by (metis dec_nat_val)

lemma is_digit_not: "is_digit c \<Longrightarrow> c \<noteq> CHR ''-'' \<and> c \<noteq> CHR ''+'' \<and> c \<noteq> CHR ''.'' \<and> c \<noteq> CHR 0x00"
  by (auto simp: is_digit_def)

lemma dec_nat_chars: "c \<in> set (dec_nat n) \<Longrightarrow> is_digit c"
  using dec_nat_digits by (auto simp: list_all_iff)

lemma itoa_inject [simp]: "itoa i = itoa j \<longleftrightarrow> i = j"
proof
  assume eq: "itoa i = itoa j"
  have minus: "dec_nat n \<noteq> CHR ''-'' # s" for n s
    using dec_nat_chars [of "CHR ''-''" n] is_digit_not by (metis list.set_intros(1))
  show "i = j"
    using eq minus minus [symmetric] by (auto simp: itoa_def split: if_splits)
qed simp

lemma itoa_no_nul: "CHR 0x00 \<notin> set (itoa i)"
  by (auto simp: itoa_def dest: dec_nat_chars is_digit_not)

lemma dec_nat_length_le: "n < 10 ^ k \<Longrightarrow> 0 < k \<Longrightarrow> length (dec_nat n) \<le> k"
proof (induction n arbitrary: k rule: dec_nat.induct)
  case (1 n)
  show ?case
  proof (cases "n < 10")
    case True
    with 1 show ?thesis by (subst dec_nat.simps) simp
  next
    case False
    with 1(2) obtain j where k: "k = Suc j" by (cases k) auto
    with False 1(2) have "0 < j" by (cases j) auto
    moreover from 1(2) k have "n div 10 < 10 ^ j" by simp
    ultimately have "length (dec_nat (n div 10)) \<le> j" using 1(1) False by blast
    with False k show ?thesis by (subst dec_nat.simps) simp
  qed
qed

lemma digits_val_bound: "list_all is_digit s \<Longrightarrow> digits_val s < 10 ^ length s"
proof (induction s rule: rev_induct)
  case (snoc c s)
  then have "digits_val s < 10 ^ length s" "digit_val c < 10"
    by (auto simp: digit_val_less)
  then show ?case by (simp add: digits_val_append)
qed simp

lemma digits_val_zeros: "digits_val (replicate k (CHR ''0'') @ s) = digits_val s"
proof (induction k)
  case (Suc k)
  have "digit_val (CHR ''0'') = 0" by (simp add: digit_val_def)
  with Suc show ?case by (simp add: digits_val_def)
qed simp

subsection \<open>White space\<close>

text \<open>
  The UTF-8 forms of the code points \<open>unicode.IsSpace\<close> accepts. UTF-8 is self-synchronising,
  so \<open>strings.TrimSpace\<close>, which decodes the first and the last rune, removes exactly these
  byte sequences from either end.
\<close>

definition space_forms :: "string list" where
  "space_forms =
     [[CHR 0x09], [CHR 0x0A], [CHR 0x0B], [CHR 0x0C], [CHR 0x0D], [CHR 0x20],
      [CHR 0xC2, CHR 0x85], [CHR 0xC2, CHR 0xA0], [CHR 0xE1, CHR 0x9A, CHR 0x80]]
     @ map (\<lambda>b. [CHR 0xE2, CHR 0x80, char_of b])
         [0x80, 0x81, 0x82, 0x83, 0x84, 0x85, 0x86, 0x87, 0x88, 0x89, 0x8A, 0xA8, 0xA9, 0xAF :: nat]
     @ [[CHR 0xE2, CHR 0x81, CHR 0x9F], [CHR 0xE3, CHR 0x80, CHR 0x80]]"

definition is_prefix :: "'a list \<Rightarrow> 'a list \<Rightarrow> bool" where
  "is_prefix p s \<longleftrightarrow> take (length p) s = p"

definition strip_form :: "string list \<Rightarrow> string \<Rightarrow> string option" where
  "strip_form forms s =
     (case find (\<lambda>w. w \<noteq> [] \<and> is_prefix w s) forms of
        None \<Rightarrow> None
      | Some w \<Rightarrow> Some (drop (length w) s))"

lemma strip_form_shorter: "strip_form forms s = Some t \<Longrightarrow> length t < length s"
  by (auto simp: strip_form_def find_Some_iff is_prefix_def split: option.splits)
     (metis diff_less length_greater_0_conv take_Nil)

function strip_forms :: "string list \<Rightarrow> string \<Rightarrow> string" where
  "strip_forms forms s = (case strip_form forms s of None \<Rightarrow> s | Some t \<Rightarrow> strip_forms forms t)"
  by pat_completeness auto
termination
  by (relation "measure (length \<circ> snd)") (auto dest: strip_form_shorter)

declare strip_forms.simps [simp del]

definition trim_space :: "string \<Rightarrow> string" where
  "trim_space s = rev (strip_forms (map rev space_forms) (rev (strip_forms space_forms s)))"

definition no_space_ends :: "string \<Rightarrow> bool" where
  "no_space_ends s \<longleftrightarrow> strip_form space_forms s = None \<and> strip_form (map rev space_forms) (rev s) = None"

lemma trim_space_id: "no_space_ends s \<Longrightarrow> trim_space s = s"
  by (simp add: trim_space_def no_space_ends_def strip_forms.simps)

lemma strip_forms_length: "length (strip_forms forms s) \<le> length s"
proof (induction forms s rule: strip_forms.induct)
  case (1 forms s)
  show ?case
  proof (cases "strip_form forms s")
    case None
    then show ?thesis by (simp add: strip_forms.simps [of forms s])
  next
    case (Some t)
    with 1 have "length (strip_forms forms t) \<le> length t" by simp
    also have "\<dots> < length s" using Some by (rule strip_form_shorter)
    finally show ?thesis using Some by (simp add: strip_forms.simps [of forms s])
  qed
qed

lemma strip_forms_done: "strip_form forms (strip_forms forms s) = None"
proof (induction forms s rule: strip_forms.induct)
  case (1 forms s)
  show ?case
  proof (cases "strip_form forms s")
    case None
    then show ?thesis by (simp add: strip_forms.simps [of forms s])
  next
    case (Some t)
    with 1 show ?thesis by (simp add: strip_forms.simps [of forms s])
  qed
qed

lemma strip_forms_eq_iff: "strip_forms forms s = s \<longleftrightarrow> strip_form forms s = None"
proof (cases "strip_form forms s")
  case None
  then show ?thesis by (simp add: strip_forms.simps [of forms s])
next
  case (Some t)
  then have "length (strip_forms forms s) < length s"
    using strip_forms_length [of forms t] strip_form_shorter [OF Some]
    by (simp add: strip_forms.simps [of forms s])
  with Some show ?thesis by auto
qed

lemma trim_space_eq_iff: "trim_space s = s \<longleftrightarrow> no_space_ends s"
proof
  assume eq: "trim_space s = s"
  let ?l = "strip_forms space_forms s"
  let ?r = "strip_forms (map rev space_forms) (rev ?l)"
  have "length ?r \<le> length ?l" "length ?l \<le> length s"
    using strip_forms_length [of "map rev space_forms" "rev ?l"] strip_forms_length [of space_forms s]
    by simp_all
  with eq have "length ?l = length s" by (auto simp: trim_space_def dest: arg_cong [where f = length])
  then have l: "?l = s"
    using strip_forms_eq_iff [of space_forms s] strip_form_shorter
    by (metis (no_types, lifting) le_antisym less_le_not_le not_None_eq option.simps(5)
        strip_forms.simps strip_forms_length)
  with eq have "strip_forms (map rev space_forms) (rev s) = rev s"
    by (simp add: trim_space_def) (metis rev_rev_ident)
  with l show "no_space_ends s"
    by (simp add: no_space_ends_def strip_forms_eq_iff)
qed (rule trim_space_id)

subsection \<open>Substrings\<close>

fun contains_sub :: "string \<Rightarrow> string \<Rightarrow> bool" where
  "contains_sub [] p = (p = [])"
| "contains_sub (c # s) p = (is_prefix p (c # s) \<or> contains_sub s p)"

lemma is_prefix_Nil [simp]: "is_prefix [] s" "is_prefix p [] \<longleftrightarrow> p = []"
  by (auto simp: is_prefix_def)

lemma is_prefix_Cons: "is_prefix (c # p) (d # s) \<longleftrightarrow> c = d \<and> is_prefix p s"
  by (auto simp: is_prefix_def)

lemma is_prefix_barrier: "c \<notin> set p \<Longrightarrow> is_prefix p (u @ c # v) \<longleftrightarrow> is_prefix p u"
proof (induction u arbitrary: p)
  case Nil
  then show ?case by (cases p) (auto simp: is_prefix_Cons)
next
  case (Cons d u)
  then show ?case by (cases p) (auto simp: is_prefix_Cons)
qed

lemma contains_sub_barrier:
  assumes "c \<notin> set p" "p \<noteq> []"
  shows "contains_sub (u @ c # v) p \<longleftrightarrow> contains_sub u p \<or> contains_sub v p"
proof (induction u)
  case Nil
  then show ?case using assms by (cases p) (auto simp: is_prefix_Cons)
next
  case (Cons d u)
  then show ?case using is_prefix_barrier [OF assms(1), of "d # u" v] by simp
qed

text \<open>\<open>strings.ReplaceAll\<close> of a text that is not empty.\<close>

function replace_all :: "string \<Rightarrow> string \<Rightarrow> string \<Rightarrow> string" where
  "replace_all s old new =
     (case s of
        [] \<Rightarrow> []
      | c # cs \<Rightarrow>
          if old \<noteq> [] \<and> is_prefix old s then new @ replace_all (drop (length old) s) old new
          else c # replace_all cs old new)"
  by pat_completeness auto
termination
  by (relation "measure (\<lambda>(s, old, new). length s)") auto

declare replace_all.simps [simp del]

definition trim_prefix :: "string \<Rightarrow> string \<Rightarrow> string" where
  "trim_prefix s p = (if is_prefix p s then drop (length p) s else s)"

text \<open>\<open>strings.EqualFold\<close> against a constant whose letters have no fold outside ASCII.\<close>

definition ascii_lower :: "char \<Rightarrow> char" where
  "ascii_lower c = (let n = (of_char c :: nat) in if 65 \<le> n \<and> n \<le> 90 then char_of (n + 32) else c)"

definition equal_fold_ascii :: "string \<Rightarrow> string \<Rightarrow> bool" where
  "equal_fold_ascii s t \<longleftrightarrow> map ascii_lower s = map ascii_lower t"

subsection \<open>Association lists: Go maps that are written once\<close>

definition aget :: "('k \<times> 'v) list \<Rightarrow> 'k \<Rightarrow> 'v option" where
  "aget = map_of"

fun aput :: "'k \<Rightarrow> 'v \<Rightarrow> ('k \<times> 'v) list \<Rightarrow> ('k \<times> 'v) list" where
  "aput k v [] = [(k, v)]"
| "aput k v ((k', v') # m) = (if k = k' then (k, v) # m else (k', v') # aput k v m)"

lemma aget_Nil [simp]: "aget [] k = None"
  by (simp add: aget_def)

lemma aget_Cons [simp]: "aget ((k', v) # m) k = (if k = k' then Some v else aget m k)"
  by (auto simp: aget_def)

lemma aget_aput [simp]: "aget (aput k v m) k' = (if k' = k then Some v else aget m k')"
  by (induction m) auto

lemma aget_in: "aget m k = Some v \<Longrightarrow> (k, v) \<in> set m"
  by (simp add: aget_def map_of_SomeD)

lemma aget_key: "aget m k = Some v \<Longrightarrow> k \<in> fst ` set m"
  by (force dest: aget_in)

lemma aget_None_iff: "aget m k = None \<longleftrightarrow> k \<notin> fst ` set m"
  by (simp add: aget_def map_of_eq_None_iff)

lemma aput_keys: "fst ` set (aput k v m) = insert k (fst ` set m)"
  by (induction k v m rule: aput.induct) auto

lemma aput_distinct: "distinct (map fst m) \<Longrightarrow> distinct (map fst (aput k v m))"
proof (induction k v m rule: aput.induct)
  case (2 k v k' v' m)
  then show ?case using aput_keys [of k v m] by auto
qed simp

subsection \<open>Lists\<close>

fun first_dup :: "'a list \<Rightarrow> 'a list \<Rightarrow> 'a option" where
  "first_dup seen [] = None"
| "first_dup seen (x # xs) = (if x \<in> set seen then Some x else first_dup (x # seen) xs)"

lemma first_dup_None: "first_dup seen xs = None \<longleftrightarrow> distinct xs \<and> set xs \<inter> set seen = {}"
  by (induction seen xs rule: first_dup.induct) auto

fun update_nth :: "nat \<Rightarrow> ('a \<Rightarrow> 'a) \<Rightarrow> 'a list \<Rightarrow> 'a list" where
  "update_nth n f [] = []"
| "update_nth 0 f (x # xs) = f x # xs"
| "update_nth (Suc n) f (x # xs) = x # update_nth n f xs"

lemma length_update_nth [simp]: "length (update_nth n f xs) = length xs"
  by (induction n f xs rule: update_nth.induct) auto

lemma nth_update_nth: "i < length xs \<Longrightarrow> update_nth n f xs ! i = (if i = n then f (xs ! i) else xs ! i)"
  by (induction n f xs arbitrary: i rule: update_nth.induct) (auto simp: nth_Cons split: nat.splits)

lemma update_nth_conv: "update_nth n f xs = (if n < length xs then xs[n := f (xs ! n)] else xs)"
  by (induction n f xs rule: update_nth.induct) auto

text \<open>Positions paired with elements, as \<open>for index, x := range xs\<close> gives them.\<close>

definition indexed :: "'a list \<Rightarrow> (nat \<times> 'a) list" where
  "indexed xs = zip [0..<length xs] xs"

lemma in_indexed [simp]: "(i, x) \<in> set (indexed xs) \<longleftrightarrow> i < length xs \<and> xs ! i = x"
proof -
  have "j < length xs \<Longrightarrow> [0..<length xs] ! j = j" for j by simp
  then show ?thesis by (auto simp: indexed_def set_zip intro!: exI [of _ i])
qed

lemma indexed_ex: "x \<in> set xs \<longleftrightarrow> (\<exists>i. (i, x) \<in> set (indexed xs))"
  unfolding in_indexed by (auto simp: in_set_conv_nth)

lemma map_snd_indexed [simp]: "map snd (indexed xs) = xs"
  by (simp add: indexed_def)

lemma rtrancl_Image_subset: "A \<subseteq> R\<^sup>* `` B \<Longrightarrow> R\<^sup>* `` A \<subseteq> R\<^sup>* `` B"
  by (blast intro: rtrancl_trans)

lemma finite_set_inter_card_less:
  "x \<in> set xs \<Longrightarrow> x \<notin> S \<Longrightarrow> S \<subset> T \<Longrightarrow> x \<in> T \<Longrightarrow> card (set xs - T) < card (set xs - S)"
  by (rule psubset_card_mono) auto

end
