(* ===== verification/Type_Version.thy ===== *)
theory Type_Version
  imports Prelude
begin

text \<open>
  Node type versions (\<open>internal/workflow/typeversion.go\<close>): a fixed-point decimal held as an
  \<open>int64\<close> scaled by \<open>versionScale\<close>, with its parser, its renderer, its order and its JSON form.
\<close>

definition version_scale :: int where
  "version_scale = 1000000"

record type_version =
  scaled :: int

definition V :: "int \<Rightarrow> type_version" where
  "V major = \<lparr>scaled = i64 (major * version_scale)\<rparr>"

subsection \<open>Reading\<close>

text \<open>\<open>strconv.ParseInt(s, 10, 64)\<close>: an optional sign, then one or more digits, in range.\<close>

definition parse_digits :: "string \<Rightarrow> int option" where
  "parse_digits s = (if s \<noteq> [] \<and> list_all is_digit s then Some (int (digits_val s)) else None)"

definition parse_int :: "string \<Rightarrow> int option" where
  "parse_int s =
     (case (case s of
              [] \<Rightarrow> None
            | c # r \<Rightarrow>
                if c = CHR ''-'' then map_option uminus (parse_digits r)
                else if c = CHR ''+'' then parse_digits r
                else parse_digits s) of
        None \<Rightarrow> None
      | Some x \<Rightarrow> if fits_i64 x then Some x else None)"

text \<open>\<open>strings.Cut(s, ".")\<close>: the text before and after the first point, if there is one.\<close>

fun cut_point :: "string \<Rightarrow> string \<times> string option" where
  "cut_point [] = ([], None)"
| "cut_point (c # s) =
     (if c = CHR ''.'' then ([], Some s) else (case cut_point s of (a, b) \<Rightarrow> (c # a, b)))"

datatype version_error =
    VersionEmpty
  | VersionNegative string
  | VersionNotDecimal string
  | VersionNoFraction string
  | VersionTooPrecise string
  | VersionUnreadable

definition fraction_digits :: nat where
  "fraction_digits = length (itoa version_scale) - 1"

definition parse_type_version :: "string \<Rightarrow> version_error + type_version" where
  "parse_type_version text =
     (let trimmed = trim_space text in
      if trimmed = [] then Inl VersionEmpty
      else if is_prefix ''-'' trimmed then Inl (VersionNegative text)
      else
        (case cut_point trimmed of (whole, fraction) \<Rightarrow>
          (case parse_int whole of
             None \<Rightarrow> Inl (VersionNotDecimal text)
           | Some major \<Rightarrow>
               (let s = i64 (major * version_scale) in
                case fraction of
                  None \<Rightarrow> Inr \<lparr>scaled = s\<rparr>
                | Some digs \<Rightarrow>
                    if digs = [] then Inl (VersionNoFraction text)
                    else if length digs > fraction_digits then Inl (VersionTooPrecise text)
                    else
                      (case parse_int (digs @ replicate (fraction_digits - length digs) (CHR ''0'')) of
                         None \<Rightarrow> Inl (VersionNotDecimal text)
                       | Some minor \<Rightarrow> Inr \<lparr>scaled = i64 (s + minor)\<rparr>)))))"

definition is_zero_version :: "type_version \<Rightarrow> bool" where
  "is_zero_version v \<longleftrightarrow> scaled v = 0"

definition compare_version :: "type_version \<Rightarrow> type_version \<Rightarrow> int" where
  "compare_version v w =
     (if scaled v < scaled w then -1 else if scaled w < scaled v then 1 else 0)"

subsection \<open>Writing\<close>

text \<open>Go's integer division truncates towards zero and \<open>%\<close> has the sign of the dividend.\<close>

definition go_quot :: "int \<Rightarrow> int \<Rightarrow> int" where
  "go_quot a b = (if a < 0 then - ((- a) div b) else a div b)"

definition go_rem :: "int \<Rightarrow> int \<Rightarrow> int" where
  "go_rem a b = a - b * go_quot a b"

text \<open>\<open>fmt.Sprintf("%0*d", width, x)\<close>: the sign counts towards the width.\<close>

definition zero_padded :: "nat \<Rightarrow> int \<Rightarrow> string" where
  "zero_padded width x =
     (if x < 0
      then CHR ''-'' # (let d = dec_nat (nat (- x)) in replicate (width - 1 - length d) (CHR ''0'') @ d)
      else (let d = dec_nat (nat x) in replicate (width - length d) (CHR ''0'') @ d))"

definition trim_right_zeros :: "string \<Rightarrow> string" where
  "trim_right_zeros s = rev (dropWhile (\<lambda>c. c = CHR ''0'') (rev s))"

definition version_string :: "type_version \<Rightarrow> string" where
  "version_string v =
     (let whole = go_quot (scaled v) version_scale;
          fraction = go_rem (scaled v) version_scale in
      if fraction = 0 then itoa whole
      else itoa whole @ CHR ''.'' # trim_right_zeros (zero_padded fraction_digits fraction))"

text \<open>
  The JSON form. \<open>unquote\<close> is \<open>encoding/json\<close>'s decoding of a string literal, which only a
  quoted version uses.
\<close>

definition marshal_version :: "type_version \<Rightarrow> string" where
  "marshal_version v = version_string v"

definition unmarshal_version :: "(string \<Rightarrow> string option) \<Rightarrow> string \<Rightarrow> version_error + type_version" where
  "unmarshal_version unquote data =
     (let text = trim_space data in
      if text = ''null'' then Inr \<lparr>scaled = 0\<rparr>
      else if length text \<ge> 2 \<and> hd text = CHR 0x22 \<and> last text = CHR 0x22 then
        (case unquote data of
           None \<Rightarrow> Inl VersionUnreadable
         | Some quoted \<Rightarrow> parse_type_version quoted)
      else parse_type_version text)"

subsection \<open>Lemmas\<close>

lemma fraction_digits_6 [simp]: "fraction_digits = 6"
  by (simp add: fraction_digits_def version_scale_def itoa_def dec_nat.simps)

lemma space_forms_not_digit: "w \<in> set space_forms \<Longrightarrow> \<not> is_digit (hd w) \<and> \<not> is_digit (last w)"
  by (auto simp: space_forms_def is_digit_def)

lemma strip_form_digit:
  assumes "\<And>w. w \<in> set forms \<Longrightarrow> w \<noteq> [] \<Longrightarrow> \<not> is_digit (hd w)" and "is_digit (hd s)" and "s \<noteq> []"
  shows "strip_form forms s = None"
proof -
  have "\<not> is_prefix w s" if "w \<in> set forms" "w \<noteq> []" for w
  proof
    assume "is_prefix w s"
    then have "hd w = hd s" using that(2) by (cases s; cases w) (auto simp: is_prefix_def)
    with assms(1) [OF that] assms(2) show False by simp
  qed
  then show ?thesis by (auto simp: strip_form_def find_None_iff split: option.splits)
qed

lemma no_space_ends_digits:
  assumes "s \<noteq> []" "is_digit (hd s)" "is_digit (last s)"
  shows "no_space_ends s"
  unfolding no_space_ends_def
proof
  show "strip_form space_forms s = None"
    by (rule strip_form_digit) (use assms space_forms_not_digit in auto)
  show "strip_form (map rev space_forms) (rev s) = None"
    by (rule strip_form_digit) (use assms space_forms_not_digit in \<open>auto simp: hd_rev\<close>)
qed

lemma trim_space_digits: "s \<noteq> [] \<Longrightarrow> is_digit (hd s) \<Longrightarrow> is_digit (last s) \<Longrightarrow> trim_space s = s"
  by (simp add: trim_space_id no_space_ends_digits)

lemma parse_int_digits:
  "s \<noteq> [] \<Longrightarrow> list_all is_digit s \<Longrightarrow> int (digits_val s) < 2 ^ 63 \<Longrightarrow> parse_int s = Some (int (digits_val s))"
  using is_digit_not [of "hd s"]
  by (cases s) (auto simp: parse_int_def parse_digits_def fits_i64_def)

lemma cut_point_digits: "list_all is_digit s \<Longrightarrow> cut_point s = (s, None)"
  by (induction s) (auto dest: is_digit_not)

lemma cut_point_pointed: "list_all is_digit s \<Longrightarrow> cut_point (s @ CHR ''.'' # t) = (s, Some t)"
  by (induction s) (auto dest: is_digit_not)

lemma digits_val_append_zeros: "digits_val (s @ replicate k (CHR ''0'')) = digits_val s * 10 ^ k"
proof (induction k)
  case (Suc k)
  have "digit_val (CHR ''0'') = 0" by (simp add: digit_val_def)
  moreover have "s @ replicate (Suc k) (CHR ''0'') = (s @ replicate k (CHR ''0'')) @ [CHR ''0'']"
    by (simp add: replicate_append_same)
  ultimately show ?case using Suc by (simp only: digits_val_append) simp
qed simp

lemma list_all_digit_zeros [simp]: "list_all is_digit (replicate k (CHR ''0''))"
  by (induction k) (auto simp: is_digit_def)

lemma digit_not_minus_prefix: "s \<noteq> [] \<Longrightarrow> is_digit (hd s) \<Longrightarrow> \<not> is_prefix ''-'' s"
  using is_digit_not [of "hd s"] by (cases s) (auto simp: is_prefix_def)

lemma parse_type_version_whole:
  assumes "w \<noteq> []" "list_all is_digit w" "int (digits_val w) < 2 ^ 63"
  shows "parse_type_version w = Inr \<lparr>scaled = i64 (int (digits_val w) * version_scale)\<rparr>"
proof -
  have hl: "is_digit (hd w)" "is_digit (last w)" using assms(1,2) by (auto simp: list_all_iff)
  with assms show ?thesis
    by (simp add: parse_type_version_def trim_space_digits digit_not_minus_prefix cut_point_digits
        parse_int_digits)
qed

lemma pow10_bound: "int (digits_val s) < 2 ^ 63" if "list_all is_digit s" "length s \<le> 6"
proof -
  have "digits_val s < 10 ^ length s" using that(1) by (rule digits_val_bound)
  also have "\<dots> \<le> (10::nat) ^ 6" using that(2) by (rule power_increasing) simp
  finally show ?thesis by simp
qed

lemma parse_type_version_pointed:
  assumes w: "w \<noteq> []" "list_all is_digit w" "int (digits_val w) < 2 ^ 63"
    and f: "f \<noteq> []" "list_all is_digit f" "length f \<le> 6"
  shows "parse_type_version (w @ CHR ''.'' # f) =
    Inr \<lparr>scaled = i64 (i64 (int (digits_val w) * version_scale) + int (digits_val f * 10 ^ (6 - length f)))\<rparr>"
proof -
  let ?t = "w @ CHR ''.'' # f"
  have hl: "is_digit (hd ?t)" "is_digit (last ?t)" "?t \<noteq> []"
    using w(1,2) f(1,2) by (auto simp: list_all_iff)
  have "parse_int (f @ replicate (6 - length f) (CHR ''0'')) = Some (int (digits_val f * 10 ^ (6 - length f)))"
    using f pow10_bound [of "f @ replicate (6 - length f) (CHR ''0'')"]
    by (subst parse_int_digits) (auto simp: digits_val_append_zeros)
  moreover have "trim_space ?t = ?t" using hl by (simp add: trim_space_digits del: append_is_Nil_conv)
  moreover have "\<not> is_prefix ''-'' ?t" using hl by (simp add: digit_not_minus_prefix del: append_is_Nil_conv)
  ultimately show ?thesis using w f
    by (simp add: parse_type_version_def cut_point_pointed parse_int_digits)
qed

lemma trim_right_zeros_split: "\<exists>k. s = trim_right_zeros s @ replicate k (CHR ''0'')"
proof -
  let ?k = "length (takeWhile (\<lambda>c. c = CHR ''0'') (rev s))"
  have "takeWhile (\<lambda>c. c = CHR ''0'') (rev s) = replicate ?k (CHR ''0'')"
    by (rule replicate_eqI) (auto dest: set_takeWhileD)
  then have "rev s = replicate ?k (CHR ''0'') @ dropWhile (\<lambda>c. c = CHR ''0'') (rev s)"
    by (metis takeWhile_dropWhile_id)
  then have "rev (rev s) = trim_right_zeros s @ replicate ?k (CHR ''0'')"
    unfolding trim_right_zeros_def by (metis rev_append rev_replicate)
  then show ?thesis by auto
qed

lemma zero_padded_6:
  assumes "0 \<le> x" "x < 1000000"
  shows "list_all is_digit (zero_padded 6 x)" "length (zero_padded 6 x) = 6"
    "int (digits_val (zero_padded 6 x)) = x"
proof -
  have "length (dec_nat (nat x)) \<le> 6" using assms by (intro dec_nat_length_le) auto
  with assms show "length (zero_padded 6 x) = 6" by (simp add: zero_padded_def Let_def)
  show "list_all is_digit (zero_padded 6 x)" using assms dec_nat_digits by (simp add: zero_padded_def Let_def)
  show "int (digits_val (zero_padded 6 x)) = x"
    using assms by (simp add: zero_padded_def Let_def digits_val_zeros)
qed

lemma go_quot_rem_nonneg:
  "0 \<le> x \<Longrightarrow> go_quot x version_scale = x div 1000000 \<and> go_rem x version_scale = x mod 1000000"
  by (simp add: go_quot_def go_rem_def version_scale_def minus_mult_div_eq_mod)

lemma trimmed_fraction:
  assumes "0 < x" "x < 1000000"
  defines "t \<equiv> trim_right_zeros (zero_padded 6 x)"
  shows "t \<noteq> []" "list_all is_digit t" "length t \<le> 6" "int (digits_val t * 10 ^ (6 - length t)) = x"
proof -
  obtain k where k: "zero_padded 6 x = t @ replicate k (CHR ''0'')"
    using trim_right_zeros_split t_def by blast
  note z = zero_padded_6 [of x]
  have len: "length t + k = 6"
    using arg_cong [OF k, of length] z(2) assms(1,2) by simp
  then show "length t \<le> 6" by simp
  from len have k6: "6 - length t = k" by simp
  have "list_all is_digit (t @ replicate k (CHR ''0''))"
    unfolding k [symmetric] using z(1) assms(1,2) by simp
  then show "list_all is_digit t" by (simp only: list_all_append)
  show val: "int (digits_val t * 10 ^ (6 - length t)) = x"
    unfolding k6 digits_val_append_zeros [symmetric] k [symmetric] using z(3) assms(1,2) by simp
  show "t \<noteq> []" using val assms(1) by auto
qed

text \<open>Rendering a version and reading it back gives the version.\<close>

lemma parse_version_string:
  assumes "0 \<le> scaled v" "fits_i64 (scaled v)"
  shows "parse_type_version (version_string v) = Inr \<lparr>scaled = scaled v\<rparr>"
proof -
  define q r where "q = scaled v div 1000000" and "r = scaled v mod 1000000"
  have qr: "scaled v = q * 1000000 + r" "0 \<le> r" "r < 1000000" "0 \<le> q"
    using assms(1) by (auto simp: q_def r_def pos_imp_zdiv_nonneg_iff)
  have q: "itoa q = dec_nat (nat q)" "int (digits_val (dec_nat (nat q))) = q" "q < 2 ^ 63"
    using qr assms(2) by (auto simp: itoa_def fits_i64_def)
  have qfit: "fits_i64 (q * 1000000)" using qr assms(2) by (simp add: fits_i64_def)
  have gq: "go_quot (scaled v) version_scale = q" "go_rem (scaled v) version_scale = r"
    using go_quot_rem_nonneg [OF assms(1)] by (simp_all add: q_def r_def)
  show ?thesis
  proof (cases "r = 0")
    case True
    with gq q qr qfit show ?thesis
      by (simp add: version_string_def parse_type_version_whole dec_nat_digits version_scale_def)
  next
    case False
    with qr have "0 < r" by simp
    note t = trimmed_fraction [OF this qr(3)]
    have "version_string v = dec_nat (nat q) @ CHR ''.'' # trim_right_zeros (zero_padded 6 r)"
      using False gq q by (simp add: version_string_def)
    then show ?thesis
      using parse_type_version_pointed [of "dec_nat (nat q)", OF _ dec_nat_digits _ t(1-3)] q t(4) qfit qr assms(2)
      by (simp add: version_scale_def)
  qed
qed

text \<open>The value the text of a decimal means: the part after the point is a decimal fraction.\<close>

definition decimal_value :: "string \<Rightarrow> string \<Rightarrow> rat" where
  "decimal_value w f = of_nat (digits_val w) + of_nat (digits_val f) / 10 ^ length f"

lemma scaled_decimal:
  assumes "length f \<le> 6"
  shows "rat_of_int (int (digits_val w) * 1000000 + int (digits_val f * 10 ^ (6 - length f))) / 1000000
    = decimal_value w f"
proof -
  have "(10::rat) ^ 6 = 10 ^ length f * 10 ^ (6 - length f)"
    using assms by (metis le_add_diff_inverse power_add)
  then have "of_nat (digits_val f) * (10::rat) ^ (6 - length f) / 10 ^ 6 = of_nat (digits_val f) / 10 ^ length f"
    by (simp add: field_simps)
  then show ?thesis by (simp add: decimal_value_def add_divide_distrib)
qed

end
