(* ===== verification/Tags.thy ===== *)
theory Tags
  imports Prelude
begin

text \<open>
  Workflow tags (\<open>internal/workflow/tags.go\<close>) and the part of Go's \<open>unicode/utf8\<close>,
  \<open>unicode/utf16\<close> and \<open>unicode\<close> packages they read text with: decoding a string into runes
  (an invalid byte is the replacement rune of width 1), encoding, the UTF-16 length, and the
  checks on one tag and on a document's tag list. \<open>unicode.ToLower\<close>'s table is the parameter
  \<open>lower\<close>.
\<close>

subsection \<open>UTF-8\<close>

definition rune_error :: nat where
  "rune_error = 0xFFFD"

definition continuation :: "nat \<Rightarrow> bool" where
  "continuation b \<longleftrightarrow> 0x80 \<le> b \<and> b \<le> 0xBF"

definition second_range :: "nat \<Rightarrow> nat \<times> nat" where
  "second_range b0 =
     (if b0 = 0xE0 then (0xA0, 0xBF) else if b0 = 0xED then (0x80, 0x9F)
      else if b0 = 0xF0 then (0x90, 0xBF) else if b0 = 0xF4 then (0x80, 0x8F) else (0x80, 0xBF))"

definition second_ok :: "nat \<Rightarrow> nat \<Rightarrow> bool" where
  "second_ok b0 b1 \<longleftrightarrow> fst (second_range b0) \<le> b1 \<and> b1 \<le> snd (second_range b0)"

text \<open>The first rune of some bytes and its width.\<close>

definition decode_rune :: "nat list \<Rightarrow> nat \<times> nat" where
  "decode_rune bs =
     (case bs of
        [] \<Rightarrow> (rune_error, 0)
      | b0 # r \<Rightarrow>
          if b0 < 0x80 then (b0, 1)
          else if 0xC2 \<le> b0 \<and> b0 \<le> 0xDF then
            (case r of
               b1 # _ \<Rightarrow> if second_ok b0 b1 then ((b0 - 0xC0) * 64 + (b1 - 0x80), 2) else (rune_error, 1)
             | [] \<Rightarrow> (rune_error, 1))
          else if 0xE0 \<le> b0 \<and> b0 \<le> 0xEF then
            (case r of
               b1 # b2 # _ \<Rightarrow>
                 if second_ok b0 b1 \<and> continuation b2
                 then ((b0 - 0xE0) * 4096 + (b1 - 0x80) * 64 + (b2 - 0x80), 3) else (rune_error, 1)
             | _ \<Rightarrow> (rune_error, 1))
          else if 0xF0 \<le> b0 \<and> b0 \<le> 0xF4 then
            (case r of
               b1 # b2 # b3 # _ \<Rightarrow>
                 if second_ok b0 b1 \<and> continuation b2 \<and> continuation b3
                 then ((b0 - 0xF0) * 262144 + (b1 - 0x80) * 4096 + (b2 - 0x80) * 64 + (b3 - 0x80), 4)
                 else (rune_error, 1)
             | _ \<Rightarrow> (rune_error, 1))
          else (rune_error, 1))"

lemma decode_rune_width: "bs \<noteq> [] \<Longrightarrow> 1 \<le> snd (decode_rune bs) \<and> snd (decode_rune bs) \<le> length bs"
  by (auto simp: decode_rune_def split: list.splits)

function decode_runes :: "nat list \<Rightarrow> (nat \<times> nat) list" where
  "decode_runes bs =
     (if bs = [] then []
      else decode_rune bs # decode_runes (drop (snd (decode_rune bs)) bs))"
  by pat_completeness auto
termination
proof (relation "measure length", goal_cases)
  case (2 bs)
  then show ?case using decode_rune_width [of bs] by simp
qed simp

declare decode_runes.simps [simp del]

definition bytes_of :: "string \<Rightarrow> nat list" where
  "bytes_of s = map of_char s"

definition runes :: "string \<Rightarrow> nat list" where
  "runes s = map fst (decode_runes (bytes_of s))"

definition rune_count :: "string \<Rightarrow> nat" where
  "rune_count s = length (runes s)"

definition valid_utf8 :: "string \<Rightarrow> bool" where
  "valid_utf8 s \<longleftrightarrow> (rune_error, 1) \<notin> set (decode_runes (bytes_of s))"

definition scalar_value :: "nat \<Rightarrow> bool" where
  "scalar_value r \<longleftrightarrow> r < 0xD800 \<or> (0xDFFF < r \<and> r \<le> 0x10FFFF)"

definition encode_rune :: "nat \<Rightarrow> nat list" where
  "encode_rune r0 =
     (let r = (if scalar_value r0 then r0 else rune_error) in
      if r < 0x80 then [r]
      else if r < 0x800 then [0xC0 + r div 64, 0x80 + r mod 64]
      else if r < 0x10000 then [0xE0 + r div 4096, 0x80 + r div 64 mod 64, 0x80 + r mod 64]
      else [0xF0 + r div 262144, 0x80 + r div 4096 mod 64, 0x80 + r div 64 mod 64, 0x80 + r mod 64])"

definition utf16_length :: "string \<Rightarrow> nat" where
  "utf16_length s = sum_list (map (\<lambda>r. if 0xFFFF < r then 2 else 1) (runes s))"

lemma base64_digits:
  fixes r :: nat
  shows "r div 4096 * 4096 + r div 64 mod 64 * 64 + r mod 64 = r"
    and "r div 262144 * 262144 + r div 4096 mod 64 * 4096 + r div 64 mod 64 * 64 + r mod 64 = r"
proof -
  define a b c where "a = r div 64" and "b = a div 64" and "c = b div 64"
  have "r div 4096 = b" "r div 262144 = c"
    using div_mult2_eq [of r 64 64] div_mult2_eq [of r 64 4096] div_mult2_eq [of a 64 64]
    by (simp_all add: a_def b_def c_def)
  moreover have "r = a * 64 + r mod 64" "a = b * 64 + a mod 64" "b = c * 64 + b mod 64"
    by (simp_all add: a_def b_def c_def)
  ultimately show "r div 4096 * 4096 + r div 64 mod 64 * 64 + r mod 64 = r"
    and "r div 262144 * 262144 + r div 4096 mod 64 * 4096 + r div 64 mod 64 * 64 + r mod 64 = r"
    by (simp_all add: a_def [symmetric])
qed

lemma continuation_mod [simp]: "continuation (128 + n mod 64)"
  using mod_less_divisor [of 64 n] by (simp add: continuation_def del: mod_less_divisor)

lemma decode_encode_rune:
  assumes "scalar_value r"
  shows "decode_rune (encode_rune r @ rest) = (r, length (encode_rune r))"
proof -
  have m: "n mod 64 < 64" for n :: nat by simp
  have "r \<le> 0x10FFFF" using assms by (auto simp: scalar_value_def)
  then consider "r < 0x80" | "0x80 \<le> r" "r < 0x800" | "0x800 \<le> r" "r < 0x10000" | "0x10000 \<le> r" "r \<le> 0x10FFFF"
    by (cases "r < 0x80"; cases "r < 0x800"; cases "r < 0x10000"; simp)
  then show ?thesis
  proof cases
    case 1
    then show ?thesis using assms by (simp add: encode_rune_def decode_rune_def)
  next
    case 2
    then have q: "2 \<le> r div 64" "r div 64 \<le> 31" by auto
    have "second_ok (0xC0 + r div 64) (0x80 + r mod 64)"
      using q m [of r] by (simp add: second_ok_def second_range_def)
    with q show ?thesis using assms 2 by (simp add: encode_rune_def decode_rune_def)
  next
    case 3
    note d = base64_digits(1) [of r]
    from 3 have q: "r div 4096 \<le> 15" by auto
    have "r div 4096 = 0 \<Longrightarrow> 32 \<le> r div 64 mod 64" "r div 4096 = 13 \<Longrightarrow> r div 64 mod 64 < 32"
      using d m [of r] m [of "r div 64"] 3 assms by (auto simp: scalar_value_def)
    then have "second_ok (0xE0 + r div 4096) (0x80 + r div 64 mod 64)"
      using m [of "r div 64"] q unfolding second_ok_def second_range_def by auto
    with q d show ?thesis using assms 3 by (simp add: encode_rune_def decode_rune_def)
  next
    case 4
    note d = base64_digits(2) [of r]
    from 4 have q: "r div 262144 \<le> 4" by auto
    have "r div 262144 = 0 \<Longrightarrow> 16 \<le> r div 4096 mod 64" "r div 262144 = 4 \<Longrightarrow> r div 4096 mod 64 < 16"
      using d m [of r] m [of "r div 64"] m [of "r div 4096"] 4 by auto
    then have "second_ok (0xF0 + r div 262144) (0x80 + r div 4096 mod 64)"
      using m [of "r div 4096"] q unfolding second_ok_def second_range_def by auto
    with q d show ?thesis using assms 4 by (simp add: encode_rune_def decode_rune_def)
  qed
qed

lemma encode_rune_not_Nil [simp]: "encode_rune r \<noteq> []"
  by (simp add: encode_rune_def Let_def)

lemma decode_runes_encode:
  "list_all scalar_value rs \<Longrightarrow> map fst (decode_runes (concat (map encode_rune rs))) = rs"
proof (induction rs)
  case Nil
  then show ?case by (simp add: decode_runes.simps)
next
  case (Cons r rs)
  then show ?case
    by (subst decode_runes.simps) (simp add: decode_encode_rune)
qed

lemma encode_rune_byte: "b \<in> set (encode_rune r) \<Longrightarrow> b < 256"
proof -
  have "r div 64 < 64" if "r < 0x800" using that by auto
  moreover have "r div 4096 < 16" if "r < 0x10000" using that by auto
  moreover have "r div 262144 < 5" if "r \<le> 0x10FFFF" using that by auto
  ultimately show "b \<in> set (encode_rune r) \<Longrightarrow> b < 256"
    by (auto simp: encode_rune_def rune_error_def scalar_value_def Let_def split: if_splits)
qed

subsection \<open>One tag\<close>

definition max_tags :: nat where "max_tags = 20"
definition max_tag_length :: nat where "max_tag_length = 24"

definition encode_runes :: "nat list \<Rightarrow> string" where
  "encode_runes rs = map char_of (concat (map encode_rune rs))"

lemma runes_ascii: "list_all (\<lambda>c. of_char c < (128 :: nat)) s \<Longrightarrow> runes s = map of_char s"
  by (induction s) (simp_all add: runes_def bytes_of_def decode_runes.simps decode_rune_def)

lemma encode_ascii: "list_all (\<lambda>r. r < 128) rs \<Longrightarrow> encode_runes rs = map char_of rs"
proof -
  assume "list_all (\<lambda>r. r < 128) rs"
  then have "concat (map encode_rune rs) = rs"
    by (induction rs) (simp_all add: encode_rune_def scalar_value_def)
  then show "encode_runes rs = map char_of rs" by (simp add: encode_runes_def)
qed

lemma respell_ascii: "list_all (\<lambda>c. of_char c < (128 :: nat)) s \<Longrightarrow> encode_runes (runes s) = s"
  by (simp add: runes_ascii encode_ascii list.pred_map comp_def)

text \<open>\<open>strings.ToLower\<close> maps every rune; \<open>lower\<close> is \<open>unicode.ToLower\<close>.\<close>

definition tag_key :: "(nat \<Rightarrow> nat) \<Rightarrow> string \<Rightarrow> string" where
  "tag_key lower tag = encode_runes (map lower (runes tag))"

datatype tag_problem = TagEmpty | TagNotUtf8 | TagSpaceEnds | TagComma | TagControl | TagTooLong

definition is_control :: "nat \<Rightarrow> bool" where
  "is_control r \<longleftrightarrow> r < 0x20 \<or> (0x7F \<le> r \<and> r < 0xA0)"

definition rune_problem :: "nat \<Rightarrow> tag_problem option" where
  "rune_problem r =
     (if r = 0x2C then Some TagComma
      else if is_control r \<or> r = 0x2028 \<or> r = 0x2029 then Some TagControl
      else None)"

fun first_rune_problem :: "nat list \<Rightarrow> tag_problem option" where
  "first_rune_problem [] = None"
| "first_rune_problem (r # rs) =
     (case rune_problem r of Some p \<Rightarrow> Some p | None \<Rightarrow> first_rune_problem rs)"

definition check_tag :: "string \<Rightarrow> tag_problem option" where
  "check_tag tag =
     (if tag = [] then Some TagEmpty
      else if \<not> valid_utf8 tag then Some TagNotUtf8
      else if trim_space tag \<noteq> tag then Some TagSpaceEnds
      else case first_rune_problem (runes tag) of
             Some p \<Rightarrow> Some p
           | None \<Rightarrow> if utf16_length tag > max_tag_length then Some TagTooLong else None)"

lemma first_rune_problem_None:
  "first_rune_problem rs = None \<longleftrightarrow> (\<forall>r \<in> set rs. rune_problem r = None)"
  by (induction rs) (auto split: option.splits)

text \<open>What an accepted tag is, independently of the order of the checks.\<close>

definition storable_tag :: "string \<Rightarrow> bool" where
  "storable_tag tag \<longleftrightarrow>
     tag \<noteq> [] \<and> valid_utf8 tag \<and> no_space_ends tag \<and>
     (\<forall>r \<in> set (runes tag). r \<noteq> 0x2C \<and> \<not> is_control r \<and> r \<noteq> 0x2028 \<and> r \<noteq> 0x2029) \<and>
     utf16_length tag \<le> max_tag_length"

lemma check_tag_None_iff: "check_tag tag = None \<longleftrightarrow> storable_tag tag"
proof -
  have rp: "rune_problem r = None \<longleftrightarrow> r \<noteq> 0x2C \<and> \<not> is_control r \<and> r \<noteq> 0x2028 \<and> r \<noteq> 0x2029" for r
    by (auto simp: rune_problem_def)
  have "first_rune_problem (runes tag) = None \<longleftrightarrow>
      (\<forall>r \<in> set (runes tag). r \<noteq> 0x2C \<and> \<not> is_control r \<and> r \<noteq> 0x2028 \<and> r \<noteq> 0x2029)"
    by (simp add: first_rune_problem_None rp)
  then show ?thesis
    by (cases "first_rune_problem (runes tag)")
       (auto simp: check_tag_def storable_tag_def trim_space_eq_iff)
qed

lemma rune_count_le_utf16: "rune_count tag \<le> utf16_length tag"
proof -
  have "length rs \<le> sum_list (map (\<lambda>r. if 0xFFFF < r then 2 else 1) rs)" for rs :: "nat list"
    by (induction rs) auto
  then show ?thesis by (simp add: rune_count_def utf16_length_def)
qed

subsection \<open>A document's tags\<close>

datatype tags_error =
    TooManyTags nat
  | BadTag string tag_problem
  | DuplicateTag string string

text \<open>\<open>seen\<close> maps the key of each tag met so far to that tag.\<close>

fun check_tags :: "(nat \<Rightarrow> nat) \<Rightarrow> (string \<times> string) list \<Rightarrow> string list \<Rightarrow> tags_error option" where
  "check_tags lower seen [] = None"
| "check_tags lower seen (tag # tags) =
     (case check_tag tag of
        Some p \<Rightarrow> Some (BadTag tag p)
      | None \<Rightarrow>
          (case aget seen (tag_key lower tag) of
             Some first \<Rightarrow> Some (DuplicateTag tag first)
           | None \<Rightarrow> check_tags lower ((tag_key lower tag, tag) # seen) tags))"

definition validate_tags :: "(nat \<Rightarrow> nat) \<Rightarrow> string list \<Rightarrow> tags_error option" where
  "validate_tags lower tags =
     (if length tags > max_tags then Some (TooManyTags (length tags)) else check_tags lower [] tags)"

lemma check_tags_None_iff:
  "check_tags lower seen tags = None \<longleftrightarrow>
     list_all storable_tag tags \<and> distinct (map (tag_key lower) tags) \<and>
     set (map (tag_key lower) tags) \<inter> fst ` set seen = {}"
proof (induction tags arbitrary: seen)
  case (Cons tag tags)
  show ?case
    by (simp add: Cons.IH check_tag_None_iff [symmetric] del: not_None_eq split: option.split)
       (auto simp: aget_None_iff dest: aget_key)
qed simp

lemma validate_tags_None_iff:
  "validate_tags lower tags = None \<longleftrightarrow>
     length tags \<le> max_tags \<and> list_all storable_tag tags \<and> distinct (map (tag_key lower) tags)"
  by (simp add: validate_tags_def check_tags_None_iff not_less)

lemma check_tags_dup_sound:
  "check_tags lower seen tags = Some (DuplicateTag tag first) \<Longrightarrow>
     (\<forall>(k, t) \<in> set seen. k = tag_key lower t) \<Longrightarrow> tag_key lower tag = tag_key lower first"
proof (induction tags arbitrary: seen)
  case (Cons t tags)
  then show ?case
    by (cases "aget seen (tag_key lower t)") (auto split: option.splits dest!: aget_in)
qed simp

end
