(* ===== verification/Document.thy ===== *)
theory Document
  imports Type_Version Tags
begin

text \<open>
  The canonical workflow document (\<open>internal/workflow/document.go\<close>): JSON values, items and
  their lineage stamps, nodes, connections, the structural check of the raw JSON
  (\<open>validateJSONSchemaShape\<close>) and the check of a draft (\<open>ValidateDraft\<close>).

  A JSON number is the \<open>float64\<close> that \<open>encoding/json\<close> decodes; every such value is a rational
  and the program only compares and truncates them, so \<open>rat\<close> loses nothing. A JSON object is
  an association list with distinct keys; reading a missing key gives \<open>JNull\<close>, as indexing a
  Go \<open>map[string]any\<close> gives \<open>nil\<close>. Values are immutable here, so the source's deep copies
  (\<open>cloneItems\<close> and its kin) are identities.
\<close>

subsection \<open>Values\<close>

datatype jval =
    JNull
  | JBool bool
  | JNum rat
  | JStr string
  | JArr "jval list"
  | JObj "(string \<times> jval) list"

type_synonym jobject = "(string \<times> jval) list"

definition jget :: "jobject \<Rightarrow> string \<Rightarrow> jval" where
  "jget m k = (case aget m k of None \<Rightarrow> JNull | Some v \<Rightarrow> v)"

lemma jget_aput [simp]: "jget (aput k v m) k' = (if k' = k then v else jget m k')"
  by (simp add: jget_def)

subsection \<open>Connection kinds\<close>

type_synonym connection_kind = string

definition connection_main :: connection_kind where "connection_main = ''main''"
definition connection_tool :: connection_kind where "connection_tool = ''ai_tool''"

definition connection_kinds :: "connection_kind list" where
  "connection_kinds =
     [connection_main,
      ''ai_agent'', ''ai_chain'', ''ai_document'', ''ai_embedding'',
      ''ai_languageModel'', ''ai_memory'', ''ai_outputParser'',
      ''ai_retriever'', ''ai_reranker'', ''ai_textSplitter'',
      connection_tool, ''ai_vectorStore'']"

definition known_connection_kind :: "connection_kind \<Rightarrow> bool" where
  "known_connection_kind kind \<longleftrightarrow> list_ex (\<lambda>known. kind = known) connection_kinds"

subsection \<open>Items\<close>

record binary_ref =
  bin_id :: string
  file_name :: string
  media_type :: string
  bin_size :: int

text \<open>A lineage stamp. A fan-out's items carry the origin they were made from as \<open>parent\<close>.\<close>

datatype paired_item =
  PairedItem
    (source_node_id: string) (source_port: string) (pi_run_index: int) (item_index: int)
    (lost: bool) (parent: "paired_item option")

record item =
  item_json :: jobject
  item_binary :: "(string \<times> binary_ref) list"
  item_paired :: "paired_item option"

type_synonym node_input = "string \<Rightarrow> item list"
type_synonym node_output = "item list list"

subsection \<open>The document\<close>

record position =
  pos_x :: rat
  pos_y :: rat

record node =
  node_id :: string
  node_name :: string
  node_type :: string
  node_type_version :: type_version
  node_position :: position
  node_parameters :: jobject
  node_credentials :: "(string \<times> string) list"
  node_settings :: jobject
  node_disabled :: bool

record endpoint =
  end_node :: string
  end_port :: string

record connection =
  conn_id :: string
  conn_kind :: connection_kind
  conn_source :: endpoint
  conn_target :: endpoint

text \<open>\<open>None\<close> is the \<open>nil\<close> slice or map that a missing field leaves.\<close>

record document =
  schema_version :: int
  doc_id :: string
  doc_name :: string
  doc_nodes :: "node list option"
  doc_connections :: "connection list option"
  doc_settings :: "jobject option"
  doc_tags :: "string list"
  pin_data :: "(string \<times> item list option) list"

definition nodes_of :: "document \<Rightarrow> node list" where
  "nodes_of d = (case doc_nodes d of None \<Rightarrow> [] | Some ns \<Rightarrow> ns)"

definition connections_of :: "document \<Rightarrow> connection list" where
  "connections_of d = (case doc_connections d of None \<Rightarrow> [] | Some cs \<Rightarrow> cs)"

definition settings_of :: "document \<Rightarrow> jobject" where
  "settings_of d = (case doc_settings d of None \<Rightarrow> [] | Some m \<Rightarrow> m)"

definition current_schema_version :: int where
  "current_schema_version = 1"

subsection \<open>The raw JSON's required fields\<close>

datatype shape_error =
    NotObject string
  | NotArray string
  | MissingField string string

text \<open>A field holds the parsed value of its raw message.\<close>

definition raw_object :: "string \<Rightarrow> jval \<Rightarrow> shape_error + jobject" where
  "raw_object name v = (case v of JObj m \<Rightarrow> Inr m | _ \<Rightarrow> Inl (NotObject name))"

definition raw_array :: "string \<Rightarrow> jval \<Rightarrow> shape_error + jval list" where
  "raw_array name v = (case v of JArr vs \<Rightarrow> Inr vs | _ \<Rightarrow> Inl (NotArray name))"

fun require_fields :: "jobject \<Rightarrow> string \<Rightarrow> string list \<Rightarrow> shape_error option" where
  "require_fields m name [] = None"
| "require_fields m name (f # fs) =
     (if jget m f = JNull then Some (MissingField f name) else require_fields m name fs)"

fun optional_objects :: "jobject \<Rightarrow> string \<Rightarrow> string list \<Rightarrow> shape_error option" where
  "optional_objects m name [] = None"
| "optional_objects m name (f # fs) =
     (case aget m f of
        None \<Rightarrow> optional_objects m name fs
      | Some v \<Rightarrow>
          (case raw_object (name @ '' '' @ f) v of
             Inl e \<Rightarrow> Some e
           | Inr _ \<Rightarrow> optional_objects m name fs))"

definition node_shape :: "nat \<Rightarrow> jval \<Rightarrow> shape_error option" where
  "node_shape index v =
     (let name = ''workflow node '' @ itoa (int index) in
      case raw_object name v of
        Inl e \<Rightarrow> Some e
      | Inr m \<Rightarrow>
          (case require_fields m name [''id'', ''name'', ''type'', ''typeVersion'', ''position''] of
             Some e \<Rightarrow> Some e
           | None \<Rightarrow>
               (case raw_object (name @ '' position'') (jget m ''position'') of
                  Inl e \<Rightarrow> Some e
                | Inr p \<Rightarrow>
                    (case require_fields p (name @ '' position'') [''x'', ''y''] of
                       Some e \<Rightarrow> Some e
                     | None \<Rightarrow> optional_objects m name [''parameters'', ''credentials'', ''settings'']))))"

fun endpoint_shapes :: "jobject \<Rightarrow> string \<Rightarrow> string list \<Rightarrow> shape_error option" where
  "endpoint_shapes m name [] = None"
| "endpoint_shapes m name (f # fs) =
     (case raw_object (name @ '' '' @ f) (jget m f) of
        Inl e \<Rightarrow> Some e
      | Inr p \<Rightarrow>
          (case require_fields p (name @ '' '' @ f) [''nodeId'', ''port''] of
             Some e \<Rightarrow> Some e
           | None \<Rightarrow> endpoint_shapes m name fs))"

definition connection_shape :: "nat \<Rightarrow> jval \<Rightarrow> shape_error option" where
  "connection_shape index v =
     (let name = ''workflow connection '' @ itoa (int index) in
      case raw_object name v of
        Inl e \<Rightarrow> Some e
      | Inr m \<Rightarrow>
          (case require_fields m name [''id'', ''kind'', ''source'', ''target''] of
             Some e \<Rightarrow> Some e
           | None \<Rightarrow> endpoint_shapes m name [''source'', ''target'']))"

fun first_error :: "('a \<Rightarrow> 'e option) \<Rightarrow> 'a list \<Rightarrow> 'e option" where
  "first_error f [] = None"
| "first_error f (x # xs) = (case f x of Some e \<Rightarrow> Some e | None \<Rightarrow> first_error f xs)"

definition validate_json_schema_shape :: "jval \<Rightarrow> shape_error option" where
  "validate_json_schema_shape v =
     (let name = ''workflow document'' in
      case raw_object name v of
        Inl e \<Rightarrow> Some e
      | Inr m \<Rightarrow>
          (case require_fields m name
                  [''schemaVersion'', ''id'', ''name'', ''nodes'', ''connections'', ''settings''] of
             Some e \<Rightarrow> Some e
           | None \<Rightarrow>
               (case raw_array (name @ '' nodes'') (jget m ''nodes'') of
                  Inl e \<Rightarrow> Some e
                | Inr nodes \<Rightarrow>
                    (case raw_array (name @ '' connections'') (jget m ''connections'') of
                       Inl e \<Rightarrow> Some e
                     | Inr conns \<Rightarrow>
                         (case raw_object (name @ '' settings'') (jget m ''settings'') of
                            Inl e \<Rightarrow> Some e
                          | Inr _ \<Rightarrow>
                              (case first_error (\<lambda>(i, n). node_shape i n) (indexed nodes) of
                                 Some e \<Rightarrow> Some e
                               | None \<Rightarrow> first_error (\<lambda>(i, c). connection_shape i c) (indexed conns)))))))"

subsection \<open>The draft check\<close>

datatype draft_error =
    SchemaVersionUnsupported int
  | IdRequired
  | NameRequired
  | NameTooLong
  | PartsRequired
  | TagsRefused tags_error
  | NodeIdRequired
  | NodeNameRequired string
  | NodeIdDuplicated string
  | NodeTypeRequired string
  | CredentialReferenceRequired string string
  | ConnectionIdRequired
  | ConnectionIdDuplicated string
  | ConnectionKindInvalid string
  | EndpointsRequired string

fun check_credentials :: "string \<Rightarrow> (string \<times> string) list \<Rightarrow> draft_error option" where
  "check_credentials nid [] = None"
| "check_credentials nid ((name, ref) # cs) =
     (if ref = [] then Some (CredentialReferenceRequired nid name) else check_credentials nid cs)"

fun check_nodes :: "string list \<Rightarrow> node list \<Rightarrow> draft_error option" where
  "check_nodes seen [] = None"
| "check_nodes seen (n # ns) =
     (if node_id n = [] then Some NodeIdRequired
      else if node_name n = [] then Some (NodeNameRequired (node_id n))
      else if node_id n \<in> set seen then Some (NodeIdDuplicated (node_id n))
      else if node_type n = [] then Some (NodeTypeRequired (node_id n))
      else case check_credentials (node_id n) (node_credentials n) of
             Some e \<Rightarrow> Some e
           | None \<Rightarrow> check_nodes (node_id n # seen) ns)"

fun check_connections :: "string list \<Rightarrow> connection list \<Rightarrow> draft_error option" where
  "check_connections seen [] = None"
| "check_connections seen (c # cs) =
     (if conn_id c = [] then Some ConnectionIdRequired
      else if conn_id c \<in> set seen then Some (ConnectionIdDuplicated (conn_id c))
      else if \<not> known_connection_kind (conn_kind c) then Some (ConnectionKindInvalid (conn_id c))
      else if end_node (conn_source c) = [] \<or> end_port (conn_source c) = []
           \<or> end_node (conn_target c) = [] \<or> end_port (conn_target c) = []
           then Some (EndpointsRequired (conn_id c))
      else check_connections (conn_id c # seen) cs)"

definition validate_draft :: "(nat \<Rightarrow> nat) \<Rightarrow> document \<Rightarrow> draft_error option" where
  "validate_draft lower d =
     (if schema_version d \<noteq> current_schema_version then Some (SchemaVersionUnsupported (schema_version d))
      else if doc_id d = [] then Some IdRequired
      else if doc_name d = [] then Some NameRequired
      else if rune_count (doc_name d) > 255 then Some NameTooLong
      else if doc_nodes d = None \<or> doc_connections d = None \<or> doc_settings d = None then Some PartsRequired
      else case validate_tags lower (doc_tags d) of
             Some e \<Rightarrow> Some (TagsRefused e)
           | None \<Rightarrow>
               (case check_nodes [] (nodes_of d) of
                  Some e \<Rightarrow> Some e
                | None \<Rightarrow> check_connections [] (connections_of d)))"

definition validate_draft_with_server_id :: "(nat \<Rightarrow> nat) \<Rightarrow> document \<Rightarrow> draft_error option" where
  "validate_draft_with_server_id lower d = validate_draft lower (d\<lparr>doc_id := ''workflow-server-assigned''\<rparr>)"

subsection \<open>What a valid draft is\<close>

definition node_ok :: "node \<Rightarrow> bool" where
  "node_ok n \<longleftrightarrow> node_id n \<noteq> [] \<and> node_name n \<noteq> [] \<and> node_type n \<noteq> [] \<and>
     (\<forall>(name, ref) \<in> set (node_credentials n). ref \<noteq> [])"

definition connection_ok :: "connection \<Rightarrow> bool" where
  "connection_ok c \<longleftrightarrow> conn_id c \<noteq> [] \<and> known_connection_kind (conn_kind c) \<and>
     end_node (conn_source c) \<noteq> [] \<and> end_port (conn_source c) \<noteq> [] \<and>
     end_node (conn_target c) \<noteq> [] \<and> end_port (conn_target c) \<noteq> []"

definition draft_ok :: "(nat \<Rightarrow> nat) \<Rightarrow> document \<Rightarrow> bool" where
  "draft_ok lower d \<longleftrightarrow>
     schema_version d = current_schema_version \<and> doc_id d \<noteq> [] \<and> doc_name d \<noteq> [] \<and>
     rune_count (doc_name d) \<le> 255 \<and>
     doc_nodes d \<noteq> None \<and> doc_connections d \<noteq> None \<and> doc_settings d \<noteq> None \<and>
     validate_tags lower (doc_tags d) = None \<and>
     (\<forall>n \<in> set (nodes_of d). node_ok n) \<and> distinct (map node_id (nodes_of d)) \<and>
     (\<forall>c \<in> set (connections_of d). connection_ok c) \<and> distinct (map conn_id (connections_of d))"

lemma check_credentials_None: "check_credentials nid cs = None \<longleftrightarrow> (\<forall>(name, ref) \<in> set cs. ref \<noteq> [])"
  by (induction nid cs rule: check_credentials.induct) auto

lemma check_nodes_None:
  "check_nodes seen ns = None \<longleftrightarrow>
     (\<forall>n \<in> set ns. node_ok n) \<and> distinct (map node_id ns) \<and> node_id ` set ns \<inter> set seen = {}"
proof (induction ns arbitrary: seen)
  case (Cons n ns)
  show ?case
    by (cases "check_credentials (node_id n) (node_credentials n)")
       (use Cons.IH [of "node_id n # seen"] check_credentials_None [of "node_id n" "node_credentials n"]
        in \<open>auto simp: node_ok_def\<close>)
qed simp

lemma check_connections_None:
  "check_connections seen cs = None \<longleftrightarrow>
     (\<forall>c \<in> set cs. connection_ok c) \<and> distinct (map conn_id cs) \<and> conn_id ` set cs \<inter> set seen = {}"
proof (induction cs arbitrary: seen)
  case (Cons c cs)
  show ?case using Cons.IH [of "conn_id c # seen"] by (auto simp: connection_ok_def)
qed simp

lemma validate_draft_None: "validate_draft lower d = None \<longleftrightarrow> draft_ok lower d"
  by (cases "validate_tags lower (doc_tags d)"; cases "check_nodes [] (nodes_of d)")
     (use check_nodes_None [of "[]" "nodes_of d"] check_connections_None [of "[]" "connections_of d"]
      in \<open>auto simp: validate_draft_def draft_ok_def\<close>)

lemma first_error_None: "first_error f xs = None \<longleftrightarrow> (\<forall>x \<in> set xs. f x = None)"
  by (induction xs) (auto split: option.splits)

lemma require_fields_None: "require_fields m name fs = None \<longleftrightarrow> (\<forall>f \<in> set fs. jget m f \<noteq> JNull)"
  by (induction fs) auto

subsection \<open>Settings\<close>

text \<open>
  \<open>settingNumber\<close>, the same function in \<open>internal/workflow\<close> and \<open>internal/engine\<close>, and
  \<open>settingBool\<close>.
\<close>

definition setting_number :: "jval \<Rightarrow> rat option" where
  "setting_number v = (case v of JNum x \<Rightarrow> Some x | _ \<Rightarrow> None)"

definition setting_bool :: "jobject \<Rightarrow> string \<Rightarrow> bool" where
  "setting_bool settings key =
     (case jget settings key of
        JBool b \<Rightarrow> b
      | JStr s \<Rightarrow> s = ''true''
      | _ \<Rightarrow> False)"

end
