(* ===== verification/Catalog.thy ===== *)
theory Catalog
  imports Document
begin

text \<open>
  The node catalogue as the compiler sees it and the checks that read one node alone
  (\<open>internal/workflow/compiler.go\<close>, \<open>catalog_scope.go\<close>): ports, definitions,
  \<open>resolveDefinition\<close>, \<open>withErrorPort\<close>, \<open>undeclaredCredentials\<close>, \<open>validateSharedSettings\<close>,
  \<open>validateDocumentTimezone\<close>, \<open>NormalizeToolName\<close> and the copies a plan is made of.

  The record \<open>host\<close> collects what the code takes from outside this repository's text: the
  quoting of \<open>%q\<close>, the rendering of \<open>%g\<close>, the time zone database and the Unicode lower-case
  table. No property assumes anything of them.
\<close>

record host =
  h_quote :: "string \<Rightarrow> string"
  h_float :: "rat \<Rightarrow> string"
  h_zone :: "string \<Rightarrow> bool"
  h_lower :: "nat \<Rightarrow> nat"
  h_number :: "rat \<Rightarrow> rat"

subsection \<open>Ports and definitions\<close>

record port =
  port_name :: string
  port_kind :: connection_kind
  port_display :: string
  port_required :: bool
  max_connections :: int
  allowed_node_types :: "string list"

record node_definition =
  def_type :: string
  def_version :: type_version
  def_inputs :: "port list"
  def_outputs :: "port list"
  required_parameters :: "string list"
  required_for :: "(jobject \<Rightarrow> type_version \<Rightarrow> string list) option"
  ports_for :: "(jobject \<Rightarrow> type_version \<Rightarrow> port list \<times> port list) option"
  required_inputs_for :: "(jobject \<Rightarrow> type_version \<Rightarrow> string list) option"
  required_credentials :: "string list"
  credential_types :: "string list"
  executor_id :: string
  def_validate :: "(node \<Rightarrow> string option) option"
  webhook_path_parameter :: string
  loop_entry :: bool
  whole_batch :: bool
  error_as_message :: bool

text \<open>
  A catalogue; \<open>restricted\<close>, \<open>has_type\<close> and \<open>for_tenant\<close> are \<open>None\<close> for one that does not
  implement the optional interface.
\<close>

record catalog =
  cat_lookup :: "string \<Rightarrow> type_version \<Rightarrow> node_definition option"
  cat_has_type :: "(string \<Rightarrow> bool) option"
  cat_restricted :: "(string \<Rightarrow> bool) option"

record scoped_catalog = catalog +
  cat_for_tenant :: "(string \<Rightarrow> catalog) option"

definition catalog_for :: "scoped_catalog \<Rightarrow> string \<Rightarrow> catalog" where
  "catalog_for cat tenant =
     (case cat_for_tenant cat of
        Some scope \<Rightarrow> scope tenant
      | None \<Rightarrow> catalog.truncate cat)"

subsection \<open>Copies\<close>

fun clone_json :: "jval \<Rightarrow> jval" where
  "clone_json (JObj m) = JObj (map (\<lambda>(k, v). (k, clone_json v)) m)"
| "clone_json (JArr vs) = JArr (map clone_json vs)"
| "clone_json v = v"

definition clone_any_map :: "jobject \<Rightarrow> jobject" where
  "clone_any_map m = map (\<lambda>(k, v). (k, clone_json v)) m"

lemma clone_json_id [simp]: "clone_json v = v"
  by (induction v rule: clone_json.induct) (auto intro!: map_idI)

lemma clone_any_map_id [simp]: "clone_any_map m = m"
  by (simp add: clone_any_map_def)

text \<open>\<open>cloneNodeDefinition\<close> leaves \<open>WebhookPathParameter\<close> out.\<close>

definition clone_node_definition :: "node_definition \<Rightarrow> node_definition" where
  "clone_node_definition d = d\<lparr>webhook_path_parameter := []\<rparr>"

text \<open>\<open>None\<close>: nothing is pinned. \<open>Some []\<close>: pinned at no items.\<close>

definition pinned_items :: "(string \<times> item list option) list \<Rightarrow> node \<Rightarrow> item list option" where
  "pinned_items pins n = (case aget pins (node_name n) of None \<Rightarrow> None | Some items \<Rightarrow> items)"

subsection \<open>The error port\<close>

definition on_error_stop :: string where "on_error_stop = ''stopWorkflow''"
definition on_error_continue_regular :: string where "on_error_continue_regular = ''continueRegularOutput''"
definition on_error_continue_branch :: string where "on_error_continue_branch = ''continueErrorOutput''"
definition error_port_name :: string where "error_port_name = ''error''"

definition known_on_error :: "string \<Rightarrow> bool" where
  "known_on_error mode \<longleftrightarrow> mode = on_error_stop \<or> mode = on_error_continue_regular \<or> mode = on_error_continue_branch"

definition error_port :: port where
  "error_port = \<lparr>port_name = error_port_name, port_kind = connection_main, port_display = ''Error'',
     port_required = False, max_connections = 0, allowed_node_types = []\<rparr>"

definition with_error_port :: "node_definition \<Rightarrow> jobject \<Rightarrow> node_definition" where
  "with_error_port d settings =
     (if jget settings ''onError'' \<noteq> JStr on_error_continue_branch then d
      else if list_ex (\<lambda>p. port_name p = error_port_name) (def_outputs d) then d
      else d\<lparr>def_outputs := def_outputs d @ [error_port]\<rparr>)"

lemma with_error_port_idem [simp]:
  "with_error_port (with_error_port d settings) settings = with_error_port d settings"
  by (simp add: with_error_port_def error_port_def)

lemma with_error_port_declares:
  "jget settings ''onError'' = JStr on_error_continue_branch \<Longrightarrow>
   \<exists>p \<in> set (def_outputs (with_error_port d settings)). port_name p = error_port_name"
  by (auto simp: with_error_port_def error_port_def list_ex_iff)

text \<open>Ports already declared keep their index.\<close>

lemma with_error_port_extends:
  "\<exists>extra. def_outputs (with_error_port d settings) = def_outputs d @ extra \<and> length extra \<le> 1"
  by (auto simp: with_error_port_def)

definition resolve_definition :: "catalog \<Rightarrow> node \<Rightarrow> node_definition option" where
  "resolve_definition cat n =
     (case cat_lookup cat (node_type n) (node_type_version n) of
        None \<Rightarrow> None
      | Some d \<Rightarrow>
          (let d = (case ports_for d of
                      None \<Rightarrow> d
                    | Some f \<Rightarrow>
                        (case f (node_parameters n) (node_type_version n) of
                           (ins, outs) \<Rightarrow> d\<lparr>def_inputs := ins, def_outputs := outs\<rparr>))
           in Some (with_error_port d (node_settings n))))"

definition port_accepts_node_type :: "port \<Rightarrow> string \<Rightarrow> bool" where
  "port_accepts_node_type p t \<longleftrightarrow> allowed_node_types p = [] \<or> list_ex (\<lambda>a. a = t) (allowed_node_types p)"

definition input_port :: "node_definition \<Rightarrow> string \<Rightarrow> port option" where
  "input_port d name = find (\<lambda>p. port_name p = name) (def_inputs d)"

definition output_port :: "node_definition \<Rightarrow> string \<Rightarrow> (port \<times> nat) option" where
  "output_port d name =
     map_option (\<lambda>(i, p). (p, i)) (find (\<lambda>(i, p). port_name p = name) (indexed (def_outputs d)))"

definition port_label :: "port \<Rightarrow> string" where
  "port_label p = (if port_display p \<noteq> [] then port_display p else port_name p)"

definition is_annotation :: "node_definition \<Rightarrow> bool" where
  "is_annotation d \<longleftrightarrow> def_inputs d = [] \<and> def_outputs d = []"

definition produces_items :: "port list \<Rightarrow> bool" where
  "produces_items ports = list_ex (\<lambda>p. port_kind p = connection_main) ports"

lemma input_port_Some: "input_port d name = Some p \<Longrightarrow> p \<in> set (def_inputs d) \<and> port_name p = name"
  by (auto simp: input_port_def find_Some_iff)

lemma output_port_Some:
  "output_port d name = Some (p, i) \<longleftrightarrow>
     i < length (def_outputs d) \<and> def_outputs d ! i = p \<and> port_name p = name \<and>
     (\<forall>j < i. port_name (def_outputs d ! j) \<noteq> name)"
proof -
  have "find (\<lambda>(i, p). port_name p = name) (indexed (def_outputs d)) = Some (i, p) \<longleftrightarrow>
      i < length (def_outputs d) \<and> def_outputs d ! i = p \<and> port_name p = name \<and>
      (\<forall>j < i. port_name (def_outputs d ! j) \<noteq> name)"
    by (auto simp: find_Some_iff indexed_def)
  then show ?thesis by (auto simp: output_port_def)
qed

lemma output_port_None: "output_port d name = None \<longleftrightarrow> (\<forall>p \<in> set (def_outputs d). port_name p \<noteq> name)"
proof -
  have "snd ` set (indexed (def_outputs d)) = set (def_outputs d)" by (metis list.set_map map_snd_indexed)
  then show ?thesis by (force simp: output_port_def find_None_iff split_def)
qed

subsection \<open>Credentials\<close>

datatype error_code =
    InvalidTopology | UnknownNodeType | UnknownVersion | NodeNotAvailable | UnknownPortCode
  | IncompatiblePort | PortFull | PortRequiredCode | PortNotAllowed | RequiredConfig | InvalidConfig

fun code_text :: "error_code \<Rightarrow> string" where
  "code_text InvalidTopology = ''workflow.invalid_topology''"
| "code_text UnknownNodeType = ''node.unknown_type''"
| "code_text UnknownVersion = ''node.unknown_version''"
| "code_text NodeNotAvailable = ''node.not_available''"
| "code_text UnknownPortCode = ''port.unknown''"
| "code_text IncompatiblePort = ''port.incompatible''"
| "code_text PortFull = ''port.full''"
| "code_text PortRequiredCode = ''port.required''"
| "code_text PortNotAllowed = ''port.node_not_allowed''"
| "code_text RequiredConfig = ''config.required''"
| "code_text InvalidConfig = ''config.invalid''"

record validation_error =
  ve_code :: error_code
  ve_path :: string
  ve_node :: string
  ve_connection :: string
  ve_message :: string

definition node_issue :: "error_code \<Rightarrow> string \<Rightarrow> string \<Rightarrow> string \<Rightarrow> validation_error" where
  "node_issue code path nid msg =
     \<lparr>ve_code = code, ve_path = path, ve_node = nid, ve_connection = [], ve_message = msg\<rparr>"

definition conn_issue :: "error_code \<Rightarrow> string \<Rightarrow> string \<Rightarrow> string \<Rightarrow> validation_error" where
  "conn_issue code path cid msg =
     \<lparr>ve_code = code, ve_path = path, ve_node = [], ve_connection = cid, ve_message = msg\<rparr>"

definition node_path :: "nat \<Rightarrow> string" where
  "node_path index = ''/nodes/'' @ itoa (int index)"

fun join :: "string \<Rightarrow> string list \<Rightarrow> string" where
  "join sep [] = []"
| "join sep [s] = s"
| "join sep (s # ss) = s @ sep @ join sep ss"

definition declared_credentials :: "node_definition \<Rightarrow> string list" where
  "declared_credentials d = remdups (credential_types d @ required_credentials d)"

definition undeclared_types :: "node \<Rightarrow> node_definition \<Rightarrow> string list" where
  "undeclared_types n d =
     sort (map fst (filter (\<lambda>(t, ref). trim_space ref \<noteq> [] \<and> t \<notin> set (declared_credentials d))
       (node_credentials n)))"

definition undeclared_credentials :: "host \<Rightarrow> nat \<Rightarrow> node \<Rightarrow> node_definition \<Rightarrow> validation_error list" where
  "undeclared_credentials h index n d =
     (if node_credentials n = [] then []
      else
        let accepted = sort (declared_credentials d);
            offered = (if accepted \<noteq> [] then ''it accepts '' @ join '', '' accepted
                       else ''it accepts no credential'')
        in map (\<lambda>t. node_issue InvalidConfig (node_path index @ ''/credentials/'' @ t) (node_id n)
             (''node '' @ h_quote h (node_id n) @ '' attaches a credential of type '' @ t @
              '', which node type '' @ node_type n @ '' does not use ('' @ offered @
              ''): remove it or attach a credential of an accepted type''))
           (undeclared_types n d))"

definition missing_credential :: "node \<Rightarrow> string \<Rightarrow> bool" where
  "missing_credential n t \<longleftrightarrow>
     trim_space (case aget (node_credentials n) t of None \<Rightarrow> [] | Some ref \<Rightarrow> ref) = []"

definition required_credential_issues :: "host \<Rightarrow> nat \<Rightarrow> node \<Rightarrow> node_definition \<Rightarrow> validation_error list" where
  "required_credential_issues h index n d =
     map (\<lambda>t. node_issue RequiredConfig (node_path index @ ''/credentials/'' @ t) (node_id n)
            (''node '' @ h_quote h (node_id n) @ '' requires a '' @ t @ '' credential''))
       (filter (missing_credential n) (required_credentials d))"

lemma undeclared_credentials_None:
  "undeclared_credentials h index n d = [] \<longleftrightarrow>
     (\<forall>(t, ref) \<in> set (node_credentials n). trim_space ref \<noteq> [] \<longrightarrow>
        t \<in> set (credential_types d) \<union> set (required_credentials d))"
proof -
  have "undeclared_types n d = [] \<longleftrightarrow>
      (\<forall>(t, ref) \<in> set (node_credentials n). trim_space ref \<noteq> [] \<longrightarrow>
        t \<in> set (credential_types d) \<union> set (required_credentials d))"
    by (auto simp: undeclared_types_def declared_credentials_def filter_empty_conv
        simp flip: set_empty)
  then show ?thesis by (auto simp: undeclared_credentials_def Let_def undeclared_types_def)
qed

lemma required_credential_None:
  "required_credential_issues h index n d = [] \<longleftrightarrow> (\<forall>t \<in> set (required_credentials d). \<not> missing_credential n t)"
  by (auto simp: required_credential_issues_def filter_empty_conv)

subsection \<open>Settings every node declares\<close>

definition max_retry_attempts :: rat where "max_retry_attempts = 8"
definition max_retry_wait_ms :: rat where "max_retry_wait_ms = 300000"

definition setting_rules :: "(string \<times> rat \<times> rat) list" where
  "setting_rules =
     [(''timeoutSeconds'', 0, 86400), (''maxTries'', 1, max_retry_attempts),
      (''waitBetweenTries'', 0, max_retry_wait_ms)]"

definition check_number_setting :: "host \<Rightarrow> jobject \<Rightarrow> string \<times> rat \<times> rat \<Rightarrow> string list" where
  "check_number_setting h settings rule =
     (case rule of (key, low, high) \<Rightarrow>
        if jget settings key = JNull then []
        else case setting_number (jget settings key) of
               None \<Rightarrow> [key @ '' must be a number'']
             | Some x \<Rightarrow>
                 if x < low \<or> high < x
                 then [key @ '' must be between '' @ h_float h low @ '' and '' @ h_float h high @
                       '', got '' @ h_float h x]
                 else [])"

definition check_on_error :: "host \<Rightarrow> jobject \<Rightarrow> string list" where
  "check_on_error h settings =
     (case jget settings ''onError'' of
        JNull \<Rightarrow> []
      | JStr mode \<Rightarrow>
          if known_on_error mode then []
          else [''onError '' @ h_quote h mode @
                '' is not one of stopWorkflow, continueRegularOutput or continueErrorOutput'']
      | _ \<Rightarrow> [''onError must be one of stopWorkflow, continueRegularOutput or continueErrorOutput''])"

definition validate_shared_settings :: "host \<Rightarrow> jobject \<Rightarrow> string list" where
  "validate_shared_settings h settings =
     concat (map (check_number_setting h settings) setting_rules) @ check_on_error h settings"

text \<open>What the check accepts.\<close>

definition number_setting_ok :: "jobject \<Rightarrow> string \<Rightarrow> rat \<Rightarrow> rat \<Rightarrow> bool" where
  "number_setting_ok settings key low high \<longleftrightarrow>
     jget settings key = JNull \<or> (\<exists>x. jget settings key = JNum x \<and> low \<le> x \<and> x \<le> high)"

definition settings_ok :: "jobject \<Rightarrow> bool" where
  "settings_ok settings \<longleftrightarrow>
     number_setting_ok settings ''timeoutSeconds'' 0 86400 \<and>
     number_setting_ok settings ''maxTries'' 1 8 \<and>
     number_setting_ok settings ''waitBetweenTries'' 0 300000 \<and>
     (jget settings ''onError'' = JNull \<or> (\<exists>m. jget settings ''onError'' = JStr m \<and> known_on_error m))"

lemma check_number_setting_None:
  "check_number_setting h settings (key, low, high) = [] \<longleftrightarrow> number_setting_ok settings key low high"
  by (cases "jget settings key") (auto simp: check_number_setting_def number_setting_ok_def setting_number_def)

lemma check_on_error_None:
  "check_on_error h settings = [] \<longleftrightarrow>
     jget settings ''onError'' = JNull \<or> (\<exists>m. jget settings ''onError'' = JStr m \<and> known_on_error m)"
  by (cases "jget settings ''onError''") (auto simp: check_on_error_def)

lemma validate_shared_settings_None: "validate_shared_settings h settings = [] \<longleftrightarrow> settings_ok settings"
  by (simp add: validate_shared_settings_def setting_rules_def check_number_setting_None
      check_on_error_None settings_ok_def max_retry_attempts_def max_retry_wait_ms_def)

subsection \<open>The workflow's time zone\<close>

text \<open>
  \<open>Local\<close> and \<open>DEFAULT\<close> contain neither K nor S, the two ASCII letters that fold to a character
  outside ASCII, so \<open>strings.EqualFold\<close> on them is the comparison of ASCII letters.
\<close>

definition validate_document_timezone :: "host \<Rightarrow> jobject \<Rightarrow> string option" where
  "validate_document_timezone h settings =
     (case jget settings ''timezone'' of
        JNull \<Rightarrow> None
      | JStr name \<Rightarrow>
          if trim_space name = [] then None
          else if equal_fold_ascii (trim_space name) ''Local''
            then Some (''timezone '' @ h_quote h name @
                   '' depends on where this server runs; name a zone such as UTC or Asia/Jakarta'')
          else if equal_fold_ascii (trim_space name) ''DEFAULT'' then None
          else if h_zone h (trim_space name) then None
          else Some (''timezone '' @ h_quote h name @ '' is not a known IANA zone name'')
      | _ \<Rightarrow> Some ''timezone must be an IANA zone name such as UTC or Asia/Jakarta'')"

definition timezone_ok :: "host \<Rightarrow> jobject \<Rightarrow> bool" where
  "timezone_ok h settings \<longleftrightarrow>
     jget settings ''timezone'' = JNull \<or>
     (\<exists>name. jget settings ''timezone'' = JStr name \<and>
        (let zone = trim_space name in
         zone = [] \<or> (\<not> equal_fold_ascii zone ''Local'' \<and> (equal_fold_ascii zone ''DEFAULT'' \<or> h_zone h zone))))"

lemma validate_document_timezone_None:
  "validate_document_timezone h settings = None \<longleftrightarrow> timezone_ok h settings"
  by (cases "jget settings ''timezone''") (auto simp: validate_document_timezone_def timezone_ok_def Let_def)

subsection \<open>Tool names\<close>

definition tool_letter :: "nat \<Rightarrow> bool" where
  "tool_letter r \<longleftrightarrow> (97 \<le> r \<and> r \<le> 122) \<or> (65 \<le> r \<and> r \<le> 90) \<or> (48 \<le> r \<and> r \<le> 57) \<or> r = 95"

definition normalize_tool_name :: "string \<Rightarrow> string" where
  "normalize_tool_name name =
     (let built = map (\<lambda>r. if tool_letter r then char_of r else CHR ''_'') (runes name)
      in if built = [] then ''http_request'' else built)"

definition tool_name_of :: "jobject \<Rightarrow> string \<Rightarrow> string" where
  "tool_name_of parameters canvas =
     (let name = (case jget parameters ''toolName'' of JStr s \<Rightarrow> s | _ \<Rightarrow> [])
      in if trim_space name = [] then normalize_tool_name canvas else trim_space name)"

lemma tool_letter_ascii: "tool_letter r \<Longrightarrow> r < 128"
  by (auto simp: tool_letter_def)

lemma decode_ascii: "\<forall>b \<in> set bs. b < 128 \<Longrightarrow> decode_runes bs = map (\<lambda>b. (b, 1)) bs"
proof (induction bs)
  case (Cons b bs)
  then have "decode_rune (b # bs) = (b, 1)" by (simp add: decode_rune_def)
  with Cons show ?case by (simp add: decode_runes.simps)
qed (simp add: decode_runes.simps)

lemma normalize_letters: "c \<in> set (normalize_tool_name name) \<Longrightarrow> tool_letter (of_char c)"
  by (auto simp: normalize_tool_name_def Let_def tool_letter_def split: if_splits)

lemma normalize_tool_name_idem: "normalize_tool_name (normalize_tool_name name) = normalize_tool_name name"
proof -
  let ?n = "normalize_tool_name name"
  have ascii: "\<forall>b \<in> set (bytes_of ?n). b < 128"
    using normalize_letters tool_letter_ascii by (fastforce simp: bytes_of_def)
  have "runes ?n = bytes_of ?n" unfolding runes_def decode_ascii [OF ascii] by (simp add: comp_def)
  moreover have "map (\<lambda>r. if tool_letter r then char_of r else CHR ''_'') (bytes_of ?n) = ?n"
    using normalize_letters by (auto simp: bytes_of_def intro!: map_idI)
  moreover have "?n \<noteq> []" by (simp add: normalize_tool_name_def Let_def)
  ultimately show ?thesis by (subst (1) normalize_tool_name_def) (simp add: Let_def)
qed

end
