(* ===== verification/Graph.thy ===== *)
theory Graph
  imports Prelude
begin

text \<open>
  Searches over a workflow graph's arcs, shared by the compiler and the engine: the adjacency
  lists the source builds as \<open>map[string][]string\<close>, the breadth-first walk with a queue and a
  seen set, the repeat-until-nothing-changes loop that adds attachment providers, and
  \<open>reaches\<close>. The locale \<open>worklist\<close> is the contract of a walk; what it computes is proved once
  inside it.
\<close>

type_synonym arcs = "(string \<times> string) list"

definition adjacent :: "arcs \<Rightarrow> string \<Rightarrow> string list" where
  "adjacent es n = map snd (filter (\<lambda>e. fst e = n) es)"

lemma in_adjacent [graph_simps]: "m \<in> set (adjacent es n) \<longleftrightarrow> (n, m) \<in> set es"
  by (force simp: adjacent_def)

lemma adjacent_subset: "set (adjacent es n) \<subseteq> snd ` set es"
  by (auto simp: adjacent_def)

subsection \<open>The walk\<close>

text \<open>
  One pass over a node's successors: a successor not seen yet is marked and queued.
\<close>

fun enqueue_new :: "'a list \<Rightarrow> 'a list \<Rightarrow> 'a list \<Rightarrow> 'a list \<times> 'a list" where
  "enqueue_new [] seen queue = (seen, queue)"
| "enqueue_new (x # xs) seen queue =
     (if x \<in> set seen then enqueue_new xs seen queue
      else enqueue_new xs (x # seen) (queue @ [x]))"

lemma enqueue_new_set:
  assumes "enqueue_new xs seen queue = (seen', queue')"
  shows "set seen' = set seen \<union> set xs"
    and "set queue' = set queue \<union> (set xs - set seen)"
    and "set seen' = set seen \<Longrightarrow> queue' = queue"
proof -
  have "set seen' = set seen \<union> set xs \<and> set queue' = set queue \<union> (set xs - set seen) \<and>
      (set seen' = set seen \<longrightarrow> queue' = queue)"
    using assms by (induction xs seen queue rule: enqueue_new.induct) (auto split: if_splits)
  then show "set seen' = set seen \<union> set xs" "set queue' = set queue \<union> (set xs - set seen)"
    "set seen' = set seen \<Longrightarrow> queue' = queue" by blast+
qed

lemma enqueue_new_decreases:
  assumes "enqueue_new xs seen queue = (seen', queue')" "set xs \<subseteq> U" "finite U"
  shows "(card (U - set seen'), length queue') = (card (U - set seen), length queue) \<or>
    card (U - set seen') < card (U - set seen)"
proof (cases "set seen' = set seen")
  case True
  with enqueue_new_set(3) [OF assms(1)] show ?thesis by simp
next
  case False
  note s = enqueue_new_set(1) [OF assms(1)]
  with False obtain x where "x \<in> set xs" "x \<notin> set seen" by blast
  with s assms(2,3) have "U - set seen' \<subset> U - set seen" by blast
  then show ?thesis using assms(3) by (auto intro: psubset_card_mono)
qed

function walk :: "arcs \<Rightarrow> string list \<Rightarrow> string list \<Rightarrow> string list" where
  "walk es seen [] = seen"
| "walk es seen (x # queue) =
     (case enqueue_new (adjacent es x) seen queue of (seen', queue') \<Rightarrow> walk es seen' queue')"
  by pat_completeness auto
termination
proof (relation "measures [\<lambda>(es, seen, queue). card (snd ` set es - set seen), \<lambda>(es, seen, queue). length queue]", goal_cases)
  case (2 es seen x queue seen' queue')
  then have "enqueue_new (adjacent es x) seen queue = (seen', queue')" by simp
  from enqueue_new_decreases [OF this adjacent_subset] show ?case by auto
qed simp

text \<open>
  The contract of a walk over a finite graph: what it does on an empty queue and on a queue
  with a first element. The set of nodes it has seen when the queue is empty is what the queue
  reaches.
\<close>

locale worklist =
  fixes next_of :: "'a \<Rightarrow> 'a list"
    and walk_from :: "'a list \<Rightarrow> 'a list \<Rightarrow> 'a list"
    and universe :: "'a set"
  assumes walk_Nil: "walk_from seen [] = seen"
    and walk_Cons: "walk_from seen (x # queue) =
      (case enqueue_new (next_of x) seen queue of (seen', queue') \<Rightarrow> walk_from seen' queue')"
    and universe_finite: "finite universe"
    and universe_closed: "set (next_of x) \<subseteq> universe"
begin

definition arc :: "('a \<times> 'a) set" where
  "arc = {(x, y). y \<in> set (next_of x)}"

text \<open>Everything seen is queued or has had its successors seen.\<close>

definition explored :: "'a list \<Rightarrow> 'a list \<Rightarrow> bool" where
  "explored seen queue \<longleftrightarrow> set queue \<subseteq> set seen \<and>
     (\<forall>x \<in> set seen - set queue. set (next_of x) \<subseteq> set seen)"

lemma walk_induct [case_names Nil Cons]:
  assumes "\<And>seen. P seen []"
    and "\<And>seen x q seen' q'. enqueue_new (next_of x) seen q = (seen', q') \<Longrightarrow> P seen' q' \<Longrightarrow> P seen (x # q)"
  shows "P seen queue"
proof -
  let ?m = "\<lambda>p. (card (universe - set (fst p)), length (snd p))"
  have "wf (inv_image (less_than <*lex*> less_than) ?m)" by (intro wf_inv_image wf_lex_prod wf_less_than)
  then have "P (fst p) (snd p)" for p
  proof (induction p rule: wf_induct_rule)
    case (less p)
    obtain seen queue where p: "p = (seen, queue)" by fastforce
    show ?case
    proof (cases queue)
      case Nil
      with assms(1) p show ?thesis by simp
    next
      case (Cons x q)
      obtain seen' q' where e: "enqueue_new (next_of x) seen q = (seen', q')" by fastforce
      with less [of "(seen', q')"] p Cons enqueue_new_decreases [OF e universe_closed universe_finite]
      have "P seen' q'" by auto
      with assms(2) [OF e] Cons p show ?thesis by simp
    qed
  qed
  from this [of "(seen, queue)"] show ?thesis by simp
qed

lemma walk_mono: "set seen \<subseteq> set (walk_from seen queue)"
proof (induction seen queue rule: walk_induct)
  case (Cons seen x q seen' q')
  then show ?case using enqueue_new_set(1) [OF Cons(1)] by (auto simp: walk_Cons)
qed (simp add: walk_Nil)

lemma walk_closed: "explored seen queue \<Longrightarrow> arc `` set (walk_from seen queue) \<subseteq> set (walk_from seen queue)"
proof (induction seen queue rule: walk_induct)
  case (Nil seen)
  then show ?case by (auto simp: walk_Nil explored_def arc_def)
next
  case (Cons seen x q seen' q')
  have "explored seen' q'"
    using Cons(3) enqueue_new_set(1,2) [OF Cons(1)] by (fastforce simp: explored_def)
  with Cons(1,2) show ?case by (simp add: walk_Cons)
qed

lemma walk_sound: "set queue \<subseteq> set seen \<Longrightarrow> set (walk_from seen queue) \<subseteq> arc\<^sup>* `` set seen"
proof (induction seen queue rule: walk_induct)
  case (Nil seen)
  then show ?case by (auto simp: walk_Nil)
next
  case (Cons seen x q seen' q')
  note s = enqueue_new_set(1,2) [OF Cons(1)]
  have ih: "set (walk_from seen' q') \<subseteq> arc\<^sup>* `` set seen'" using Cons(2,3) s by auto
  have "set (next_of x) \<subseteq> arc\<^sup>* `` set seen" using Cons(3) by (auto simp: arc_def)
  then have "set seen' \<subseteq> arc\<^sup>* `` set seen" using s by auto
  then have "arc\<^sup>* `` set seen' \<subseteq> arc\<^sup>* `` set seen" by (rule rtrancl_Image_subset)
  with ih Cons(1) show ?case by (auto simp: walk_Cons)
qed

text \<open>A walk started with its seeds queued and seen finds exactly what they reach.\<close>

lemma walk_reachable:
  assumes "set seeds = set queue"
  shows "set (walk_from seeds queue) = arc\<^sup>* `` set seeds"
proof
  show "set (walk_from seeds queue) \<subseteq> arc\<^sup>* `` set seeds"
    by (rule walk_sound) (simp add: assms)
  have closed: "arc `` set (walk_from seeds queue) \<subseteq> set (walk_from seeds queue)"
    by (rule walk_closed) (simp add: explored_def assms)
  have "y \<in> set (walk_from seeds queue)" if "(x, y) \<in> arc\<^sup>*" "x \<in> set seeds" for x y
    using that
  proof (induction rule: rtrancl_induct)
    case base
    then show ?case using walk_mono by blast
  next
    case (step y z)
    then show ?case using closed by blast
  qed
  then show "arc\<^sup>* `` set seeds \<subseteq> set (walk_from seeds queue)" by blast
qed

end

interpretation arc_walk: worklist "adjacent es" "walk es" "snd ` set es" for es
  by unfold_locales (auto simp: adjacent_def)

lemma arc_walk_arc [simp]: "arc_walk.arc es = set es"
  by (auto simp: arc_walk.arc_def graph_simps)

subsection \<open>Growing a set until nothing changes\<close>

text \<open>
  One pass over the attachment arcs, adding each source whose target is in the set; then the
  loop that repeats the pass while it adds something.
\<close>

definition grow_pass :: "arcs \<Rightarrow> string list \<Rightarrow> string list" where
  "grow_pass es seen =
     foldl (\<lambda>seen (s, t). if t \<in> set seen \<and> s \<notin> set seen then s # seen else seen) seen es"

lemma grow_pass_mono: "set seen \<subseteq> set (grow_pass es seen)"
  unfolding grow_pass_def by (induction es arbitrary: seen) force+

lemma grow_pass_bound: "set (grow_pass es seen) \<subseteq> set seen \<union> fst ` set es"
  unfolding grow_pass_def by (induction es arbitrary: seen) (fastforce split: if_splits)+

lemma grow_pass_length: "grow_pass es seen \<noteq> seen \<Longrightarrow> set seen \<subset> set (grow_pass es seen)"
proof -
  have "\<exists>new. grow_pass es seen = new @ seen \<and> (\<forall>x \<in> set new. x \<notin> set seen)"
    unfolding grow_pass_def
  proof (induction es arbitrary: seen)
    case (Cons e es)
    obtain s t where e: "e = (s, t)" by fastforce
    let ?seen = "if t \<in> set seen \<and> s \<notin> set seen then s # seen else seen"
    obtain new where n: "foldl (\<lambda>seen (s, t). if t \<in> set seen \<and> s \<notin> set seen then s # seen else seen) ?seen es
        = new @ ?seen" "\<forall>x \<in> set new. x \<notin> set ?seen"
      using Cons by blast
    show ?case
    proof (cases "t \<in> set seen \<and> s \<notin> set seen")
      case True
      with n e show ?thesis by (intro exI [of _ "new @ [s]"]) auto
    next
      case False
      with n e show ?thesis by (intro exI [of _ new]) auto
    qed
  qed simp
  then obtain new where "grow_pass es seen = new @ seen" "\<forall>x \<in> set new. x \<notin> set seen" by blast
  moreover assume "grow_pass es seen \<noteq> seen"
  ultimately show ?thesis by (cases new) auto
qed

function grow :: "arcs \<Rightarrow> string list \<Rightarrow> string list" where
  "grow es seen = (let seen' = grow_pass es seen in if seen' = seen then seen else grow es seen')"
  by pat_completeness auto
termination
proof (relation "measure (\<lambda>(es, seen). card (fst ` set es - set seen))", goal_cases)
  case (2 es seen seen')
  then have "set seen \<subset> set seen'" using grow_pass_length by metis
  moreover from this obtain x where "x \<in> set seen'" "x \<notin> set seen" by blast
  ultimately have "fst ` set es - set seen' \<subset> fst ` set es - set seen"
    using grow_pass_bound [of es seen] 2(1) by blast
  then show ?case by (simp add: psubset_card_mono)
qed simp

declare grow.simps [simp del]

lemma grow_pass_fixed: "grow_pass es seen = seen \<Longrightarrow> (s, t) \<in> set es \<Longrightarrow> t \<in> set seen \<Longrightarrow> s \<in> set seen"
proof -
  have len: "length seen \<le> length (grow_pass es seen)" for es seen
    unfolding grow_pass_def by (induction es arbitrary: seen) (fastforce intro: le_trans [rotated])+
  have "length (grow_pass es seen) = length seen \<Longrightarrow> (s, t) \<in> set es \<Longrightarrow> t \<in> set seen \<Longrightarrow> s \<in> set seen" for es
  proof (induction es)
    case (Cons e es)
    obtain a b where e: "e = (a, b)" by fastforce
    have step: "grow_pass (e # es) seen = grow_pass es (if b \<in> set seen \<and> a \<notin> set seen then a # seen else seen)"
      by (simp add: grow_pass_def e)
    show ?case
    proof (cases "b \<in> set seen \<and> a \<notin> set seen")
      case True
      with step len [of "a # seen" es] Cons(2) show ?thesis by simp
    next
      case False
      with step Cons e show ?thesis by auto
    qed
  qed simp
  then show "grow_pass es seen = seen \<Longrightarrow> (s, t) \<in> set es \<Longrightarrow> t \<in> set seen \<Longrightarrow> s \<in> set seen" by metis
qed

lemma grow_mono: "set seen \<subseteq> set (grow es seen)"
proof (induction es seen rule: grow.induct)
  case (1 es seen)
  then show ?case using grow_pass_mono [of seen es]
    by (subst grow.simps) (auto simp: Let_def)
qed

lemma grow_closed: "(s, t) \<in> set es \<Longrightarrow> t \<in> set (grow es seen) \<Longrightarrow> s \<in> set (grow es seen)"
proof (induction es seen rule: grow.induct)
  case (1 es seen)
  show ?case
  proof (cases "grow_pass es seen = seen")
    case True
    with 1(2,3) show ?thesis by (simp add: grow.simps [of es seen] grow_pass_fixed)
  next
    case False
    with 1 show ?thesis by (simp add: grow.simps [of es seen] Let_def)
  qed
qed

lemma grow_pass_sound: "set (grow_pass es seen) \<subseteq> ((set es)\<inverse>)\<^sup>* `` set seen"
proof -
  have "set (foldl (\<lambda>seen (s, t). if t \<in> set seen \<and> s \<notin> set seen then s # seen else seen) seen ds)
      \<subseteq> ((set es)\<inverse>)\<^sup>* `` set seen" if "set ds \<subseteq> set es" for ds
    using that
  proof (induction ds arbitrary: seen)
    case (Cons d ds)
    obtain a b where d: "d = (a, b)" by fastforce
    let ?seen = "if b \<in> set seen \<and> a \<notin> set seen then a # seen else seen"
    have "set ?seen \<subseteq> ((set es)\<inverse>)\<^sup>* `` set seen" using Cons(2) d by auto
    then have "((set es)\<inverse>)\<^sup>* `` set ?seen \<subseteq> ((set es)\<inverse>)\<^sup>* `` set seen" by (rule rtrancl_Image_subset)
    moreover have "set (foldl (\<lambda>seen (s, t). if t \<in> set seen \<and> s \<notin> set seen then s # seen else seen) ?seen ds)
        \<subseteq> ((set es)\<inverse>)\<^sup>* `` set ?seen" using Cons by simp
    ultimately show ?case unfolding d foldl_Cons prod.case by (rule subset_trans [rotated])
  qed auto
  then show ?thesis by (simp add: grow_pass_def)
qed

lemma grow_sound: "set (grow es seen) \<subseteq> ((set es)\<inverse>)\<^sup>* `` set seen"
proof (induction es seen rule: grow.induct)
  case (1 es seen)
  show ?case
  proof (cases "grow_pass es seen = seen")
    case True
    then show ?thesis by (auto simp: grow.simps [of es seen])
  next
    case False
    with 1 have "set (grow es seen) \<subseteq> ((set es)\<inverse>)\<^sup>* `` set (grow_pass es seen)"
      by (simp add: grow.simps [of es seen] Let_def)
    also have "\<dots> \<subseteq> ((set es)\<inverse>)\<^sup>* `` set seen"
      using grow_pass_sound by (rule rtrancl_Image_subset)
    finally show ?thesis .
  qed
qed

text \<open>The loop adds exactly what leads to the set along attachment arcs.\<close>

lemma grow_exact: "set (grow es seen) = ((set es)\<inverse>)\<^sup>* `` set seen"
proof
  show "set (grow es seen) \<subseteq> ((set es)\<inverse>)\<^sup>* `` set seen" by (rule grow_sound)
  have "y \<in> set (grow es seen)" if "(x, y) \<in> ((set es)\<inverse>)\<^sup>*" "x \<in> set seen" for x y
    using that by (induction rule: rtrancl_induct) (use grow_mono grow_closed in blast)+
  then show "((set es)\<inverse>)\<^sup>* `` set seen \<subseteq> set (grow es seen)" by blast
qed

subsection \<open>Whether one node reaches another\<close>

text \<open>
  \<open>reaches\<close> returns as soon as a successor of the node it takes from the queue is the one
  looked for; what it would still have queued is then discarded, so the test can be made before
  the successors are queued.
\<close>

function reaches_from :: "arcs \<Rightarrow> string \<Rightarrow> string list \<Rightarrow> string list \<Rightarrow> bool" where
  "reaches_from es to seen [] = False"
| "reaches_from es to seen (current # queue) =
     (if to \<in> set (adjacent es current) then True
      else case enqueue_new (adjacent es current) seen queue of
             (seen', queue') \<Rightarrow> reaches_from es to seen' queue')"
  by pat_completeness auto
termination
proof (relation "measures [\<lambda>(es, to, seen, queue). card (snd ` set es - set seen), \<lambda>(es, to, seen, queue). length queue]", goal_cases)
  case (2 es to seen x queue seen' queue')
  then have "enqueue_new (adjacent es x) seen queue = (seen', queue')" by simp
  from enqueue_new_decreases [OF this adjacent_subset] show ?case by auto
qed simp

definition reaches :: "arcs \<Rightarrow> string \<Rightarrow> string \<Rightarrow> bool" where
  "reaches es from to = reaches_from es to [from] [from]"

lemma reaches_from_iff:
  "arc_walk.explored es seen queue \<Longrightarrow>
   (\<forall>x \<in> set seen - set queue. to \<notin> set (adjacent es x)) \<Longrightarrow>
   reaches_from es to seen queue \<longleftrightarrow> (\<exists>x \<in> set (walk es seen queue). to \<in> set (adjacent es x))"
proof (induction es to seen queue rule: reaches_from.induct)
  case (1 es to seen)
  then show ?case by simp
next
  case (2 es to seen current queue)
  obtain seen' queue' where e: "enqueue_new (adjacent es current) seen queue = (seen', queue')" by fastforce
  note s = enqueue_new_set(1,2) [OF e]
  show ?case
  proof (cases "to \<in> set (adjacent es current)")
    case True
    have "current \<in> set seen" using 2(2) by (simp add: arc_walk.explored_def)
    then have "current \<in> set (walk es seen (current # queue))" using arc_walk.walk_mono by blast
    with True show ?thesis by auto
  next
    case False
    have "arc_walk.explored es seen' queue'" "\<forall>x \<in> set seen' - set queue'. to \<notin> set (adjacent es x)"
      using 2(2,3) s False by (fastforce simp: arc_walk.explored_def)+
    with 2(1) [OF False e [symmetric]] False e show ?thesis by simp
  qed
qed

lemma reaches_iff: "reaches es from to \<longleftrightarrow> (from, to) \<in> (set es)\<^sup>+"
proof -
  have "reaches es from to \<longleftrightarrow> (\<exists>x \<in> set (walk es [from] [from]). to \<in> set (adjacent es x))"
    unfolding reaches_def by (rule reaches_from_iff) (auto simp: arc_walk.explored_def)
  also have "\<dots> \<longleftrightarrow> (\<exists>x. (from, x) \<in> (set es)\<^sup>* \<and> (x, to) \<in> set es)"
    using arc_walk.walk_reachable [of "[from]" "[from]" es] by (auto simp: graph_simps)
  also have "\<dots> \<longleftrightarrow> (from, to) \<in> (set es)\<^sup>+"
    by (metis tranclD2 rtrancl_into_trancl1)
  finally show ?thesis .
qed

end
