(* ===== verification/Cycles.thy ===== *)
theory Cycles
  imports Graph "HOL-Library.Multiset"
begin

text \<open>
  The cycles the compiler names (\<open>internal/workflow/cycle.go\<close>): \<open>stronglyConnected\<close> (Tarjan's
  algorithm with its index, lowest and on-stack tables), \<open>entryOf\<close>, \<open>shortestCycleThrough\<close> and
  \<open>cyclesAmong\<close>. An edge is its pair of node IDs, which is all these functions read of it.
  The lemmas prove the algorithm: its groups are the strongly connected classes, and a cycle
  is named exactly when the graph has one.
\<close>

subsection \<open>Positions\<close>

definition place :: "string \<Rightarrow> string list \<Rightarrow> string list" where
  "place n sequence = (if n \<in> set sequence then sequence else sequence @ [n])"

definition place_all :: "string list \<Rightarrow> arcs \<Rightarrow> string list" where
  "place_all order es = fold (\<lambda>(s, t) q. place t (place s q)) es (fold place order [])"

definition position_of :: "string list \<Rightarrow> string \<Rightarrow> nat" where
  "position_of sequence n =
     (if n \<in> set sequence then length (takeWhile (\<lambda>m. m \<noteq> n) sequence) else 0)"

lemma place_set [simp]: "set (place n q) = insert n (set q)"
  by (auto simp: place_def)

lemma fold_place_set: "set (fold place xs q) = set q \<union> set xs"
  by (induction xs arbitrary: q) auto

lemma place_all_set: "set (place_all order es) = set order \<union> fst ` set es \<union> snd ` set es"
proof -
  have "set (fold (\<lambda>(s, t) q. place t (place s q)) es q) = set q \<union> fst ` set es \<union> snd ` set es" for q
    by (induction es arbitrary: q) auto
  then show ?thesis by (simp add: place_all_def fold_place_set)
qed

subsection \<open>Strongly connected groups\<close>

text \<open>The variables the closure \<open>visit\<close> captures. The stack's top is the head of its list.\<close>

record tarjan =
  t_index :: "string \<rightharpoonup> nat"
  t_lowest :: "string \<Rightarrow> nat"
  t_on_stack :: "string \<Rightarrow> bool"
  t_stack :: "string list"
  t_groups :: "string list list"
  t_counter :: nat

definition tarjan_start :: tarjan where
  "tarjan_start = \<lparr>t_index = Map.empty, t_lowest = (\<lambda>_. 0), t_on_stack = (\<lambda>_. False),
     t_stack = [], t_groups = [], t_counter = 0\<rparr>"

definition tarjan_enter :: "string \<Rightarrow> tarjan \<Rightarrow> tarjan" where
  "tarjan_enter v st = st\<lparr>
     t_index := (t_index st)(v \<mapsto> t_counter st),
     t_lowest := (t_lowest st)(v := t_counter st),
     t_counter := t_counter st + 1,
     t_stack := v # t_stack st,
     t_on_stack := (t_on_stack st)(v := True)\<rparr>"

text \<open>The loop that pops the stack until it has popped \<open>v\<close>: the group and what is left.\<close>

fun pop_until :: "string \<Rightarrow> string list \<Rightarrow> string list \<times> string list" where
  "pop_until v [] = ([], [])"
| "pop_until v (x # stack) =
     (if x = v then ([x], stack)
      else case pop_until v stack of (grp, rest) \<Rightarrow> (x # grp, rest))"

definition tarjan_leave :: "string \<Rightarrow> tarjan \<Rightarrow> tarjan" where
  "tarjan_leave v st =
     (if t_index st v \<noteq> Some (t_lowest st v) then st
      else case pop_until v (t_stack st) of (grp, rest) \<Rightarrow>
        st\<lparr>t_stack := rest,
           t_on_stack := (\<lambda>x. x \<notin> set grp \<and> t_on_stack st x),
           t_groups := t_groups st @ [grp]\<rparr>)"

definition lower_to :: "string \<Rightarrow> nat \<Rightarrow> tarjan \<Rightarrow> tarjan" where
  "lower_to v k st = st\<lparr>t_lowest := (t_lowest st)(v := min (t_lowest st v) k)\<rparr>"

text \<open>
  The recursion is bounded by a fuel: running out is \<open>None\<close>. \<open>tarjan_visit_total\<close> below shows
  that as much fuel as there are nodes not yet visited is enough.
\<close>

fun tarjan_visit :: "nat \<Rightarrow> arcs \<Rightarrow> string \<Rightarrow> tarjan \<Rightarrow> tarjan option"
  and tarjan_successors :: "nat \<Rightarrow> arcs \<Rightarrow> string \<Rightarrow> string list \<Rightarrow> tarjan \<Rightarrow> tarjan option" where
  "tarjan_visit 0 es v st = None"
| "tarjan_visit (Suc fuel) es v st =
     (case tarjan_successors fuel es v (adjacent es v) (tarjan_enter v st) of
        None \<Rightarrow> None
      | Some st' \<Rightarrow> Some (tarjan_leave v st'))"
| "tarjan_successors fuel es v [] st = Some st"
| "tarjan_successors fuel es v (w # ws) st =
     (case t_index st w of
        None \<Rightarrow>
          (case tarjan_visit fuel es w st of
             None \<Rightarrow> None
           | Some st' \<Rightarrow> tarjan_successors fuel es v ws (lower_to v (t_lowest st' w) st'))
      | Some i \<Rightarrow>
          tarjan_successors fuel es v ws (if t_on_stack st w then lower_to v i st else st))"

fun tarjan_all :: "nat \<Rightarrow> arcs \<Rightarrow> string list \<Rightarrow> tarjan \<Rightarrow> tarjan option" where
  "tarjan_all fuel es [] st = Some st"
| "tarjan_all fuel es (v # vs) st =
     (case t_index st v of
        Some _ \<Rightarrow> tarjan_all fuel es vs st
      | None \<Rightarrow>
          (case tarjan_visit fuel es v st of
             None \<Rightarrow> None
           | Some st' \<Rightarrow> tarjan_all fuel es vs st'))"

definition sort_groups :: "string list \<Rightarrow> string list list \<Rightarrow> string list list" where
  "sort_groups sequence groups =
     sort_key (\<lambda>g. position_of sequence (hd g))
       (map (sort_key (position_of sequence)) groups)"

definition strongly_connected :: "string list \<Rightarrow> arcs \<Rightarrow> string list list option" where
  "strongly_connected sequence es =
     (case tarjan_all (length sequence) es sequence tarjan_start of
        None \<Rightarrow> None
      | Some st \<Rightarrow> Some (sort_groups sequence (t_groups st)))"

subsection \<open>The recursion's invariant\<close>

definition idx :: "tarjan \<Rightarrow> string \<Rightarrow> nat" where
  "idx st v = the (t_index st v)"

definition popped :: "tarjan \<Rightarrow> string set" where
  "popped st = \<Union> (set ` set (t_groups st))"

text \<open>A strongly connected class: its members are exactly the nodes on a common cycle.\<close>

definition scc :: "(string \<times> string) set \<Rightarrow> string set \<Rightarrow> bool" where
  "scc E g \<longleftrightarrow> g \<noteq> {} \<and> (\<forall>x \<in> g. \<forall>y. y \<in> g \<longleftrightarrow> (x, y) \<in> E\<^sup>* \<and> (y, x) \<in> E\<^sup>*)"

definition tables_ok :: "tarjan \<Rightarrow> bool" where
  "tables_ok st \<longleftrightarrow>
     sorted_wrt (\<lambda>x y. idx st y < idx st x) (t_stack st) \<and>
     (\<forall>x \<in> dom (t_index st). idx st x < t_counter st) \<and>
     (\<forall>x. t_on_stack st x \<longleftrightarrow> x \<in> set (t_stack st)) \<and>
     dom (t_index st) = set (t_stack st) \<union> popped st \<and>
     set (t_stack st) \<inter> popped st = {}"

definition groups_ok :: "(string \<times> string) set \<Rightarrow> tarjan \<Rightarrow> bool" where
  "groups_ok E st \<longleftrightarrow> E `` popped st \<subseteq> popped st \<and> (\<forall>g \<in> set (t_groups st). scc E (set g)) \<and>
     distinct (concat (t_groups st))"

text \<open>\<open>G\<close> is the set of nodes whose visit is running.\<close>

definition stack_ok :: "(string \<times> string) set \<Rightarrow> string set \<Rightarrow> tarjan \<Rightarrow> bool" where
  "stack_ok E G st \<longleftrightarrow>
     G \<subseteq> set (t_stack st) \<and>
     (\<forall>x \<in> set (t_stack st). \<forall>y \<in> set (t_stack st). idx st x \<le> idx st y \<longrightarrow> (x, y) \<in> E\<^sup>*) \<and>
     (\<forall>x \<in> set (t_stack st). \<exists>g \<in> G. idx st g \<le> idx st x \<and> (x, g) \<in> E\<^sup>*) \<and>
     (\<forall>x \<in> dom (t_index st) - G. E `` {x} \<subseteq> dom (t_index st))"

definition tarjan_ok :: "(string \<times> string) set \<Rightarrow> string set \<Rightarrow> tarjan \<Rightarrow> bool" where
  "tarjan_ok E G st \<longleftrightarrow> tables_ok st \<and> groups_ok E st \<and> stack_ok E G st"

text \<open>No edge from above \<open>v\<close> on the stack goes below \<open>k\<close>.\<close>

definition low_bound :: "(string \<times> string) set \<Rightarrow> tarjan \<Rightarrow> nat \<Rightarrow> string set \<Rightarrow> nat \<Rightarrow> bool" where
  "low_bound E st i S k \<longleftrightarrow>
     (\<forall>x \<in> S. \<forall>y \<in> set (t_stack st). (x, y) \<in> E \<longrightarrow> idx st y < i \<longrightarrow> k \<le> idx st y)"

definition low_real :: "(string \<times> string) set \<Rightarrow> tarjan \<Rightarrow> string \<Rightarrow> bool" where
  "low_real E st v \<longleftrightarrow> (\<exists>y \<in> set (t_stack st). idx st y = t_lowest st v \<and> (v, y) \<in> E\<^sup>*)"

text \<open>How a later state extends an earlier one while the nodes on its stack stay there.\<close>

definition extends :: "tarjan \<Rightarrow> tarjan \<Rightarrow> bool" where
  "extends st st' \<longleftrightarrow>
     t_index st \<subseteq>\<^sub>m t_index st' \<and> t_counter st \<le> t_counter st' \<and>
     (\<exists>new. t_stack st' = new @ t_stack st \<and> (\<forall>x \<in> set new. t_counter st \<le> idx st' x))"

lemma extends_refl [simp]: "extends st st"
  by (simp add: extends_def)

lemma extends_dom: "extends st st' \<Longrightarrow> dom (t_index st) \<subseteq> dom (t_index st')"
  by (simp add: extends_def map_le_implies_dom_le)

lemma extends_idx: "extends st st' \<Longrightarrow> x \<in> dom (t_index st) \<Longrightarrow> idx st' x = idx st x"
  by (auto simp: extends_def map_le_def idx_def)

lemma extends_stack: "extends st st' \<Longrightarrow> set (t_stack st) \<subseteq> set (t_stack st')"
  by (auto simp: extends_def)

lemma extendsE:
  assumes "extends st st'"
  obtains new where "t_stack st' = new @ t_stack st" "\<And>x. x \<in> set new \<Longrightarrow> t_counter st \<le> idx st' x"
  using assms by (auto simp: extends_def)

lemma extends_trans:
  assumes "extends st st'" "extends st' st''" "set (t_stack st') \<subseteq> dom (t_index st')"
  shows "extends st st''"
proof -
  obtain new where new: "t_stack st' = new @ t_stack st" "\<And>x. x \<in> set new \<Longrightarrow> t_counter st \<le> idx st' x"
    using assms(1) by (rule extendsE) blast
  obtain new' where new': "t_stack st'' = new' @ t_stack st'" "\<And>x. x \<in> set new' \<Longrightarrow> t_counter st' \<le> idx st'' x"
    using assms(2) by (rule extendsE) blast
  have c: "t_counter st \<le> t_counter st'" "t_counter st' \<le> t_counter st''"
    "t_index st \<subseteq>\<^sub>m t_index st'" "t_index st' \<subseteq>\<^sub>m t_index st''"
    using assms(1,2) by (simp_all add: extends_def)
  have "t_counter st \<le> idx st'' x" if "x \<in> set (new' @ new)" for x
  proof (cases "x \<in> set new")
    case True
    then have "x \<in> dom (t_index st')" using new(1) assms(3) by auto
    with True new(2) extends_idx [OF assms(2)] show ?thesis by simp
  next
    case False
    with that new'(2) c(1) show ?thesis using le_trans by fastforce
  qed
  then have "\<exists>new. t_stack st'' = new @ t_stack st \<and> (\<forall>x \<in> set new. t_counter st \<le> idx st'' x)"
    using new(1) new'(1) by (intro exI [of _ "new' @ new"]) simp
  with c show ?thesis unfolding extends_def by (metis le_trans map_le_trans)
qed

subsection \<open>Entering and leaving a node\<close>

lemma idx_enter [simp]: "idx (tarjan_enter v st) x = (if x = v then t_counter st else idx st x)"
  by (simp add: tarjan_enter_def idx_def)

lemma tables_okD:
  assumes "tables_ok st"
  shows "set (t_stack st) \<subseteq> dom (t_index st)" "x \<in> set (t_stack st) \<Longrightarrow> idx st x < t_counter st"
    "x \<in> dom (t_index st) \<Longrightarrow> idx st x < t_counter st"
    "t_on_stack st x \<longleftrightarrow> x \<in> set (t_stack st)"
  using assms by (auto simp: tables_ok_def)

lemma enter_fields [simp]:
  "t_stack (tarjan_enter v st) = v # t_stack st"
  "dom (t_index (tarjan_enter v st)) = insert v (dom (t_index st))"
  "popped (tarjan_enter v st) = popped st"
  "t_counter (tarjan_enter v st) = Suc (t_counter st)"
  "t_on_stack (tarjan_enter v st) x \<longleftrightarrow> x = v \<or> t_on_stack st x"
  "t_lowest (tarjan_enter v st) x = (if x = v then t_counter st else t_lowest st x)"
  "t_groups (tarjan_enter v st) = t_groups st"
  by (auto simp: popped_def tarjan_enter_def)

lemma tables_enter:
  assumes "tables_ok st" "v \<notin> dom (t_index st)"
  shows "tables_ok (tarjan_enter v st)"
proof -
  have v: "v \<notin> set (t_stack st)" "v \<notin> popped st" using assms by (auto simp: tables_ok_def)
  have lt: "x \<in> set (t_stack st) \<Longrightarrow> idx st x < t_counter st" for x
    using tables_okD(2) [OF assms(1)] .
  have "sorted_wrt (\<lambda>x y. idx st y < idx st x) (t_stack st)" using assms(1) by (simp add: tables_ok_def)
  then have "sorted_wrt (\<lambda>x y. idx (tarjan_enter v st) y < idx (tarjan_enter v st) x) (t_stack st)"
    by (rule sorted_wrt_mono_rel [rotated]) (use v in auto)
  then have s: "sorted_wrt (\<lambda>x y. idx (tarjan_enter v st) y < idx (tarjan_enter v st) x) (v # t_stack st)"
    using v lt by auto
  have c: "\<forall>x \<in> insert v (dom (t_index st)). idx (tarjan_enter v st) x < Suc (t_counter st)"
    using tables_okD(3) [OF assms(1)] by (auto simp: less_Suc_eq)
  have o: "\<forall>x. t_on_stack st x \<longleftrightarrow> x \<in> set (t_stack st)" "dom (t_index st) = set (t_stack st) \<union> popped st"
    "set (t_stack st) \<inter> popped st = {}"
    using assms(1) by (simp_all add: tables_ok_def)
  show ?thesis unfolding tables_ok_def enter_fields using s c o v by auto
qed

lemma stack_enter:
  assumes "tables_ok st" "stack_ok E G st" "v \<notin> dom (t_index st)" "\<forall>g \<in> G. (g, v) \<in> E\<^sup>*"
  shows "stack_ok E (insert v G) (tarjan_enter v st)"
proof -
  have v: "v \<notin> set (t_stack st)" using assms(1,3) by (auto simp: tables_ok_def)
  have lt: "x \<in> set (t_stack st) \<Longrightarrow> idx st x < t_counter st" for x
    using tables_okD(2) [OF assms(1)] .
  note s = assms(2) [unfolded stack_ok_def]
  have toG: "\<exists>g \<in> G. idx st g \<le> idx st x \<and> (x, g) \<in> E\<^sup>*" if "x \<in> set (t_stack st)" for x
    using s that by blast
  have toV: "(x, v) \<in> E\<^sup>*" if x: "x \<in> set (t_stack st)" for x
  proof -
    from toG [OF x] obtain g where "g \<in> G" "(x, g) \<in> E\<^sup>*" by blast
    with assms(4) show ?thesis by (blast intro: rtrancl_trans)
  qed
  have b: "(x, y) \<in> E\<^sup>*" if "x \<in> set (v # t_stack st)" "y \<in> set (v # t_stack st)"
    "idx (tarjan_enter v st) x \<le> idx (tarjan_enter v st) y" for x y
  proof (cases "y = v")
    case True
    with that toV show ?thesis by auto
  next
    case False
    with that lt [of y] have "x \<noteq> v" by auto
    with False that s show ?thesis by simp
  qed
  have c: "\<exists>g \<in> insert v G. idx (tarjan_enter v st) g \<le> idx (tarjan_enter v st) x \<and> (x, g) \<in> E\<^sup>*"
    if "x \<in> set (v # t_stack st)" for x
  proof (cases "x = v")
    case False
    with that toG obtain g where g: "g \<in> G" "idx st g \<le> idx st x" "(x, g) \<in> E\<^sup>*" by auto
    moreover have "g \<noteq> v" using v s g(1) by blast
    ultimately show ?thesis using False by (intro bexI [of _ g]) simp_all
  qed auto
  have a: "insert v G \<subseteq> set (v # t_stack st)" using s by auto
  have d: "\<forall>x \<in> insert v (dom (t_index st)) - insert v G. E `` {x} \<subseteq> insert v (dom (t_index st))"
    using s by blast
  show ?thesis unfolding stack_ok_def enter_fields using a b c d by blast
qed

lemma tarjan_enter_ok:
  assumes "tarjan_ok E G st" "v \<notin> dom (t_index st)" "\<forall>g \<in> G. (g, v) \<in> E\<^sup>*"
  shows "tarjan_ok E (insert v G) (tarjan_enter v st)" "extends st (tarjan_enter v st)"
proof -
  have "groups_ok E (tarjan_enter v st)"
    using assms(1) by (simp add: tarjan_ok_def groups_ok_def popped_def tarjan_enter_def)
  then show "tarjan_ok E (insert v G) (tarjan_enter v st)"
    using assms tables_enter stack_enter by (simp add: tarjan_ok_def)
  show "extends st (tarjan_enter v st)"
    using assms(2) by (auto simp: extends_def tarjan_enter_def map_le_def idx_def)
qed

lemma lower_to_simps [simp]:
  "t_index (lower_to v k st) = t_index st" "t_stack (lower_to v k st) = t_stack st"
  "t_on_stack (lower_to v k st) = t_on_stack st" "t_groups (lower_to v k st) = t_groups st"
  "t_counter (lower_to v k st) = t_counter st"
  "t_lowest (lower_to v k st) x = (if x = v then min (t_lowest st v) k else t_lowest st x)"
  "idx (lower_to v k st) x = idx st x"
  by (simp_all add: lower_to_def idx_def)

lemma lower_to_ok [simp]: "tarjan_ok E G (lower_to v k st) = tarjan_ok E G st"
  by (simp add: tarjan_ok_def tables_ok_def groups_ok_def stack_ok_def popped_def)

lemma lower_to_extends [simp]: "extends st (lower_to v k st') = extends st st'"
  by (simp add: extends_def)

lemma pop_until_split: "v \<notin> set new \<Longrightarrow> pop_until v (new @ v # rest) = (new @ [v], rest)"
  by (induction new) auto

text \<open>What a node's visit needs of the state before it leaves.\<close>

definition ready_to_leave :: "(string \<times> string) set \<Rightarrow> string set \<Rightarrow> string \<Rightarrow> tarjan \<Rightarrow> bool" where
  "ready_to_leave E G v st \<longleftrightarrow>
     tarjan_ok E (insert v G) st \<and> v \<notin> G \<and> v \<in> set (t_stack st) \<and> (\<forall>g \<in> G. idx st g < idx st v) \<and>
     E `` {v} \<subseteq> dom (t_index st) \<and> t_lowest st v \<le> idx st v \<and> low_real E st v \<and>
     low_bound E st (idx st v) {x \<in> set (t_stack st). idx st v \<le> idx st x} (t_lowest st v)"

lemma leave_keep:
  assumes "ready_to_leave E G v st" "t_lowest st v < idx st v"
  shows "tarjan_ok E G st"
proof -
  note r = assms(1) [unfolded ready_to_leave_def]
  have s: "stack_ok E (insert v G) st" using r by (simp add: tarjan_ok_def)
  obtain y where y: "y \<in> set (t_stack st)" "idx st y = t_lowest st v" "(v, y) \<in> E\<^sup>*"
    using r by (auto simp: low_real_def)
  have "\<exists>g \<in> insert v G. idx st g \<le> idx st y \<and> (y, g) \<in> E\<^sup>*"
    using s y(1) unfolding stack_ok_def by blast
  then obtain h where h: "h \<in> G" "idx st h \<le> idx st y" "(y, h) \<in> E\<^sup>*" using y(2) assms(2) by auto
  then have vh: "(v, h) \<in> E\<^sup>*" "idx st h \<le> idx st v" using y assms(2) by (auto intro: rtrancl_trans)
  have g: "\<exists>g \<in> G. idx st g \<le> idx st x \<and> (x, g) \<in> E\<^sup>*" if "x \<in> set (t_stack st)" for x
  proof -
    have "\<exists>g \<in> insert v G. idx st g \<le> idx st x \<and> (x, g) \<in> E\<^sup>*"
      using s that unfolding stack_ok_def by blast
    then obtain g where g: "g \<in> insert v G" "idx st g \<le> idx st x" "(x, g) \<in> E\<^sup>*" by blast
    show ?thesis
    proof (cases "g = v")
      case True
      then have "idx st h \<le> idx st x" "(x, h) \<in> E\<^sup>*" using g vh by (auto intro: rtrancl_trans)
      with h(1) show ?thesis by blast
    qed (use g in blast)
  qed
  have "G \<subseteq> set (t_stack st)" "\<forall>x \<in> dom (t_index st) - G. E `` {x} \<subseteq> dom (t_index st)"
    "\<forall>x \<in> set (t_stack st). \<forall>y \<in> set (t_stack st). idx st x \<le> idx st y \<longrightarrow> (x, y) \<in> E\<^sup>*"
    using s r unfolding stack_ok_def by blast+
  with g have "stack_ok E G st" unfolding stack_ok_def by simp
  with r show ?thesis by (simp add: tarjan_ok_def)
qed

lemma sorted_wrt_distinct: "sorted_wrt (\<lambda>x y. f y < (f x :: nat)) xs \<Longrightarrow> distinct xs"
  by (induction xs) auto

lemma stack_split:
  assumes "tables_ok st" "v \<in> set (t_stack st)"
  obtains new rest where "t_stack st = new @ v # rest" "v \<notin> set new" "v \<notin> set rest"
    "\<And>x. x \<in> set new \<Longrightarrow> idx st v < idx st x" "\<And>x. x \<in> set rest \<Longrightarrow> idx st x < idx st v"
    "set new \<inter> set rest = {}"
proof -
  obtain new rest where s: "t_stack st = new @ v # rest" using assms(2) by (meson split_list)
  have "sorted_wrt (\<lambda>x y. idx st y < idx st x) (new @ v # rest)"
    using assms(1) s by (simp add: tables_ok_def)
  then have lt: "\<And>x. x \<in> set new \<Longrightarrow> idx st v < idx st x" "\<And>x. x \<in> set rest \<Longrightarrow> idx st x < idx st v"
    by (auto simp: sorted_wrt_append)
  have "v \<notin> set new" "v \<notin> set rest" using lt(1) [of v] lt(2) [of v] by auto
  moreover have "set new \<inter> set rest = {}"
  proof (rule equals0I)
    fix x assume "x \<in> set new \<inter> set rest"
    with lt(1) [of x] lt(2) [of x] show False by simp
  qed
  ultimately show thesis using that [OF s _ _ lt] by blast
qed

lemma leave_pop:
  assumes r: "ready_to_leave E G v st" and eq: "t_lowest st v = idx st v"
    and sp: "t_stack st = new @ v # rest" "v \<notin> set new" "v \<notin> set rest"
      "\<And>x. x \<in> set new \<Longrightarrow> idx st v < idx st x" "\<And>x. x \<in> set rest \<Longrightarrow> idx st x < idx st v"
      "set new \<inter> set rest = {}"
  shows "tarjan_leave v st = st\<lparr>t_stack := rest,
           t_on_stack := (\<lambda>x. x \<notin> set (new @ [v]) \<and> t_on_stack st x),
           t_groups := t_groups st @ [new @ [v]]\<rparr>" (is "_ = ?st'")
    and "tarjan_ok E G (tarjan_leave v st)"
proof -
  note r' = r [unfolded ready_to_leave_def]
  have t: "tables_ok st" and g: "groups_ok E st" and s: "stack_ok E (insert v G) st"
    using r' by (simp_all add: tarjan_ok_def)
  have "v \<in> dom (t_index st)" using r' tables_okD(1) [OF t] by blast
  then have "t_index st v = Some (idx st v)" by (auto simp: idx_def)
  then show leave: "tarjan_leave v st = ?st'"
    using eq pop_until_split [OF sp(2)] by (simp add: tarjan_leave_def sp(1))
  let ?g = "insert v (set new)"
  have stk: "set (t_stack st) = ?g \<union> set rest" using sp(1) by auto
  have ge: "idx st v \<le> idx st x" if "x \<in> ?g" for x using that sp(4) [of x] by auto
  have cyc: "(v, x) \<in> E\<^sup>* \<and> (x, v) \<in> E\<^sup>*" if x: "x \<in> ?g" for x
  proof
    have xs: "x \<in> set (t_stack st)" using x stk by blast
    show "(v, x) \<in> E\<^sup>*" using s xs r' ge [OF x] unfolding stack_ok_def by blast
    have "\<exists>g \<in> insert v G. idx st g \<le> idx st x \<and> (x, g) \<in> E\<^sup>*" using s xs unfolding stack_ok_def by blast
    then obtain h where h: "h \<in> insert v G" "(x, h) \<in> E\<^sup>*" by blast
    have "h \<in> set (t_stack st)" using s h(1) unfolding stack_ok_def by blast
    moreover have "idx st h \<le> idx st v" using h(1) r' by (auto intro: less_imp_le)
    ultimately have "(h, v) \<in> E\<^sup>*" using s r' unfolding stack_ok_def by blast
    with h(2) show "(x, v) \<in> E\<^sup>*" by (rule rtrancl_trans)
  qed
  have closed: "y \<in> ?g \<union> popped st" if x: "x \<in> ?g" and xy: "(x, y) \<in> E" for x y
  proof (rule ccontr)
    assume ny: "y \<notin> ?g \<union> popped st"
    have xs: "x \<in> set (t_stack st)" using x stk by blast
    have xd: "x \<in> dom (t_index st)" using xs tables_okD(1) [OF t] by blast
    have xg: "x \<notin> G" using r' ge [OF x] by auto
    have "y \<in> dom (t_index st)"
    proof (cases "x = v")
      case True then show ?thesis using r' xy by blast
    next
      case False
      then have "x \<in> dom (t_index st) - insert v G" using xd xg by blast
      then show ?thesis using s xy unfolding stack_ok_def by blast
    qed
    then have "y \<in> set (t_stack st) \<union> popped st" using t unfolding tables_ok_def by blast
    then have yr: "y \<in> set rest" using ny stk by blast
    then have "idx st y < idx st v" by (rule sp(5))
    moreover have "t_lowest st v \<le> idx st y"
    proof -
      have "y \<in> set (t_stack st)" "x \<in> {x \<in> set (t_stack st). idx st v \<le> idx st x}"
        using yr stk xs ge [OF x] by auto
      with r' xy calculation show ?thesis unfolding low_bound_def by blast
    qed
    ultimately show False using eq by simp
  qed
  have disj: "set (t_stack st) \<inter> popped st = {}" using t by (simp add: tables_ok_def)
  have pc: "E `` popped st \<subseteq> popped st" using g by (simp add: groups_ok_def)
  have pc': "y \<in> popped st" if "(x, y) \<in> E\<^sup>*" "x \<in> popped st" for x y
    using that pc by (induction rule: rtrancl_induct) blast+
  have closed': "y \<in> ?g \<union> popped st" if "(x, y) \<in> E\<^sup>*" "x \<in> ?g" for x y
    using that closed pc by (induction rule: rtrancl_induct) blast+
  have scc: "scc E ?g" unfolding scc_def
  proof (intro conjI ballI allI)
    fix x y assume x: "x \<in> ?g"
    show "y \<in> ?g \<longleftrightarrow> (x, y) \<in> E\<^sup>* \<and> (y, x) \<in> E\<^sup>*"
    proof
      assume y: "y \<in> ?g"
      show "(x, y) \<in> E\<^sup>* \<and> (y, x) \<in> E\<^sup>*"
        using cyc [OF x] cyc [OF y] by (blast intro: rtrancl_trans)
    next
      assume c: "(x, y) \<in> E\<^sup>* \<and> (y, x) \<in> E\<^sup>*"
      show "y \<in> ?g"
      proof (rule ccontr)
        assume "y \<notin> ?g"
        then have "y \<in> popped st" using closed' c x by blast
        then have "x \<in> popped st" using pc' c by blast
        with x stk disj show False by blast
      qed
    qed
  qed blast
  have pop: "popped ?st' = popped st \<union> ?g" by (auto simp: popped_def)
  have idx: "idx ?st' x = idx st x" for x by (simp add: idx_def)
  have os: "t_on_stack st x \<longleftrightarrow> x \<in> set (t_stack st)" for x using tables_okD(4) [OF t] .
  have "sorted_wrt (\<lambda>x y. idx st y < idx st x) rest"
    using t sp(1) by (simp add: tables_ok_def sorted_wrt_append)
  then have t': "tables_ok ?st'"
    using t os disj sp(2,3,6) stk unfolding tables_ok_def pop idx by auto
  have "sorted_wrt (\<lambda>x y. idx st y < idx st x) new"
    using t sp(1) by (simp add: tables_ok_def sorted_wrt_append)
  then have "distinct new" by (rule sorted_wrt_distinct)
  moreover have "set (concat (t_groups st)) = popped st" by (simp add: popped_def)
  moreover have "set new \<inter> popped st = {}" "v \<notin> popped st" using disj stk by blast+
  ultimately have "distinct (concat (t_groups st @ [new @ [v]]))"
    using g sp(2) unfolding groups_ok_def by auto
  then have g': "groups_ok E ?st'"
    using g closed pc scc unfolding groups_ok_def pop by auto
  have Gr: "G \<subseteq> set rest"
  proof
    fix h assume h: "h \<in> G"
    then have "idx st h < idx st v" "h \<in> set (t_stack st)" using r' s unfolding stack_ok_def by blast+
    then show "h \<in> set rest" using stk ge [of h] by auto
  qed
  have gr: "\<exists>g \<in> G. idx st g \<le> idx st x \<and> (x, g) \<in> E\<^sup>*" if x: "x \<in> set rest" for x
  proof -
    have "\<exists>g \<in> insert v G. idx st g \<le> idx st x \<and> (x, g) \<in> E\<^sup>*" using s x stk unfolding stack_ok_def by blast
    then show ?thesis using sp(5) [OF x] by auto
  qed
  have rr: "\<forall>x \<in> set rest. \<forall>y \<in> set rest. idx st x \<le> idx st y \<longrightarrow> (x, y) \<in> E\<^sup>*"
    using s stk unfolding stack_ok_def by blast
  have dd: "\<forall>x \<in> dom (t_index st) - G. E `` {x} \<subseteq> dom (t_index st)"
    using s r' unfolding stack_ok_def by blast
  have "stack_ok E G ?st'"
    using Gr gr rr dd unfolding stack_ok_def idx by simp
  with t' g' leave show "tarjan_ok E G (tarjan_leave v st)" by (simp add: tarjan_ok_def)
qed

subsection \<open>A whole visit\<close>

text \<open>What holds of a state while \<open>v\<close>'s successors are being visited.\<close>

definition visiting :: "(string \<times> string) set \<Rightarrow> string set \<Rightarrow> string \<Rightarrow> tarjan \<Rightarrow> bool" where
  "visiting E G v st \<longleftrightarrow>
     tarjan_ok E (insert v G) st \<and> v \<notin> G \<and> v \<in> set (t_stack st) \<and> (\<forall>g \<in> G. idx st g < idx st v) \<and>
     t_lowest st v \<le> idx st v \<and> low_real E st v \<and>
     low_bound E st (idx st v) {x \<in> set (t_stack st). idx st v < idx st x} (t_lowest st v)"

definition visited_ok :: "(string \<times> string) set \<Rightarrow> string set \<Rightarrow> string \<Rightarrow> tarjan \<Rightarrow> tarjan \<Rightarrow> bool" where
  "visited_ok E G v st st' \<longleftrightarrow>
     tarjan_ok E G st' \<and> extends st st' \<and> v \<in> dom (t_index st') \<and> idx st' v = t_counter st \<and>
     (\<forall>x \<in> dom (t_index st). t_lowest st' x = t_lowest st x) \<and>
     (if v \<in> set (t_stack st') then low_real E st' v else t_lowest st' v = idx st' v) \<and>
     low_bound E st' (t_counter st) {x \<in> set (t_stack st'). t_counter st \<le> idx st' x} (t_lowest st' v)"

lemma visiting_facts:
  assumes "visiting E G v st"
  shows "tables_ok st" "v \<in> dom (t_index st)" "idx st v < t_counter st" "set (t_stack st) \<subseteq> dom (t_index st)"
    "g \<in> insert v G \<Longrightarrow> (g, v) \<in> E\<^sup>*"
proof -
  note r = assms [unfolded visiting_def]
  show t: "tables_ok st" using r by (simp add: tarjan_ok_def)
  show d: "set (t_stack st) \<subseteq> dom (t_index st)" by (rule tables_okD(1) [OF t])
  then show "v \<in> dom (t_index st)" using r by blast
  show "idx st v < t_counter st" using tables_okD(2) [OF t] r by blast
  assume g: "g \<in> insert v G"
  have s: "stack_ok E (insert v G) st" using r by (simp add: tarjan_ok_def)
  have "g \<in> set (t_stack st)" using s g unfolding stack_ok_def by blast
  moreover have "idx st g \<le> idx st v" using g r by (auto intro: less_imp_le)
  ultimately show "(g, v) \<in> E\<^sup>*" using s r unfolding stack_ok_def by blast
qed

lemma low_bound_mono: "low_bound E st i S k \<Longrightarrow> k' \<le> k \<Longrightarrow> low_bound E st i S k'"
  unfolding low_bound_def by (meson le_trans)

lemma low_bound_lower [simp]: "low_bound E (lower_to u j st) i S k = low_bound E st i S k"
  by (simp add: low_bound_def)

lemma visiting_start:
  assumes "tarjan_ok E G st" "v \<notin> dom (t_index st)" "\<forall>g \<in> G. (g, v) \<in> E\<^sup>*"
  shows "visiting E G v (tarjan_enter v st)"
proof -
  have t: "tables_ok st" and s: "stack_ok E G st" using assms(1) by (simp_all add: tarjan_ok_def)
  have G: "g \<in> set (t_stack st)" if "g \<in> G" for g using s that unfolding stack_ok_def by blast
  have v: "v \<notin> G" using G tables_okD(1) [OF t] assms(2) by blast
  have lt: "x \<in> set (t_stack st) \<Longrightarrow> idx st x < t_counter st" for x by (rule tables_okD(2) [OF t])
  have nv: "v \<notin> set (t_stack st)" using tables_okD(1) [OF t] assms(2) by blast
  have e: "{x \<in> set (v # t_stack st). t_counter st < idx (tarjan_enter v st) x} = {}"
    using lt nv by (auto dest: less_asym)
  have "low_real E (tarjan_enter v st) v" unfolding low_real_def enter_fields by (intro bexI [of _ v]) auto
  moreover have "\<forall>g \<in> G. idx (tarjan_enter v st) g < t_counter st" using G lt v by auto
  ultimately show ?thesis
    unfolding visiting_def enter_fields idx_enter
    using tarjan_enter_ok(1) [OF assms] v e by (auto simp: low_bound_def)
qed

lemma visiting_seen:
  assumes "visiting E G v st" "w \<in> set (t_stack st)" "(v, w) \<in> E"
  shows "visiting E G v (lower_to v (idx st w) st)"
proof -
  note r = assms(1) [unfolded visiting_def]
  obtain y where y: "y \<in> set (t_stack st)" "idx st y = t_lowest st v" "(v, y) \<in> E\<^sup>*"
    using r by (auto simp: low_real_def)
  have "low_real E (lower_to v (idx st w) st) v"
  proof (cases "idx st w < t_lowest st v")
    case True
    then show ?thesis using assms(2,3) by (auto simp: low_real_def intro!: bexI [of _ w])
  next
    case False
    then show ?thesis using y by (auto simp: low_real_def intro!: bexI [of _ y])
  qed
  then show ?thesis
    using r low_bound_mono [of E st "idx st v" _ "t_lowest st v" "min (t_lowest st v) (idx st w)"]
    by (auto simp: visiting_def)
qed

lemma visiting_new:
  assumes vis: "visiting E G v st" and new: "visited_ok E (insert v G) w st st'"
    and vw: "(v, w) \<in> E"
  shows "visiting E G v (lower_to v (t_lowest st' w) st')"
proof -
  note r = vis [unfolded visiting_def] and n = new [unfolded visited_ok_def] and f = visiting_facts [OF vis]
  have ext: "extends st st'" using n by blast
  obtain fresh where fr: "t_stack st' = fresh @ t_stack st" "\<And>x. x \<in> set fresh \<Longrightarrow> t_counter st \<le> idx st' x"
    using ext by (rule extendsE) blast
  have same: "x \<in> dom (t_index st) \<Longrightarrow> idx st' x = idx st x" for x by (rule extends_idx [OF ext])
  have iv: "idx st' v = idx st v" using same f(2) by blast
  have lv: "t_lowest st' v = t_lowest st v" using n f(2) by blast
  have ok: "tarjan_ok E (insert v G) st'" using n by blast
  have Gs: "g \<in> dom (t_index st)" if "g \<in> G" for g
    using r that f(4) unfolding tarjan_ok_def stack_ok_def by blast
  have Glt: "\<forall>g \<in> G. idx st' g < idx st' v" using r same Gs iv by simp
  have wv: "idx st v < idx st' w" using n f(3) by simp
  have real: "low_real E (lower_to v (t_lowest st' w) st') v"
  proof (cases "t_lowest st' w < t_lowest st v")
    case True
    then have "t_lowest st' w \<noteq> idx st' w" using r wv by simp
    then have "low_real E st' w" using n by (auto split: if_splits)
    then obtain y where y: "y \<in> set (t_stack st')" "idx st' y = t_lowest st' w" "(w, y) \<in> E\<^sup>*"
      by (auto simp: low_real_def)
    from y(3) vw have "(v, y) \<in> E\<^sup>*" by (rule converse_rtrancl_into_rtrancl [rotated])
    with y(1,2) True lv show ?thesis by (auto simp: low_real_def intro!: bexI [of _ y])
  next
    case False
    obtain y where y: "y \<in> set (t_stack st)" "idx st y = t_lowest st v" "(v, y) \<in> E\<^sup>*"
      using r by (auto simp: low_real_def)
    have "idx st' y = t_lowest st v" using same [OF subsetD [OF f(4) y(1)]] y(2) by simp
    with y False lv fr(1) show ?thesis by (auto simp: low_real_def intro!: bexI [of _ y])
  qed
  have bound: "low_bound E st' (idx st v) {x \<in> set (t_stack st'). idx st v < idx st' x}
      (min (t_lowest st v) (t_lowest st' w))"
    unfolding low_bound_def
  proof (intro ballI impI)
    fix x y assume x: "x \<in> {x \<in> set (t_stack st'). idx st v < idx st' x}"
      and y: "y \<in> set (t_stack st')" and xy: "(x, y) \<in> E" and yv: "idx st' y < idx st v"
    have yold: "y \<in> set (t_stack st)" using y fr yv f(3) by force
    show "min (t_lowest st v) (t_lowest st' w) \<le> idx st' y"
    proof (cases "x \<in> set (t_stack st)")
      case True
      then have "x \<in> {x \<in> set (t_stack st). idx st v < idx st x}" "idx st y < idx st v"
        using x yv same [OF subsetD [OF f(4) yold]] same [OF subsetD [OF f(4) True]] by auto
      with r xy yold have "t_lowest st v \<le> idx st y" unfolding low_bound_def by blast
      also have "idx st y = idx st' y" using same [OF subsetD [OF f(4) yold]] by simp
      finally show ?thesis by simp
    next
      case False
      then have "x \<in> set fresh" using x fr(1) by simp
      then have "x \<in> {x \<in> set (t_stack st'). t_counter st \<le> idx st' x}" using fr by auto
      moreover have "idx st' y < t_counter st" using yv f(3) by simp
      ultimately have "t_lowest st' w \<le> idx st' y" using n xy y unfolding low_bound_def by blast
      then show ?thesis by simp
    qed
  qed
  have "v \<in> set (t_stack st')" using r fr(1) by simp
  with r ok Glt iv lv real bound show ?thesis by (auto simp: visiting_def)
qed

text \<open>What the loop over the successors gives.\<close>

definition successors_ok :: "(string \<times> string) set \<Rightarrow> string set \<Rightarrow> string \<Rightarrow> string list \<Rightarrow> tarjan \<Rightarrow> tarjan \<Rightarrow> bool" where
  "successors_ok E G v ws st st' \<longleftrightarrow>
     visiting E G v st' \<and> extends st st' \<and> t_lowest st' v \<le> t_lowest st v \<and>
     (\<forall>x \<in> dom (t_index st) - {v}. t_lowest st' x = t_lowest st x) \<and>
     (\<forall>w \<in> set ws. w \<in> dom (t_index st') \<and>
        (w \<in> set (t_stack st') \<longrightarrow> idx st' w < idx st' v \<longrightarrow> t_lowest st' v \<le> idx st' w))"

lemma ready_from_successors:
  assumes "successors_ok E G v ws st st'" "E `` {v} = set ws"
  shows "ready_to_leave E G v st'"
proof -
  note p = assms(1) [unfolded successors_ok_def]
  note r = p [THEN conjunct1, unfolded visiting_def]
  have t: "tables_ok st'" using r by (simp add: tarjan_ok_def)
  have vs: "v \<in> set (t_stack st')" using r by blast
  obtain new rest where sp: "t_stack st' = new @ v # rest" "\<And>x. x \<in> set new \<Longrightarrow> idx st' v < idx st' x"
    "\<And>x. x \<in> set rest \<Longrightarrow> idx st' x < idx st' v"
    using stack_split [OF t vs] by metis
  have "low_bound E st' (idx st' v) {x \<in> set (t_stack st'). idx st' v \<le> idx st' x} (t_lowest st' v)"
    unfolding low_bound_def
  proof (intro ballI impI)
    fix x y assume x: "x \<in> {x \<in> set (t_stack st'). idx st' v \<le> idx st' x}"
      and y: "y \<in> set (t_stack st')" "(x, y) \<in> E" "idx st' y < idx st' v"
    show "t_lowest st' v \<le> idx st' y"
    proof (cases "x = v")
      case True
      with y assms(2) p show ?thesis by blast
    next
      case False
      with x sp have "x \<in> {x \<in> set (t_stack st'). idx st' v < idx st' x}" by fastforce
      with r y show ?thesis unfolding low_bound_def by blast
    qed
  qed
  moreover have "E `` {v} \<subseteq> dom (t_index st')" using p assms(2) by blast
  ultimately show ?thesis using r by (simp add: ready_to_leave_def)
qed

lemma leave_fields [simp]:
  "t_index (tarjan_leave v st) = t_index st" "t_lowest (tarjan_leave v st) = t_lowest st"
  "t_counter (tarjan_leave v st) = t_counter st" "idx (tarjan_leave v st) = idx st"
  by (simp_all add: tarjan_leave_def idx_def fun_eq_iff split: prod.splits)

lemma visited_from_successors:
  assumes st: "tarjan_ok E G st" "v \<notin> dom (t_index st)"
    and p: "successors_ok E G v ws (tarjan_enter v st) st'" and ws: "E `` {v} = set ws"
  shows "visited_ok E G v st (tarjan_leave v st')"
proof -
  note p' = p [unfolded successors_ok_def]
  have ready: "ready_to_leave E G v st'" using p ws by (rule ready_from_successors)
  note r = ready [unfolded ready_to_leave_def]
  have t: "tables_ok st" using st(1) by (simp add: tarjan_ok_def)
  have lt: "x \<in> set (t_stack st) \<Longrightarrow> idx st x < t_counter st" for x by (rule tables_okD(2) [OF t])
  have sd: "set (t_stack st) \<subseteq> dom (t_index st)" by (rule tables_okD(1) [OF t])
  have ext: "extends (tarjan_enter v st) st'" using p' by blast
  obtain new where new: "t_stack st' = new @ v # t_stack st" "\<And>x. x \<in> set new \<Longrightarrow> Suc (t_counter st) \<le> idx st' x"
    using extendsE [OF ext] unfolding enter_fields by blast
  have iv: "idx st' v = t_counter st" using extends_idx [OF ext, of v] by simp
  have same: "idx st' x = idx st x" if "x \<in> dom (t_index st)" for x
    using extends_idx [OF ext, of x] that st(2) by (auto split: if_splits)
  have old: "idx st' x < t_counter st" if "x \<in> set (t_stack st)" for x
    using lt [OF that] same [OF subsetD [OF sd that]] by simp
  have low: "\<forall>x \<in> dom (t_index st). t_lowest st' x = t_lowest st x"
  proof
    fix x assume x: "x \<in> dom (t_index st)"
    with st(2) have "x \<noteq> v" by blast
    moreover from this x p' have "t_lowest st' x = t_lowest (tarjan_enter v st) x" by simp
    ultimately show "t_lowest st' x = t_lowest st x" by simp
  qed
  have "t_index st \<subseteq>\<^sub>m t_index (tarjan_enter v st)"
    using st(2) by (auto simp: tarjan_enter_def map_le_def)
  then have ext2: "t_index st \<subseteq>\<^sub>m t_index st'" "t_counter st \<le> t_counter st'"
    using ext map_le_trans by (auto simp: extends_def)
  have vd: "v \<in> dom (t_index st')" using extends_dom [OF ext] by simp
  show ?thesis
  proof (cases "t_lowest st' v = idx st' v")
    case True
    have nv: "v \<notin> set new" "v \<notin> set (t_stack st)" "set new \<inter> set (t_stack st) = {}"
      using new(2) [of v] iv sd st(2) new(2) old by fastforce+
    note lp = leave_pop [OF ready True new(1) nv(1,2) _ _ nv(3)]
    have lv: "tarjan_leave v st' = st'\<lparr>t_stack := t_stack st,
           t_on_stack := (\<lambda>x. x \<notin> set (new @ [v]) \<and> t_on_stack st' x),
           t_groups := t_groups st' @ [new @ [v]]\<rparr>"
      by (rule lp(1)) (use new(2) iv old in force)+
    have ok: "tarjan_ok E G (tarjan_leave v st')"
      by (rule lp(2)) (use new(2) iv old in force)+
    have stk: "t_stack (tarjan_leave v st') = t_stack st" by (simp add: lv)
    have "extends st (tarjan_leave v st')" using ext2 stk by (simp add: extends_def)
    moreover have "low_bound E (tarjan_leave v st') (t_counter st)
        {x \<in> set (t_stack st). t_counter st \<le> idx st' x} (t_lowest st' v)"
      using old by (fastforce simp: low_bound_def dest: leD)
    ultimately show ?thesis
      using ok low vd iv True nv(2) stk by (auto simp: visited_ok_def)
  next
    case False
    then have less: "t_lowest st' v < idx st' v" using r by simp
    have lv: "tarjan_leave v st' = st'" using False vd by (auto simp: tarjan_leave_def idx_def)
    have ok: "tarjan_ok E G st'" using ready less by (rule leave_keep)
    have "extends st st'"
      using ext2 new iv by (auto simp: extends_def intro!: exI [of _ "new @ [v]"] dest: Suc_leD)
    then show ?thesis
      using ok low vd iv r lv by (auto simp: visited_ok_def)
  qed
qed

subsection \<open>The recursion\<close>

definition fuel_for :: "string set \<Rightarrow> nat \<Rightarrow> tarjan \<Rightarrow> bool" where
  "fuel_for U fuel st \<longleftrightarrow> card (U - dom (t_index st)) \<le> fuel"

lemma fuel_for_mono:
  assumes "finite U" "fuel_for U fuel st" "dom (t_index st) \<subseteq> dom (t_index st')"
  shows "fuel_for U fuel st'"
proof -
  have "card (U - dom (t_index st')) \<le> card (U - dom (t_index st))"
    using assms(1,3) by (intro card_mono) auto
  with assms(2) show ?thesis by (simp add: fuel_for_def)
qed

lemma fuel_for_enter:
  assumes "finite U" "fuel_for U fuel st" "v \<in> U" "v \<notin> dom (t_index st)"
  shows "\<exists>k. fuel = Suc k \<and> fuel_for U k (tarjan_enter v st)"
proof -
  have "U - insert v (dom (t_index st)) \<subset> U - dom (t_index st)" using assms(3,4) by blast
  then have "card (U - insert v (dom (t_index st))) < card (U - dom (t_index st))"
    using assms(1) by (intro psubset_card_mono) auto
  with assms(2) show ?thesis by (cases fuel) (auto simp: fuel_for_def)
qed

text \<open>One successor handled, then the rest.\<close>

lemma successors_cons:
  assumes vis: "visiting E G v st1" "v \<in> dom (t_index st)" and ext: "extends st st1"
    and low: "t_lowest st1 v \<le> t_lowest st v" "\<forall>x \<in> dom (t_index st) - {v}. t_lowest st1 x = t_lowest st x"
    and w: "w \<in> dom (t_index st1)" "w \<in> set (t_stack st1) \<Longrightarrow> idx st1 w < idx st1 v \<Longrightarrow> t_lowest st1 v \<le> idx st1 w"
    and rest: "successors_ok E G v ws st1 st'"
  shows "successors_ok E G v (w # ws) st st'"
proof -
  note r = rest [unfolded successors_ok_def]
  have t: "tables_ok st1" "set (t_stack st1) \<subseteq> dom (t_index st1)" using visiting_facts [OF vis(1)] by blast+
  have ext': "extends st1 st'" using r by blast
  obtain new where new: "t_stack st' = new @ t_stack st1" "\<And>x. x \<in> set new \<Longrightarrow> t_counter st1 \<le> idx st' x"
    using ext' by (rule extendsE) blast
  have iw: "idx st' w = idx st1 w" by (rule extends_idx [OF ext' w(1)])
  have iv: "idx st' v = idx st1 v" using extends_idx [OF ext' visiting_facts(2) [OF vis(1)]] .
  have "w \<in> dom (t_index st')" using extends_dom [OF ext'] w(1) by blast
  moreover have "t_lowest st' v \<le> idx st' w" if ws: "w \<in> set (t_stack st')" "idx st' w < idx st' v"
  proof -
    have "idx st' w < t_counter st1" using tables_okD(3) [OF t(1) w(1)] iw by simp
    then have "w \<in> set (t_stack st1)" using ws(1) new by fastforce
    with w(2) ws(2) iw iv r show ?thesis by fastforce
  qed
  moreover have "extends st st'" by (rule extends_trans [OF ext ext' t(2)])
  moreover have "t_lowest st' v \<le> t_lowest st v" using r low(1) by simp
  moreover have "\<forall>x \<in> dom (t_index st) - {v}. t_lowest st' x = t_lowest st x"
    using r low(2) extends_dom [OF ext] by (metis DiffD1 DiffD2 DiffI subsetD)
  ultimately show ?thesis using r by (auto simp: successors_ok_def)
qed

lemma tarjan_correct:
  fixes U :: "string set" and es :: arcs
  assumes fin: "finite U"
  shows "set es `` U \<subseteq> U \<Longrightarrow> tarjan_ok (set es) G st \<Longrightarrow> v \<notin> dom (t_index st) \<Longrightarrow> \<forall>g \<in> G. (g, v) \<in> (set es)\<^sup>* \<Longrightarrow>
      v \<in> U \<Longrightarrow> fuel_for U fuel st \<Longrightarrow>
      \<exists>st'. tarjan_visit fuel es v st = Some st' \<and> visited_ok (set es) G v st st'"
    and "set es `` U \<subseteq> U \<Longrightarrow> visiting (set es) G v st \<Longrightarrow> set ws \<subseteq> set es `` {v} \<Longrightarrow> v \<in> U \<Longrightarrow> fuel_for U fuel st \<Longrightarrow>
      \<exists>st'. tarjan_successors fuel es v ws st = Some st' \<and> successors_ok (set es) G v ws st st'"
proof (induction fuel es v st and fuel es v ws st arbitrary: G and G
    rule: tarjan_visit_tarjan_successors.induct)
  case (1 es v st)
  then show ?case using fuel_for_enter [OF fin] by blast
next
  case (2 fuel es v st)
  have f: "fuel_for U fuel (tarjan_enter v st)" using fuel_for_enter [OF fin 2(7,6,4)] by auto
  have adj: "set (adjacent es v) = set es `` {v}" by (auto simp: graph_simps)
  obtain st' where st': "tarjan_successors fuel es v (adjacent es v) (tarjan_enter v st) = Some st'"
    "successors_ok (set es) G v (adjacent es v) (tarjan_enter v st) st'"
    using 2(1) [OF 2(2) visiting_start [OF 2(3-5)] _ 2(6) f] adj by auto
  show ?case
    using st'(1) visited_from_successors [OF 2(3,4) st'(2)] adj by simp
next
  case (3 fuel es v st)
  then show ?case by (simp add: successors_ok_def)
next
  case (4 fuel es v w ws st)
  note IH_visit = 4(1) and IH_new = 4(2) and IH_seen = 4(3) and closed = 4(4) and vis = 4(5)
  have vw: "(v, w) \<in> set es" and ws: "set ws \<subseteq> set es `` {v}" using 4(6) by auto
  have wU: "w \<in> U" using subsetD [OF closed ImageI [OF vw 4(7)]] .
  note vf = visiting_facts [OF vis]
  show ?case
  proof (cases "t_index st w")
    case None
    then have wd: "w \<notin> dom (t_index st)" by auto
    have ok: "tarjan_ok (set es) (insert v G) st" using vis by (simp add: visiting_def)
    have "\<forall>g \<in> insert v G. (g, w) \<in> (set es)\<^sup>*" using vf(5) vw by (blast intro: rtrancl_into_rtrancl)
    from IH_visit [OF None closed ok wd this wU 4(8)] obtain st1 where
      st1: "tarjan_visit fuel es w st = Some st1" "visited_ok (set es) (insert v G) w st st1" by blast
    note n = st1(2) [unfolded visited_ok_def]
    let ?st1 = "lower_to v (t_lowest st1 w) st1"
    have vis1: "visiting (set es) G v ?st1" by (rule visiting_new [OF vis st1(2) vw])
    have ext: "extends st ?st1" using n by simp
    have "fuel_for U fuel ?st1" by (rule fuel_for_mono [OF fin 4(8)]) (rule extends_dom [OF ext])
    from IH_new [OF None st1(1) closed vis1 ws 4(7) this] obtain st' where
      st': "tarjan_successors fuel es v ws ?st1 = Some st'" "successors_ok (set es) G v ws ?st1 st'" by blast
    have "successors_ok (set es) G v (w # ws) st st'"
    proof (rule successors_cons [OF vis1 vf(2) ext _ _ _ _ st'(2)])
      show "t_lowest ?st1 v \<le> t_lowest st v" using n vf(2) by simp
      show "\<forall>x \<in> dom (t_index st) - {v}. t_lowest ?st1 x = t_lowest st x" using n by simp
      show "w \<in> dom (t_index ?st1)" using n by simp
      assume "idx ?st1 w < idx ?st1 v"
      moreover have "idx ?st1 w = t_counter st" "idx ?st1 v = idx st v"
        using n extends_idx [OF ext vf(2)] by simp_all
      ultimately show "t_lowest ?st1 v \<le> idx ?st1 w" using vf(3) by simp
    qed
    with None st1(1) st'(1) show ?thesis by simp
  next
    case (Some i)
    then have wd: "w \<in> dom (t_index st)" and i: "i = idx st w" by (auto simp: idx_def)
    let ?st1 = "if t_on_stack st w then lower_to v i st else st"
    have on: "t_on_stack st w \<longleftrightarrow> w \<in> set (t_stack st)" by (rule tables_okD(4) [OF vf(1)])
    have vis1: "visiting (set es) G v ?st1" using vis visiting_seen [OF vis _ vw] on i by auto
    have ext: "extends st ?st1" by simp
    have "fuel_for U fuel ?st1" by (rule fuel_for_mono [OF fin 4(8)]) (rule extends_dom [OF ext])
    from IH_seen [OF Some closed vis1 ws 4(7) this] obtain st' where
      st': "tarjan_successors fuel es v ws ?st1 = Some st'" "successors_ok (set es) G v ws ?st1 st'" by blast
    have "successors_ok (set es) G v (w # ws) st st'"
      by (rule successors_cons [OF vis1 vf(2) ext _ _ _ _ st'(2)]) (use wd i on in auto)
    with Some st'(1) show ?thesis by simp
  qed
qed

lemma tarjan_visit_dom:
  shows "set es `` U \<subseteq> U \<Longrightarrow> tarjan_visit fuel es v st = Some st' \<Longrightarrow> v \<in> U \<Longrightarrow> dom (t_index st) \<subseteq> U \<Longrightarrow> dom (t_index st') \<subseteq> U"
    and "set es `` U \<subseteq> U \<Longrightarrow> tarjan_successors fuel es v ws st = Some st' \<Longrightarrow> set ws \<subseteq> U \<Longrightarrow> dom (t_index st) \<subseteq> U \<Longrightarrow> dom (t_index st') \<subseteq> U"
proof (induction fuel es v st and fuel es v ws st arbitrary: st' and st'
    rule: tarjan_visit_tarjan_successors.induct)
  case (2 fuel es v st)
  then obtain st1 where st1: "tarjan_successors fuel es v (adjacent es v) (tarjan_enter v st) = Some st1"
    "st' = tarjan_leave v st1" by (auto split: option.splits)
  have "set (adjacent es v) \<subseteq> U" using 2(2,4) by (force simp: graph_simps)
  with 2 st1 show ?case by simp
qed (auto split: option.splits if_splits)

lemma tarjan_all_correct:
  fixes U :: "string set" and es :: arcs
  assumes U: "finite U" "set es `` U \<subseteq> U"
  shows "tarjan_ok (set es) {} st \<Longrightarrow> set vs \<subseteq> U \<Longrightarrow> fuel_for U fuel st \<Longrightarrow> dom (t_index st) \<subseteq> U \<Longrightarrow>
    \<exists>st'. tarjan_all fuel es vs st = Some st' \<and> tarjan_ok (set es) {} st' \<and>
      set vs \<union> dom (t_index st) \<subseteq> dom (t_index st') \<and> dom (t_index st') \<subseteq> U"
proof (induction vs arbitrary: st)
  case (Cons v vs)
  show ?case
  proof (cases "t_index st v")
    case None
    then have "v \<notin> dom (t_index st)" "v \<in> U" using Cons(3) by auto
    with tarjan_correct(1) [OF U(1,2) Cons(2) _ _ _ Cons(4), of v] obtain st1 where
      st1: "tarjan_visit fuel es v st = Some st1" "visited_ok (set es) {} v st st1" by auto
    note n = st1(2) [unfolded visited_ok_def]
    have d: "dom (t_index st) \<subseteq> dom (t_index st1)" using n extends_dom by blast
    have "fuel_for U fuel st1" by (rule fuel_for_mono [OF U(1) Cons(4) d])
    moreover have "dom (t_index st1) \<subseteq> U"
      using tarjan_visit_dom(1) [OF U(2) st1(1) \<open>v \<in> U\<close> Cons(5)] .
    ultimately obtain st' where "tarjan_all fuel es vs st1 = Some st'" "tarjan_ok (set es) {} st'"
      "set vs \<union> dom (t_index st1) \<subseteq> dom (t_index st')" "dom (t_index st') \<subseteq> U"
      using Cons(1) [of st1] n Cons(3) by auto
    moreover from this n d have "insert v (set vs) \<union> dom (t_index st) \<subseteq> dom (t_index st')" by blast
    ultimately show ?thesis using None st1(1) by simp
  next
    case (Some i)
    obtain st' where "tarjan_all fuel es vs st = Some st'" "tarjan_ok (set es) {} st'"
      "set vs \<union> dom (t_index st) \<subseteq> dom (t_index st')" "dom (t_index st') \<subseteq> U"
      using Cons(1) [OF Cons(2) _ Cons(4,5)] Cons(3) by auto
    with Some show ?thesis by auto
  qed
qed simp

lemma tarjan_start_ok: "tarjan_ok E {} tarjan_start"
  by (simp add: tarjan_ok_def tables_ok_def groups_ok_def stack_ok_def popped_def tarjan_start_def)

lemma tarjan_done:
  assumes "tarjan_ok E {} st"
  shows "popped st = dom (t_index st)"
proof -
  have "set (t_stack st) = {}" using assms by (auto simp: tarjan_ok_def stack_ok_def)
  then show ?thesis using assms by (simp add: tarjan_ok_def tables_ok_def)
qed

lemma sort_groups_spec:
  "set ` set (sort_groups q gs) = set ` set gs"
  "distinct (concat gs) \<Longrightarrow> [] \<notin> set gs \<Longrightarrow> distinct (map set (sort_groups q gs))"
proof -
  show "set ` set (sort_groups q gs) = set ` set gs" by (auto simp: sort_groups_def image_image)
  assume d: "distinct (concat gs)" and ne: "[] \<notin> set gs"
  have "distinct (map set gs)" using d ne
  proof (induction gs)
    case (Cons g gs)
    moreover have "set g \<noteq> set h" if "h \<in> set gs" for h
      using Cons(2,3) that by (cases g) auto
    ultimately show ?case by auto
  qed simp
  moreover have "mset (map set (sort_groups q gs)) = mset (map set gs)"
    by (simp add: sort_groups_def multiset.map_comp comp_def)
  ultimately show "distinct (map set (sort_groups q gs))" using mset_eq_imp_distinct_iff by blast
qed

lemma strongly_connected_spec:
  assumes closed: "set es `` set q \<subseteq> set q"
  obtains groups where "strongly_connected q es = Some groups" "\<forall>g \<in> set groups. scc (set es) (set g)"
    "\<Union> (set ` set groups) = set q" "distinct (map set groups)"
proof -
  have "fuel_for (set q) (length q) tarjan_start"
    by (simp add: fuel_for_def tarjan_start_def card_length)
  with tarjan_all_correct [OF _ closed tarjan_start_ok, of q "length q"] obtain st where
    st: "tarjan_all (length q) es q tarjan_start = Some st" "tarjan_ok (set es) {} st"
      "set q \<subseteq> dom (t_index st)" "dom (t_index st) \<subseteq> set q"
    by (auto simp: tarjan_start_def)
  let ?gs = "sort_groups q (t_groups st)"
  have g: "groups_ok (set es) st" using st(2) by (simp add: tarjan_ok_def)
  then have ne: "[] \<notin> set (t_groups st)" by (auto simp: groups_ok_def scc_def)
  have "strongly_connected q es = Some ?gs" using st(1) by (simp add: strongly_connected_def)
  moreover have "\<forall>g \<in> set ?gs. scc (set es) (set g)"
  proof
    fix g assume "g \<in> set ?gs"
    then have "set g \<in> set ` set (t_groups st)" using sort_groups_spec(1) by blast
    then show "scc (set es) (set g)" using g by (auto simp: groups_ok_def)
  qed
  moreover have "\<Union> (set ` set ?gs) = set q"
    unfolding sort_groups_spec(1) using tarjan_done [OF st(2)] st(3,4) by (auto simp: popped_def)
  moreover have "distinct (map set ?gs)" using sort_groups_spec(2) g ne by (simp add: groups_ok_def)
  ultimately show thesis using that by blast
qed

subsection \<open>The shortest way back to the entry\<close>

definition entry_of :: "string list \<Rightarrow> arcs \<Rightarrow> string list \<Rightarrow> string" where
  "entry_of grp es sequence =
     (let entry = foldl (\<lambda>entry (s, t).
            if s \<in> set grp \<or> t \<notin> set grp then entry
            else if entry = [] \<or> position_of sequence t < position_of sequence entry then t
            else entry) [] es
      in if entry = [] then hd grp else entry)"

text \<open>
  The path back along \<open>parent\<close>, newest node first. The source's loop has no bound; here it has
  one, and \<open>trace_back_path\<close> shows it is never met.
\<close>

fun trace_back :: "nat \<Rightarrow> (string \<times> string) list \<Rightarrow> string \<Rightarrow> string \<Rightarrow> string list option" where
  "trace_back fuel parents start x =
     (if x = start then Some [x]
      else case fuel of
        0 \<Rightarrow> None
      | Suc k \<Rightarrow>
          map_option (Cons x)
            (trace_back k parents start (case aget parents x of None \<Rightarrow> [] | Some p \<Rightarrow> p)))"

declare trace_back.simps [simp del]

fun cycle_scan :: "string \<Rightarrow> string list \<Rightarrow> string \<Rightarrow> string list \<Rightarrow>
    string list \<Rightarrow> (string \<times> string) list \<Rightarrow> string list \<Rightarrow>
    string list option + (string list \<times> (string \<times> string) list \<times> string list)" where
  "cycle_scan start member current [] seen parents queue = Inr (seen, parents, queue)"
| "cycle_scan start member current (n # ns) seen parents queue =
     (if n \<notin> set member then cycle_scan start member current ns seen parents queue
      else if n = start then Inl (map_option rev (trace_back (length parents) parents start current))
      else if n \<in> set seen then cycle_scan start member current ns seen parents queue
      else cycle_scan start member current ns (n # seen) ((n, current) # parents) (queue @ [n]))"

lemma cycle_scan_decreases:
  assumes "cycle_scan start member current ns seen parents queue = Inr (seen', parents', queue')"
  shows "(seen' = seen \<and> queue' = queue) \<or> card (set member - set seen') < card (set member - set seen)"
proof -
  have "set seen \<subseteq> set seen' \<and> ((seen' = seen \<and> queue' = queue) \<or> set member - set seen' \<subset> set member - set seen)"
    using assms
  proof (induction start member current ns seen parents queue rule: cycle_scan.induct)
    case (2 start member current n ns seen parents queue)
    show ?case
    proof (cases "n \<in> set member \<and> n \<notin> set seen")
      case True
      with 2(3,4) have "set (n # seen) \<subseteq> set seen'" by (auto split: if_splits)
      with True have "set seen \<subseteq> set seen'" "set member - set seen' \<subset> set member - set seen" by auto
      then show ?thesis by blast
    next
      case False
      with 2 show ?thesis by (auto split: if_splits)
    qed
  qed simp
  then show ?thesis by (auto intro!: psubset_card_mono)
qed

function cycle_search :: "arcs \<Rightarrow> string \<Rightarrow> string list \<Rightarrow>
    string list \<Rightarrow> (string \<times> string) list \<Rightarrow> string list \<Rightarrow> string list option" where
  "cycle_search es start member seen parents [] = Some []"
| "cycle_search es start member seen parents (current # queue) =
     (case cycle_scan start member current (adjacent es current) seen parents queue of
        Inl found \<Rightarrow> found
      | Inr (seen', parents', queue') \<Rightarrow> cycle_search es start member seen' parents' queue')"
  by pat_completeness auto
termination
proof (relation "measures [\<lambda>(es, start, member, seen, parents, queue). card (set member - set seen),
    \<lambda>(es, start, member, seen, parents, queue). length queue]", goal_cases)
  case (2 es start member seen parents current queue r seen' pq parents' queue')
  then have "cycle_scan start member current (adjacent es current) seen parents queue = Inr (seen', parents', queue')"
    by simp
  from cycle_scan_decreases [OF this] show ?case by auto
qed simp

definition shortest_cycle_through :: "string \<Rightarrow> string list \<Rightarrow> arcs \<Rightarrow> string list option" where
  "shortest_cycle_through start member es = cycle_search es start member [start] [] [start]"

fun name_cycles :: "string list \<Rightarrow> arcs \<Rightarrow> string list list \<Rightarrow> string list list option" where
  "name_cycles sequence es [] = Some []"
| "name_cycles sequence es (grp # groups) =
     (case shortest_cycle_through (entry_of grp es sequence) grp es of
        None \<Rightarrow> None
      | Some cycle \<Rightarrow>
          map_option (\<lambda>cycles. if cycle = [] then cycles else cycle # cycles)
            (name_cycles sequence es groups))"

definition cycles_among :: "string list \<Rightarrow> arcs \<Rightarrow> string list list option" where
  "cycles_among order es =
     (let sequence = place_all order es in
      case strongly_connected sequence es of
        None \<Rightarrow> None
      | Some groups \<Rightarrow> name_cycles sequence es groups)"

text \<open>A cycle as the compiler names it: the edge back to the first node is implied.\<close>

definition cycle_of :: "(string \<times> string) set \<Rightarrow> string list \<Rightarrow> bool" where
  "cycle_of E c \<longleftrightarrow> c \<noteq> [] \<and> distinct c \<and> successively (\<lambda>x y. (x, y) \<in> E) (c @ [hd c])"

fun parents_ok :: "(string \<times> string) set \<Rightarrow> string \<Rightarrow> string set \<Rightarrow> (string \<times> string) list \<Rightarrow> bool" where
  "parents_ok E start S [] = True"
| "parents_ok E start S ((x, p) # ps) =
     (x \<noteq> start \<and> x \<in> S \<and> x \<notin> fst ` set ps \<and> (p = start \<or> p \<in> fst ` set ps) \<and> (p, x) \<in> E \<and>
      parents_ok E start S ps)"

lemma trace_back_older:
  "parents_ok E start S ((a, b) # ps) \<Longrightarrow> x = start \<or> x \<in> fst ` set ps \<Longrightarrow>
   trace_back k ((a, b) # ps) start x = trace_back k ps start x"
proof (induction k arbitrary: x)
  case 0
  then show ?case by (simp add: trace_back.simps)
next
  case (Suc k)
  show ?case
  proof (cases "x = start")
    case True
    then show ?thesis by (simp add: trace_back.simps)
  next
    case False
    with Suc have x: "x \<in> fst ` set ps" by simp
    then have "aget ps x \<noteq> None" by (simp add: aget_None_iff)
    then obtain p where p: "aget ps x = Some p" by blast
    have par: "parents_ok E start S ps \<Longrightarrow> aget ps x = Some p \<Longrightarrow> p = start \<or> p \<in> fst ` set ps" for ps
      by (induction ps) (auto split: if_splits)
    have "a \<noteq> x" using Suc(2) x by auto
    then show ?thesis
      using False p Suc(1) [OF Suc(2), of p] par [of ps] Suc(2)
      by (simp add: trace_back.simps [of "Suc k"])
  qed
qed

lemma trace_back_more: "trace_back k ps start x = Some c \<Longrightarrow> k \<le> j \<Longrightarrow> trace_back j ps start x = Some c"
proof (induction k arbitrary: j x c)
  case 0
  then show ?case by (auto simp: trace_back.simps [of 0] trace_back.simps [of j] split: if_splits)
next
  case (Suc k)
  from Suc(3) obtain i where i: "j = Suc i" "k \<le> i" by (cases j) auto
  show ?case
  proof (cases "x = start")
    case True
    with Suc(2) show ?thesis by (simp add: trace_back.simps [of "Suc k"] trace_back.simps [of j])
  next
    case False
    let ?p = "case aget ps x of None \<Rightarrow> [] | Some p \<Rightarrow> p"
    from False Suc(2) obtain d where "trace_back k ps start ?p = Some d" "c = x # d"
      by (auto simp: trace_back.simps [of "Suc k"])
    with Suc(1) [OF _ i(2)] False i(1) show ?thesis by (simp add: trace_back.simps [of "Suc i"])
  qed
qed

lemma trace_back_path:
  "parents_ok E start S ps \<Longrightarrow> x = start \<or> x \<in> fst ` set ps \<Longrightarrow>
   \<exists>c. trace_back (length ps) ps start x = Some c \<and> c \<noteq> [] \<and> hd c = x \<and> last c = start \<and> distinct c \<and>
     set c \<subseteq> insert start (fst ` set ps) \<and> successively (\<lambda>y z. (z, y) \<in> E) c"
proof (induction ps arbitrary: x)
  case Nil
  then show ?case by (simp add: trace_back.simps)
next
  case (Cons e ps)
  obtain a b where e: "e = (a, b)" by fastforce
  show ?case
  proof (cases "x = start \<or> x \<in> fst ` set ps")
    case True
    have "parents_ok E start S ps" using Cons(2) e by simp
    from Cons(1) [OF this True] obtain c where c: "trace_back (length ps) ps start x = Some c" "c \<noteq> []" "hd c = x" "last c = start"
      "distinct c" "set c \<subseteq> insert start (fst ` set ps)" "successively (\<lambda>y z. (z, y) \<in> E) c" by blast
    then have "trace_back (length (e # ps)) (e # ps) start x = Some c"
      using trace_back_older [OF Cons(2) [unfolded e] True] trace_back_more [OF c(1)] e by simp
    with c e show ?thesis by auto
  next
    case False
    then have x: "x = a" "x \<noteq> start" "x \<notin> fst ` set ps" using Cons(3) e by auto
    have b: "b = start \<or> b \<in> fst ` set ps" "(b, a) \<in> E" using Cons(2) e by auto
    have "parents_ok E start S ps" using Cons(2) e by simp
    from Cons(1) [OF this b(1)] obtain c where c: "trace_back (length ps) ps start b = Some c" "c \<noteq> []" "hd c = b" "last c = start"
      "distinct c" "set c \<subseteq> insert start (fst ` set ps)" "successively (\<lambda>y z. (z, y) \<in> E) c" by blast
    have "trace_back (length (e # ps)) (e # ps) start x = Some (x # c)"
      using x e c(1) trace_back_older [OF Cons(2) [unfolded e] b(1), of "length ps"]
      by (simp add: trace_back.simps [of "Suc (length ps)"])
    moreover have "distinct (x # c)" using x c(5,6) by auto
    moreover have "successively (\<lambda>y z. (z, y) \<in> E) (x # c)" using c b(2) x by (cases c) auto
    ultimately show ?thesis using c x e by auto
  qed
qed

definition search_ok :: "(string \<times> string) set \<Rightarrow> string \<Rightarrow> string list \<Rightarrow>
    string list \<Rightarrow> (string \<times> string) list \<Rightarrow> string list \<Rightarrow> bool" where
  "search_ok E start member seen parents queue \<longleftrightarrow>
     start \<in> set member \<and> set seen = insert start (fst ` set parents) \<and>
     parents_ok E start (set member) parents \<and> set queue \<subseteq> set seen"

lemma search_ok_member: "search_ok E start member seen parents queue \<Longrightarrow> set seen \<subseteq> set member"
proof -
  have "parents_ok E start S ps \<Longrightarrow> fst ` set ps \<subseteq> S" for S ps
  proof (induction ps)
    case (Cons e ps)
    then show ?case by (cases e) auto
  qed simp
  then show "search_ok E start member seen parents queue \<Longrightarrow> set seen \<subseteq> set member"
    by (auto simp: search_ok_def)
qed

lemma cycle_scan_found:
  assumes "cycle_scan start member current ns seen parents queue = Inl r"
    and "search_ok E start member seen parents queue" "current \<in> set seen" "set ns \<subseteq> E `` {current}"
  shows "\<exists>c. r = Some c \<and> cycle_of E c \<and> hd c = start \<and> set c \<subseteq> set member"
  using assms
proof (induction start member current ns seen parents queue rule: cycle_scan.induct)
  case (2 start member current n ns seen parents queue)
  show ?case
  proof (cases "n \<in> set member \<and> n = start")
    case True
    have p: "parents_ok E start (set member) parents" "current = start \<or> current \<in> fst ` set parents"
      using 2(5,6) by (auto simp: search_ok_def)
    from trace_back_path [OF p] obtain c where c: "trace_back (length parents) parents start current = Some c"
      "c \<noteq> []" "hd c = current" "last c = start" "distinct c" "set c \<subseteq> insert start (fst ` set parents)"
      "successively (\<lambda>y z. (z, y) \<in> E) c" by blast
    have "r = Some (rev c)" using 2(4) True c(1) by (simp split: if_splits)
    moreover have "successively (\<lambda>x y. (x, y) \<in> E) (rev c @ [start])"
      using c(2,3,7) 2(7) True by (auto simp: successively_append_iff last_rev)
    then have "cycle_of E (rev c)" using c(2,4,5) by (simp add: cycle_of_def hd_rev)
    moreover have "set c \<subseteq> set member" using c(6) search_ok_member [OF 2(5)] 2(5) by (auto simp: search_ok_def)
    ultimately show ?thesis using c(2,4) by (simp add: hd_rev)
  next
    case False
    show ?thesis
    proof (cases "n \<in> set member \<and> n \<notin> set seen")
      case True
      have "search_ok E start member (n # seen) ((n, current) # parents) (queue @ [n])"
        using 2(5,6,7) True False by (auto simp: search_ok_def)
      with 2 True False show ?thesis by auto
    next
      case nofresh: False
      with 2 False show ?thesis by (auto split: if_splits)
    qed
  qed
qed simp

lemma cycle_scan_more:
  assumes "cycle_scan start member current ns seen parents queue = Inr (seen', parents', queue')"
    and "search_ok E start member seen parents queue" "current \<in> set seen" "set ns \<subseteq> E `` {current}"
  shows "search_ok E start member seen' parents' queue'" "set seen \<subseteq> set seen'" "set queue \<subseteq> set queue'"
    "set seen' \<subseteq> set seen \<union> set queue'" "\<forall>y \<in> set ns \<inter> set member. y \<noteq> start \<and> y \<in> set seen'"
proof -
  have "search_ok E start member seen' parents' queue' \<and> set seen \<subseteq> set seen' \<and> set queue \<subseteq> set queue' \<and>
      set seen' \<subseteq> set seen \<union> set queue' \<and> (\<forall>y \<in> set ns \<inter> set member. y \<noteq> start \<and> y \<in> set seen')"
    using assms
  proof (induction start member current ns seen parents queue rule: cycle_scan.induct)
    case (2 start member current n ns seen parents queue)
    show ?case
    proof (cases "n \<in> set member \<and> n \<notin> set seen")
      case True
      then have ns: "n \<noteq> start" using 2(4) by (auto split: if_splits)
      let ?q = "queue @ [n]"
      have scan: "cycle_scan start member current ns (n # seen) ((n, current) # parents) ?q = Inr (seen', parents', queue')"
        using 2(4) True ns by simp
      have "search_ok E start member (n # seen) ((n, current) # parents) ?q"
        using 2(5,6,7) True ns by (auto simp: search_ok_def)
      then have ih: "search_ok E start member seen' parents' queue' \<and> set (n # seen) \<subseteq> set seen' \<and>
          set ?q \<subseteq> set queue' \<and> set seen' \<subseteq> set (n # seen) \<union> set queue' \<and>
          (\<forall>y \<in> set ns \<inter> set member. y \<noteq> start \<and> y \<in> set seen')"
        using 2(3) [OF _ _ _ scan] True ns 2(6,7) by simp
      then show ?thesis using ns by auto
    next
      case False
      then have scan: "cycle_scan start member current ns seen parents queue = Inr (seen', parents', queue')"
        and n: "n \<in> set member \<Longrightarrow> n \<noteq> start \<and> n \<in> set seen" using 2(4) by (auto split: if_splits)
      have sub: "set ns \<subseteq> E `` {current}" using 2(7) by simp
      have ih: "search_ok E start member seen' parents' queue' \<and> set seen \<subseteq> set seen' \<and>
          set queue \<subseteq> set queue' \<and> set seen' \<subseteq> set seen \<union> set queue' \<and>
          (\<forall>y \<in> set ns \<inter> set member. y \<noteq> start \<and> y \<in> set seen')"
      proof (cases "n \<in> set member")
        case True
        with n 2(2) [OF _ _ _ scan 2(5,6) sub] show ?thesis by blast
      next
        case False
        with 2(1) [OF _ scan 2(5,6) sub] show ?thesis by blast
      qed
      with n show ?thesis by auto
    qed
  qed auto
  then show "search_ok E start member seen' parents' queue'" "set seen \<subseteq> set seen'" "set queue \<subseteq> set queue'"
    "set seen' \<subseteq> set seen \<union> set queue'" "\<forall>y \<in> set ns \<inter> set member. y \<noteq> start \<and> y \<in> set seen'" by blast+
qed

text \<open>Everything seen and no longer queued leads, inside the group, to what is seen and not to the start.\<close>

definition search_explored :: "arcs \<Rightarrow> string \<Rightarrow> string list \<Rightarrow> string list \<Rightarrow> string list \<Rightarrow> bool" where
  "search_explored es start member seen queue \<longleftrightarrow>
     (\<forall>x \<in> set seen - set queue. \<forall>y. (x, y) \<in> set es \<longrightarrow> y \<in> set member \<longrightarrow> y \<noteq> start \<and> y \<in> set seen)"

lemma cycle_search_correct:
  assumes "search_ok (set es) start member seen parents queue" "search_explored es start member seen queue"
  shows "\<exists>c. cycle_search es start member seen parents queue = Some c \<and>
    (if c = [] then \<exists>S. start \<in> S \<and> (\<forall>x \<in> S. \<forall>y. (x, y) \<in> set es \<longrightarrow> y \<in> set member \<longrightarrow> y \<noteq> start \<and> y \<in> S)
     else cycle_of (set es) c \<and> hd c = start \<and> set c \<subseteq> set member)"
  using assms
proof (induction es start member seen parents queue rule: cycle_search.induct)
  case (1 es start member seen parents)
  then have "start \<in> set seen" by (simp add: search_ok_def)
  moreover have "\<forall>x \<in> set seen. \<forall>y. (x, y) \<in> set es \<longrightarrow> y \<in> set member \<longrightarrow> y \<noteq> start \<and> y \<in> set seen"
    using 1(2) by (simp add: search_explored_def)
  ultimately have "\<exists>S. start \<in> S \<and> (\<forall>x \<in> S. \<forall>y. (x, y) \<in> set es \<longrightarrow> y \<in> set member \<longrightarrow> y \<noteq> start \<and> y \<in> S)"
    by blast
  then show ?case by simp
next
  case (2 es start member seen parents current queue)
  have ok: "search_ok (set es) start member seen parents queue" "current \<in> set seen"
    using 2(2) by (auto simp: search_ok_def)
  have adj: "set (adjacent es current) \<subseteq> set es `` {current}" by (auto simp: graph_simps)
  show ?case
  proof (cases "cycle_scan start member current (adjacent es current) seen parents queue")
    case (Inl r)
    from cycle_scan_found [OF Inl ok adj] Inl show ?thesis by (auto simp: cycle_of_def)
  next
    case (Inr t)
    obtain seen' parents' queue' where t: "t = (seen', parents', queue')" by (cases t) auto
    note more = cycle_scan_more [OF Inr [unfolded t] ok adj]
    have "search_explored es start member seen' queue'"
      unfolding search_explored_def
    proof (intro ballI allI impI)
      fix x y assume x: "x \<in> set seen' - set queue'" and xy: "(x, y) \<in> set es" "y \<in> set member"
      have xs: "x \<in> set seen" using x more(4) by blast
      show "y \<noteq> start \<and> y \<in> set seen'"
      proof (cases "x = current")
        case True
        with more(5) xy show ?thesis by (auto simp: graph_simps)
      next
        case False
        then have "x \<in> set seen - set (current # queue)" using x xs more(3) by auto
        with 2(3) xy more(2) show ?thesis unfolding search_explored_def by blast
      qed
    qed
    with 2(1) [OF Inr] t more(1) Inr show ?thesis by simp
  qed
qed

lemma entry_of_member: "grp \<noteq> [] \<Longrightarrow> entry_of grp es sequence \<in> set grp"
proof -
  let ?f = "\<lambda>entry (s, t). if s \<in> set grp \<or> t \<notin> set grp then entry
            else if entry = [] \<or> position_of sequence t < position_of sequence entry then t else entry"
  have "foldl ?f e es = [] \<or> foldl ?f e es \<in> set grp" if "e = [] \<or> e \<in> set grp" for e
    using that by (induction es arbitrary: e) (auto split: prod.splits)
  from this [of "[]"] show "grp \<noteq> [] \<Longrightarrow> entry_of grp es sequence \<in> set grp"
    by (auto simp: entry_of_def Let_def)
qed

lemma scc_inside:
  assumes "scc E g" "a \<in> g" "(a, b) \<in> E\<^sup>*" "(b, a) \<in> E\<^sup>*"
  shows "b \<in> g"
  using assms by (auto simp: scc_def)

text \<open>In a strongly connected group the search names a cycle exactly when the entry is on one.\<close>

lemma shortest_cycle_spec:
  assumes "scc (set es) (set grp)" "start \<in> set grp"
  shows "\<exists>c. shortest_cycle_through start grp es = Some c \<and>
    (if c = [] then (start, start) \<notin> (set es)\<^sup>+ else cycle_of (set es) c \<and> hd c = start \<and> set c \<subseteq> set grp)"
proof -
  have "search_ok (set es) start grp [start] [] [start]" "search_explored es start grp [start] [start]"
    using assms(2) by (auto simp: search_ok_def search_explored_def)
  from cycle_search_correct [OF this] obtain c where c:
    "shortest_cycle_through start grp es = Some c"
    "if c = [] then \<exists>S. start \<in> S \<and> (\<forall>x \<in> S. \<forall>y. (x, y) \<in> set es \<longrightarrow> y \<in> set grp \<longrightarrow> y \<noteq> start \<and> y \<in> S)
     else cycle_of (set es) c \<and> hd c = start \<and> set c \<subseteq> set grp"
    by (auto simp: shortest_cycle_through_def)
  have "(start, start) \<notin> (set es)\<^sup>+" if "c = []"
  proof
    assume cyc: "(start, start) \<in> (set es)\<^sup>+"
    have "\<exists>S. start \<in> S \<and> (\<forall>x \<in> S. \<forall>y. (x, y) \<in> set es \<longrightarrow> y \<in> set grp \<longrightarrow> y \<noteq> start \<and> y \<in> S)"
      using c(2) that by (simp only: if_True)
    then obtain S where S: "start \<in> S"
      "\<And>x y. x \<in> S \<Longrightarrow> (x, y) \<in> set es \<Longrightarrow> y \<in> set grp \<Longrightarrow> y \<noteq> start \<and> y \<in> S" by blast
    have inS: "x \<in> S" if "(start, x) \<in> (set es)\<^sup>*" "(x, start) \<in> (set es)\<^sup>*" for x
      using that
    proof (induction rule: rtrancl_induct)
      case (step x y)
      have "(x, start) \<in> (set es)\<^sup>*" using step(2,4) by (rule converse_rtrancl_into_rtrancl)
      moreover have "(start, y) \<in> (set es)\<^sup>*" using step(1,2) by (rule rtrancl_into_rtrancl)
      ultimately show ?case using step scc_inside [OF assms] S(2) by blast
    qed (rule S(1))
    obtain x where x: "(start, x) \<in> (set es)\<^sup>*" "(x, start) \<in> set es" using tranclD2 [OF cyc] by blast
    have "x \<in> S" by (rule inS [OF x(1)]) (use x(2) in blast)
    with S(2) x(2) assms(2) show False by blast
  qed
  with c show ?thesis by (intro exI [of _ c]) (auto split: if_splits)
qed

lemma cycle_of_trancl:
  assumes "cycle_of E c"
  shows "(hd c, hd c) \<in> E\<^sup>+"
proof -
  have path: "successively (\<lambda>x y. (x, y) \<in> E) (x # xs @ [y]) \<Longrightarrow> (x, y) \<in> E\<^sup>+" for x y xs
    by (induction xs arbitrary: x) (auto intro: trancl_into_trancl2)
  obtain x xs where "c = x # xs" using assms by (cases c) (auto simp: cycle_of_def)
  with path [of x xs x] assms show ?thesis by (simp add: cycle_of_def)
qed

lemma scc_on_cycle: "scc E g \<Longrightarrow> x \<in> g \<Longrightarrow> y \<in> g \<Longrightarrow> (x, x) \<in> E\<^sup>+ \<Longrightarrow> (y, y) \<in> E\<^sup>+"
proof -
  assume g: "scc E g" "x \<in> g" "y \<in> g" and c: "(x, x) \<in> E\<^sup>+"
  have "(y, x) \<in> E\<^sup>*" "(x, y) \<in> E\<^sup>*" using g unfolding scc_def by blast+
  from rtrancl_trancl_trancl [OF this(1) c] this(2) show "(y, y) \<in> E\<^sup>+" by (rule trancl_rtrancl_trancl)
qed

lemma name_cycles_spec:
  assumes "\<forall>g \<in> set groups. scc (set es) (set g)" "distinct (map set groups)"
  shows "\<exists>cs. name_cycles q es groups = Some cs \<and>
    (\<forall>c \<in> set cs. cycle_of (set es) c \<and> (\<exists>g \<in> set groups. set c \<subseteq> set g)) \<and>
    (\<forall>g \<in> set groups. \<forall>x \<in> set g. (x, x) \<in> (set es)\<^sup>+ \<longrightarrow> (\<exists>c \<in> set cs. set c \<subseteq> set g)) \<and>
    sorted_wrt (\<lambda>c d. (hd c, hd d) \<notin> (set es)\<^sup>* \<or> (hd d, hd c) \<notin> (set es)\<^sup>*) cs"
  using assms
proof (induction groups)
  case (Cons g groups)
  then obtain cs where cs: "name_cycles q es groups = Some cs"
    "\<forall>c \<in> set cs. cycle_of (set es) c \<and> (\<exists>g \<in> set groups. set c \<subseteq> set g)"
    "\<forall>g \<in> set groups. \<forall>x \<in> set g. (x, x) \<in> (set es)\<^sup>+ \<longrightarrow> (\<exists>c \<in> set cs. set c \<subseteq> set g)"
    "sorted_wrt (\<lambda>c d. (hd c, hd d) \<notin> (set es)\<^sup>* \<or> (hd d, hd c) \<notin> (set es)\<^sup>*) cs" by auto
  let ?e = "entry_of g es q"
  have scc: "scc (set es) (set g)" using Cons(2) by simp
  then have e: "?e \<in> set g" by (intro entry_of_member) (auto simp: scc_def)
  obtain c where c: "shortest_cycle_through ?e g es = Some c"
    "if c = [] then (?e, ?e) \<notin> (set es)\<^sup>+ else cycle_of (set es) c \<and> hd c = ?e \<and> set c \<subseteq> set g"
    using shortest_cycle_spec [OF scc e] by blast
  show ?case
  proof (cases "c = []")
    case True
    then have "(x, x) \<notin> (set es)\<^sup>+" if "x \<in> set g" for x
      using c(2) scc_on_cycle [OF scc that e] by auto
    with True cs c(1) show ?thesis by auto
  next
    case False
    have apart: "(hd c, hd d) \<notin> (set es)\<^sup>* \<or> (hd d, hd c) \<notin> (set es)\<^sup>*" if d: "d \<in> set cs" for d
    proof (rule ccontr)
      assume both: "\<not> ?thesis"
      obtain h where h: "h \<in> set groups" "set d \<subseteq> set h" "d \<noteq> []" using cs(2) d by (auto simp: cycle_of_def)
      have hs: "scc (set es) (set h)" using h(1) Cons(2) by simp
      have "hd d \<in> set g" using scc_inside [OF scc e] both c(2) False by auto
      moreover have "hd d \<in> set h" using h(2,3) by auto
      ultimately have "set g = set h" using scc hs unfolding scc_def by blast
      with h(1) Cons(3) show False by auto
    qed
    with False cs c show ?thesis by auto
  qed
qed simp

theorem cycles_among_spec:
  "\<exists>cs. cycles_among order es = Some cs \<and>
    (\<forall>c \<in> set cs. cycle_of (set es) c) \<and>
    (\<forall>x. (x, x) \<in> (set es)\<^sup>+ \<longrightarrow> (\<exists>c \<in> set cs. (x, hd c) \<in> (set es)\<^sup>* \<and> (hd c, x) \<in> (set es)\<^sup>*)) \<and>
    sorted_wrt (\<lambda>c d. (hd c, hd d) \<notin> (set es)\<^sup>* \<or> (hd d, hd c) \<notin> (set es)\<^sup>*) cs"
proof -
  let ?q = "place_all order es"
  have q: "set es `` set ?q \<subseteq> set ?q" by (force simp: place_all_set)
  obtain groups where g: "strongly_connected ?q es = Some groups" "\<forall>g \<in> set groups. scc (set es) (set g)"
    "\<Union> (set ` set groups) = set ?q" "distinct (map set groups)" using strongly_connected_spec [OF q] by blast
  obtain cs where cs: "name_cycles ?q es groups = Some cs"
    "\<forall>c \<in> set cs. cycle_of (set es) c \<and> (\<exists>g \<in> set groups. set c \<subseteq> set g)"
    "\<forall>g \<in> set groups. \<forall>x \<in> set g. (x, x) \<in> (set es)\<^sup>+ \<longrightarrow> (\<exists>c \<in> set cs. set c \<subseteq> set g)"
    "sorted_wrt (\<lambda>c d. (hd c, hd d) \<notin> (set es)\<^sup>* \<or> (hd d, hd c) \<notin> (set es)\<^sup>*) cs"
    using name_cycles_spec [OF g(2,4)] by blast
  have "\<exists>c \<in> set cs. (x, hd c) \<in> (set es)\<^sup>* \<and> (hd c, x) \<in> (set es)\<^sup>*" if x: "(x, x) \<in> (set es)\<^sup>+" for x
  proof -
    have "x \<in> set ?q" using tranclD [OF x] by (force simp: place_all_set)
    then obtain h where h: "h \<in> set groups" "x \<in> set h" using g(3) by blast
    with cs(3) x obtain c where c: "c \<in> set cs" "set c \<subseteq> set h" by blast
    moreover have "hd c \<in> set h" using c cs(2) by (auto simp: cycle_of_def)
    moreover have "scc (set es) (set h)" using g(2) h(1) by blast
    ultimately show ?thesis using h(2) c(1) unfolding scc_def by blast
  qed
  with cs g(1) show ?thesis by (auto simp: cycles_among_def)
qed

lemma cycles_among_acyclic: "cycles_among order es = Some [] \<longleftrightarrow> acyclic (set es)"
proof -
  obtain cs where cs: "cycles_among order es = Some cs" "\<forall>c \<in> set cs. cycle_of (set es) c"
    "\<forall>x. (x, x) \<in> (set es)\<^sup>+ \<longrightarrow> (\<exists>c \<in> set cs. (x, hd c) \<in> (set es)\<^sup>* \<and> (hd c, x) \<in> (set es)\<^sup>*)"
    using cycles_among_spec by blast
  have "cs = [] \<longleftrightarrow> acyclic (set es)"
    using cs(2,3) cycle_of_trancl by (cases cs) (auto simp: acyclic_def)
  with cs(1) show ?thesis by simp
qed

end
