(* ===== verification/Compiler.thy ===== *)
theory Compiler
  imports Catalog Cycles "HOL-Library.Product_Lexorder"
begin

text \<open>
  The compiler (\<open>Compile\<close> in \<open>internal/workflow/compiler.go\<close>): the plan it makes, the pass over
  the nodes, the pass over the connections, and the checks of the whole graph
  (\<open>illegalCycles\<close>, \<open>validateExecutableTopology\<close>, \<open>validateChatTriggerUniqueness\<close>,
  \<open>validatePortCardinality\<close>, \<open>validateAgentToolNames\<close>); and the two questions an importer asks of
  it, \<open>IllegalCycles\<close> (\<open>cycle.go\<close>) and \<open>ShapeRefusals\<close> (\<open>shape.go\<close>).
\<close>

subsection \<open>The plan\<close>

record ir_node =
  in_id :: string
  in_name :: string
  in_type :: string
  in_version :: type_version
  in_position :: position
  in_parameters :: jobject
  in_credentials :: "(string \<times> string) list"
  in_settings :: jobject
  in_disabled :: bool
  in_pinned :: "item list option"
  in_definition :: node_definition

record ir_edge =
  edge_id :: string
  edge_kind :: connection_kind
  edge_source :: endpoint
  source_output_index :: nat
  edge_target :: endpoint

record ir =
  ir_workflow_id :: string
  ir_name :: string
  ir_nodes :: "ir_node list"
  ir_edges :: "ir_edge list"
  ir_settings :: jobject

definition arcs_of :: "ir_edge list \<Rightarrow> arcs" where
  "arcs_of edges = map (\<lambda>e. (end_node (edge_source e), end_node (edge_target e))) edges"

definition attachment_arcs :: "ir_edge list \<Rightarrow> arcs" where
  "attachment_arcs edges = arcs_of (filter (\<lambda>e. edge_kind e \<noteq> connection_main) edges)"

text \<open>\<open>map[string]IRNode\<close> written by a loop over the nodes: the last write of a key stands.\<close>

definition node_by_id :: "ir_node list \<Rightarrow> string \<Rightarrow> ir_node option" where
  "node_by_id nodes k = aget (rev (map (\<lambda>n. (in_id n, n)) nodes)) k"

definition index_by_id :: "ir_node list \<Rightarrow> string \<Rightarrow> nat" where
  "index_by_id nodes k =
     (case aget (rev (map (\<lambda>(i, n). (in_id n, i)) (indexed nodes))) k of None \<Rightarrow> 0 | Some i \<Rightarrow> i)"

subsection \<open>Edges\<close>

datatype edge_fault =
    EdgeUnknownNode
  | EdgeUnknownPort
  | EdgeIncompatibleKind
  | EdgeNodeNotAllowed port

definition resolve_edge ::
  "connection \<Rightarrow> (string \<times> node) list \<Rightarrow> (string \<times> node_definition) list \<Rightarrow> edge_fault + ir_edge" where
  "resolve_edge c nodes defs =
     (case (aget nodes (end_node (conn_source c)), aget nodes (end_node (conn_target c))) of
        (Some sn, Some tn) \<Rightarrow>
          (case (Option.bind (aget defs (node_id sn)) (\<lambda>d. output_port d (end_port (conn_source c))),
                 Option.bind (aget defs (node_id tn)) (\<lambda>d. input_port d (end_port (conn_target c)))) of
             (Some (sp, i), Some tp) \<Rightarrow>
               if conn_kind c \<noteq> port_kind sp \<or> conn_kind c \<noteq> port_kind tp then Inl EdgeIncompatibleKind
               else if \<not> port_accepts_node_type tp (node_type sn) then Inl (EdgeNodeNotAllowed tp)
               else Inr \<lparr>edge_id = conn_id c, edge_kind = conn_kind c, edge_source = conn_source c,
                      source_output_index = i, edge_target = conn_target c\<rparr>
           | _ \<Rightarrow> Inl EdgeUnknownPort)
      | _ \<Rightarrow> Inl EdgeUnknownNode)"

subsection \<open>The pass over the nodes\<close>

record compile_state =
  cs_issues :: "validation_error list"
  cs_defs :: "(string \<times> node_definition) list"
  cs_nodes :: "(string \<times> node) list"
  cs_refused :: "string list"
  cs_ir_nodes :: "ir_node list"
  cs_edges :: "ir_edge list"
  cs_keys :: "(connection_kind \<times> endpoint \<times> endpoint) list"

definition unresolved_issue :: "host \<Rightarrow> catalog \<Rightarrow> nat \<Rightarrow> node \<Rightarrow> validation_error" where
  "unresolved_issue h cat index n =
     (let says = (\<lambda>code msg. node_issue code (node_path index @ ''/type'') (node_id n) msg) in
      if (case cat_restricted cat of Some r \<Rightarrow> r (node_type n) | None \<Rightarrow> False)
      then says NodeNotAvailable (''node type '' @ h_quote h (node_type n) @ '' is not available to this workspace'')
      else if (case cat_has_type cat of Some f \<Rightarrow> f (node_type n) | None \<Rightarrow> False)
      then says UnknownVersion (''node type '' @ h_quote h (node_type n) @ '' does not support version '' @
             version_string (node_type_version n))
      else says UnknownNodeType (''node type '' @ h_quote h (node_type n) @ '' version '' @
             version_string (node_type_version n) @ '' is not registered''))"

definition required_parameters_of :: "node \<Rightarrow> node_definition \<Rightarrow> string list" where
  "required_parameters_of n d =
     (case required_for d of
        None \<Rightarrow> required_parameters d
      | Some f \<Rightarrow> f (node_parameters n) (node_type_version n))"

definition missing_parameter_issues :: "host \<Rightarrow> nat \<Rightarrow> node \<Rightarrow> node_definition \<Rightarrow> validation_error list" where
  "missing_parameter_issues h index n d =
     map (\<lambda>r. node_issue RequiredConfig (node_path index @ ''/parameters/'' @ r) (node_id n)
            (''node '' @ h_quote h (node_id n) @ '' requires parameter '' @ h_quote h r))
       (filter (\<lambda>r. jget (node_parameters n) r = JNull) (required_parameters_of n d))"

definition configuration_issues :: "host \<Rightarrow> nat \<Rightarrow> node \<Rightarrow> node_definition \<Rightarrow> validation_error list" where
  "configuration_issues h index n d =
     (case Option.bind (def_validate d) (\<lambda>f. f n) of
        None \<Rightarrow> []
      | Some e \<Rightarrow> [node_issue InvalidConfig (node_path index @ ''/parameters'') (node_id n)
          (''node '' @ h_quote h (node_id n) @ '' configuration is invalid: '' @ e)])"

definition settings_issues :: "host \<Rightarrow> nat \<Rightarrow> node \<Rightarrow> validation_error list" where
  "settings_issues h index n =
     map (\<lambda>e. node_issue InvalidConfig (node_path index @ ''/settings'') (node_id n)
            (''node '' @ h_quote h (node_id n) @ '' setting is invalid: '' @ e))
       (validate_shared_settings h (node_settings n))"

definition active_node_issues :: "host \<Rightarrow> nat \<Rightarrow> node \<Rightarrow> node_definition \<Rightarrow> validation_error list" where
  "active_node_issues h index n d =
     missing_parameter_issues h index n d @ required_credential_issues h index n d @
     undeclared_credentials h index n d @ configuration_issues h index n d @ settings_issues h index n"

definition ir_node_of :: "node \<Rightarrow> node_definition \<Rightarrow> item list option \<Rightarrow> ir_node" where
  "ir_node_of n d pinned =
     \<lparr>in_id = node_id n, in_name = node_name n, in_type = node_type n, in_version = def_version d,
      in_position = node_position n, in_parameters = clone_any_map (node_parameters n),
      in_credentials = node_credentials n, in_settings = clone_any_map (node_settings n),
      in_disabled = node_disabled n, in_pinned = pinned, in_definition = clone_node_definition d\<rparr>"

definition compile_node ::
  "host \<Rightarrow> catalog \<Rightarrow> (string \<times> item list option) list \<Rightarrow> nat \<times> node \<Rightarrow> compile_state \<Rightarrow> compile_state" where
  "compile_node h cat pins p st =
     (case p of (index, n) \<Rightarrow>
        case resolve_definition cat n of
          None \<Rightarrow>
            st\<lparr>cs_issues := cs_issues st @ [unresolved_issue h cat index n],
               cs_refused := node_id n # cs_refused st\<rparr>
        | Some d \<Rightarrow>
            (let pinned = pinned_items pins n in
             st\<lparr>cs_defs := aput (node_id n) d (cs_defs st),
                cs_nodes := aput (node_id n) n (cs_nodes st),
                cs_ir_nodes := cs_ir_nodes st @ [ir_node_of n d pinned],
                cs_issues := cs_issues st @
                  (if node_disabled n \<or> pinned \<noteq> None then [] else active_node_issues h index n d)\<rparr>))"

subsection \<open>The pass over the connections\<close>

definition connection_path :: "nat \<Rightarrow> string" where
  "connection_path index = ''/connections/'' @ itoa (int index)"

definition edge_issue :: "host \<Rightarrow> nat \<Rightarrow> connection \<Rightarrow> compile_state \<Rightarrow> edge_fault \<Rightarrow> validation_error list" where
  "edge_issue h index c st fault =
     (case fault of
        EdgeUnknownNode \<Rightarrow>
          if end_node (conn_source c) \<in> set (cs_refused st) \<or> end_node (conn_target c) \<in> set (cs_refused st) then []
          else [conn_issue InvalidTopology (connection_path index) (conn_id c)
                  ''connection must reference registered source and target nodes'']
      | EdgeUnknownPort \<Rightarrow>
          [conn_issue UnknownPortCode (connection_path index) (conn_id c)
             ''connection must reference declared source and target ports'']
      | EdgeIncompatibleKind \<Rightarrow>
          [conn_issue IncompatiblePort (connection_path index @ ''/kind'') (conn_id c)
             ''connection kind must match both endpoint ports'']
      | EdgeNodeNotAllowed tp \<Rightarrow>
          [conn_issue PortNotAllowed (connection_path index) (conn_id c)
             (''port '' @ h_quote h (port_name tp) @ '' does not accept a connection from node type '' @
              h_quote h (case aget (cs_nodes st) (end_node (conn_source c)) of None \<Rightarrow> [] | Some n \<Rightarrow> node_type n))])"

definition compile_connection :: "host \<Rightarrow> nat \<times> connection \<Rightarrow> compile_state \<Rightarrow> compile_state" where
  "compile_connection h p st =
     (case p of (index, c) \<Rightarrow>
        case resolve_edge c (cs_nodes st) (cs_defs st) of
          Inl fault \<Rightarrow> st\<lparr>cs_issues := cs_issues st @ edge_issue h index c st fault\<rparr>
        | Inr edge \<Rightarrow>
            (let key = (conn_kind c, conn_source c, conn_target c) in
             if key \<in> set (cs_keys st)
             then st\<lparr>cs_issues := cs_issues st @
                    [conn_issue InvalidTopology (connection_path index) (conn_id c)
                       ''workflow graph must not contain duplicate connections'']\<rparr>
             else st\<lparr>cs_keys := key # cs_keys st, cs_edges := cs_edges st @ [edge]\<rparr>))"

subsection \<open>Cycles that are not a declared loop\<close>

definition enters_loop :: "(string \<times> node_definition) list \<Rightarrow> ir_edge \<Rightarrow> bool" where
  "enters_loop defs e \<longleftrightarrow>
     (case aget defs (end_node (edge_target e)) of None \<Rightarrow> False | Some d \<Rightarrow> loop_entry d)"

definition loop_closing_edges :: "ir_edge list \<Rightarrow> (string \<times> node_definition) list \<Rightarrow> string list" where
  "loop_closing_edges edges defs =
     map edge_id (filter (\<lambda>e. enters_loop defs e \<and>
       reaches (arcs_of edges) (end_node (edge_target e)) (end_node (edge_source e))) edges)"

definition illegal_cycles ::
  "string list \<Rightarrow> ir_edge list \<Rightarrow> (string \<times> node_definition) list \<Rightarrow> string list list option" where
  "illegal_cycles order edges defs =
     cycles_among order (arcs_of (filter (\<lambda>e. edge_id e \<notin> set (loop_closing_edges edges defs)) edges))"

text \<open>\<open>IllegalCycles\<close>: the question asked on its own, of whatever the catalogue resolves.\<close>

definition resolved_nodes :: "catalog \<Rightarrow> node list \<Rightarrow> (node \<times> node_definition) list" where
  "resolved_nodes cat ns =
     concat (map (\<lambda>n. case resolve_definition cat n of None \<Rightarrow> [] | Some d \<Rightarrow> [(n, d)]) ns)"

definition document_cycles :: "document \<Rightarrow> catalog \<Rightarrow> string list list option" where
  "document_cycles d cat =
     (let rs = resolved_nodes cat (nodes_of d);
          nodes = fold (\<lambda>(n, df). aput (node_id n) n) rs [];
          defs = fold (\<lambda>(n, df). aput (node_id n) df) rs [];
          edges = concat (map (\<lambda>c. case resolve_edge c nodes defs of Inl _ \<Rightarrow> [] | Inr e \<Rightarrow> [e]) (connections_of d))
      in illegal_cycles (map (node_id \<circ> fst) rs) edges defs)"

subsection \<open>Checks of the whole graph\<close>

definition incoming_count :: "ir_edge list \<Rightarrow> string \<Rightarrow> string \<Rightarrow> nat" where
  "incoming_count edges nid p =
     length (filter (\<lambda>e. end_node (edge_target e) = nid \<and> end_port (edge_target e) = p) edges)"

definition has_incoming :: "ir_edge list \<Rightarrow> string \<Rightarrow> bool" where
  "has_incoming edges nid = list_ex (\<lambda>e. end_node (edge_target e) = nid) edges"

definition input_issues :: "host \<Rightarrow> ir_edge list \<Rightarrow> nat \<times> ir_node \<Rightarrow> validation_error list" where
  "input_issues h edges p =
     (case p of (index, n) \<Rightarrow>
        if def_inputs (in_definition n) = []
        then (if has_incoming edges (in_id n)
              then [node_issue InvalidTopology (node_path index) (in_id n)
                      ''workflow trigger must not have incoming connections'']
              else [])
        else map (\<lambda>q. node_issue InvalidTopology (node_path index) (in_id n)
                   (''workflow node '' @ h_quote h (in_id n) @ '' requires an incoming '' @
                    h_quote h (port_name q) @ '' connection''))
               (filter (\<lambda>q. port_kind q = connection_main \<and> incoming_count edges (in_id n) (port_name q) = 0)
                 (def_inputs (in_definition n))))"

definition is_root :: "ir_node \<Rightarrow> bool" where
  "is_root n \<longleftrightarrow> def_inputs (in_definition n) = [] \<and> produces_items (def_outputs (in_definition n))"

definition roots_of :: "ir_node list \<Rightarrow> string list" where
  "roots_of nodes = map in_id (filter is_root nodes)"

definition reached_from_roots :: "ir_node list \<Rightarrow> ir_edge list \<Rightarrow> string list" where
  "reached_from_roots nodes edges =
     grow (attachment_arcs edges) (walk (arcs_of edges) (roots_of nodes) (roots_of nodes))"

definition topology_issues :: "host \<Rightarrow> ir_node list \<Rightarrow> ir_edge list \<Rightarrow> validation_error list" where
  "topology_issues h nodes edges =
     concat (map (input_issues h edges) (indexed nodes)) @
     (if roots_of nodes = []
      then [node_issue InvalidTopology ''/nodes'' [] ''workflow graph must contain at least one trigger root'']
      else map (\<lambda>(index, n). node_issue InvalidTopology (node_path index) (in_id n)
             (''workflow node '' @ h_quote h (in_id n) @ '' is disconnected from the trigger''))
           (filter (\<lambda>(index, n). \<not> is_annotation (in_definition n) \<and>
              in_id n \<notin> set (reached_from_roots nodes edges)) (indexed nodes)))"

definition chat_trigger_node_type :: string where
  "chat_trigger_node_type = ''kilasflow.chatTrigger''"

fun chat_issues :: "nat \<Rightarrow> (nat \<times> ir_node) list \<Rightarrow> validation_error list" where
  "chat_issues seen [] = []"
| "chat_issues seen ((index, n) # ns) =
     (if in_type n \<noteq> chat_trigger_node_type then chat_issues seen ns
      else if Suc seen < 2 then chat_issues (Suc seen) ns
      else node_issue InvalidTopology (node_path index) (in_id n)
             ''a workflow may contain only one When chat message received node'' # chat_issues (Suc seen) ns)"

definition port_issues :: "host \<Rightarrow> ir_edge list \<Rightarrow> nat \<Rightarrow> ir_node \<Rightarrow> port \<Rightarrow> validation_error list" where
  "port_issues h edges index n p =
     (let count = incoming_count edges (in_id n) (port_name p) in
      (if port_required p \<and> count = 0
       then [node_issue PortRequiredCode (node_path index) (in_id n)
               (''node '' @ h_quote h (in_id n) @ '' requires a connection on port '' @ h_quote h (port_label p))]
       else []) @
      (if 0 < max_connections p \<and> max_connections p < int count
       then [node_issue PortFull (node_path index) (in_id n)
               (''port '' @ h_quote h (port_label p) @ '' on node '' @ h_quote h (in_id n) @ '' accepts at most '' @
                itoa (max_connections p) @ '' connection(s), got '' @ itoa (int count))]
       else []))"

definition cardinality_issues :: "host \<Rightarrow> ir_node list \<Rightarrow> ir_edge list \<Rightarrow> validation_error list" where
  "cardinality_issues h nodes edges =
     concat (map (\<lambda>(index, n). concat (map (port_issues h edges index n) (def_inputs (in_definition n))))
       (indexed nodes))"

text \<open>\<open>claimed\<close> maps an agent and a tool name to the canvas name of the node that claimed it.\<close>

fun tool_issues ::
  "host \<Rightarrow> ir_node list \<Rightarrow> ((string \<times> string) \<times> string) list \<Rightarrow> ir_edge list \<Rightarrow> validation_error list" where
  "tool_issues h nodes claimed [] = []"
| "tool_issues h nodes claimed (e # es) =
     (if edge_kind e \<noteq> connection_tool then tool_issues h nodes claimed es
      else case (node_by_id nodes (end_node (edge_source e)), node_by_id nodes (end_node (edge_target e))) of
             (Some source, Some target) \<Rightarrow>
               (let name = tool_name_of (in_parameters source) (in_name source) in
                case aget claimed (end_node (edge_target e), name) of
                  Some first \<Rightarrow>
                    node_issue InvalidTopology (node_path (index_by_id nodes (in_id target))) (in_id target)
                      (''tool name '' @ h_quote h name @ '' is used by both node '' @ h_quote h first @
                       '' and node '' @ h_quote h (in_name source) @ ''; rename one of them'')
                    # tool_issues h nodes claimed es
                | None \<Rightarrow>
                    tool_issues h nodes (aput (end_node (edge_target e), name) (in_name source) claimed) es)
           | _ \<Rightarrow> tool_issues h nodes claimed es)"

subsection \<open>Compile\<close>

definition cycle_message :: string where
  "cycle_message = ''workflow graph must not contain a cycle, except a back edge closing onto a loop node''"

definition graph_issues ::
  "host \<Rightarrow> ir_node list \<Rightarrow> ir_edge list \<Rightarrow> (string \<times> node_definition) list \<Rightarrow> validation_error list" where
  "graph_issues h nodes edges defs =
     (if illegal_cycles [] edges defs \<noteq> Some []
      then [conn_issue InvalidTopology ''/connections'' [] cycle_message] else []) @
     topology_issues h nodes edges @ chat_issues 0 (indexed nodes) @
     cardinality_issues h nodes edges @ tool_issues h nodes [] edges"

definition issue_key :: "validation_error \<Rightarrow> string \<times> string \<times> string" where
  "issue_key e = (ve_path e, code_text (ve_code e), ve_message e)"

definition sort_issues :: "validation_error list \<Rightarrow> validation_error list" where
  "sort_issues = sort_key issue_key"

datatype compile_error =
    DraftRefused draft_error
  | Refused "validation_error list"

definition document_issues :: "host \<Rightarrow> document \<Rightarrow> validation_error list" where
  "document_issues h d =
     (case validate_document_timezone h (settings_of d) of
        None \<Rightarrow> [] | Some e \<Rightarrow> [node_issue InvalidConfig ''/settings/timezone'' [] e]) @
     (if nodes_of d = []
      then [node_issue InvalidTopology ''/nodes'' [] ''workflow graph must contain at least one node'']
      else [])"

definition passes :: "host \<Rightarrow> catalog \<Rightarrow> document \<Rightarrow> compile_state" where
  "passes h cat d =
     fold (compile_connection h) (indexed (connections_of d))
       (fold (compile_node h cat (pin_data d)) (indexed (nodes_of d))
         \<lparr>cs_issues = document_issues h d, cs_defs = [], cs_nodes = [], cs_refused = [],
          cs_ir_nodes = [], cs_edges = [], cs_keys = []\<rparr>)"

definition compile :: "host \<Rightarrow> catalog \<Rightarrow> document \<Rightarrow> compile_error + ir" where
  "compile h cat d =
     (case validate_draft (h_lower h) d of
        Some e \<Rightarrow> Inl (DraftRefused e)
      | None \<Rightarrow>
          (let st = passes h cat d;
               issues = (if cs_issues st = []
                         then graph_issues h (cs_ir_nodes st) (cs_edges st) (cs_defs st)
                         else cs_issues st)
           in if issues \<noteq> [] then Inl (Refused (sort_issues issues))
              else Inr \<lparr>ir_workflow_id = doc_id d, ir_name = doc_name d, ir_nodes = cs_ir_nodes st,
                     ir_edges = cs_edges st, ir_settings = clone_any_map (settings_of d)\<rparr>))"

definition shape_code :: "error_code \<Rightarrow> bool" where
  "shape_code code \<longleftrightarrow> code \<in> {InvalidTopology, PortRequiredCode, PortFull, PortNotAllowed, IncompatiblePort, UnknownPortCode}"

definition shape_refusals :: "host \<Rightarrow> catalog \<Rightarrow> document \<Rightarrow> validation_error list" where
  "shape_refusals h cat d =
     (case compile h cat (if doc_id d = [] then d\<lparr>doc_id := ''shape-check''\<rparr> else d) of
        Inl (Refused issues) \<Rightarrow>
          filter (\<lambda>e. shape_code (ve_code e) \<and>
            \<not> (ve_code e = InvalidTopology \<and> contains_sub (ve_message e) ''must not contain a cycle'')) issues
      | _ \<Rightarrow> [])"

end
