(* ===== verification/Compiler_Correct.thy ===== *)
theory Compiler_Correct
  imports Compiler
begin

text \<open>
  What the compiler accepts, stated without its passes, and that the passes decide it: the
  specification \<open>executable\<close> of a document, the plan \<open>plan_of\<close> an executable document has, and
  \<open>compile_correct\<close>, which says that \<open>compile\<close> returns exactly that plan or a non-empty, sorted
  list of issues.
\<close>

subsection \<open>The whole-graph checks\<close>

definition topology_ok :: "ir_node list \<Rightarrow> ir_edge list \<Rightarrow> bool" where
  "topology_ok nodes edges \<longleftrightarrow>
     (\<forall>n \<in> set nodes.
        if def_inputs (in_definition n) = []
        then \<forall>e \<in> set edges. end_node (edge_target e) \<noteq> in_id n
        else \<forall>p \<in> set (def_inputs (in_definition n)). port_kind p = connection_main \<longrightarrow>
               (\<exists>e \<in> set edges. end_node (edge_target e) = in_id n \<and> end_port (edge_target e) = port_name p)) \<and>
     (\<exists>r \<in> set nodes. is_root r) \<and>
     (\<forall>n \<in> set nodes. is_annotation (in_definition n) \<or>
        (\<exists>r \<in> set nodes. \<exists>m. is_root r \<and> (in_id r, m) \<in> (set (arcs_of edges))\<^sup>* \<and>
           (in_id n, m) \<in> (set (attachment_arcs edges))\<^sup>*))"

lemma incoming_count_0:
  "incoming_count edges nid p = 0 \<longleftrightarrow>
     \<not> (\<exists>e \<in> set edges. end_node (edge_target e) = nid \<and> end_port (edge_target e) = p)"
  by (auto simp: incoming_count_def filter_empty_conv)

lemma reached_from_roots_set:
  "x \<in> set (reached_from_roots nodes edges) \<longleftrightarrow>
     (\<exists>r \<in> set nodes. \<exists>m. is_root r \<and> (in_id r, m) \<in> (set (arcs_of edges))\<^sup>* \<and>
        (x, m) \<in> (set (attachment_arcs edges))\<^sup>*)"
proof -
  have "set (walk (arcs_of edges) (roots_of nodes) (roots_of nodes)) = (set (arcs_of edges))\<^sup>* `` set (roots_of nodes)"
    using arc_walk.walk_reachable [of "roots_of nodes" "roots_of nodes" "arcs_of edges"] by simp
  then show ?thesis
    by (auto simp: reached_from_roots_def grow_exact roots_of_def rtrancl_converse)
qed

lemma ball_indexed: "(\<forall>p \<in> set (indexed xs). P (snd p)) \<longleftrightarrow> (\<forall>x \<in> set xs. P x)"
proof -
  have "set xs = snd ` set (indexed xs)" using map_snd_indexed [of xs] by (metis set_map)
  then show ?thesis by (simp only: ball_simps)
qed

lemma concat_indexed_Nil:
  assumes "\<And>i x. f (i, x) = [] \<longleftrightarrow> P x"
  shows "concat (map f (indexed xs)) = [] \<longleftrightarrow> (\<forall>x \<in> set xs. P x)"
proof -
  have "f p = [] \<longleftrightarrow> P (snd p)" for p using assms [of "fst p" "snd p"] by simp
  then have "concat (map f (indexed xs)) = [] \<longleftrightarrow> (\<forall>p \<in> set (indexed xs). P (snd p))" by simp
  then show ?thesis by (simp only: ball_indexed)
qed

lemma topology_issues_None: "topology_issues h nodes edges = [] \<longleftrightarrow> topology_ok nodes edges"
proof -
  have a: "input_issues h edges (i, n) = [] \<longleftrightarrow>
      (if def_inputs (in_definition n) = []
       then \<forall>e \<in> set edges. end_node (edge_target e) \<noteq> in_id n
       else \<forall>p \<in> set (def_inputs (in_definition n)). port_kind p = connection_main \<longrightarrow>
              (\<exists>e \<in> set edges. end_node (edge_target e) = in_id n \<and> end_port (edge_target e) = port_name p))" for i n
    by (auto simp: input_issues_def has_incoming_def list_ex_iff filter_empty_conv incoming_count_0)
  have b: "roots_of nodes = [] \<longleftrightarrow> \<not> (\<exists>r \<in> set nodes. is_root r)"
    by (auto simp: roots_of_def filter_empty_conv)
  have c: "filter (\<lambda>(index, n). \<not> is_annotation (in_definition n) \<and> in_id n \<notin> set (reached_from_roots nodes edges))
      (indexed nodes) = [] \<longleftrightarrow>
      (\<forall>n \<in> set nodes. is_annotation (in_definition n) \<or> in_id n \<in> set (reached_from_roots nodes edges))"
    unfolding filter_empty_conv
    using ball_indexed [of nodes "\<lambda>n. is_annotation (in_definition n) \<or> in_id n \<in> set (reached_from_roots nodes edges)"]
    by (simp add: case_prod_beta)
  show ?thesis
    unfolding topology_issues_def topology_ok_def append_is_Nil_conv
    by (intro conj_cong concat_indexed_Nil [of "input_issues h edges", OF a])
       (use c in \<open>simp add: b reached_from_roots_set\<close>)
qed

lemma chat_issues_None:
  "chat_issues seen ns = [] \<longleftrightarrow>
     (let k = length (filter (\<lambda>(i, n). in_type n = chat_trigger_node_type) ns) in k = 0 \<or> seen + k \<le> 1)"
  by (induction seen ns rule: chat_issues.induct) (auto simp: Let_def)

definition cardinality_ok :: "ir_node list \<Rightarrow> ir_edge list \<Rightarrow> bool" where
  "cardinality_ok nodes edges \<longleftrightarrow>
     (\<forall>n \<in> set nodes. \<forall>p \<in> set (def_inputs (in_definition n)).
        (port_required p \<longrightarrow> 0 < incoming_count edges (in_id n) (port_name p)) \<and>
        (0 < max_connections p \<longrightarrow> int (incoming_count edges (in_id n) (port_name p)) \<le> max_connections p))"

lemma cardinality_issues_None: "cardinality_issues h nodes edges = [] \<longleftrightarrow> cardinality_ok nodes edges"
proof -
  have "port_issues h edges i n p = [] \<longleftrightarrow>
      (port_required p \<longrightarrow> 0 < incoming_count edges (in_id n) (port_name p)) \<and>
      (0 < max_connections p \<longrightarrow> int (incoming_count edges (in_id n) (port_name p)) \<le> max_connections p)" for i n p
    by (auto simp: port_issues_def Let_def)
  then show ?thesis
    unfolding cardinality_issues_def cardinality_ok_def by (intro concat_indexed_Nil) auto
qed

definition tool_claims :: "ir_node list \<Rightarrow> ir_edge list \<Rightarrow> (string \<times> string) list" where
  "tool_claims nodes edges =
     concat (map (\<lambda>e.
       if edge_kind e \<noteq> connection_tool then []
       else case (node_by_id nodes (end_node (edge_source e)), node_by_id nodes (end_node (edge_target e))) of
              (Some source, Some target) \<Rightarrow>
                [(end_node (edge_target e), tool_name_of (in_parameters source) (in_name source))]
            | _ \<Rightarrow> []) edges)"

lemma tool_issues_None:
  "tool_issues h nodes claimed es = [] \<longleftrightarrow>
     distinct (tool_claims nodes es) \<and> set (tool_claims nodes es) \<inter> {k. aget claimed k \<noteq> None} = {}"
proof (induction h nodes claimed es rule: tool_issues.induct)
  case (2 h nodes claimed e es)
  show ?case
  proof (cases "edge_kind e = connection_tool \<and> (\<exists>s t. node_by_id nodes (end_node (edge_source e)) = Some s \<and>
      node_by_id nodes (end_node (edge_target e)) = Some t)")
    case True
    then obtain s t where st: "edge_kind e = connection_tool" "node_by_id nodes (end_node (edge_source e)) = Some s"
      "node_by_id nodes (end_node (edge_target e)) = Some t" by blast
    let ?k = "(end_node (edge_target e), tool_name_of (in_parameters s) (in_name s))"
    have claims: "tool_claims nodes (e # es) = ?k # tool_claims nodes es" using st by (simp add: tool_claims_def)
    show ?thesis
    proof (cases "aget claimed ?k")
      case None
      with 2 st
      have "tool_issues h nodes (aput ?k (in_name s) claimed) es = [] \<longleftrightarrow>
        distinct (tool_claims nodes es) \<and>
        set (tool_claims nodes es) \<inter> {k. aget (aput ?k (in_name s) claimed) k \<noteq> None} = {}"
        by simp
      with None st claims show ?thesis by (auto simp: Let_def)
    next
      case (Some f)
      with st claims show ?thesis by (simp add: Let_def)
    qed
  next
    case False
    then have claims: "tool_claims nodes (e # es) = tool_claims nodes es"
      by (auto simp: tool_claims_def split: option.splits)
    from False have "tool_issues h nodes claimed (e # es) = tool_issues h nodes claimed es"
      by (auto split: option.splits)
    with False claims 2 show ?thesis
      by (cases "edge_kind e = connection_tool"; cases "node_by_id nodes (end_node (edge_source e))";
          cases "node_by_id nodes (end_node (edge_target e))") auto
  qed
qed (simp add: tool_claims_def)

subsection \<open>The pass over the nodes\<close>

definition node_ready :: "node \<Rightarrow> node_definition \<Rightarrow> bool" where
  "node_ready n d \<longleftrightarrow>
     (\<forall>r \<in> set (required_parameters_of n d). jget (node_parameters n) r \<noteq> JNull) \<and>
     (\<forall>t \<in> set (required_credentials d). \<not> missing_credential n t) \<and>
     (\<forall>(t, ref) \<in> set (node_credentials n). trim_space ref \<noteq> [] \<longrightarrow>
        t \<in> set (credential_types d) \<union> set (required_credentials d)) \<and>
     Option.bind (def_validate d) (\<lambda>f. f n) = None \<and>
     settings_ok (node_settings n)"

lemma active_node_issues_None: "active_node_issues h index n d = [] \<longleftrightarrow> node_ready n d"
proof -
  have "missing_parameter_issues h index n d = [] \<longleftrightarrow>
      (\<forall>r \<in> set (required_parameters_of n d). jget (node_parameters n) r \<noteq> JNull)"
    by (auto simp: missing_parameter_issues_def filter_empty_conv)
  moreover have "configuration_issues h index n d = [] \<longleftrightarrow> Option.bind (def_validate d) (\<lambda>f. f n) = None"
    by (simp add: configuration_issues_def split: option.split)
  moreover have "settings_issues h index n = [] \<longleftrightarrow> settings_ok (node_settings n)"
    by (simp add: settings_issues_def validate_shared_settings_None)
  ultimately show ?thesis
    unfolding active_node_issues_def node_ready_def append_is_Nil_conv
    by (simp add: required_credential_None undeclared_credentials_None)
qed

definition node_accepted :: "catalog \<Rightarrow> (string \<times> item list option) list \<Rightarrow> node \<Rightarrow> bool" where
  "node_accepted cat pins n \<longleftrightarrow>
     (\<exists>d. resolve_definition cat n = Some d \<and>
        (node_disabled n \<or> pinned_items pins n \<noteq> None \<or> node_ready n d))"

definition node_step_issues ::
  "host \<Rightarrow> catalog \<Rightarrow> (string \<times> item list option) list \<Rightarrow> nat \<times> node \<Rightarrow> validation_error list" where
  "node_step_issues h cat pins p =
     (case p of (index, n) \<Rightarrow>
        case resolve_definition cat n of
          None \<Rightarrow> [unresolved_issue h cat index n]
        | Some d \<Rightarrow> if node_disabled n \<or> pinned_items pins n \<noteq> None then [] else active_node_issues h index n d)"

lemma node_step_issues_None: "node_step_issues h cat pins (index, n) = [] \<longleftrightarrow> node_accepted cat pins n"
  by (auto simp: node_step_issues_def node_accepted_def active_node_issues_None split: option.splits)

definition plan_nodes :: "catalog \<Rightarrow> (string \<times> item list option) list \<Rightarrow> node list \<Rightarrow> ir_node list" where
  "plan_nodes cat pins ns = map (\<lambda>(n, df). ir_node_of n df (pinned_items pins n)) (resolved_nodes cat ns)"

definition node_table :: "catalog \<Rightarrow> node list \<Rightarrow> (string \<times> node) list" where
  "node_table cat ns = map (\<lambda>(n, df). (node_id n, n)) (resolved_nodes cat ns)"

definition definition_table :: "catalog \<Rightarrow> node list \<Rightarrow> (string \<times> node_definition) list" where
  "definition_table cat ns = map (\<lambda>(n, df). (node_id n, df)) (resolved_nodes cat ns)"

lemma resolved_nodes_simps [simp]:
  "resolved_nodes cat [] = []"
  "resolved_nodes cat (n # ns) =
     (case resolve_definition cat n of None \<Rightarrow> [] | Some d \<Rightarrow> [(n, d)]) @ resolved_nodes cat ns"
  by (simp_all add: resolved_nodes_def)

lemma aput_new: "k \<notin> fst ` set m \<Longrightarrow> aput k v m = m @ [(k, v)]"
  by (induction k v m rule: aput.induct) auto

lemma compile_nodes:
  assumes "distinct (map (node_id \<circ> snd) xs)"
    and "\<forall>p \<in> set xs. node_id (snd p) \<notin> fst ` set (cs_defs st)"
    and "\<forall>p \<in> set xs. node_id (snd p) \<notin> fst ` set (cs_nodes st)"
  shows "fold (compile_node h cat pins) xs st = st\<lparr>
      cs_issues := cs_issues st @ concat (map (node_step_issues h cat pins) xs),
      cs_defs := cs_defs st @ definition_table cat (map snd xs),
      cs_nodes := cs_nodes st @ node_table cat (map snd xs),
      cs_refused := rev (map node_id (filter (\<lambda>n. resolve_definition cat n = None) (map snd xs))) @ cs_refused st,
      cs_ir_nodes := cs_ir_nodes st @ plan_nodes cat pins (map snd xs)\<rparr>"
  using assms
proof (induction xs arbitrary: st)
  case Nil
  then show ?case by (simp add: definition_table_def node_table_def plan_nodes_def)
next
  case (Cons p xs)
  obtain i n where p: "p = (i, n)" by fastforce
  let ?st = "compile_node h cat pins p st"
  have n: "node_id n \<notin> fst ` set (cs_defs st)" "node_id n \<notin> fst ` set (cs_nodes st)" using Cons(3,4) p by auto
  have d: "fst ` set (cs_defs ?st) \<subseteq> insert (node_id n) (fst ` set (cs_defs st))"
    "fst ` set (cs_nodes ?st) \<subseteq> insert (node_id n) (fst ` set (cs_nodes st))"
    using n by (auto simp: compile_node_def p Let_def aput_new split: option.splits)
  have fresh: "\<forall>q \<in> set xs. node_id (snd q) \<noteq> node_id n" using Cons(2) p by force
  have "fold (compile_node h cat pins) xs ?st = ?st\<lparr>
      cs_issues := cs_issues ?st @ concat (map (node_step_issues h cat pins) xs),
      cs_defs := cs_defs ?st @ definition_table cat (map snd xs),
      cs_nodes := cs_nodes ?st @ node_table cat (map snd xs),
      cs_refused := rev (map node_id (filter (\<lambda>n. resolve_definition cat n = None) (map snd xs))) @ cs_refused ?st,
      cs_ir_nodes := cs_ir_nodes ?st @ plan_nodes cat pins (map snd xs)\<rparr>"
  proof (rule Cons(1))
    show "distinct (map (node_id \<circ> snd) xs)" using Cons(2) by (simp add: comp_def)
    have old: "node_id (snd q) \<notin> fst ` set (cs_defs st)" "node_id (snd q) \<notin> fst ` set (cs_nodes st)" if "q \<in> set xs" for q
      using Cons(3,4) that by simp_all
    show "\<forall>q \<in> set xs. node_id (snd q) \<notin> fst ` set (cs_defs ?st)" using d(1) fresh old(1) by blast
    show "\<forall>q \<in> set xs. node_id (snd q) \<notin> fst ` set (cs_nodes ?st)" using d(2) fresh old(2) by blast
  qed
  then have ih: "fold (compile_node h cat pins) (p # xs) st = ?st\<lparr>
      cs_issues := cs_issues ?st @ concat (map (node_step_issues h cat pins) xs),
      cs_defs := cs_defs ?st @ definition_table cat (map snd xs),
      cs_nodes := cs_nodes ?st @ node_table cat (map snd xs),
      cs_refused := rev (map node_id (filter (\<lambda>n. resolve_definition cat n = None) (map snd xs))) @ cs_refused ?st,
      cs_ir_nodes := cs_ir_nodes ?st @ plan_nodes cat pins (map snd xs)\<rparr>" by simp
  show ?case
    unfolding ih using n by (cases "resolve_definition cat n")
      (simp_all add: p compile_node_def node_step_issues_def [of h cat pins "(i, n)"] Let_def aput_new
        definition_table_def node_table_def plan_nodes_def)
qed

subsection \<open>The pass over the connections\<close>

definition connection_key :: "connection \<Rightarrow> connection_kind \<times> endpoint \<times> endpoint" where
  "connection_key c = (conn_kind c, conn_source c, conn_target c)"

text \<open>What resolves a connection, written without the lookups' order.\<close>

lemma resolve_edge_Inr:
  "resolve_edge c nodes defs = Inr e \<longleftrightarrow>
     (\<exists>sn tn sd td sp i tp.
        aget nodes (end_node (conn_source c)) = Some sn \<and> aget nodes (end_node (conn_target c)) = Some tn \<and>
        aget defs (node_id sn) = Some sd \<and> aget defs (node_id tn) = Some td \<and>
        output_port sd (end_port (conn_source c)) = Some (sp, i) \<and>
        input_port td (end_port (conn_target c)) = Some tp \<and>
        port_kind sp = conn_kind c \<and> port_kind tp = conn_kind c \<and> port_accepts_node_type tp (node_type sn) \<and>
        e = \<lparr>edge_id = conn_id c, edge_kind = conn_kind c, edge_source = conn_source c,
             source_output_index = i, edge_target = conn_target c\<rparr>)"
proof (cases "\<exists>sn tn sd td sp i tp.
    aget nodes (end_node (conn_source c)) = Some sn \<and> aget nodes (end_node (conn_target c)) = Some tn \<and>
    aget defs (node_id sn) = Some sd \<and> aget defs (node_id tn) = Some td \<and>
    output_port sd (end_port (conn_source c)) = Some (sp, i) \<and> input_port td (end_port (conn_target c)) = Some tp")
  case True
  then show ?thesis by (auto simp: resolve_edge_def split: if_splits)
next
  case False
  have "resolve_edge c nodes defs \<noteq> Inr e"
  proof
    assume r: "resolve_edge c nodes defs = Inr e"
    then obtain sn tn where n: "aget nodes (end_node (conn_source c)) = Some sn"
      "aget nodes (end_node (conn_target c)) = Some tn"
      by (auto simp: resolve_edge_def split: option.splits)
    have "Option.bind (aget defs (node_id sn)) (\<lambda>d. output_port d (end_port (conn_source c))) \<noteq> None"
      "Option.bind (aget defs (node_id tn)) (\<lambda>d. input_port d (end_port (conn_target c))) \<noteq> None"
      using r n by (auto simp: resolve_edge_def split: option.splits)
    then show False using False n by (auto simp: bind_eq_None_conv)
  qed
  with False show ?thesis by blast
qed

definition edges_of :: "(string \<times> node) list \<Rightarrow> (string \<times> node_definition) list \<Rightarrow> connection list \<Rightarrow> ir_edge list" where
  "edges_of nodes defs cs =
     concat (map (\<lambda>c. case resolve_edge c nodes defs of Inl _ \<Rightarrow> [] | Inr e \<Rightarrow> [e]) cs)"

definition connections_ok ::
  "(string \<times> node) list \<Rightarrow> (string \<times> node_definition) list \<Rightarrow> connection list \<Rightarrow> bool" where
  "connections_ok nodes defs cs \<longleftrightarrow>
     (\<forall>c \<in> set cs. \<exists>e. resolve_edge c nodes defs = Inr e) \<and> distinct (map connection_key cs)"

lemma compile_connection_tables [simp]:
  "cs_defs (compile_connection h p st) = cs_defs st" "cs_nodes (compile_connection h p st) = cs_nodes st"
  "cs_refused (compile_connection h p st) = cs_refused st" "cs_ir_nodes (compile_connection h p st) = cs_ir_nodes st"
  by (simp_all add: compile_connection_def Let_def split: prod.split sum.split)

lemma compile_connections_tables [simp]:
  "cs_defs (fold (compile_connection h) xs st) = cs_defs st" "cs_nodes (fold (compile_connection h) xs st) = cs_nodes st"
  "cs_refused (fold (compile_connection h) xs st) = cs_refused st"
  "cs_ir_nodes (fold (compile_connection h) xs st) = cs_ir_nodes st"
  by (induction xs arbitrary: st) simp_all

lemma compile_connections_issues:
  "\<exists>extra. cs_issues (fold (compile_connection h) xs st) = cs_issues st @ extra"
proof (induction xs arbitrary: st)
  case (Cons p xs)
  have "\<exists>extra. cs_issues (compile_connection h p st) = cs_issues st @ extra"
    by (simp add: compile_connection_def Let_def split: prod.split sum.split)
  then show ?case using Cons [of "compile_connection h p st"] by auto
qed simp

lemma compile_connections:
  assumes "cs_refused st = []"
  shows "cs_issues (fold (compile_connection h) xs st) = cs_issues st \<longleftrightarrow>
      connections_ok (cs_nodes st) (cs_defs st) (map snd xs) \<and>
      set (map connection_key (map snd xs)) \<inter> set (cs_keys st) = {}" (is "?none st xs \<longleftrightarrow> ?ok st xs")
    and "cs_issues (fold (compile_connection h) xs st) = cs_issues st \<Longrightarrow>
      cs_edges (fold (compile_connection h) xs st) = cs_edges st @ edges_of (cs_nodes st) (cs_defs st) (map snd xs)"
proof -
  have "(?none st xs \<longleftrightarrow> ?ok st xs) \<and> (?none st xs \<longrightarrow>
      cs_edges (fold (compile_connection h) xs st) = cs_edges st @ edges_of (cs_nodes st) (cs_defs st) (map snd xs))"
    using assms
  proof (induction xs arbitrary: st)
    case Nil
    then show ?case by (simp add: connections_ok_def edges_of_def)
  next
    case (Cons p xs)
    obtain i c where p: "p = (i, c)" by fastforce
    let ?st = "compile_connection h p st"
    obtain extra where ex: "cs_issues (fold (compile_connection h) xs ?st) = cs_issues ?st @ extra"
      using compile_connections_issues by blast
    show ?case
    proof (cases "\<exists>e. resolve_edge c (cs_nodes st) (cs_defs st) = Inr e \<and> connection_key c \<notin> set (cs_keys st)")
      case True
      then obtain e where e: "resolve_edge c (cs_nodes st) (cs_defs st) = Inr e" "connection_key c \<notin> set (cs_keys st)" by blast
      then have st: "?st = st\<lparr>cs_keys := connection_key c # cs_keys st, cs_edges := cs_edges st @ [e]\<rparr>"
        by (simp add: p compile_connection_def connection_key_def)
      have "cs_refused ?st = []" using Cons(2) by simp
      note ih = Cons(1) [OF this]
      have ok: "?ok st (p # xs) \<longleftrightarrow> ?ok ?st xs"
        unfolding st using e by (auto simp: p connections_ok_def)
      have none: "?none st (p # xs) \<longleftrightarrow> ?none ?st xs" by (simp add: st)
      have edges: "cs_edges st @ edges_of (cs_nodes st) (cs_defs st) (map snd (p # xs)) =
          cs_edges ?st @ edges_of (cs_nodes ?st) (cs_defs ?st) (map snd xs)"
        unfolding st using e by (simp add: p edges_of_def)
      show ?thesis unfolding ok none edges using ih by simp
    next
      case False
      then have "\<exists>issue. cs_issues ?st = cs_issues st @ [issue]"
        using Cons(2) by (auto simp: p compile_connection_def connection_key_def Let_def edge_issue_def
            split: sum.splits edge_fault.splits)
      with ex have "\<not> ?none st (p # xs)" by auto
      moreover have "\<not> ?ok st (p # xs)" using False by (auto simp: p connections_ok_def)
      ultimately show ?thesis by blast
    qed
  qed
  then show "?none st xs \<longleftrightarrow> ?ok st xs" "?none st xs \<Longrightarrow>
      cs_edges (fold (compile_connection h) xs st) = cs_edges st @ edges_of (cs_nodes st) (cs_defs st) (map snd xs)"
    by blast+
qed

subsection \<open>What is executable, and its plan\<close>

text \<open>An edge that closes a declared loop: it enters a loop node that leads to its source.\<close>

definition back_edge :: "(string \<times> node_definition) list \<Rightarrow> ir_edge list \<Rightarrow> ir_edge \<Rightarrow> bool" where
  "back_edge defs edges e \<longleftrightarrow> enters_loop defs e \<and>
     (end_node (edge_target e), end_node (edge_source e)) \<in> (set (arcs_of edges))\<^sup>+"

definition forward_arcs :: "(string \<times> node_definition) list \<Rightarrow> ir_edge list \<Rightarrow> (string \<times> string) set" where
  "forward_arcs defs edges =
     {(end_node (edge_source e), end_node (edge_target e)) | e. e \<in> set edges \<and> \<not> back_edge defs edges e}"

lemma illegal_cycles_None:
  assumes "distinct (map edge_id edges)"
  shows "illegal_cycles order edges defs = Some [] \<longleftrightarrow> acyclic (forward_arcs defs edges)"
proof -
  have "edge_id e \<in> set (loop_closing_edges edges defs) \<longleftrightarrow> back_edge defs edges e" if "e \<in> set edges" for e
    using that assms by (auto simp: loop_closing_edges_def back_edge_def reaches_iff distinct_map dest: inj_onD)
  then have "filter (\<lambda>e. edge_id e \<notin> set (loop_closing_edges edges defs)) edges =
      filter (\<lambda>e. \<not> back_edge defs edges e) edges" by (intro filter_cong) auto
  moreover have "set (arcs_of (filter (\<lambda>e. \<not> back_edge defs edges e) edges)) = forward_arcs defs edges"
    by (auto simp: arcs_of_def forward_arcs_def)
  ultimately show ?thesis by (simp add: illegal_cycles_def cycles_among_acyclic)
qed

definition graph_ok :: "ir_node list \<Rightarrow> ir_edge list \<Rightarrow> (string \<times> node_definition) list \<Rightarrow> bool" where
  "graph_ok nodes edges defs \<longleftrightarrow>
     acyclic (forward_arcs defs edges) \<and> topology_ok nodes edges \<and>
     length (filter (\<lambda>n. in_type n = chat_trigger_node_type) nodes) \<le> 1 \<and>
     cardinality_ok nodes edges \<and> distinct (tool_claims nodes edges)"

lemma graph_issues_None:
  assumes "distinct (map edge_id edges)"
  shows "graph_issues h nodes edges defs = [] \<longleftrightarrow> graph_ok nodes edges defs"
proof -
  have "filter (\<lambda>(i, n). in_type n = chat_trigger_node_type) (indexed nodes) =
      filter ((\<lambda>n. in_type n = chat_trigger_node_type) \<circ> snd) (indexed nodes)"
    by (rule filter_cong) auto
  then have "length (filter (\<lambda>(i, n). in_type n = chat_trigger_node_type) (indexed nodes)) =
      length (filter (\<lambda>n. in_type n = chat_trigger_node_type) (map snd (indexed nodes)))"
    by (simp only: filter_map length_map)
  then have "chat_issues 0 (indexed nodes) = [] \<longleftrightarrow>
      length (filter (\<lambda>n. in_type n = chat_trigger_node_type) nodes) \<le> 1"
    by (auto simp: chat_issues_None Let_def)
  then show ?thesis
    using illegal_cycles_None [OF assms] tool_issues_None [of h nodes "[]" edges]
    unfolding graph_issues_def graph_ok_def append_is_Nil_conv
    by (auto simp: topology_issues_None cardinality_issues_None)
qed

definition plan_edges :: "catalog \<Rightarrow> document \<Rightarrow> ir_edge list" where
  "plan_edges cat d =
     edges_of (node_table cat (nodes_of d)) (definition_table cat (nodes_of d)) (connections_of d)"

definition plan_of :: "catalog \<Rightarrow> document \<Rightarrow> ir" where
  "plan_of cat d =
     \<lparr>ir_workflow_id = doc_id d, ir_name = doc_name d, ir_nodes = plan_nodes cat (pin_data d) (nodes_of d),
      ir_edges = plan_edges cat d, ir_settings = settings_of d\<rparr>"

definition executable :: "host \<Rightarrow> catalog \<Rightarrow> document \<Rightarrow> bool" where
  "executable h cat d \<longleftrightarrow>
     draft_ok (h_lower h) d \<and> timezone_ok h (settings_of d) \<and> nodes_of d \<noteq> [] \<and>
     (\<forall>n \<in> set (nodes_of d). node_accepted cat (pin_data d) n) \<and>
     connections_ok (node_table cat (nodes_of d)) (definition_table cat (nodes_of d)) (connections_of d) \<and>
     graph_ok (plan_nodes cat (pin_data d) (nodes_of d)) (plan_edges cat d) (definition_table cat (nodes_of d))"

lemma edges_of_ids:
  assumes "connections_ok nodes defs cs"
  shows "map edge_id (edges_of nodes defs cs) = map conn_id cs"
proof -
  have "\<forall>c \<in> set cs. \<exists>e. resolve_edge c nodes defs = Inr e" using assms by (simp add: connections_ok_def)
  then show ?thesis
  proof (induction cs)
    case (Cons c cs)
    then obtain e where "resolve_edge c nodes defs = Inr e" by auto
    moreover from this have "edge_id e = conn_id c" by (auto simp: resolve_edge_Inr)
    ultimately show ?case using Cons by (simp add: edges_of_def)
  qed (simp add: edges_of_def)
qed

lemma document_issues_None:
  "document_issues h d = [] \<longleftrightarrow> timezone_ok h (settings_of d) \<and> nodes_of d \<noteq> []"
  using validate_document_timezone_None [of h "settings_of d"]
  by (cases "validate_document_timezone h (settings_of d)") (auto simp: document_issues_def)

lemma passes_correct:
  fixes cat :: catalog
  assumes "draft_ok (h_lower h) d"
  defines "st \<equiv> passes h cat d"
  shows "cs_issues st = [] \<longleftrightarrow> timezone_ok h (settings_of d) \<and> nodes_of d \<noteq> [] \<and>
      (\<forall>n \<in> set (nodes_of d). node_accepted cat (pin_data d) n) \<and>
      connections_ok (node_table cat (nodes_of d)) (definition_table cat (nodes_of d)) (connections_of d)"
    and "cs_ir_nodes st = plan_nodes cat (pin_data d) (nodes_of d)"
    and "cs_defs st = definition_table cat (nodes_of d)"
    and "cs_issues st = [] \<Longrightarrow> cs_edges st = plan_edges cat d"
proof -
  let ?init = "\<lparr>cs_issues = document_issues h d, cs_defs = [], cs_nodes = [], cs_refused = [],
          cs_ir_nodes = [], cs_edges = [], cs_keys = []\<rparr>"
  let ?ns = "indexed (nodes_of d)" and ?cs = "indexed (connections_of d)"
  define s1 where "s1 = fold (compile_node h cat (pin_data d)) ?ns ?init"
  have "distinct (map node_id (nodes_of d))" using assms(1) by (simp add: draft_ok_def)
  then have dist: "distinct (map (node_id \<circ> snd) ?ns)" by (simp flip: map_map)
  have s1: "s1 = ?init\<lparr>
      cs_issues := document_issues h d @ concat (map (node_step_issues h cat (pin_data d)) ?ns),
      cs_defs := definition_table cat (nodes_of d), cs_nodes := node_table cat (nodes_of d),
      cs_refused := rev (map node_id (filter (\<lambda>n. resolve_definition cat n = None) (nodes_of d))),
      cs_ir_nodes := plan_nodes cat (pin_data d) (nodes_of d)\<rparr>"
    unfolding s1_def by (subst compile_nodes [OF dist]) simp_all
  have st: "st = fold (compile_connection h) ?cs s1" by (simp add: st_def passes_def s1_def)
  show "cs_ir_nodes st = plan_nodes cat (pin_data d) (nodes_of d)" by (simp add: st) (simp add: s1)
  show "cs_defs st = definition_table cat (nodes_of d)" by (simp add: st) (simp add: s1)
  have nodes: "concat (map (node_step_issues h cat (pin_data d)) ?ns) = [] \<longleftrightarrow>
      (\<forall>n \<in> set (nodes_of d). node_accepted cat (pin_data d) n)"
    by (rule concat_indexed_Nil) (rule node_step_issues_None)
  have i1: "cs_issues s1 = [] \<longleftrightarrow> timezone_ok h (settings_of d) \<and> nodes_of d \<noteq> [] \<and>
      (\<forall>n \<in> set (nodes_of d). node_accepted cat (pin_data d) n)"
    by (simp add: s1 nodes document_issues_None del: concat_eq_Nil_conv)
  have ref: "cs_refused s1 = []" if "\<forall>n \<in> set (nodes_of d). node_accepted cat (pin_data d) n"
    using that by (auto simp: s1 node_accepted_def filter_empty_conv)
  have tables: "cs_nodes s1 = node_table cat (nodes_of d)" "cs_defs s1 = definition_table cat (nodes_of d)"
    "cs_keys s1 = []" "cs_edges s1 = []" by (simp_all add: s1)
  obtain extra where ex: "cs_issues st = cs_issues s1 @ extra"
    using compile_connections_issues [of h ?cs s1] by (auto simp: st)
  show "cs_issues st = [] \<longleftrightarrow> timezone_ok h (settings_of d) \<and> nodes_of d \<noteq> [] \<and>
      (\<forall>n \<in> set (nodes_of d). node_accepted cat (pin_data d) n) \<and>
      connections_ok (node_table cat (nodes_of d)) (definition_table cat (nodes_of d)) (connections_of d)"
  proof (cases "cs_issues s1 = []")
    case True
    then have "cs_refused s1 = []" using i1 ref by blast
    from compile_connections(1) [OF this, of h ?cs] True i1 tables show ?thesis by (simp add: st)
  next
    case False
    with ex i1 show ?thesis by auto
  qed
  assume none: "cs_issues st = []"
  then have s1n: "cs_issues s1 = []" using ex by simp
  then have "cs_refused s1 = []" using i1 ref by blast
  from compile_connections(2) [OF this, of h ?cs] none s1n tables show "cs_edges st = plan_edges cat d"
    by (simp add: st plan_edges_def)
qed

text \<open>The compiler decides \<open>executable\<close> and returns the plan.\<close>

lemma sort_issues_sorted: "sorted (map issue_key (sort_issues issues))"
  by (simp add: sort_issues_def)

lemma sort_issues_set [simp]: "set (sort_issues issues) = set issues"
  by (simp add: sort_issues_def)

lemma sort_issues_Nil [simp]: "sort_issues issues = [] \<longleftrightarrow> issues = []"
  by (metis set_empty sort_issues_set)

lemma compile_accepts: "executable h cat d \<Longrightarrow> compile h cat d = Inr (plan_of cat d)"
proof -
  assume ex: "executable h cat d"
  then have ok: "draft_ok (h_lower h) d" by (simp add: executable_def)
  have valid: "validate_draft (h_lower h) d = None" using ok by (simp add: validate_draft_None)
  note p = passes_correct [OF ok, of cat]
  have none: "cs_issues (passes h cat d) = []" using p(1) ex by (simp add: executable_def)
  have edges: "cs_edges (passes h cat d) = plan_edges cat d" using p(4) none by simp
  have "distinct (map conn_id (connections_of d))" using ok by (simp add: draft_ok_def)
  then have "distinct (map edge_id (plan_edges cat d))"
    using ex edges_of_ids by (simp add: executable_def plan_edges_def)
  then have "graph_issues h (plan_nodes cat (pin_data d) (nodes_of d)) (plan_edges cat d)
      (definition_table cat (nodes_of d)) = []" using ex graph_issues_None by (simp add: executable_def)
  then show ?thesis
    using valid none edges p(2,3) by (simp add: compile_def Let_def plan_of_def)
qed

lemma compile_refuses:
  assumes "\<not> executable h cat d"
  shows "(\<exists>e. compile h cat d = Inl (DraftRefused e) \<and> \<not> draft_ok (h_lower h) d) \<or>
    (\<exists>issues. compile h cat d = Inl (Refused issues) \<and> issues \<noteq> [] \<and> sorted (map issue_key issues))"
proof (cases "draft_ok (h_lower h) d")
  case False
  then obtain e where "validate_draft (h_lower h) d = Some e" using validate_draft_None by blast
  with False show ?thesis by (simp add: compile_def)
next
  case ok: True
  have valid: "validate_draft (h_lower h) d = None" using ok by (simp add: validate_draft_None)
  note p = passes_correct [OF ok, of cat]
  let ?st = "passes h cat d"
  let ?issues = "if cs_issues ?st = [] then graph_issues h (cs_ir_nodes ?st) (cs_edges ?st) (cs_defs ?st) else cs_issues ?st"
  have "?issues \<noteq> []"
  proof (cases "cs_issues ?st = []")
    case True
    have edges: "cs_edges ?st = plan_edges cat d" using p(4) True by simp
    have conns: "connections_ok (node_table cat (nodes_of d)) (definition_table cat (nodes_of d)) (connections_of d)"
      using p(1) True by simp
    have "distinct (map conn_id (connections_of d))" using ok by (simp add: draft_ok_def)
    then have "distinct (map edge_id (plan_edges cat d))"
      using conns edges_of_ids by (simp add: plan_edges_def)
    then have "graph_issues h (plan_nodes cat (pin_data d) (nodes_of d)) (plan_edges cat d)
      (definition_table cat (nodes_of d)) \<noteq> []"
      using assms graph_issues_None p(1) True ok by (auto simp: executable_def)
    with True edges p(2,3) show ?thesis by simp
  qed simp
  moreover from this have "compile h cat d = Inl (Refused (sort_issues ?issues))"
    using valid by (simp add: compile_def Let_def)
  ultimately show ?thesis using sort_issues_sorted [of ?issues] by auto
qed

lemma compile_accepted: "compile h cat d = Inr plan \<Longrightarrow> executable h cat d \<and> plan = plan_of cat d"
  using compile_accepts [of h cat d] compile_refuses [of h cat d] by (cases "executable h cat d") auto

text \<open>C1: Compile returns a plan exactly for the executable documents, and the plan is the one the
  document's resolved nodes and connections determine: every branch of the compiler's checks is
  one of the conditions of \<open>executable\<close>, and nothing else is refused.\<close>

theorem compile_ok_iff: "compile h cat d = Inr plan \<longleftrightarrow> executable h cat d \<and> plan = plan_of cat d"
  using compile_accepts compile_accepted by blast

end
