(* ===== verification/Lineage.thy ===== *)
theory Lineage
  imports Compiler
begin

text \<open>
  Paired-item lineage (\<open>internal/engine/runner.go\<close>, \<open>internal/expression/roots.go\<close>): the origin
  keys expressions compare, the stamps the runner gives items whose executor left them unset, the
  origins of their own that a fan-out's items get (\<open>anchorFanOuts\<close>, \<open>boundedLineage\<close>), what a
  finished node publishes to expressions (\<open>nodeItemFor\<close>), and which of a node's items the item
  being processed descends from (\<open>pairIndex\<close>).
\<close>

subsection \<open>Copies\<close>

definition clone_item :: "item \<Rightarrow> item" where
  "clone_item i = i\<lparr>item_json := clone_any_map (item_json i)\<rparr>"

definition clone_items :: "item list \<Rightarrow> item list" where
  "clone_items = map clone_item"

definition clone_output :: "node_output \<Rightarrow> node_output" where
  "clone_output = map clone_items"

definition clone_input :: "node_input \<Rightarrow> node_input" where
  "clone_input input = (\<lambda>p. clone_items (input p))"

lemma clone_id [simp]:
  "clone_item i = i" "clone_items is = is" "clone_output out = out" "clone_input input = input"
  by (simp_all add: clone_item_def clone_items_def clone_output_def clone_input_def map_idI)

subsection \<open>Origins\<close>

definition nul :: string where "nul = [CHR 0x00]"

definition origin_key :: "string \<Rightarrow> string \<Rightarrow> int \<Rightarrow> int \<Rightarrow> string" where
  "origin_key nid p run k = nid @ nul @ p @ nul @ itoa run @ nul @ itoa k"

text \<open>The empty string is no origin.\<close>

definition origin_key_of :: "paired_item option \<Rightarrow> string" where
  "origin_key_of origin =
     (case origin of
        None \<Rightarrow> []
      | Some p \<Rightarrow>
          if lost p then []
          else origin_key (source_node_id p) (source_port p) (pi_run_index p) (item_index p) @
               (if parent p \<noteq> None then nul @ ''fan-out'' else []))"

fun levels_of :: "paired_item \<Rightarrow> paired_item list" where
  "levels_of (PairedItem s q r i l par) =
     PairedItem s q r i l par # (case par of None \<Rightarrow> [] | Some p \<Rightarrow> levels_of p)"

definition levels :: "paired_item option \<Rightarrow> paired_item list" where
  "levels origin = (case origin of None \<Rightarrow> [] | Some p \<Rightarrow> levels_of p)"

fun relink :: "paired_item list \<Rightarrow> paired_item option" where
  "relink [] = None"
| "relink (PairedItem s q r i l par # ls) = Some (PairedItem s q r i l (relink ls))"

definition bounded_lineage :: "paired_item option \<Rightarrow> nat \<Rightarrow> paired_item option" where
  "bounded_lineage origin limit =
     (let ls = levels origin in
      if length ls \<le> limit then origin
      else relink (take (limit - 1) ls @ [last ls]))"

definition max_lineage_depth :: nat where "max_lineage_depth = 16"

definition port_name_at :: "ir_node \<Rightarrow> nat \<Rightarrow> string" where
  "port_name_at n i =
     (if i < length (def_outputs (in_definition n)) then port_name (def_outputs (in_definition n) ! i) else [])"

definition anchor_fan_outs :: "ir_node \<Rightarrow> node_output \<Rightarrow> int \<Rightarrow> node_output" where
  "anchor_fan_outs n output run =
     (let keys = map (\<lambda>it. origin_key_of (item_paired it)) (concat output) in
      map (\<lambda>(p, items).
        map (\<lambda>(i, it).
          let key = origin_key_of (item_paired it) in
          if key = [] \<or> count_list keys key < 2 then it
          else it\<lparr>item_paired := Some (PairedItem (in_id n) (port_name_at n p) run (int i) False
                 (bounded_lineage (item_paired it) (max_lineage_depth - 1)))\<rparr>)
          (indexed items))
        (indexed output))"

subsection \<open>Stamps\<close>

definition lineage_sources :: "ir_edge list \<Rightarrow> node_input \<Rightarrow> ir_edge list" where
  "lineage_sources edges input =
     filter (\<lambda>e. edge_kind e = connection_main \<and> input (end_port (edge_target e)) \<noteq> []) edges"

definition pointer_into :: "ir_edge \<Rightarrow> item \<Rightarrow> paired_item option" where
  "pointer_into source incoming =
     (case item_paired incoming of
        None \<Rightarrow> None
      | Some own \<Rightarrow>
          if \<not> lost own \<or> source_node_id own \<noteq> end_node (edge_source source) then None
          else Some (PairedItem (end_node (edge_source source)) (end_port (edge_source source))
                 (pi_run_index own) (item_index own) False None))"

text \<open>\<open>runs\<close> is how many runs of the node have been recorded.\<close>

definition lineage_of :: "nat \<Rightarrow> ir_node \<Rightarrow> ir_edge list \<Rightarrow> nat \<Rightarrow> item option \<Rightarrow> paired_item" where
  "lineage_of runs n sources index from =
     (let own = PairedItem (in_id n) [] (int runs) (int index) in
      if sources = [] then own False None
      else if length sources \<noteq> 1 then own True None
      else case from of
             None \<Rightarrow> own True None
           | Some it \<Rightarrow>
               (case item_paired it of
                  Some origin \<Rightarrow>
                    if \<not> lost origin then origin
                    else (case pointer_into (hd sources) it of Some p \<Rightarrow> p | None \<Rightarrow> own True None)
                | None \<Rightarrow>
                    (case pointer_into (hd sources) it of Some p \<Rightarrow> p | None \<Rightarrow> own True None)))"

definition stamp_item :: "paired_item \<Rightarrow> item \<Rightarrow> item" where
  "stamp_item p it = (if item_paired it \<noteq> None then it else it\<lparr>item_paired := Some p\<rparr>)"

definition stamp_provenance :: "nat \<Rightarrow> ir_node \<Rightarrow> ir_edge list \<Rightarrow> node_input \<Rightarrow> node_output \<Rightarrow> node_output" where
  "stamp_provenance runs n edges input output =
     (let sources = lineage_sources edges input in
      map (\<lambda>items.
        let incoming = (if length sources = 1 then input (end_port (edge_target (hd sources))) else []);
            one_to_one = (length sources = 1 \<and> length incoming = length items)
        in map (\<lambda>(i, it). stamp_item
                  (lineage_of runs n sources i (if one_to_one then Some (incoming ! i) else None)) it)
             (indexed items)) output)"

text \<open>\<open>before\<close> is how long each port of the assembled output was before this item's call.\<close>

definition stamp_per_item ::
  "nat \<Rightarrow> ir_node \<Rightarrow> ir_edge list \<Rightarrow> item \<Rightarrow> node_output \<Rightarrow> nat list \<Rightarrow> node_output" where
  "stamp_per_item runs n sources it assembled before =
     map (\<lambda>(p, items).
       let start = before ! p;
           from = (if length (drop start items) = 1 then Some it else None)
       in take start items @
          map (\<lambda>(offset, added). stamp_item (lineage_of runs n sources (start + offset) from) added)
            (indexed (drop start items)))
       (indexed assembled)"

definition port_lengths :: "node_output \<Rightarrow> nat list" where
  "port_lengths output = map length output"

text \<open>Always Output Data: one empty item on an empty first output.\<close>

definition with_empty_item :: "nat \<Rightarrow> ir_node \<Rightarrow> ir_edge list \<Rightarrow> node_input \<Rightarrow> node_output \<Rightarrow> node_output" where
  "with_empty_item runs n sources input output =
     (if \<not> setting_bool (in_settings n) ''alwaysOutputData'' \<or> output = [] \<or> hd output \<noteq> [] then output
      else
        let incoming = (if length sources = 1 then input (end_port (edge_target (hd sources))) else []);
            from = (if length incoming = 1 then Some (hd incoming) else None)
        in [\<lparr>item_json = [], item_binary = [], item_paired = Some (lineage_of runs n sources 0 from)\<rparr>] # tl output)"

subsection \<open>What a node publishes to expressions\<close>

record node_item =
  ni_items :: "jobject list"
  ni_origins :: "string list"
  ni_node_id :: string
  ni_run_index :: int
  ni_port_offsets :: "(string \<times> nat) list"
  ni_port_lengths :: "(string \<times> nat) list"
  ni_output_lengths :: "nat list"
  ni_executions :: nat
  ni_paired :: "jobject option"
  ni_reason :: string
  ni_parameters :: jobject

definition latest_run :: "node_item \<Rightarrow> int" where
  "latest_run ni = (if 0 < ni_executions ni then int (ni_executions ni) - 1 else ni_run_index ni)"

definition node_item_step :: "ir_node \<Rightarrow> nat \<times> item list \<Rightarrow> node_item \<Rightarrow> node_item" where
  "node_item_step n port ni =
     (case port of (p, items) \<Rightarrow>
        let ni = ni\<lparr>ni_output_lengths := ni_output_lengths ni @ [length items]\<rparr>;
            ni = (if p < length (def_outputs (in_definition n))
                  then ni\<lparr>ni_port_offsets := aput (port_name_at n p) (length (ni_items ni)) (ni_port_offsets ni),
                         ni_port_lengths := aput (port_name_at n p) (length items) (ni_port_lengths ni)\<rparr>
                  else ni)
        in ni\<lparr>ni_items := ni_items ni @ map item_json items,
              ni_origins := ni_origins ni @ map (\<lambda>it. origin_key_of (item_paired it)) items\<rparr>)"

definition node_item_for :: "(string \<Rightarrow> string) \<Rightarrow> ir_node \<Rightarrow> node_output \<Rightarrow> int \<Rightarrow> node_item" where
  "node_item_for quote n output run =
     (let ni = fold (node_item_step n) (indexed output)
            \<lparr>ni_items = [], ni_origins = [], ni_node_id = in_id n, ni_run_index = run, ni_port_offsets = [],
             ni_port_lengths = [], ni_output_lengths = [], ni_executions = 0, ni_paired = None, ni_reason = [],
             ni_parameters = clone_any_map (in_parameters n)\<rparr>
      in case ni_items ni of
           [] \<Rightarrow> ni\<lparr>ni_reason := ''node '' @ quote (in_name n) @ '' produced no items''\<rparr>
         | [only] \<Rightarrow> ni\<lparr>ni_paired := Some only\<rparr>
         | _ \<Rightarrow> ni\<lparr>ni_reason := ''node '' @ quote (in_name n) @ '' produced '' @ itoa (int (length (ni_items ni))) @
               '' items; use .all(), .first() or .last() to choose one''\<rparr>)"

subsection \<open>Which item the current one descends from\<close>

datatype pair_reason =
    ProducedNoItems string
  | LineageLost
  | LineageUnrecorded
  | SeveralPaired string
  | NoDescendant string
  | CorrespondenceChanged string

definition find_origin :: "node_item \<Rightarrow> string \<Rightarrow> nat option \<times> nat \<times> nat" where
  "find_origin ni key =
     (let hits = filter (\<lambda>(i, k). k \<noteq> [] \<and> k = key) (indexed (ni_origins ni))
      in (case hits of [] \<Rightarrow> None | (i, _) # _ \<Rightarrow> Some i, length hits, count_list (ni_origins ni) []))"

definition named_item_position :: "node_item \<Rightarrow> paired_item option \<Rightarrow> nat option" where
  "named_item_position ni origin =
     (case origin of
        None \<Rightarrow> None
      | Some p \<Rightarrow>
          if lost p \<or> ni_node_id ni = [] then None
          else if source_node_id p \<noteq> ni_node_id ni \<or> pi_run_index p \<noteq> ni_run_index ni then None
          else case (aget (ni_port_offsets ni) (source_port p), aget (ni_port_lengths ni) (source_port p)) of
                 (Some offset, Some len) \<Rightarrow>
                   if item_index p < 0 \<or> int len \<le> item_index p then None
                   else let position = offset + nat (item_index p) in
                        if length (ni_items ni) \<le> position \<or> length (ni_origins ni) \<le> position
                           \<or> ni_origins ni ! position \<noteq> [] then None
                        else Some position
               | _ \<Rightarrow> None)"

text \<open>The levels above the current item's own origin, nearest first, until one is known to the node.\<close>

fun climb :: "node_item \<Rightarrow> paired_item list \<Rightarrow> nat option \<times> nat \<times> nat \<Rightarrow> nat + nat option \<times> nat \<times> nat" where
  "climb ni [] found = Inr found"
| "climb ni (level # ls) found =
     (if fst (snd found) \<noteq> 0 then Inr found
      else case named_item_position ni (Some level) of
             Some position \<Rightarrow> Inl position
           | None \<Rightarrow>
               (let key = origin_key_of (Some level)
                in climb ni ls (if key \<noteq> [] then find_origin ni key else found)))"

definition pair_index ::
  "string \<Rightarrow> node_item \<Rightarrow> string \<Rightarrow> paired_item option \<Rightarrow> int \<Rightarrow> pair_reason + nat" where
  "pair_index name ni key origin index =
     (case named_item_position ni origin of
        Some position \<Rightarrow> Inr position
      | None \<Rightarrow>
          if ni_items ni = [] then Inl (ProducedNoItems name)
          else if length (ni_items ni) = 1 then Inr 0
          else if key = []
          then (if (case origin of Some p \<Rightarrow> lost p | None \<Rightarrow> False) then Inl LineageLost else Inl LineageUnrecorded)
          else case climb ni (tl (levels origin)) (find_origin ni key) of
                 Inl position \<Rightarrow> Inr position
               | Inr (first, matches, unknown) \<Rightarrow>
                   if matches = 1 then Inr (the first)
                   else if matches > 1 \<or> unknown = 0
                   then (if 0 \<le> index \<and> index < int (length (ni_items ni)) then Inr (nat index)
                         else if matches > 1 then Inl (SeveralPaired name) else Inl (NoDescendant name))
                   else Inl (CorrespondenceChanged name))"

definition paired_index :: "string \<Rightarrow> node_item \<Rightarrow> item \<Rightarrow> int \<Rightarrow> pair_reason + nat" where
  "paired_index name ni current index =
     pair_index name ni (origin_key_of (item_paired current)) (item_paired current) index"

definition pair_node_item ::
  "(pair_reason \<Rightarrow> string) \<Rightarrow> string \<Rightarrow> node_item \<Rightarrow> string \<Rightarrow> paired_item option \<Rightarrow> int \<Rightarrow> node_item" where
  "pair_node_item render name ni key origin index =
     (case pair_index name ni key origin index of
        Inl reason \<Rightarrow> ni\<lparr>ni_paired := None, ni_reason := render reason\<rparr>
      | Inr i \<Rightarrow> ni\<lparr>ni_paired := Some (ni_items ni ! i), ni_reason := []\<rparr>)"

definition pair_node_items ::
  "(pair_reason \<Rightarrow> string) \<Rightarrow> (string \<times> node_item) list \<Rightarrow> item \<Rightarrow> int \<Rightarrow> (string \<times> node_item) list" where
  "pair_node_items render items current index =
     map (\<lambda>(name, ni). (name, pair_node_item render name ni (origin_key_of (item_paired current))
       (item_paired current) index)) items"

definition with_output_lengths :: "node_item \<Rightarrow> (string \<rightharpoonup> ir_node) \<Rightarrow> node_item" where
  "with_output_lengths ni nodes =
     (if ni_output_lengths ni \<noteq> [] \<or> ni_port_lengths ni = [] then ni
      else case nodes (ni_node_id ni) of
             None \<Rightarrow> ni
           | Some n \<Rightarrow>
               (let lengths = map (\<lambda>p. case aget (ni_port_lengths ni) (port_name p) of None \<Rightarrow> 0 | Some k \<Rightarrow> k)
                      (def_outputs (in_definition n))
                in if sum_list lengths = length (ni_items ni) then ni\<lparr>ni_output_lengths := lengths\<rparr> else ni))"

subsection \<open>Origin keys\<close>

lemma split_at_nul:
  "CHR 0x00 \<notin> set a \<Longrightarrow> CHR 0x00 \<notin> set b \<Longrightarrow> a @ nul @ x = b @ nul @ y \<longleftrightarrow> a = b \<and> x = y"
proof (induction a arbitrary: b)
  case Nil
  then show ?case by (cases b) (auto simp: nul_def)
next
  case (Cons c a)
  then show ?case by (cases b) (auto simp: nul_def)
qed

lemma origin_key_inject:
  assumes "CHR 0x00 \<notin> set a" "CHR 0x00 \<notin> set b" "CHR 0x00 \<notin> set p" "CHR 0x00 \<notin> set q"
  shows "origin_key a p r i @ x = origin_key b q s j @ y \<longleftrightarrow>
    a = b \<and> p = q \<and> r = s \<and> itoa i @ x = itoa j @ y"
  unfolding origin_key_def using assms by (simp add: split_at_nul itoa_no_nul)

lemma itoa_suffix_inject:
  assumes "x = [] \<or> x = nul @ u" "y = [] \<or> y = nul @ v"
  shows "itoa i @ x = itoa j @ y \<longleftrightarrow> i = j \<and> x = y"
proof -
  have "CHR 0x00 \<notin> set (itoa k)" for k by (rule itoa_no_nul)
  then have "itoa i \<noteq> itoa j @ nul @ v" "itoa i @ nul @ u \<noteq> itoa j"
    by (auto simp: nul_def) (metis UnCI list.set_intros(1) set_append)+
  with assms show ?thesis by (auto simp: split_at_nul itoa_no_nul)
qed

definition names_clean :: "paired_item \<Rightarrow> bool" where
  "names_clean p \<longleftrightarrow> CHR 0x00 \<notin> set (source_node_id p) \<and> CHR 0x00 \<notin> set (source_port p)"

lemma origin_key_of_eq:
  assumes "\<not> lost p" "\<not> lost q" "names_clean p" "names_clean q"
  shows "origin_key_of (Some p) = origin_key_of (Some q) \<longleftrightarrow>
    source_node_id p = source_node_id q \<and> source_port p = source_port q \<and>
    pi_run_index p = pi_run_index q \<and> item_index p = item_index q \<and> (parent p = None) = (parent q = None)"
proof -
  let ?x = "if parent p \<noteq> None then nul @ ''fan-out'' else []" and ?y = "if parent q \<noteq> None then nul @ ''fan-out'' else []"
  have xy: "?x = [] \<or> ?x = nul @ ''fan-out''" "?y = [] \<or> ?y = nul @ ''fan-out''"
    "?x = ?y \<longleftrightarrow> (parent p = None) = (parent q = None)" by (auto simp: nul_def)
  have "origin_key_of (Some p) = origin_key_of (Some q) \<longleftrightarrow>
      source_node_id p = source_node_id q \<and> source_port p = source_port q \<and> pi_run_index p = pi_run_index q \<and>
      itoa (item_index p) @ ?x = itoa (item_index q) @ ?y"
    using assms origin_key_inject [of "source_node_id p" "source_node_id q" "source_port p" "source_port q"]
    by (simp add: origin_key_of_def names_clean_def)
  then show ?thesis unfolding itoa_suffix_inject [OF xy(1,2)] xy(3) by blast
qed

lemma origin_key_of_not_Nil: "origin_key_of (Some p) = [] \<longleftrightarrow> lost p"
  by (simp add: origin_key_of_def origin_key_def nul_def)

subsection \<open>Bounded lineages\<close>

text \<open>What a level says apart from what it was made from.\<close>

definition flat :: "paired_item \<Rightarrow> string \<times> string \<times> int \<times> int \<times> bool" where
  "flat p = (source_node_id p, source_port p, pi_run_index p, item_index p, lost p)"

lemma levels_relink: "map flat (levels (relink ls)) = map flat ls"
proof (induction ls rule: relink.induct)
  case (2 s q r i l par ls)
  then show ?case by (simp add: levels_def flat_def split: option.splits)
qed (simp add: levels_def)

lemma levels_bounded:
  "map flat (levels (bounded_lineage origin limit)) =
     (if length (levels origin) \<le> limit then map flat (levels origin)
      else map flat (take (limit - 1) (levels origin)) @ [flat (last (levels origin))])"
  by (simp add: bounded_lineage_def Let_def levels_relink)

lemma levels_bounded_length:
  assumes "0 < limit"
  shows "length (levels (bounded_lineage origin limit)) \<le> limit"
proof -
  have "length (map flat (levels (bounded_lineage origin limit))) \<le> limit"
    unfolding levels_bounded using assms by simp
  then show ?thesis by simp
qed

lemma levels_Some: "levels (Some p) = p # levels (parent p)"
  by (cases p) (simp add: levels_def split: option.split)

subsection \<open>Fan-outs\<close>

definition same_but_lineage :: "item \<Rightarrow> item \<Rightarrow> bool" where
  "same_but_lineage a b \<longleftrightarrow> item_json a = item_json b \<and> item_binary a = item_binary b"

definition lineage_depth :: "item \<Rightarrow> nat" where
  "lineage_depth it = length (levels (item_paired it))"

text \<open>The item at a position of a port after \<open>anchorFanOuts\<close>.\<close>

definition anchored :: "ir_node \<Rightarrow> node_output \<Rightarrow> int \<Rightarrow> nat \<Rightarrow> nat \<Rightarrow> item \<Rightarrow> item" where
  "anchored n output run p i it =
     (let key = origin_key_of (item_paired it) in
      if key = [] \<or> count_list (map (\<lambda>it. origin_key_of (item_paired it)) (concat output)) key < 2 then it
      else it\<lparr>item_paired := Some (PairedItem (in_id n) (port_name_at n p) run (int i) False
             (bounded_lineage (item_paired it) (max_lineage_depth - 1)))\<rparr>)"

lemma anchor_fan_outs_eq:
  "anchor_fan_outs n output run =
     map (\<lambda>(p, items). map (\<lambda>(i, it). anchored n output run p i it) (indexed items)) (indexed output)"
  by (simp add: anchor_fan_outs_def anchored_def Let_def)

lemma indexed_length [simp]: "length (indexed xs) = length xs"
  by (simp add: indexed_def)

lemma nth_indexed [simp]: "i < length xs \<Longrightarrow> indexed xs ! i = (i, xs ! i)"
  by (simp add: indexed_def)

lemma anchor_fan_outs_lengths [simp]: "port_lengths (anchor_fan_outs n output run) = port_lengths output"
  unfolding port_lengths_def anchor_fan_outs_eq
  by (rule nth_equalityI) simp_all

lemma anchor_fan_outs_nth:
  assumes "p < length output" "i < length (output ! p)"
  shows "anchor_fan_outs n output run ! p ! i = anchored n output run p i (output ! p ! i)"
  using assms by (simp add: anchor_fan_outs_eq)

lemma anchored_same: "same_but_lineage (anchored n output run p i it) it"
  by (simp add: anchored_def same_but_lineage_def Let_def)

lemma anchored_depth:
  assumes "lineage_depth it \<le> max_lineage_depth"
  shows "lineage_depth (anchored n output run p i it) \<le> max_lineage_depth"
proof -
  have "length (levels (bounded_lineage (item_paired it) 15)) \<le> 15" by (rule levels_bounded_length) simp
  then show ?thesis
    using assms by (auto simp: anchored_def Let_def lineage_depth_def levels_Some max_lineage_depth_def)
qed

lemma bounded_lineage_not_None: "0 < limit \<Longrightarrow> bounded_lineage (Some p) limit \<noteq> None"
proof -
  assume l: "0 < limit"
  have "relink (take (limit - 1) (levels (Some p)) @ [last (levels (Some p))]) \<noteq> None"
  proof (cases "take (limit - 1) (levels (Some p)) @ [last (levels (Some p))]")
    case (Cons a ls)
    then show ?thesis by (cases a) simp
  qed simp
  then show "bounded_lineage (Some p) limit \<noteq> None" by (simp add: bounded_lineage_def Let_def)
qed

text \<open>Two items that shared their origin before have origins of their own after.\<close>

lemma anchored_distinct:
  assumes clean: "CHR 0x00 \<notin> set (in_id n)" "\<And>p. CHR 0x00 \<notin> set (port_name_at n p)"
    and ports: "port_name_at n p = port_name_at n q \<Longrightarrow> p = q"
    and p: "p < length output" "i < length (output ! p)" and q: "q < length output" "j < length (output ! q)"
    and diff: "(p, i) \<noteq> (q, j)"
    and shared: "origin_key_of (item_paired (output ! p ! i)) = origin_key_of (item_paired (output ! q ! j))"
      "origin_key_of (item_paired (output ! p ! i)) \<noteq> []"
    and many: "2 \<le> count_list (map (\<lambda>it. origin_key_of (item_paired it)) (concat output))
      (origin_key_of (item_paired (output ! p ! i)))"
  shows "origin_key_of (item_paired (anchor_fan_outs n output run ! p ! i)) \<noteq>
    origin_key_of (item_paired (anchor_fan_outs n output run ! q ! j))"
proof -
  let ?stamp = "\<lambda>p i. PairedItem (in_id n) (port_name_at n p) run (int i) False
    (bounded_lineage (item_paired (output ! p ! i)) (max_lineage_depth - 1))"
  have "item_paired (anchor_fan_outs n output run ! p ! i) = Some (?stamp p i)"
    "item_paired (anchor_fan_outs n output run ! q ! j) = Some (?stamp q j)"
    using many shared p q by (simp_all add: anchor_fan_outs_nth anchored_def Let_def)
  moreover have "origin_key_of (Some (?stamp p i)) \<noteq> origin_key_of (Some (?stamp q j))"
    using diff ports clean by (subst origin_key_of_eq) (auto simp: names_clean_def)
  ultimately show ?thesis by simp
qed

lemma count_two:
  assumes "i < j" "j < length xs" "f (xs ! i) = k" "f (xs ! j) = k"
  shows "2 \<le> count_list (map f xs) k"
proof -
  have "xs = take j xs @ xs ! j # drop (Suc j) xs" using assms(2) by (simp add: id_take_nth_drop)
  then have "count_list (map f xs) k =
      count_list (map f (take j xs)) k + (1 + count_list (map f (drop (Suc j) xs)) k)"
    using assms(4) by (metis (no_types, lifting) count_list.simps(2) count_list_append list.simps(9) map_append add.commute plus_1_eq_Suc)
  moreover have "xs ! i \<in> set (take j xs)" using assms(1,2) by (metis in_set_conv_nth length_take min.absorb4 nth_take)
  then have "count_list (map f (take j xs)) k \<noteq> 0" using assms(3) by (auto simp: count_list_0_iff)
  ultimately show ?thesis by simp
qed

lemma count_shared_aux:
  assumes p: "p < length xss" "i < length (xss ! p)" and q: "q < length xss" "j < length (xss ! q)"
    and less: "p < q \<or> (p = q \<and> i < j)" and k: "f (xss ! p ! i) = k" "f (xss ! q ! j) = k"
  shows "2 \<le> count_list (map f (concat xss)) k"
proof -
  have split: "xss = take q xss @ xss ! q # drop (Suc q) xss" using q(1) by (simp add: id_take_nth_drop)
  have count: "count_list (map f (concat xss)) k = count_list (map f (concat (take q xss))) k +
      count_list (map f (xss ! q)) k + count_list (map f (concat (drop (Suc q) xss))) k"
    by (subst split) (simp add: count_list_append)
  show ?thesis
  proof (cases "p = q")
    case True
    then have "2 \<le> count_list (map f (xss ! q)) k" using count_two [of i j "xss ! q" f k] less q k by simp
    with count show ?thesis by simp
  next
    case False
    then have "p < q" using less by simp
    then have "xss ! p \<in> set (take q xss)" using q(1) by (metis in_set_conv_nth length_take min.absorb4 nth_take)
    moreover have "xss ! p ! i \<in> set (xss ! p)" using p(2) by simp
    ultimately have "xss ! p ! i \<in> set (concat (take q xss))" unfolding set_concat by blast
    then have "count_list (map f (concat (take q xss))) k \<noteq> 0" using k(1) by (auto simp: count_list_0_iff)
    moreover have "xss ! q ! j \<in> set (xss ! q)" using q(2) by simp
    then have "count_list (map f (xss ! q)) k \<noteq> 0" using k(2) by (auto simp: count_list_0_iff)
    ultimately show ?thesis using count by simp
  qed
qed

lemma count_shared:
  assumes p: "p < length xss" "i < length (xss ! p)" and q: "q < length xss" "j < length (xss ! q)"
    and diff: "(p, i) \<noteq> (q, j)" and k: "f (xss ! p ! i) = k" "f (xss ! q ! j) = k"
  shows "2 \<le> count_list (map f (concat xss)) k"
proof -
  have "(p < q \<or> (p = q \<and> i < j)) \<or> (q < p \<or> (q = p \<and> j < i))" using diff by auto
  then show ?thesis using count_shared_aux [OF p q _ k] count_shared_aux [OF q p _ k(2,1)] by blast
qed

subsection \<open>Stamping\<close>

lemma stamp_item_same: "same_but_lineage (stamp_item p it) it"
  by (simp add: stamp_item_def same_but_lineage_def)

lemma stamp_item_stamped: "item_paired (stamp_item p it) \<noteq> None"
  by (simp add: stamp_item_def)

lemma stamp_provenance_lengths [simp]: "port_lengths (stamp_provenance runs n edges input output) = port_lengths output"
  by (simp add: port_lengths_def stamp_provenance_def Let_def comp_def)

lemma stamp_provenance_nth:
  assumes "p < length output" "i < length (output ! p)"
  shows "\<exists>stamp. stamp_provenance runs n edges input output ! p ! i = stamp_item stamp (output ! p ! i)"
  using assms by (auto simp: stamp_provenance_def Let_def)

text \<open>A node with one source, as many items out as in, hands each item's origin on.\<close>

lemma stamp_provenance_one_to_one:
  assumes src: "lineage_sources edges input = [e]" and len: "length (input (end_port (edge_target e))) = length (output ! p)"
    and p: "p < length output" "i < length (output ! p)" and unset: "item_paired (output ! p ! i) = None"
    and origin: "item_paired (input (end_port (edge_target e)) ! i) = Some o'" "\<not> lost o'"
  shows "item_paired (stamp_provenance runs n edges input output ! p ! i) = Some o'"
  using assms by (simp add: stamp_provenance_def Let_def stamp_item_def lineage_of_def)

text \<open>An item whose count changed is never paired with a guess: it is stamped lost.\<close>

lemma stamp_provenance_lost:
  assumes src: "lineage_sources edges input = [e]" and len: "length (input (end_port (edge_target e))) \<noteq> length (output ! p)"
    and p: "p < length output" "i < length (output ! p)" and unset: "item_paired (output ! p ! i) = None"
  shows "\<exists>stamp. item_paired (stamp_provenance runs n edges input output ! p ! i) = Some stamp \<and> lost stamp \<and>
    source_node_id stamp = in_id n \<and> item_index stamp = int i"
  using assms by (simp add: stamp_provenance_def Let_def stamp_item_def lineage_of_def)

subsection \<open>Published items\<close>

lemma node_item_step_fields [simp]:
  "ni_items (node_item_step n p ni) = ni_items ni @ map item_json (snd p)"
  "ni_origins (node_item_step n p ni) = ni_origins ni @ map (\<lambda>it. origin_key_of (item_paired it)) (snd p)"
  "ni_output_lengths (node_item_step n p ni) = ni_output_lengths ni @ [length (snd p)]"
  "ni_node_id (node_item_step n p ni) = ni_node_id ni" "ni_run_index (node_item_step n p ni) = ni_run_index ni"
  by (simp_all add: node_item_step_def Let_def split: prod.split)

lemma node_item_steps:
  "ni_items (fold (node_item_step n) ps ni) = ni_items ni @ map item_json (concat (map snd ps))"
  "ni_origins (fold (node_item_step n) ps ni) =
     ni_origins ni @ map (\<lambda>it. origin_key_of (item_paired it)) (concat (map snd ps))"
  "ni_output_lengths (fold (node_item_step n) ps ni) = ni_output_lengths ni @ map (length \<circ> snd) ps"
  "ni_node_id (fold (node_item_step n) ps ni) = ni_node_id ni"
  "ni_run_index (fold (node_item_step n) ps ni) = ni_run_index ni"
  by (induction ps arbitrary: ni) simp_all

lemma node_item_for_fields:
  "ni_items (node_item_for quote n output run) = map item_json (concat output)"
  "ni_origins (node_item_for quote n output run) = map (\<lambda>it. origin_key_of (item_paired it)) (concat output)"
  "ni_output_lengths (node_item_for quote n output run) = port_lengths output"
  "ni_node_id (node_item_for quote n output run) = in_id n"
  "ni_run_index (node_item_for quote n output run) = run"
proof -
  let ?start = "\<lparr>ni_items = [], ni_origins = [], ni_node_id = in_id n, ni_run_index = run, ni_port_offsets = [],
             ni_port_lengths = [], ni_output_lengths = [], ni_executions = 0, ni_paired = None, ni_reason = [],
             ni_parameters = clone_any_map (in_parameters n)\<rparr>"
  note f = node_item_steps [of n "indexed output" ?start]
  have lens: "map (length \<circ> snd) (indexed output) = port_lengths output"
    by (simp add: port_lengths_def flip: map_map)
  show "ni_items (node_item_for quote n output run) = map item_json (concat output)"
    "ni_origins (node_item_for quote n output run) = map (\<lambda>it. origin_key_of (item_paired it)) (concat output)"
    "ni_output_lengths (node_item_for quote n output run) = port_lengths output"
    "ni_node_id (node_item_for quote n output run) = in_id n"
    "ni_run_index (node_item_for quote n output run) = run"
    using f lens by (simp_all add: node_item_for_def Let_def split: list.split)
qed

subsection \<open>Pairing\<close>

definition item_shape :: "node_item \<Rightarrow> bool" where
  "item_shape ni \<longleftrightarrow> length (ni_origins ni) = length (ni_items ni)"

lemma node_item_for_shape: "item_shape (node_item_for quote n output run)"
  by (simp add: item_shape_def node_item_for_fields)

lemma named_item_position_bound: "named_item_position ni origin = Some i \<Longrightarrow> i < length (ni_items ni)"
  by (auto simp: named_item_position_def Let_def split: option.splits if_splits)

lemma find_origin_first:
  assumes "find_origin ni key = (first, matches, unknown)"
  shows "first = Some i \<Longrightarrow> i < length (ni_origins ni) \<and> ni_origins ni ! i = key"
    and "matches \<noteq> 0 \<Longrightarrow> first \<noteq> None"
    and "matches = card {i. i < length (ni_origins ni) \<and> ni_origins ni ! i = key \<and> key \<noteq> []}"
proof -
  let ?hits = "filter (\<lambda>(i, k). k \<noteq> [] \<and> k = key) (indexed (ni_origins ni))"
  have f: "first = (case ?hits of [] \<Rightarrow> None | (i, _) # _ \<Rightarrow> Some i)" "matches = length ?hits"
    using assms by (simp_all add: find_origin_def Let_def)
  show "first = Some i \<Longrightarrow> i < length (ni_origins ni) \<and> ni_origins ni ! i = key"
  proof -
    assume "first = Some i"
    then obtain k hs where "?hits = (i, k) # hs" using f(1) by (auto split: list.splits)
    then have "(i, k) \<in> set ?hits" by (metis list.set_intros(1))
    then show ?thesis by auto
  qed
  show "matches \<noteq> 0 \<Longrightarrow> first \<noteq> None" using f by (auto split: list.splits)
  have "distinct ?hits" by (simp add: indexed_def distinct_zipI1)
  then have "matches = card (set ?hits)" using f(2) by (simp only: distinct_card)
  also have "set ?hits = (\<lambda>i. (i, ni_origins ni ! i)) ` {i. i < length (ni_origins ni) \<and> ni_origins ni ! i = key \<and> key \<noteq> []}"
    by auto
  also have "card \<dots> = card {i. i < length (ni_origins ni) \<and> ni_origins ni ! i = key \<and> key \<noteq> []}"
    by (rule card_image) (auto intro: inj_onI)
  finally show "matches = card {i. i < length (ni_origins ni) \<and> ni_origins ni ! i = key \<and> key \<noteq> []}" .
qed

definition found_ok :: "node_item \<Rightarrow> nat option \<times> nat \<times> nat \<Rightarrow> bool" where
  "found_ok ni f \<longleftrightarrow> (\<forall>i. fst f = Some i \<longrightarrow> i < length (ni_origins ni)) \<and> (fst (snd f) \<noteq> 0 \<longrightarrow> fst f \<noteq> None)"

lemma find_origin_ok: "found_ok ni (find_origin ni key)"
  using find_origin_first by (cases "find_origin ni key") (fastforce simp: found_ok_def)

lemma climb_ok:
  "found_ok ni f \<Longrightarrow> (case climb ni ls f of Inl i \<Rightarrow> i < length (ni_items ni) | Inr g \<Rightarrow> found_ok ni g)"
proof (induction ni ls f rule: climb.induct)
  case (2 ni level ls f)
  then show ?case
    using named_item_position_bound find_origin_ok by (auto simp: Let_def split: option.splits)
qed simp

text \<open>A paired index is always the index of an item.\<close>

lemma pair_index_bound:
  assumes "item_shape ni" "pair_index name ni key origin index = Inr i"
  shows "i < length (ni_items ni)"
proof (cases "named_item_position ni origin")
  case (Some j)
  with assms(2) named_item_position_bound [OF Some] show ?thesis by (simp add: pair_index_def)
next
  case None
  let ?c = "climb ni (tl (levels origin)) (find_origin ni key)"
  have c: "case ?c of Inl i \<Rightarrow> i < length (ni_items ni) | Inr g \<Rightarrow> found_ok ni g"
    by (rule climb_ok) (rule find_origin_ok)
  show ?thesis
  proof (cases ?c)
    case (Inl j)
    with c None assms(2) show ?thesis
      by (auto simp: pair_index_def split: if_splits)
  next
    case (Inr g)
    obtain f m u where g: "g = (f, m, u)" by (cases g) auto
    with Inr c None assms show ?thesis
      by (auto simp: pair_index_def found_ok_def item_shape_def split: if_splits option.splits)
  qed
qed

text \<open>The item of X with the current item's origin, when exactly one has it.\<close>

lemma pair_index_unique:
  assumes "named_item_position ni origin = None" "length (ni_items ni) \<noteq> 1" "item_shape ni"
    and "i < length (ni_origins ni)" "ni_origins ni ! i = key" "key \<noteq> []"
    and "\<And>j. j < length (ni_origins ni) \<Longrightarrow> ni_origins ni ! j = key \<Longrightarrow> j = i"
  shows "pair_index name ni key origin index = Inr i"
proof -
  obtain f m u where find: "find_origin ni key = (f, m, u)" by (cases "find_origin ni key") auto
  have "{j. j < length (ni_origins ni) \<and> ni_origins ni ! j = key \<and> key \<noteq> []} = {i}"
    (is "?S = _")
  proof (intro equalityI subsetI)
    fix j assume "j \<in> ?S"
    then have "j = i" by (intro assms(7)) simp_all
    then show "j \<in> {i}" by simp
  next
    fix j assume "j \<in> {i}"
    then show "j \<in> ?S" using assms(4-6) by simp
  qed
  then have m: "m = 1" using find_origin_first(3) [OF find] by simp
  then obtain j where j: "f = Some j" using find_origin_first(2) [OF find] by auto
  have "j = i" by (rule assms(7)) (use find_origin_first(1) [OF find j] in simp_all)
  have climb: "climb ni ls (f, m, u) = Inr (f, m, u)" for ls using m by (cases ls) simp_all
  have "ni_items ni \<noteq> []" using assms(3,4) by (auto simp: item_shape_def)
  then have "pair_index name ni key origin index = Inr (the f)"
    unfolding pair_index_def find climb using assms(1,2,6) m
    by (simp only: option.case if_False if_True sum.case prod.case simp_thms)
  with j \<open>j = i\<close> show ?thesis by simp
qed

end
