(* ===== verification/Policies.thy ===== *)
theory Policies
  imports Lineage
begin

text \<open>
  How one node's failure and settings are read (\<open>internal/engine/runner.go\<close>,
  \<open>item_outcomes.go\<close>, \<open>secret_scrub.go\<close>, \<open>credentials/scrub.go\<close>): errors as the runner sees
  them, the scrubbing of resolved secrets, \<open>onErrorMode\<close>, \<open>retryPolicy\<close>, the error port, error
  items, and the outputs of disabled, pinned, tolerated and per-item runs.
\<close>

subsection \<open>Errors\<close>

text \<open>
  An error is what the runner reads of it: its text and what \<open>errors.As\<close> finds in it: per-item
  outcomes, a batch failure, an error item's extra fields or message, a suspension (its mode).
\<close>

datatype go_error =
  GoError
    (err_text: string)
    (err_outcomes: "(item list \<times> go_error option) list option")
    (err_batch: bool)
    (err_fields: "jobject option")
    (err_message: "string option")
    (err_suspend: "string option")

type_synonym item_outcomes = "(item list \<times> go_error option) list"

definition plain_error :: "string \<Rightarrow> go_error" where
  "plain_error text = GoError text None False None None None"

definition outcomes_first :: "item_outcomes \<Rightarrow> go_error option" where
  "outcomes_first os = (case find (\<lambda>o'. snd o' \<noteq> None) os of None \<Rightarrow> None | Some o' \<Rightarrow> snd o')"

definition outcomes_failed :: "item_outcomes \<Rightarrow> nat" where
  "outcomes_failed os = length (filter (\<lambda>o'. snd o' \<noteq> None) os)"

subsection \<open>Scrubbing\<close>

definition redacted_value :: string where "redacted_value = ''[redacted]''"

fun scrub_text :: "string \<Rightarrow> string list \<Rightarrow> string" where
  "scrub_text text [] = text"
| "scrub_text text (secret # secrets) =
     scrub_text (if secret \<noteq> [] \<and> contains_sub text secret then replace_all text secret redacted_value else text)
       secrets"

definition scrub_value :: "string list \<Rightarrow> jval \<Rightarrow> jval" where
  "scrub_value secrets v = (case v of JStr s \<Rightarrow> JStr (scrub_text s secrets) | _ \<Rightarrow> v)"

fun scrubbed :: "string list \<Rightarrow> go_error \<Rightarrow> go_error" where
  "scrubbed secrets (GoError t outs b f m s) =
     GoError (scrub_text t secrets)
       (map_option (map (\<lambda>(items, e). (items, map_option (scrubbed secrets) e))) outs) b
       (map_option (map (\<lambda>(k, v). (k, scrub_value secrets v))) f)
       (map_option (\<lambda>t. scrub_text t secrets) m) s"

definition scrub :: "string list \<Rightarrow> go_error \<Rightarrow> go_error" where
  "scrub secrets e = (if secrets = [] then e else scrubbed secrets e)"

subsection \<open>Error handling and retries\<close>

datatype error_mode = ErrorStop | ErrorRegular | ErrorBranch

definition on_error_mode :: "jobject \<Rightarrow> error_mode" where
  "on_error_mode settings =
     (let legacy = (if setting_bool settings ''continueOnFail'' then ErrorRegular else ErrorStop) in
      case jget settings ''onError'' of
        JStr mode \<Rightarrow>
          if mode = ''continueRegularOutput'' then ErrorRegular
          else if mode = ''continueErrorOutput'' then ErrorBranch
          else if mode = ''stopWorkflow'' then ErrorStop
          else legacy
      | _ \<Rightarrow> legacy)"

text \<open>The wait is in nanoseconds, as a \<open>time.Duration\<close> is.\<close>

record retry =
  attempts :: nat
  retry_wait :: int
  on_error :: error_mode

definition default_retry_wait :: int where "default_retry_wait = 1000000000"

definition retry_policy :: "jobject \<Rightarrow> retry" where
  "retry_policy settings =
     (let mode = on_error_mode settings in
      if \<not> setting_bool settings ''retryOnFail'' then \<lparr>attempts = 1, retry_wait = 0, on_error = mode\<rparr>
      else
        \<lparr>attempts =
           (case setting_number (jget settings ''maxTries'') of
              Some tries \<Rightarrow> if 1 \<le> tries then min 8 (nat \<lfloor>tries\<rfloor>) else 3
            | None \<Rightarrow> 3),
         retry_wait =
           (case setting_number (jget settings ''waitBetweenTries'') of
              Some ms \<Rightarrow> if 0 \<le> ms then \<lfloor>min ms max_retry_wait_ms\<rfloor> * 1000000 else default_retry_wait
            | None \<Rightarrow> default_retry_wait),
         on_error = mode\<rparr>)"

text \<open>\<open>nodeContext\<close>: the node's own deadline in seconds, \<open>0\<close> for none, or why it cannot have one.\<close>

definition node_timeout :: "ir_node \<Rightarrow> go_error + rat" where
  "node_timeout n =
     (case jget (in_settings n) ''timeoutSeconds'' of
        JNull \<Rightarrow> Inr 0
      | v \<Rightarrow>
          (case setting_number v of
             None \<Rightarrow> Inl (plain_error ''timeoutSeconds must be numeric'')
           | Some s \<Rightarrow> if s < 0 then Inl (plain_error ''timeoutSeconds must not be negative'') else Inr s))"

definition main_port :: string where "main_port = ''main''"
definition done_port :: string where "done_port = ''done''"
definition loop_port :: string where "loop_port = ''loop''"

definition item_input_ports :: "ir_node \<Rightarrow> nat" where
  "item_input_ports n = length (filter (\<lambda>p. port_kind p = connection_main) (def_inputs (in_definition n)))"

definition per_item_tolerance :: "ir_node \<Rightarrow> retry \<Rightarrow> bool" where
  "per_item_tolerance n policy \<longleftrightarrow>
     on_error policy \<noteq> ErrorStop \<and>
     \<not> (loop_entry (in_definition n) \<or> whole_batch (in_definition n) \<or> setting_bool (in_settings n) ''executeOnce'') \<and>
     item_input_ports n = 1"

subsection \<open>The error port\<close>

definition error_port_index :: "ir_node \<Rightarrow> nat option" where
  "error_port_index n =
     (let outs = def_outputs (in_definition n) in
      if on_error_mode (in_settings n) \<noteq> ErrorBranch then None
      else if outs \<noteq> [] \<and> port_name (last outs) = error_port_name then Some (length outs - 1)
      else None)"

definition expected_ports :: "ir_node \<Rightarrow> nat" where
  "expected_ports n =
     (case error_port_index n of Some i \<Rightarrow> i | None \<Rightarrow> length (def_outputs (in_definition n)))"

definition pad_error_port :: "ir_node \<Rightarrow> node_output \<Rightarrow> node_output" where
  "pad_error_port n output =
     (case error_port_index n of
        None \<Rightarrow> output
      | Some i \<Rightarrow> if i < length output then output else output @ replicate (Suc i - length output) [])"

definition empty_output :: "ir_node \<Rightarrow> node_output" where
  "empty_output n = replicate (length (def_outputs (in_definition n))) []"

subsection \<open>Error items\<close>

definition error_item_key :: string where "error_item_key = ''error''"

definition node_prefix :: "(string \<Rightarrow> string) \<Rightarrow> ir_node \<Rightarrow> string" where
  "node_prefix quote n = ''node '' @ quote (in_name n) @ '': ''"

definition item_message_of :: "(string \<Rightarrow> string) \<Rightarrow> ir_node \<Rightarrow> go_error \<Rightarrow> string" where
  "item_message_of quote n cause =
     (case err_message cause of Some m \<Rightarrow> m | None \<Rightarrow> trim_prefix (err_text cause) (node_prefix quote n))"

definition error_value :: "(string \<Rightarrow> string) \<Rightarrow> ir_node \<Rightarrow> go_error \<Rightarrow> jval" where
  "error_value quote n cause =
     (if error_as_message (in_definition n) then JStr (item_message_of quote n cause)
      else JObj (aput ''node'' (JStr (in_name n)) (aput ''message'' (JStr (err_text cause))
             (fold (\<lambda>(k, v). aput k v) (case err_fields cause of None \<Rightarrow> [] | Some f \<Rightarrow> f) []))))"

definition error_item :: "(string \<Rightarrow> string) \<Rightarrow> ir_node \<Rightarrow> item \<Rightarrow> go_error \<Rightarrow> bool \<Rightarrow> item" where
  "error_item quote n it cause with_input =
     \<lparr>item_json = aput error_item_key (error_value quote n cause)
        (if with_input then clone_any_map (item_json it) else []),
      item_binary = item_binary it, item_paired = None\<rparr>"

definition node_failure :: "(string \<Rightarrow> string) \<Rightarrow> ir_node \<Rightarrow> go_error \<Rightarrow> string" where
  "node_failure quote n cause =
     (if is_prefix (node_prefix quote n) (err_text cause) then ''execute '' @ err_text cause
      else ''execute node '' @ quote (in_name n) @ '': '' @ err_text cause)"

subsection \<open>Outputs the runner makes itself\<close>

definition empty_item :: item where
  "empty_item = \<lparr>item_json = [], item_binary = [], item_paired = None\<rparr>"

definition tolerated_output ::
  "(string \<Rightarrow> string) \<Rightarrow> ir_node \<Rightarrow> node_input \<Rightarrow> go_error \<Rightarrow> error_mode \<Rightarrow> node_output" where
  "tolerated_output quote n input cause mode =
     (let output = empty_output n;
          items = (if err_batch cause then []
                   else map (\<lambda>it. error_item quote n it cause (mode = ErrorBranch)) (input main_port));
          items = (if items = [] then [error_item quote n empty_item cause (mode = ErrorBranch)] else items)
      in case (if mode = ErrorBranch then error_port_index n else None) of
           Some i \<Rightarrow> output[i := items]
         | None \<Rightarrow> if output = [] then output else output[0 := items])"

definition pass_through :: "ir_node \<Rightarrow> node_input \<Rightarrow> node_output" where
  "pass_through n input =
     (let output = empty_output n in
      if output = [] then output
      else case find (\<lambda>p. port_kind p = connection_main) (def_inputs (in_definition n)) of
             None \<Rightarrow> output
           | Some p \<Rightarrow> output[0 := clone_items (input (port_name p))])"

definition pinned_output :: "ir_node \<Rightarrow> item list \<Rightarrow> node_output" where
  "pinned_output n items =
     (let output = empty_output n in if output = [] then output else output[0 := clone_items items])"

definition single_item_input :: "node_input \<Rightarrow> item \<Rightarrow> node_input" where
  "single_item_input input it = input(main_port := clone_items [it])"

text \<open>\<open>mergeOutput\<close>: streams past the assembled arity are dropped.\<close>

definition merge_output :: "node_output \<Rightarrow> node_output \<Rightarrow> node_output" where
  "merge_output assembled output =
     map (\<lambda>(i, items). if i < length output then items @ output ! i else items) (indexed assembled)"

definition first_item_only :: "node_input \<Rightarrow> node_input" where
  "first_item_only input =
     (if length (input main_port) \<le> 1 then input else input(main_port := take 1 (input main_port)))"

fun first_item :: "node_output \<Rightarrow> jobject option" where
  "first_item [] = None"
| "first_item (items # ports) = (case items of [] \<Rightarrow> first_item ports | it # _ \<Rightarrow> Some (item_json it))"

definition port_has_items :: "ir_node \<Rightarrow> node_output \<Rightarrow> string \<Rightarrow> bool" where
  "port_has_items n output p =
     (case find (\<lambda>(i, q). port_name q = p \<and> i < length output) (indexed (def_outputs (in_definition n))) of
        None \<Rightarrow> False
      | Some (i, _) \<Rightarrow> output ! i \<noteq> [])"

text \<open>
  Where a tolerated item failure goes. Appending to a stream the output does not have is the
  index panic of the source: \<open>None\<close>.
\<close>

definition append_at :: "nat \<Rightarrow> item list \<Rightarrow> node_output \<Rightarrow> node_output option" where
  "append_at i items output = (if i < length output then Some (output[i := output ! i @ items]) else None)"

definition failure_port :: "ir_node \<Rightarrow> error_mode \<Rightarrow> nat" where
  "failure_port n mode =
     (case error_port_index n of Some i \<Rightarrow> (if mode = ErrorBranch then i else 0) | None \<Rightarrow> 0)"

subsection \<open>Whole-batch outcomes\<close>

definition tolerated_outcomes :: "go_error \<Rightarrow> retry \<Rightarrow> node_input \<Rightarrow> item_outcomes option" where
  "tolerated_outcomes cause policy input =
     (if on_error policy = ErrorStop then None
      else case err_outcomes cause of
             None \<Rightarrow> None
           | Some os \<Rightarrow>
               if length os \<noteq> length (input main_port) \<or> outcomes_first os = None then None else Some os)"

definition lay_outcome ::
  "(string \<Rightarrow> string) \<Rightarrow> nat \<Rightarrow> ir_node \<Rightarrow> ir_edge list \<Rightarrow> error_mode \<Rightarrow> item \<times> item list \<times> go_error option \<Rightarrow>
   node_output \<Rightarrow> node_output" where
  "lay_outcome quote runs n sources mode o' assembled =
     (case o' of (it, items, e) \<Rightarrow>
        let laid = (case e of
                      None \<Rightarrow> assembled[0 := assembled ! 0 @ clone_items items]
                    | Some cause \<Rightarrow>
                        assembled[failure_port n mode := assembled ! failure_port n mode @
                          [error_item quote n it cause (mode = ErrorBranch)]])
        in stamp_per_item runs n sources it laid (port_lengths assembled))"

definition assemble_outcomes ::
  "(string \<Rightarrow> string) \<Rightarrow> nat \<Rightarrow> ir_node \<Rightarrow> ir_edge list \<Rightarrow> node_input \<Rightarrow> item_outcomes \<Rightarrow> error_mode \<Rightarrow> node_output" where
  "assemble_outcomes quote runs n sources input os mode =
     (if empty_output n = [] then []
      else fold (lay_outcome quote runs n sources mode) (zip (input main_port) os) (empty_output n))"

end
