(* ===== verification/Scheduler.thy ===== *)
theory Scheduler
  imports Policies
begin

text \<open>
  Scheduling one execution (\<open>internal/engine/runner.go\<close>, \<open>node_branches.go\<close>): the prepared graph
  (\<open>activeNodes\<close>, \<open>prepareGraph\<close>), the run's state, the stack of owed invocations (\<open>seed\<close>,
  \<open>next\<close>, \<open>push\<close>), the completion of an invocation (\<open>complete\<close>, \<open>record\<close>, \<open>skip\<close>,
  \<open>recordSkips\<close>) and the outputs \<open>$('X')\<close> reads by default (\<open>connectedOutputs\<close>).

  The stack's list has its newest entry first; the source's slice has it last.
\<close>

subsection \<open>The prepared graph\<close>

datatype run_failure =
    EmptyGraph
  | UnknownTrigger string
  | TriggerDisabled string
  | ContextDone go_error
  | InputMissing string string string
  | AttachmentMissing string string
  | ExecutorMissing string string
  | StreamCount string nat nat
  | ConfigInvalid go_error
  | NodeFailed string
  | OtherTrigger
  | NotInGraph string
  | AlreadyCompleted string
  | ResumeStreams string nat nat

record prepared_graph =
  pg_nodes :: "(string \<times> ir_node) list"
  pg_edges :: "(nat \<times> ir_edge) list"

definition edge_from :: "ir_edge \<Rightarrow> string" where "edge_from e = end_node (edge_source e)"
definition edge_to :: "ir_edge \<Rightarrow> string" where "edge_to e = end_node (edge_target e)"
definition is_main :: "ir_edge \<Rightarrow> bool" where "is_main e \<longleftrightarrow> edge_kind e = connection_main"

definition main_arcs :: "ir_edge list \<Rightarrow> arcs" where
  "main_arcs edges = arcs_of (filter is_main edges)"

definition active_nodes :: "ir \<Rightarrow> string \<Rightarrow> run_failure + string list" where
  "active_nodes plan trigger =
     (if trigger = [] then Inr (map in_id (ir_nodes plan))
      else if \<not> list_ex (\<lambda>n. in_id n = trigger) (ir_nodes plan) then Inl (UnknownTrigger trigger)
      else Inr (grow (attachment_arcs (ir_edges plan)) (walk (main_arcs (ir_edges plan)) [trigger] [trigger])))"

text \<open>The map of the live nodes: a later node with the same id overwrites the earlier one.\<close>

definition index_nodes :: "ir_node list \<Rightarrow> (string \<times> ir_node) list" where
  "index_nodes nodes = fold (\<lambda>n. aput (in_id n) n) nodes []"

definition prepare_graph :: "ir \<Rightarrow> string \<Rightarrow> run_failure + prepared_graph" where
  "prepare_graph plan trigger =
     (if ir_nodes plan = [] then Inl EmptyGraph
      else case active_nodes plan trigger of
             Inl e \<Rightarrow> Inl e
           | Inr active \<Rightarrow>
               (let nodes = index_nodes (filter (\<lambda>n. in_id n \<in> set active) (ir_nodes plan)) in
                if trigger \<noteq> [] \<and> (case aget nodes trigger of None \<Rightarrow> False | Some n \<Rightarrow> in_disabled n)
                then Inl (TriggerDisabled trigger)
                else Inr \<lparr>pg_nodes = nodes,
                       pg_edges = filter (\<lambda>(i, e). edge_from e \<in> set active \<and> edge_to e \<in> set active)
                         (indexed (ir_edges plan))\<rparr>))"

definition zero_definition :: node_definition where
  "zero_definition = \<lparr>def_type = [], def_version = \<lparr>scaled = 0\<rparr>, def_inputs = [], def_outputs = [],
     required_parameters = [], required_for = None, ports_for = None, required_inputs_for = None,
     required_credentials = [], credential_types = [], executor_id = [], def_validate = None,
     webhook_path_parameter = [], loop_entry = False, whole_batch = False, error_as_message = False\<rparr>"

definition zero_node :: ir_node where
  "zero_node = \<lparr>in_id = [], in_name = [], in_type = [], in_version = \<lparr>scaled = 0\<rparr>,
     in_position = \<lparr>pos_x = 0, pos_y = 0\<rparr>, in_parameters = [], in_credentials = [], in_settings = [],
     in_disabled = False, in_pinned = None, in_definition = zero_definition\<rparr>"

text \<open>Reading a Go map where the key is missing gives the zero value.\<close>

definition node_at :: "prepared_graph \<Rightarrow> string \<Rightarrow> ir_node" where
  "node_at g k = (case aget (pg_nodes g) k of None \<Rightarrow> zero_node | Some n \<Rightarrow> n)"

definition live_edges :: "prepared_graph \<Rightarrow> ir_edge list" where
  "live_edges g = map snd (pg_edges g)"

definition incoming :: "prepared_graph \<Rightarrow> string \<Rightarrow> ir_edge list" where
  "incoming g k =
     sort_key (\<lambda>e. (end_port (edge_target e), edge_from e, source_output_index e, edge_id e))
       (filter (\<lambda>e. edge_to e = k) (live_edges g))"

definition outgoing :: "prepared_graph \<Rightarrow> string \<Rightarrow> ir_edge list" where
  "outgoing g k =
     sort_key (\<lambda>e. (source_output_index e, pos_y (in_position (node_at g (edge_to e))),
                    pos_x (in_position (node_at g (edge_to e))), edge_to e))
       (filter (\<lambda>e. edge_from e = k) (live_edges g))"

definition listed :: "prepared_graph \<Rightarrow> ir_edge \<Rightarrow> nat" where
  "listed g e = (case find (\<lambda>(i, f). f = e) (rev (pg_edges g)) of None \<Rightarrow> 0 | Some (i, _) \<Rightarrow> i)"

subsection \<open>The run's state\<close>

type_synonym console = "(string \<times> string) list \<times> bool"

datatype node_event =
    ResponseEvent string
  | ConsoleEvent "console option"
  | OtherEvent string

record node_run =
  nr_node :: string
  nr_input :: node_input
  nr_output :: node_output
  nr_error :: "go_error option"
  nr_attempt :: nat
  nr_run_index :: nat
  nr_skipped :: bool
  nr_pinned :: bool
  nr_code :: string
  nr_response :: "string option"
  nr_console :: "console option"

definition no_input :: node_input where "no_input = (\<lambda>_. [])"

definition node_run0 :: "string \<Rightarrow> node_input \<Rightarrow> node_run" where
  "node_run0 k input =
     \<lparr>nr_node = k, nr_input = input, nr_output = [], nr_error = None, nr_attempt = 0, nr_run_index = 0,
      nr_skipped = False, nr_pinned = False, nr_code = [], nr_response = None, nr_console = None\<rparr>"

record pending =
  pe_node :: string
  pe_input :: node_input
  pe_skipped :: bool

text \<open>
  \<open>rs_sunk\<close> and \<open>rs_started\<close> are the calls made to the request's sinks, in order; \<open>rs_events\<close> the
  events forwarded to its event sink. \<open>'m\<close> is the memory a node keeps between its invocations.
\<close>

record 'm run_state =
  rs_completed :: "string \<rightharpoonup> node_output"
  rs_runs :: "string \<Rightarrow> node_output list"
  rs_executions :: "string \<Rightarrow> nat"
  rs_rows :: "node_run list"
  rs_output :: "string \<rightharpoonup> node_output"
  rs_pending :: "pending list"
  rs_branches :: "string \<rightharpoonup> (string \<times> nat) list"
  rs_node_outputs :: "string \<rightharpoonup> jobject"
  rs_node_items :: "string \<rightharpoonup> node_item"
  rs_memory :: "string \<Rightarrow> 'm"
  rs_sunk :: "(nat \<times> node_run) list"
  rs_started :: "string list"
  rs_events :: "node_event list"

definition empty_run_state :: "(string \<Rightarrow> 'm) \<Rightarrow> 'm run_state" where
  "empty_run_state memory =
     \<lparr>rs_completed = Map.empty, rs_runs = (\<lambda>_. []), rs_executions = (\<lambda>_. 0), rs_rows = [],
      rs_output = Map.empty, rs_pending = [], rs_branches = Map.empty, rs_node_outputs = Map.empty,
      rs_node_items = Map.empty, rs_memory = memory, rs_sunk = [], rs_started = [], rs_events = []\<rparr>"

definition annotation :: "ir_node \<Rightarrow> bool" where
  "annotation n \<longleftrightarrow> def_inputs (in_definition n) = [] \<and> def_outputs (in_definition n) = []"

definition seed_roots :: "prepared_graph \<Rightarrow> string list" where
  "seed_roots g =
     sort_key (\<lambda>k. (pos_y (in_position (node_at g k)), pos_x (in_position (node_at g k)), k))
       (map fst (filter (\<lambda>(k, n). incoming g k = [] \<and> \<not> in_disabled n \<and> \<not> annotation n) (pg_nodes g)))"

definition seed :: "prepared_graph \<Rightarrow> 'm run_state \<Rightarrow> 'm run_state" where
  "seed g st = st\<lparr>rs_pending :=
     map (\<lambda>k. \<lparr>pe_node = k, pe_input = no_input, pe_skipped = False\<rparr>) (seed_roots g) @ rs_pending st\<rparr>"

definition new_run_state :: "prepared_graph \<Rightarrow> (string \<Rightarrow> 'm) \<Rightarrow> 'm run_state" where
  "new_run_state g memory = seed g (empty_run_state memory)"

subsection \<open>Recording\<close>

definition record_row :: "node_run \<Rightarrow> 'm run_state \<Rightarrow> 'm run_state" where
  "record_row run st = st\<lparr>rs_rows := rs_rows st @ [run], rs_sunk := rs_sunk st @ [(length (rs_rows st), run)]\<rparr>"

subsection \<open>Delivering\<close>

definition deliver_edge :: "prepared_graph \<Rightarrow> node_output \<Rightarrow> ir_edge \<Rightarrow> pending list \<Rightarrow> pending list" where
  "deliver_edge g output e owed =
     (let items = (if source_output_index e < length output then output ! source_output_index e else []);
          owed = (if list_ex (\<lambda>p. pe_node p = edge_to e) owed then owed
                  else owed @ [\<lparr>pe_node = edge_to e, pe_input = no_input, pe_skipped = (items = [])\<rparr>])
      in if items = [] then owed
         else map (\<lambda>p. if pe_node p = edge_to e
                then p\<lparr>pe_input := (pe_input p)(end_port (edge_target e) :=
                         pe_input p (end_port (edge_target e)) @ clone_items items), pe_skipped := False\<rparr>
                else p) owed)"

definition delivers :: "prepared_graph \<Rightarrow> ir_node \<Rightarrow> node_output \<Rightarrow> ir_edge \<Rightarrow> bool" where
  "delivers g n output e \<longleftrightarrow>
     is_main e \<and>
     \<not> (loop_entry (in_definition n) \<and> port_has_items n output loop_port \<and> end_port (edge_source e) = done_port) \<and>
     item_input_ports (node_at g (edge_to e)) \<le> 1"

definition deliveries :: "prepared_graph \<Rightarrow> ir_node \<Rightarrow> node_output \<Rightarrow> pending list" where
  "deliveries g n output = fold (deliver_edge g output) (filter (delivers g n output) (outgoing g (in_id n))) []"

definition push :: "prepared_graph \<Rightarrow> ir_node \<Rightarrow> node_output \<Rightarrow> 'm run_state \<Rightarrow> 'm run_state" where
  "push g n output st = st\<lparr>rs_pending := deliveries g n output @ rs_pending st\<rparr>"

definition complete ::
  "(string \<Rightarrow> string) \<Rightarrow> prepared_graph \<Rightarrow> ir_node \<Rightarrow> node_output \<Rightarrow> node_run \<Rightarrow> 'm run_state \<Rightarrow> 'm run_state" where
  "complete quote g n output run st =
     (let k = in_id n;
          index = length (rs_runs st k);
          output = anchor_fan_outs n output (int index);
          executed = Suc (rs_executions st k);
          run = run\<lparr>nr_run_index := index, nr_output := output\<rparr>;
          st = st\<lparr>rs_completed := (rs_completed st)(k \<mapsto> output),
                 rs_runs := (rs_runs st)(k := rs_runs st k @ [clone_output output]),
                 rs_executions := (rs_executions st)(k := executed),
                 rs_node_outputs := (case first_item output of
                     None \<Rightarrow> rs_node_outputs st
                   | Some first \<Rightarrow> (rs_node_outputs st)(in_name n \<mapsto> clone_any_map first)),
                 rs_node_items := (rs_node_items st)(in_name n \<mapsto>
                     (node_item_for quote n output (int index))\<lparr>ni_executions := executed\<rparr>)\<rparr>;
          st = record_row run st;
          st = (if outgoing g k = [] then st\<lparr>rs_output := (rs_output st)(k \<mapsto> clone_output output)\<rparr> else st)
      in push g n output st)"

text \<open>A delivery that carried nothing: recorded, and passed on no further.\<close>

definition mark_skipped :: "prepared_graph \<Rightarrow> string \<Rightarrow> node_input \<Rightarrow> 'm run_state \<Rightarrow> 'm run_state" where
  "mark_skipped g k input st =
     (let empty = empty_output (node_at g k);
          st = record_row ((node_run0 k input)\<lparr>nr_skipped := True, nr_output := empty\<rparr>)
                 (st\<lparr>rs_completed := (rs_completed st)(k \<mapsto> empty),
                    rs_runs := (rs_runs st)(k := rs_runs st k @ [clone_output empty])\<rparr>)
      in if outgoing g k = [] then st\<lparr>rs_output := (rs_output st)(k \<mapsto> clone_output empty)\<rparr> else st)"

definition skip :: "prepared_graph \<Rightarrow> pending \<Rightarrow> 'm run_state \<Rightarrow> 'm run_state" where
  "skip g p st = mark_skipped g (in_id (node_at g (pe_node p))) (clone_input (pe_input p)) st"

definition unreached :: "prepared_graph \<Rightarrow> 'm run_state \<Rightarrow> string list" where
  "unreached g st =
     sort (map fst (filter (\<lambda>(k, n). rs_completed st k = None \<and> \<not> annotation n) (pg_nodes g)))"

definition record_skips :: "prepared_graph \<Rightarrow> 'm run_state \<Rightarrow> 'm run_state" where
  "record_skips g st = fold (\<lambda>k. mark_skipped g k no_input) (unreached g st) st"

subsection \<open>What runs next\<close>

definition config_ready :: "prepared_graph \<Rightarrow> 'm run_state \<Rightarrow> string \<Rightarrow> bool" where
  "config_ready g st k \<longleftrightarrow> list_all (\<lambda>e. is_main e \<or> rs_completed st (edge_from e) \<noteq> None) (incoming g k)"

definition completed_output :: "(string \<rightharpoonup> node_output) \<Rightarrow> string \<Rightarrow> node_output" where
  "completed_output completed k = (case completed k of None \<Rightarrow> [] | Some out \<Rightarrow> out)"

fun collect_inputs ::
  "(ir_edge \<Rightarrow> run_failure) \<Rightarrow> (string \<rightharpoonup> node_output) \<Rightarrow> ir_edge list \<Rightarrow> node_input \<Rightarrow> run_failure + node_input" where
  "collect_inputs failure completed [] input = Inr input"
| "collect_inputs failure completed (e # es) input =
     (let output = completed_output completed (edge_from e) in
      if length output \<le> source_output_index e then Inl (failure e)
      else collect_inputs failure completed es
             (input(end_port (edge_target e) :=
                input (end_port (edge_target e)) @ clone_items (output ! source_output_index e))))"

definition merge_config_inputs :: "prepared_graph \<Rightarrow> 'm run_state \<Rightarrow> pending \<Rightarrow> run_failure + node_input" where
  "merge_config_inputs g st p =
     collect_inputs (\<lambda>e. AttachmentMissing (edge_from e) (end_port (edge_source e))) (rs_completed st)
       (filter (\<lambda>e. \<not> is_main e) (incoming g (pe_node p))) (pe_input p)"

definition build_input :: "prepared_graph \<Rightarrow> 'm run_state \<Rightarrow> string \<Rightarrow> run_failure + node_input" where
  "build_input g st k =
     collect_inputs (\<lambda>e. InputMissing k (edge_from e) (end_port (edge_source e))) (rs_completed st)
       (incoming g k) no_input"

definition dependencies_complete :: "prepared_graph \<Rightarrow> 'm run_state \<Rightarrow> string \<Rightarrow> bool" where
  "dependencies_complete g st k \<longleftrightarrow> list_all (\<lambda>e. rs_completed st (edge_from e) \<noteq> None) (incoming g k)"

definition carries :: "(string \<rightharpoonup> node_output) \<Rightarrow> ir_edge \<Rightarrow> bool" where
  "carries completed e \<longleftrightarrow>
     (let output = completed_output completed (edge_from e) in
      source_output_index e < length output \<and> output ! source_output_index e \<noteq> [])"

definition received_ports :: "prepared_graph \<Rightarrow> 'm run_state \<Rightarrow> string \<Rightarrow> string list" where
  "received_ports g st k =
     map (\<lambda>e. end_port (edge_target e)) (filter (\<lambda>e. is_main e \<and> carries (rs_completed st) e) (incoming g k))"

definition required_inputs_received :: "ir_node \<Rightarrow> string list \<Rightarrow> bool" where
  "required_inputs_received n received \<longleftrightarrow>
     (case required_inputs_for (in_definition n) of
        None \<Rightarrow> True
      | Some f \<Rightarrow> list_all (\<lambda>p. p \<in> set received) (f (in_parameters n) (in_version n)))"

definition delivered :: "prepared_graph \<Rightarrow> 'm run_state \<Rightarrow> string \<Rightarrow> bool" where
  "delivered g st k \<longleftrightarrow>
     item_input_ports (node_at g k) = 0 \<or> \<not> list_ex is_main (incoming g k) \<or>
     (received_ports g st k \<noteq> [] \<and> required_inputs_received (node_at g k) (received_ports g st k))"

definition delivered_nothing :: "prepared_graph \<Rightarrow> string \<Rightarrow> node_input \<Rightarrow> bool" where
  "delivered_nothing g k input \<longleftrightarrow>
     (case aget (pg_nodes g) k of
        None \<Rightarrow> False
      | Some n \<Rightarrow> list_ex is_main (incoming g k) \<and>
          \<not> list_ex (\<lambda>p. port_kind p = connection_main \<and> input (port_name p) \<noteq> []) (def_inputs (in_definition n)))"

text \<open>The first entry from the top that may run, and the stack without it.\<close>

fun take_ready :: "(pending \<Rightarrow> bool) \<Rightarrow> pending list \<Rightarrow> (pending \<times> pending list) option" where
  "take_ready ready [] = None"
| "take_ready ready (p # ps) =
     (if ready p then Some (p, ps)
      else case take_ready ready ps of None \<Rightarrow> None | Some (q, qs) \<Rightarrow> Some (q, p # qs))"

definition ready_nodes :: "prepared_graph \<Rightarrow> 'm run_state \<Rightarrow> string list" where
  "ready_nodes g st =
     sort (map fst (filter (\<lambda>(k, n). rs_completed st k = None \<and> \<not> in_disabled n \<and> \<not> annotation n \<and>
       dependencies_complete g st k \<and> delivered g st k) (pg_nodes g)))"

definition next_invocation ::
  "prepared_graph \<Rightarrow> 'm run_state \<Rightarrow> run_failure + (pending \<times> 'm run_state) option" where
  "next_invocation g st =
     (case take_ready (\<lambda>p. config_ready g st (pe_node p)) (rs_pending st) of
        Some (p, rest) \<Rightarrow>
          (case merge_config_inputs g st p of
             Inl e \<Rightarrow> Inl e
           | Inr input \<Rightarrow> Inr (Some (p\<lparr>pe_input := input\<rparr>, st\<lparr>rs_pending := rest\<rparr>)))
      | None \<Rightarrow>
          (case ready_nodes g st of
             [] \<Rightarrow> Inr None
           | k # _ \<Rightarrow>
               (case build_input g st k of
                  Inl e \<Rightarrow> Inl e
                | Inr input \<Rightarrow> Inr (Some (\<lparr>pe_node = k, pe_input = input, pe_skipped = False\<rparr>, st)))))"

subsection \<open>The outputs a node is connected to\<close>

definition input_position :: "ir_node \<Rightarrow> string \<Rightarrow> nat" where
  "input_position n p =
     (case find (\<lambda>(i, q). port_name q = p) (rev (indexed (def_inputs (in_definition n)))) of
        None \<Rightarrow> 0 | Some (i, _) \<Rightarrow> i)"

definition input_order :: "prepared_graph \<Rightarrow> string \<Rightarrow> ir_edge list" where
  "input_order g k =
     sort_key (\<lambda>e. (input_position (node_at g k) (end_port (edge_target e)), listed g e)) (incoming g k)"

definition upstream_edges :: "prepared_graph \<Rightarrow> string \<Rightarrow> ir_edge list" where
  "upstream_edges g k = filter is_main (input_order g k)"

definition note_output :: "prepared_graph \<Rightarrow> ir_edge \<Rightarrow> (string \<times> nat) list \<Rightarrow> (string \<times> nat) list" where
  "note_output g e outputs =
     (let name = in_name (node_at g (edge_from e)) in
      if name = [] \<or> aget outputs name \<noteq> None then outputs else aput name (source_output_index e) outputs)"

lemma upstream_edges_sources: "set (map edge_from (upstream_edges g k)) \<subseteq> edge_from ` set (live_edges g)"
  by (auto simp: upstream_edges_def input_order_def incoming_def)

function connected_walk ::
  "prepared_graph \<Rightarrow> (string \<times> nat) list \<Rightarrow> string list \<Rightarrow> string list \<Rightarrow> (string \<times> nat) list" where
  "connected_walk g outputs visited [] = outputs"
| "connected_walk g outputs visited (current # queue) =
     (case enqueue_new (map edge_from (upstream_edges g current)) visited queue of
        (visited', queue') \<Rightarrow>
          connected_walk g (fold (note_output g) (upstream_edges g current) outputs) visited' queue')"
  by pat_completeness auto
termination
proof (relation "measures [\<lambda>(g, outputs, visited, queue). card (edge_from ` set (live_edges g) - set visited),
    \<lambda>(g, outputs, visited, queue). length queue]", goal_cases)
  case (2 g outputs visited current queue visited' queue')
  then have "enqueue_new (map edge_from (upstream_edges g current)) visited queue = (visited', queue')" by simp
  from enqueue_new_decreases [OF this upstream_edges_sources] show ?case by auto
qed simp

definition connected_outputs :: "prepared_graph \<Rightarrow> string \<Rightarrow> (string \<times> nat) list" where
  "connected_outputs g k = connected_walk g [] [k] [k]"

definition connected_outputs_for :: "prepared_graph \<Rightarrow> string \<Rightarrow> 'm run_state \<Rightarrow> (string \<times> nat) list \<times> 'm run_state" where
  "connected_outputs_for g k st =
     (case rs_branches st k of
        Some outputs \<Rightarrow> (outputs, st)
      | None \<Rightarrow>
          (let outputs = connected_outputs g k
           in (outputs, st\<lparr>rs_branches := (rs_branches st)(k \<mapsto> outputs)\<rparr>)))"

end
