(* ===== verification/Runner.thy ===== *)
theory Runner
  imports Scheduler
begin

text \<open>
  Running one execution (\<open>internal/engine/runner.go\<close>): the invocation of a node with its retry
  budget (\<open>invoke\<close>), per-item runs (\<open>resolveItems\<close>), one scheduled invocation (\<open>runNode\<close>), the
  pass over the graph (\<open>runLoop\<close>, \<open>Run\<close>), the checkpoint of a suspended run
  (\<open>snapshotCheckpoint\<close>) and its continuation (\<open>Resume\<close>).

  The executors, the context's state and the clock are outside: the record \<open>env\<close> holds them, and
  \<open>'w\<close> is the world they read and change. Start and finish times of rows are not modelled.
\<close>

subsection \<open>What is outside the runner\<close>

text \<open>
  What an executor is handed of the request's per-invocation part, and what it answers: its
  output or error, the memory it leaves, the events it emitted, the secrets it resolved and
  whether the node's own deadline had passed.
\<close>

record exec_call =
  ec_node :: ir_node
  ec_input :: node_input
  ec_run_index :: nat
  ec_tolerate :: bool
  ec_branches :: "(string \<times> nat) list"
  ec_node_outputs :: "string \<rightharpoonup> jobject"
  ec_node_items :: "string \<rightharpoonup> node_item"
  ec_timeout :: rat

record 'm reply =
  rp_result :: "go_error + node_output"
  rp_memory :: "string \<Rightarrow> 'm"
  rp_events :: "node_event list"
  rp_secrets :: "string list"
  rp_deadline :: bool

record ('w, 'm) env =
  ex_quote :: "string \<Rightarrow> string"
  ex_registered :: "string \<Rightarrow> bool"
  ex_execute :: "string \<Rightarrow> exec_call \<Rightarrow> (string \<Rightarrow> 'm) \<Rightarrow> 'w \<Rightarrow> 'm reply \<times> 'w"
  ex_ctx :: "'w \<Rightarrow> go_error option"
  ex_ctx_deadline :: "'w \<Rightarrow> bool"
  ex_sleep :: "int \<Rightarrow> 'w \<Rightarrow> bool \<times> 'w"

subsection \<open>What a node hands over while it runs\<close>

record capture =
  cap_response :: "string option"
  cap_console :: console
  cap_printed :: bool

definition no_capture :: capture where
  "no_capture = \<lparr>cap_response = None, cap_console = ([], False), cap_printed = False\<rparr>"

definition capture_event :: "node_event \<Rightarrow> capture \<Rightarrow> capture" where
  "capture_event e c =
     (case e of
        ResponseEvent detail \<Rightarrow>
          if detail \<noteq> [] \<and> cap_response c = None then c\<lparr>cap_response := Some detail\<rparr> else c
      | ConsoleEvent (Some (lines, truncated)) \<Rightarrow>
          c\<lparr>cap_console := (fst (cap_console c) @ lines, snd (cap_console c) \<or> truncated), cap_printed := True\<rparr>
      | _ \<Rightarrow> c)"

definition console_output :: "capture \<Rightarrow> console option" where
  "console_output c = (if cap_printed c then Some (cap_console c) else None)"

definition take_console :: "capture \<Rightarrow> capture" where
  "take_console c = c\<lparr>cap_console := ([], False), cap_printed := False\<rparr>"

subsection \<open>One node invocation with its retry budget\<close>

datatype invoked =
    Answered node_output nat
  | FailedAttempts go_error string nat
  | Suspends string nat
  | Aborts run_failure
  | Panics

type_synonym ('w, 'm) running = "capture \<times> 'm run_state \<times> 'w"

definition runs_of :: "'m run_state \<Rightarrow> ir_node \<Rightarrow> nat" where
  "runs_of st n = length (rs_runs st (in_id n))"

definition call_of ::
  "ir_node \<Rightarrow> node_input \<Rightarrow> retry \<Rightarrow> rat \<Rightarrow> (string \<times> nat) list \<Rightarrow> 'm run_state \<Rightarrow> exec_call" where
  "call_of n input policy timeout branches st =
     \<lparr>ec_node = n, ec_input = clone_input input, ec_run_index = rs_executions st (in_id n),
      ec_tolerate = (on_error policy \<noteq> ErrorStop), ec_branches = branches,
      ec_node_outputs = rs_node_outputs st, ec_node_items = rs_node_items st, ec_timeout = timeout\<rparr>"

definition failure_code :: "rat \<Rightarrow> bool \<Rightarrow> bool \<Rightarrow> string" where
  "failure_code timeout node_deadline run_deadline =
     (let ns = \<lfloor>timeout * 1000000000\<rfloor> in
      if 0 < ns \<and> node_deadline then ''node.timeout''
      else if ns = 0 \<and> run_deadline then ''execution.timeout''
      else ''node.failed'')"

text \<open>\<open>left\<close> is how many attempts remain, \<open>attempt\<close> the number of the one that starts.\<close>

fun try_attempts ::
  "('w, 'm) env \<Rightarrow> prepared_graph \<Rightarrow> ir_node \<Rightarrow> node_input \<Rightarrow> retry \<Rightarrow> nat \<Rightarrow> nat \<Rightarrow>
   ('w, 'm) running \<Rightarrow> invoked \<times> ('w, 'm) running" where
  "try_attempts en g n input policy 0 attempt r = (Answered [] (attempt - 1), r)"
| "try_attempts en g n input policy (Suc left) attempt (cap, st, w) =
     (case node_timeout n of
        Inl e \<Rightarrow>
          (Aborts (ConfigInvalid e),
           cap, record_row ((node_run0 (in_id n) input)\<lparr>nr_error := Some e, nr_attempt := attempt,
                  nr_code := ''config.invalid''\<rparr>) st, w)
      | Inr timeout \<Rightarrow>
          (case connected_outputs_for g (in_id n) st of (branches, st) \<Rightarrow>
           case ex_execute en (executor_id (in_definition n)) (call_of n input policy timeout branches st)
                  (rs_memory st) w of (reply, w) \<Rightarrow>
             (let st = st\<lparr>rs_memory := rp_memory reply, rs_events := rs_events st @ rp_events reply\<rparr>;
                  cap = fold capture_event (rp_events reply) cap
              in case rp_result reply of
                   Inr output \<Rightarrow> (Answered output attempt, cap, st, w)
                 | Inl raw \<Rightarrow>
                     (let e = scrub (rp_secrets reply) raw;
                          code = failure_code timeout (rp_deadline reply) (ex_ctx_deadline en w)
                      in if err_suspend e \<noteq> None then (Suspends (the (err_suspend e)) attempt, cap, st, w)
                         else if on_error policy \<noteq> ErrorStop \<and> err_outcomes e \<noteq> None
                         then (FailedAttempts e ''node.failed'' attempt, cap, st, w)
                         else if on_error policy \<noteq> ErrorStop \<and> err_batch e
                         then (FailedAttempts e code attempt, cap, st, w)
                         else if left = 0 then (FailedAttempts e code attempt, cap, st, w)
                         else
                           (let st = record_row ((node_run0 (in_id n) input)\<lparr>nr_error := Some e,
                                   nr_attempt := attempt, nr_code := code, nr_console := console_output cap\<rparr>) st;
                                cap = take_console cap
                            in case ex_sleep en (retry_wait policy) w of (slept, w) \<Rightarrow>
                                 if slept then try_attempts en g n input policy left (Suc attempt) (cap, st, w)
                                 else
                                   (let ce = (case ex_ctx en w of None \<Rightarrow> plain_error [] | Some ce \<Rightarrow> ce) in
                                    (Aborts (NodeFailed (node_failure (ex_quote en) n ce)), cap,
                                     record_row ((node_run0 (in_id n) input)\<lparr>nr_error := Some ce,
                                       nr_attempt := Suc attempt, nr_code := ''execution.cancelled''\<rparr>) st, w)))))))"

definition invoke ::
  "('w, 'm) env \<Rightarrow> prepared_graph \<Rightarrow> ir_node \<Rightarrow> node_input \<Rightarrow> retry \<Rightarrow> ('w, 'm) running \<Rightarrow>
   invoked \<times> ('w, 'm) running" where
  "invoke en g n input policy r =
     (if \<not> ex_registered en (executor_id (in_definition n)) then (Panics, r)
      else try_attempts en g n input policy (attempts policy) 1 r)"

subsection \<open>Checkpoints\<close>

record partial_output =
  po_input :: node_input
  po_position :: nat
  po_output :: node_output
  po_failed :: nat
  po_error :: string
  po_response :: "string option"
  po_console :: "console option"

text \<open>\<open>cp_executions\<close> is \<open>None\<close> in a checkpoint written before executions were counted.\<close>

record 'm checkpoint =
  cp_node :: string
  cp_attempt :: nat
  cp_run :: nat
  cp_mode :: string
  cp_trigger :: string
  cp_input :: node_input
  cp_completed :: "string \<rightharpoonup> node_output"
  cp_runs :: "string \<Rightarrow> node_output list"
  cp_executions :: "(string \<Rightarrow> nat) option"
  cp_node_outputs :: "string \<rightharpoonup> jobject"
  cp_node_items :: "string \<rightharpoonup> node_item"
  cp_memory :: "string \<Rightarrow> 'm"
  cp_output :: "string \<rightharpoonup> node_output"
  cp_pending :: "(string \<times> node_input) list"
  cp_partial :: "partial_output option"

definition snapshot_checkpoint ::
  "string \<Rightarrow> string \<Rightarrow> string \<Rightarrow> node_input \<Rightarrow> nat \<Rightarrow> 'm run_state \<Rightarrow> partial_output option \<Rightarrow> 'm checkpoint" where
  "snapshot_checkpoint trigger k mode input attempt st partial =
     \<lparr>cp_node = k, cp_attempt = attempt, cp_run = length (rs_runs st k), cp_mode = mode, cp_trigger = trigger,
      cp_input = clone_input input,
      cp_completed = (\<lambda>j. map_option clone_output (rs_completed st j)),
      cp_runs = (\<lambda>j. map clone_output (rs_runs st j)),
      cp_executions = Some (rs_executions st),
      cp_node_outputs = rs_node_outputs st, cp_node_items = rs_node_items st, cp_memory = rs_memory st,
      cp_output = (\<lambda>j. map_option clone_output (rs_output st j)),
      cp_pending = map (\<lambda>p. (pe_node p, clone_input (pe_input p))) (rs_pending st),
      cp_partial = partial\<rparr>"

definition checkpoint_version :: "'m checkpoint \<Rightarrow> nat" where
  "checkpoint_version cp = (if cp_partial cp = None then 1 else 2)"

text \<open>\<open>unmarshalCheckpoint\<close>'s refusals of a decoded checkpoint with its recorded version.\<close>

definition checkpoint_readable :: "nat \<Rightarrow> 'm checkpoint \<Rightarrow> bool" where
  "checkpoint_readable version cp \<longleftrightarrow>
     (version = 2 \<or> version = 1) \<and> \<not> (version = 1 \<and> cp_partial cp \<noteq> None) \<and> cp_node cp \<noteq> []"

subsection \<open>Per-item runs\<close>

datatype 'm step_end =
    Continue
  | SuspendedWith "'m checkpoint"
  | Aborted run_failure
  | Panicked

record progress =
  pr_assembled :: node_output
  pr_failed :: nat
  pr_first :: "go_error option"
  pr_capture :: capture

definition per_item_row :: "ir_node \<Rightarrow> node_input \<Rightarrow> progress \<Rightarrow> node_run" where
  "per_item_row n input pr =
     (node_run0 (in_id n) input)\<lparr>nr_error := pr_first pr, nr_response := cap_response (pr_capture pr),
        nr_console := console_output (pr_capture pr),
        nr_code := (if pr_first pr = None then []
                    else if pr_failed pr = length (input main_port) then ''node.failed'' else ''node.partial'')\<rparr>"

definition partial_of :: "node_input \<Rightarrow> nat \<Rightarrow> progress \<Rightarrow> partial_output option" where
  "partial_of input position pr =
     (if 1 < length (input main_port)
      then Some \<lparr>po_input = clone_input input, po_position = position,
             po_output = clone_output (pr_assembled pr), po_failed = pr_failed pr,
             po_error = (case pr_first pr of None \<Rightarrow> [] | Some e \<Rightarrow> err_text e),
             po_response = cap_response (pr_capture pr), po_console = console_output (pr_capture pr)\<rparr>
      else None)"

fun resolve_items ::
  "('w, 'm) env \<Rightarrow> string \<Rightarrow> prepared_graph \<Rightarrow> ir_node \<Rightarrow> node_input \<Rightarrow> retry \<Rightarrow> nat \<Rightarrow> item list \<Rightarrow> progress \<Rightarrow>
   'm run_state \<Rightarrow> 'w \<Rightarrow> 'm step_end \<times> 'm run_state \<times> 'w" where
  "resolve_items en trigger g n input policy position [] pr st w =
     (let sources = lineage_sources (incoming g (in_id n)) input;
          assembled = with_empty_item (runs_of st n) n sources input (pr_assembled pr)
      in (Continue, complete (ex_quote en) g n assembled (per_item_row n input pr) st, w))"
| "resolve_items en trigger g n input policy position (it # its) pr st w =
     (let sources = lineage_sources (incoming g (in_id n)) input;
          before = port_lengths (pr_assembled pr);
          item_input = single_item_input input it
      in case invoke en g n item_input policy (pr_capture pr, st, w) of (res, cap, st, w) \<Rightarrow>
           (let pr = pr\<lparr>pr_capture := cap\<rparr>;
                go_on = (\<lambda>pr. resolve_items en trigger g n input policy (Suc position) its
                   (pr\<lparr>pr_assembled := stamp_per_item (runs_of st n) n sources it (pr_assembled pr) before\<rparr>) st w)
            in case res of
                 Aborts f \<Rightarrow> (Aborted f, st, w)
               | Panics \<Rightarrow> (Panicked, st, w)
               | Suspends mode attempt \<Rightarrow>
                   (SuspendedWith (snapshot_checkpoint trigger (in_id n) mode item_input attempt st
                      (partial_of input position pr)), st, w)
               | Answered output attempt \<Rightarrow>
                   go_on (pr\<lparr>pr_assembled := merge_output (pr_assembled pr) output\<rparr>)
               | FailedAttempts cause code attempt \<Rightarrow>
                   (case append_at (failure_port n (on_error policy))
                           [error_item (ex_quote en) n it cause (on_error policy = ErrorBranch)] (pr_assembled pr) of
                      None \<Rightarrow> (Panicked, st, w)
                    | Some assembled \<Rightarrow>
                        go_on (pr\<lparr>pr_assembled := assembled, pr_failed := Suc (pr_failed pr),
                                 pr_first := (case pr_first pr of None \<Rightarrow> Some cause | Some e \<Rightarrow> Some e)\<rparr>))))"

definition run_per_item ::
  "('w, 'm) env \<Rightarrow> string \<Rightarrow> prepared_graph \<Rightarrow> ir_node \<Rightarrow> node_input \<Rightarrow> retry \<Rightarrow> 'm run_state \<Rightarrow> 'w \<Rightarrow>
   'm step_end \<times> 'm run_state \<times> 'w" where
  "run_per_item en trigger g n input policy st w =
     resolve_items en trigger g n input policy 0 (input main_port)
       \<lparr>pr_assembled = empty_output n, pr_failed = 0, pr_first = None, pr_capture = no_capture\<rparr> st w"

subsection \<open>One scheduled invocation\<close>

definition row_of :: "ir_node \<Rightarrow> node_input \<Rightarrow> nat \<Rightarrow> capture \<Rightarrow> node_run" where
  "row_of n input attempt cap =
     (node_run0 (in_id n) input)\<lparr>nr_attempt := attempt, nr_response := cap_response cap,
        nr_console := console_output cap\<rparr>"

definition finish_failed ::
  "('w, 'm) env \<Rightarrow> prepared_graph \<Rightarrow> ir_node \<Rightarrow> node_input \<Rightarrow> retry \<Rightarrow> go_error \<Rightarrow> string \<Rightarrow> nat \<Rightarrow>
   ('w, 'm) running \<Rightarrow> 'm step_end \<times> 'm run_state \<times> 'w" where
  "finish_failed en g n input policy cause code attempt r =
     (case r of (cap, st, w) \<Rightarrow>
        let sources = lineage_sources (incoming g (in_id n)) input;
            row = (row_of n input attempt cap)\<lparr>nr_error := Some cause, nr_code := code\<rparr>
        in case tolerated_outcomes cause policy input of
             Some os \<Rightarrow>
               (let assembled = with_empty_item (runs_of st n) n sources input
                      (assemble_outcomes (ex_quote en) (runs_of st n) n sources input os (on_error policy));
                    row = row\<lparr>nr_error := outcomes_first os,
                      nr_code := (if outcomes_failed os = length os then ''node.failed'' else ''node.partial'')\<rparr>
                in (Continue, complete (ex_quote en) g n assembled row st, w))
           | None \<Rightarrow>
               if on_error policy = ErrorStop
               then (Aborted (NodeFailed (node_failure (ex_quote en) n cause)),
                     record_row (row\<lparr>nr_response := None\<rparr>) st, w)
               else
                 (let output = with_empty_item (runs_of st n) n sources input
                        (tolerated_output (ex_quote en) n input cause (on_error policy));
                      output = stamp_provenance (runs_of st n) n (incoming g (in_id n)) input output
                  in (Continue, complete (ex_quote en) g n output row st, w)))"

definition finish_answered ::
  "('w, 'm) env \<Rightarrow> prepared_graph \<Rightarrow> ir_node \<Rightarrow> node_input \<Rightarrow> node_output \<Rightarrow> nat \<Rightarrow>
   ('w, 'm) running \<Rightarrow> 'm step_end \<times> 'm run_state \<times> 'w" where
  "finish_answered en g n input output attempt r =
     (case r of (cap, st, w) \<Rightarrow>
        if length output \<noteq> expected_ports n
        then (Aborted (StreamCount (in_id n) (length output) (expected_ports n)), st, w)
        else
          (let sources = lineage_sources (incoming g (in_id n)) input;
               output = with_empty_item (runs_of st n) n sources input (pad_error_port n (clone_output output));
               output = stamp_provenance (runs_of st n) n (incoming g (in_id n)) input output
           in (Continue, complete (ex_quote en) g n output (row_of n input attempt cap) st, w)))"

definition run_whole ::
  "('w, 'm) env \<Rightarrow> string \<Rightarrow> prepared_graph \<Rightarrow> ir_node \<Rightarrow> node_input \<Rightarrow> retry \<Rightarrow> 'm run_state \<Rightarrow> 'w \<Rightarrow>
   'm step_end \<times> 'm run_state \<times> 'w" where
  "run_whole en trigger g n input policy st w =
     (case invoke en g n input policy (no_capture, st, w) of (res, cap, st, w) \<Rightarrow>
        (case res of
           Aborts f \<Rightarrow> (Aborted f, st, w)
         | Panics \<Rightarrow> (Panicked, st, w)
         | Suspends mode attempt \<Rightarrow>
             (SuspendedWith (snapshot_checkpoint trigger (in_id n) mode input attempt st None), st, w)
         | FailedAttempts cause code attempt \<Rightarrow> finish_failed en g n input policy cause code attempt (cap, st, w)
         | Answered output attempt \<Rightarrow> finish_answered en g n input output attempt (cap, st, w)))"

definition run_node ::
  "('w, 'm) env \<Rightarrow> string \<Rightarrow> prepared_graph \<Rightarrow> pending \<Rightarrow> 'm run_state \<Rightarrow> 'w \<Rightarrow>
   'm step_end \<times> 'm run_state \<times> 'w" where
  "run_node en trigger g p st w =
     (let n = node_at g (pe_node p); input = pe_input p in
      if pe_skipped p then (Continue, skip g p st, w)
      else if in_disabled n
      then (Continue, complete (ex_quote en) g n (pass_through n input) (node_run0 (in_id n) input) st, w)
      else case in_pinned n of
             Some items \<Rightarrow>
               (Continue, complete (ex_quote en) g n (pinned_output n items)
                  ((node_run0 (in_id n) input)\<lparr>nr_pinned := True\<rparr>) st, w)
           | None \<Rightarrow>
               if \<not> ex_registered en (executor_id (in_definition n))
               then (Aborted (ExecutorMissing (in_id n) (executor_id (in_definition n))), st, w)
               else
                 (let st = st\<lparr>rs_started := rs_started st @ [in_id n]\<rparr>;
                      policy = retry_policy (in_settings n);
                      input = (if setting_bool (in_settings n) ''executeOnce'' then first_item_only input else input)
                  in if per_item_tolerance n policy \<and> input main_port \<noteq> []
                     then run_per_item en trigger g n input policy st w
                     else run_whole en trigger g n input policy st w))"

subsection \<open>The pass over the graph\<close>

datatype 'm run_end =
    Finished
  | Suspended "'m checkpoint"
  | Failed run_failure
  | Crashed

text \<open>
  The loop has no bound in the source. A run that never ends is \<open>None\<close>.
\<close>

partial_function (option) run_loop ::
  "('w, 'm) env \<Rightarrow> string \<Rightarrow> prepared_graph \<Rightarrow> 'm run_state \<Rightarrow> 'w \<Rightarrow> ('m run_end \<times> 'm run_state \<times> 'w) option" where
  "run_loop en trigger g st w =
     (case ex_ctx en w of
        Some e \<Rightarrow> Some (Failed (ContextDone e), st, w)
      | None \<Rightarrow>
          (case next_invocation g st of
             Inl f \<Rightarrow> Some (Failed f, st, w)
           | Inr None \<Rightarrow> Some (Finished, record_skips g st, w)
           | Inr (Some (p, st')) \<Rightarrow>
               (case run_node en trigger g p st' w of
                  (Continue, st'', w') \<Rightarrow> run_loop en trigger g st'' w'
                | (SuspendedWith cp, st'', w') \<Rightarrow> Some (Suspended cp, st'', w')
                | (Aborted f, st'', w') \<Rightarrow> Some (Failed f, st'', w')
                | (Panicked, st'', w') \<Rightarrow> Some (Crashed, st'', w'))))"

definition run ::
  "('w, 'm) env \<Rightarrow> ir \<Rightarrow> string \<Rightarrow> (string \<Rightarrow> 'm) \<Rightarrow> 'w \<Rightarrow> ('m run_end \<times> 'm run_state \<times> 'w) option" where
  "run en plan trigger memory w =
     (case prepare_graph plan trigger of
        Inl f \<Rightarrow> Some (Failed f, empty_run_state memory, w)
      | Inr g \<Rightarrow> run_loop en trigger g (new_run_state g memory) w)"

subsection \<open>Continuing a suspended run\<close>

definition refused_row :: "'m checkpoint \<Rightarrow> go_error \<Rightarrow> node_run" where
  "refused_row cp cause =
     (node_run0 (cp_node cp) (clone_input (cp_input cp)))\<lparr>nr_error := Some cause, nr_attempt := max 1 (cp_attempt cp),
        nr_run_index := length (cp_runs cp (cp_node cp)), nr_code := ''node.failed''\<rparr>"

definition refused_rows :: "'m checkpoint \<Rightarrow> go_error \<Rightarrow> node_run list" where
  "refused_rows cp cause = (if cp_node cp = [] then [] else [refused_row cp cause])"

definition failed_resume :: "(string \<Rightarrow> 'm) \<Rightarrow> 'm checkpoint \<Rightarrow> run_failure \<Rightarrow> go_error \<Rightarrow> 'w \<Rightarrow>
    ('m run_end \<times> 'm run_state \<times> 'w) option" where
  "failed_resume memory cp f cause w =
     Some (Failed f, (empty_run_state memory)\<lparr>rs_rows := refused_rows cp cause\<rparr>, w)"

definition restore_state :: "prepared_graph \<Rightarrow> 'm checkpoint \<Rightarrow> 'm run_state" where
  "restore_state g cp =
     (empty_run_state (cp_memory cp))\<lparr>rs_completed := cp_completed cp, rs_runs := cp_runs cp,
        rs_executions := (case cp_executions cp of Some ex \<Rightarrow> ex | None \<Rightarrow> (\<lambda>k. length (cp_runs cp k))),
        rs_node_outputs := cp_node_outputs cp,
        rs_node_items := (\<lambda>k. map_option (\<lambda>ni. with_output_lengths ni (aget (pg_nodes g))) (cp_node_items cp k)),
        rs_output := cp_output cp,
        rs_pending := map (\<lambda>(k, input). \<lparr>pe_node = k, pe_input = clone_input input,
          pe_skipped = delivered_nothing g k input\<rparr>) (cp_pending cp)\<rparr>"

definition resumed_progress ::
  "prepared_graph \<Rightarrow> ir_node \<Rightarrow> 'm checkpoint \<Rightarrow> partial_output \<Rightarrow> node_output \<Rightarrow> 'm run_state \<Rightarrow> progress" where
  "resumed_progress g n cp po resumed st =
     (let cap = \<lparr>cap_response = po_response po,
            cap_console = (case po_console po of None \<Rightarrow> ([], False) | Some c \<Rightarrow> c),
            cap_printed = (po_console po \<noteq> None)\<rparr>;
          assembled = pad_error_port n (clone_output (po_output po));
          assembled = assembled @ replicate (length resumed - length assembled) [];
          before = port_lengths assembled;
          assembled = merge_output assembled resumed;
          it = (case cp_input cp main_port of [] \<Rightarrow> empty_item | i # _ \<Rightarrow> i);
          assembled = stamp_per_item (runs_of st n) n (lineage_sources (incoming g (in_id n)) (cp_input cp)) it assembled before
      in \<lparr>pr_assembled = assembled, pr_failed = po_failed po,
          pr_first = (if po_error po = [] then None else Some (plain_error (po_error po))), pr_capture = cap\<rparr>)"

definition resume ::
  "('w, 'm) env \<Rightarrow> ir \<Rightarrow> string \<Rightarrow> (string \<Rightarrow> 'm) \<Rightarrow> 'm checkpoint \<Rightarrow> node_output \<Rightarrow> (run_failure \<Rightarrow> go_error) \<Rightarrow> 'w \<Rightarrow>
   ('m run_end \<times> 'm run_state \<times> 'w) option" where
  "resume en plan trigger memory cp resume_output render w =
     (let refuse = (\<lambda>f. failed_resume memory cp f (render f) w) in
      if cp_trigger cp \<noteq> trigger then refuse OtherTrigger
      else case prepare_graph plan trigger of
             Inl f \<Rightarrow> refuse f
           | Inr g \<Rightarrow>
               (case aget (pg_nodes g) (cp_node cp) of
                  None \<Rightarrow> refuse (NotInGraph (cp_node cp))
                | Some n \<Rightarrow>
                    if cp_run cp < length (cp_runs cp (cp_node cp)) then refuse (AlreadyCompleted (cp_node cp))
                    else if length resume_output \<noteq> expected_ports n
                    then refuse (ResumeStreams (cp_node cp) (length resume_output) (expected_ports n))
                    else
                      (let st = restore_state g cp;
                           output = pad_error_port n (clone_output resume_output)
                       in case (case cp_partial cp of
                                  Some po \<Rightarrow>
                                    resolve_items en trigger g n (po_input po) (retry_policy (in_settings n))
                                      (Suc (po_position po)) (drop (Suc (po_position po)) (po_input po main_port))
                                      (resumed_progress g n cp po output st) st w
                                | None \<Rightarrow>
                                    (Continue,
                                     complete (ex_quote en) g n
                                       (stamp_provenance (runs_of st n) n (incoming g (cp_node cp)) (cp_input cp) output)
                                       ((node_run0 (in_id n) (clone_input (cp_input cp)))\<lparr>nr_attempt := max 1 (cp_attempt cp)\<rparr>)
                                       st, w)) of
                            (Continue, st', w') \<Rightarrow> run_loop en trigger g st' w'
                          | (SuspendedWith cp', st', w') \<Rightarrow> Some (Suspended cp', st', w')
                          | (Aborted f, st', w') \<Rightarrow> Some (Failed f, st', w')
                          | (Panicked, st', w') \<Rightarrow> Some (Crashed, st', w'))))"

end
