(* ===== verification/Scheduler_Correct.thy ===== *)
theory Scheduler_Correct
  imports Scheduler Policies_Correct
begin

text \<open>
  Facts of the scheduler: what each state change does to each field, the prepared graph (its nodes,
  its sorted edges, the active set as a reachability set), what a finished node delivers to each
  target, and which entry is taken next.
\<close>

subsection \<open>State changes, field by field\<close>

lemma record_row_fields [state_simps]:
  "rs_completed (record_row r st) = rs_completed st" "rs_runs (record_row r st) = rs_runs st"
  "rs_executions (record_row r st) = rs_executions st" "rs_rows (record_row r st) = rs_rows st @ [r]"
  "rs_output (record_row r st) = rs_output st" "rs_pending (record_row r st) = rs_pending st"
  "rs_branches (record_row r st) = rs_branches st" "rs_node_outputs (record_row r st) = rs_node_outputs st"
  "rs_node_items (record_row r st) = rs_node_items st" "rs_memory (record_row r st) = rs_memory st"
  "rs_sunk (record_row r st) = rs_sunk st @ [(length (rs_rows st), r)]"
  "rs_started (record_row r st) = rs_started st" "rs_events (record_row r st) = rs_events st"
  by (simp_all add: record_row_def)

text \<open>The output a finished invocation is recorded with, and its row.\<close>

definition final_output :: "ir_node \<Rightarrow> node_output \<Rightarrow> 'm run_state \<Rightarrow> node_output" where
  "final_output n output st = anchor_fan_outs n output (int (length (rs_runs st (in_id n))))"

definition final_row :: "ir_node \<Rightarrow> node_output \<Rightarrow> node_run \<Rightarrow> 'm run_state \<Rightarrow> node_run" where
  "final_row n output run st =
     run\<lparr>nr_run_index := length (rs_runs st (in_id n)), nr_output := final_output n output st\<rparr>"

lemma complete_fields [state_simps]:
  fixes st :: "'m run_state"
  shows
  "rs_completed (complete quote g n output run st) = (rs_completed st)(in_id n \<mapsto> final_output n output st)"
  "rs_runs (complete quote g n output run st) =
     (rs_runs st)(in_id n := rs_runs st (in_id n) @ [final_output n output st])"
  "rs_executions (complete quote g n output run st) =
     (rs_executions st)(in_id n := Suc (rs_executions st (in_id n)))"
  "rs_rows (complete quote g n output run st) = rs_rows st @ [final_row n output run st]"
  "rs_sunk (complete quote g n output run st) =
     rs_sunk st @ [(length (rs_rows st), final_row n output run st)]"
  "rs_output (complete quote g n output run st) =
     (if outgoing g (in_id n) = [] then (rs_output st)(in_id n \<mapsto> final_output n output st) else rs_output st)"
  "rs_pending (complete quote g n output run st) =
     deliveries g n (final_output n output st) @ rs_pending st"
  "rs_branches (complete quote g n output run st) = rs_branches st"
  "rs_node_items (complete quote g n output run st) = (rs_node_items st)(in_name n \<mapsto>
     (node_item_for quote n (final_output n output st) (int (length (rs_runs st (in_id n)))))
       \<lparr>ni_executions := Suc (rs_executions st (in_id n))\<rparr>)"
  "rs_memory (complete quote g n output run st) = rs_memory st"
  "rs_started (complete quote g n output run st) = rs_started st"
  "rs_events (complete quote g n output run st) = rs_events st"
  by (simp_all add: complete_def push_def final_output_def final_row_def state_simps Let_def)

definition skip_row :: "prepared_graph \<Rightarrow> string \<Rightarrow> node_input \<Rightarrow> node_run" where
  "skip_row g k input = (node_run0 k input)\<lparr>nr_skipped := True, nr_output := empty_output (node_at g k)\<rparr>"

lemma mark_skipped_fields [state_simps]:
  "rs_completed (mark_skipped g k input st) = (rs_completed st)(k \<mapsto> empty_output (node_at g k))"
  "rs_runs (mark_skipped g k input st) = (rs_runs st)(k := rs_runs st k @ [empty_output (node_at g k)])"
  "rs_executions (mark_skipped g k input st) = rs_executions st"
  "rs_rows (mark_skipped g k input st) = rs_rows st @ [skip_row g k input]"
  "rs_sunk (mark_skipped g k input st) = rs_sunk st @ [(length (rs_rows st), skip_row g k input)]"
  "rs_output (mark_skipped g k input st) =
     (if outgoing g k = [] then (rs_output st)(k \<mapsto> empty_output (node_at g k)) else rs_output st)"
  "rs_pending (mark_skipped g k input st) = rs_pending st"
  "rs_branches (mark_skipped g k input st) = rs_branches st"
  "rs_node_outputs (mark_skipped g k input st) = rs_node_outputs st"
  "rs_node_items (mark_skipped g k input st) = rs_node_items st"
  "rs_memory (mark_skipped g k input st) = rs_memory st"
  "rs_started (mark_skipped g k input st) = rs_started st"
  "rs_events (mark_skipped g k input st) = rs_events st"
  by (simp_all add: mark_skipped_def skip_row_def state_simps Let_def)

lemma connected_outputs_for_fields [state_simps]:
  "rs_completed (snd (connected_outputs_for g k st)) = rs_completed st"
  "rs_runs (snd (connected_outputs_for g k st)) = rs_runs st"
  "rs_executions (snd (connected_outputs_for g k st)) = rs_executions st"
  "rs_rows (snd (connected_outputs_for g k st)) = rs_rows st"
  "rs_sunk (snd (connected_outputs_for g k st)) = rs_sunk st"
  "rs_output (snd (connected_outputs_for g k st)) = rs_output st"
  "rs_pending (snd (connected_outputs_for g k st)) = rs_pending st"
  "rs_node_outputs (snd (connected_outputs_for g k st)) = rs_node_outputs st"
  "rs_node_items (snd (connected_outputs_for g k st)) = rs_node_items st"
  "rs_memory (snd (connected_outputs_for g k st)) = rs_memory st"
  "rs_started (snd (connected_outputs_for g k st)) = rs_started st"
  "rs_events (snd (connected_outputs_for g k st)) = rs_events st"
  by (simp_all add: connected_outputs_for_def Let_def split: option.split)

lemma final_row_fields [state_simps]:
  "nr_node (final_row n output run st) = nr_node run"
  "nr_output (final_row n output run st) = final_output n output st"
  "nr_run_index (final_row n output run st) = length (rs_runs st (in_id n))"
  "nr_skipped (final_row n output run st) = nr_skipped run"
  by (simp_all add: final_row_def)

lemma skip_row_fields [state_simps]:
  "nr_node (skip_row g k input) = k" "nr_output (skip_row g k input) = empty_output (node_at g k)"
  "nr_skipped (skip_row g k input)"
  by (simp_all add: skip_row_def node_run0_def)

lemma shaped_final [shape_simps]: "shaped m (final_output n output st) \<longleftrightarrow> shaped m output"
  by (simp add: final_output_def shape_simps)

subsection \<open>The prepared graph\<close>

definition node_ids :: "prepared_graph \<Rightarrow> string set" where
  "node_ids g = fst ` set (pg_nodes g)"

definition keyed :: "prepared_graph \<Rightarrow> bool" where
  "keyed g \<longleftrightarrow> distinct (map fst (pg_nodes g)) \<and> (\<forall>(k, n) \<in> set (pg_nodes g). in_id n = k)"

definition well_formed :: "prepared_graph \<Rightarrow> bool" where
  "well_formed g \<longleftrightarrow> keyed g \<and>
     [] \<notin> node_ids g \<and> (\<forall>e \<in> set (live_edges g). edge_from e \<in> node_ids g \<and> edge_to e \<in> node_ids g)"

lemma index_nodes_steps:
  fixes m :: "(string \<times> ir_node) list"
  assumes "distinct (map fst m)" "\<forall>(k, n) \<in> set m. in_id n = k"
  shows "distinct (map fst (fold (\<lambda>n. aput (in_id n) n) ns m)) \<and>
    (\<forall>(k, n) \<in> set (fold (\<lambda>n. aput (in_id n) n) ns m). in_id n = k) \<and>
    fst ` set (fold (\<lambda>n. aput (in_id n) n) ns m) = fst ` set m \<union> in_id ` set ns"
  using assms
proof (induction ns arbitrary: m)
  case (Cons n ns)
  have "\<forall>(k, n) \<in> set (aput (in_id n) n m). in_id n = k" if "\<forall>(k, n) \<in> set m. in_id n = k" for n :: ir_node and m
    using that by (induction "in_id n" n m rule: aput.induct) auto
  from this [OF Cons(3), of n] Cons(1) [of "aput (in_id n) n m"] aput_distinct [OF Cons(2), of "in_id n" n]
  show ?case by (simp add: aput_keys)
qed simp

lemma index_nodes_map: "distinct (map in_id ns) \<Longrightarrow> index_nodes ns = map (\<lambda>n. (in_id n, n)) ns"
proof -
  have "distinct (map in_id ns) \<Longrightarrow> in_id ` set ns \<inter> fst ` set m = {} \<Longrightarrow>
      fold (\<lambda>n. aput (in_id n) n) ns m = m @ map (\<lambda>n. (in_id n, n)) ns" for m :: "(string \<times> ir_node) list"
  proof (induction ns arbitrary: m)
    case (Cons n ns)
    have new: "aput k v m = m @ [(k, v)]" if "k \<notin> fst ` set m" for k and v :: ir_node and m
      using that by (induction k v m rule: aput.induct) auto
    have "aput (in_id n) n m = m @ [(in_id n, n)]" by (rule new) (use Cons(3) in auto)
    then show ?case using Cons by auto
  qed simp
  then show "distinct (map in_id ns) \<Longrightarrow> ?thesis" by (simp add: index_nodes_def)
qed

lemma well_formed_keyed [simp]: "well_formed g \<Longrightarrow> keyed g"
  by (simp add: well_formed_def)

lemma node_at_id: "keyed g \<Longrightarrow> k \<in> node_ids g \<Longrightarrow> in_id (node_at g k) = k"
  by (auto simp: keyed_def node_at_def node_ids_def aget_None_iff dest: aget_in split: option.split)

lemma node_at_unknown: "k \<notin> node_ids g \<Longrightarrow> node_at g k = zero_node"
  using aget_None_iff [of "pg_nodes g" k] by (simp add: node_at_def node_ids_def)

lemma node_at_again: "well_formed g \<Longrightarrow> node_at g (in_id (node_at g k)) = node_at g k"
  by (cases "k \<in> node_ids g")
    (simp_all add: node_at_id node_at_unknown, simp add: zero_node_def node_at_unknown well_formed_def)

lemma node_at_in:
  assumes "keyed g"
  shows "(k, n) \<in> set (pg_nodes g) \<longleftrightarrow> k \<in> node_ids g \<and> node_at g k = n"
proof -
  have d: "distinct (map fst (pg_nodes g))" using assms by (simp add: keyed_def)
  then have "(k, n) \<in> set (pg_nodes g) \<longleftrightarrow> aget (pg_nodes g) k = Some n"
    by (simp add: aget_def)
  moreover have "k \<in> node_ids g \<longleftrightarrow> aget (pg_nodes g) k \<noteq> None" by (simp add: node_ids_def aget_None_iff)
  ultimately show ?thesis by (auto simp: node_at_def)
qed

lemma in_incoming [simp]: "e \<in> set (incoming g k) \<longleftrightarrow> e \<in> set (live_edges g) \<and> edge_to e = k"
  by (auto simp: incoming_def)

lemma in_outgoing [simp]: "e \<in> set (outgoing g k) \<longleftrightarrow> e \<in> set (live_edges g) \<and> edge_from e = k"
  by (auto simp: outgoing_def)

text \<open>The nodes a trigger's run belongs to: what it reaches along item edges, and what attaches to that.\<close>

definition live_set :: "ir \<Rightarrow> string \<Rightarrow> string set" where
  "live_set plan trigger =
     (if trigger = [] then in_id ` set (ir_nodes plan)
      else ((set (attachment_arcs (ir_edges plan)))\<inverse>)\<^sup>* `` ((set (main_arcs (ir_edges plan)))\<^sup>* `` {trigger}))"

lemma active_nodes_live: "active_nodes plan trigger = Inr active \<Longrightarrow> set active = live_set plan trigger"
  using arc_walk.walk_reachable [of "[trigger]" "[trigger]" "main_arcs (ir_edges plan)"]
  by (auto simp: active_nodes_def live_set_def grow_exact split: if_splits)

lemma prepare_graph_Inr:
  assumes "prepare_graph plan trigger = Inr g"
  shows "pg_nodes g = index_nodes (filter (\<lambda>n. in_id n \<in> live_set plan trigger) (ir_nodes plan))"
    and "pg_edges g = filter (\<lambda>(i, e). edge_from e \<in> live_set plan trigger \<and> edge_to e \<in> live_set plan trigger)
      (indexed (ir_edges plan))"
proof -
  obtain active where a: "active_nodes plan trigger = Inr active"
    using assms by (cases "active_nodes plan trigger") (auto simp: prepare_graph_def split: if_splits)
  let ?nodes = "index_nodes (filter (\<lambda>n. in_id n \<in> set active) (ir_nodes plan))"
  let ?edges = "filter (\<lambda>(i, e). edge_from e \<in> set active \<and> edge_to e \<in> set active) (indexed (ir_edges plan))"
  have "g = \<lparr>pg_nodes = ?nodes, pg_edges = ?edges\<rparr>"
    using assms unfolding prepare_graph_def a Let_def by (simp split: if_split_asm)
  then show "pg_nodes g = index_nodes (filter (\<lambda>n. in_id n \<in> live_set plan trigger) (ir_nodes plan))"
    "pg_edges g = filter (\<lambda>(i, e). edge_from e \<in> live_set plan trigger \<and> edge_to e \<in> live_set plan trigger)
      (indexed (ir_edges plan))"
    by (simp_all add: active_nodes_live [OF a])
qed

lemma prepare_graph_live:
  assumes "prepare_graph plan trigger = Inr g"
  shows "node_ids g = in_id ` set (ir_nodes plan) \<inter> live_set plan trigger"
    and "set (live_edges g) =
      {e \<in> set (ir_edges plan). edge_from e \<in> live_set plan trigger \<and> edge_to e \<in> live_set plan trigger}"
proof -
  note g = prepare_graph_Inr [OF assms]
  have "fst ` set (index_nodes ns) = in_id ` set ns" for ns
    using index_nodes_steps [of "[]" ns] by (simp add: index_nodes_def)
  then show "node_ids g = in_id ` set (ir_nodes plan) \<inter> live_set plan trigger"
    unfolding node_ids_def g(1) by auto
  let ?live = "\<lambda>e. edge_from e \<in> live_set plan trigger \<and> edge_to e \<in> live_set plan trigger"
  have "live_edges g = filter ?live (map snd (indexed (ir_edges plan)))"
    unfolding live_edges_def g(2) filter_map by (simp add: comp_def split_def)
  then show "set (live_edges g) = {e \<in> set (ir_edges plan). ?live e}" by simp
qed

lemma prepare_graph_keyed: "prepare_graph plan trigger = Inr g \<Longrightarrow> keyed g"
  unfolding keyed_def using index_nodes_steps [of "[]"] by (simp add: prepare_graph_Inr(1) index_nodes_def)

text \<open>What the compiler promises of a plan's edges, and the prepared graph keeps.\<close>

definition edge_fits :: "ir_node \<Rightarrow> ir_node \<Rightarrow> ir_edge \<Rightarrow> bool" where
  "edge_fits s t e \<longleftrightarrow>
     source_output_index e < length (def_outputs (in_definition s)) \<and>
     (\<exists>p \<in> set (def_inputs (in_definition t)). port_name p = end_port (edge_target e) \<and> port_kind p = edge_kind e)"

definition plan_ok :: "ir \<Rightarrow> bool" where
  "plan_ok plan \<longleftrightarrow> distinct (map in_id (ir_nodes plan)) \<and> [] \<notin> in_id ` set (ir_nodes plan) \<and>
     (\<forall>e \<in> set (ir_edges plan). \<exists>s \<in> set (ir_nodes plan). \<exists>t \<in> set (ir_nodes plan).
        in_id s = edge_from e \<and> in_id t = edge_to e \<and> edge_fits s t e)"

definition well_typed :: "prepared_graph \<Rightarrow> bool" where
  "well_typed g \<longleftrightarrow> well_formed g \<and>
     (\<forall>e \<in> set (live_edges g). edge_fits (node_at g (edge_from e)) (node_at g (edge_to e)) e)"

lemma node_at_plan:
  assumes "prepare_graph plan trigger = Inr g" "plan_ok plan" "n \<in> set (ir_nodes plan)" "in_id n \<in> live_set plan trigger"
  shows "node_at g (in_id n) = n"
proof -
  let ?live = "filter (\<lambda>n. in_id n \<in> live_set plan trigger) (ir_nodes plan)"
  have d: "distinct (map in_id ?live)" using assms(2) by (simp add: plan_ok_def distinct_map_filter)
  then have nodes: "pg_nodes g = map (\<lambda>n. (in_id n, n)) ?live"
    using prepare_graph_Inr(1) [OF assms(1)] by (simp add: index_nodes_map)
  have "distinct (map fst (pg_nodes g))" using d by (simp add: nodes comp_def)
  moreover have "(in_id n, n) \<in> set (pg_nodes g)" using assms(3,4) by (simp add: nodes)
  ultimately show ?thesis by (simp add: node_at_def aget_def)
qed

lemma prepare_graph_well_typed:
  assumes "prepare_graph plan trigger = Inr g" "plan_ok plan"
  shows "well_typed g"
proof -
  note live = prepare_graph_live [OF assms(1)]
  have ends: "edge_from e \<in> node_ids g \<and> edge_to e \<in> node_ids g \<and> edge_fits (node_at g (edge_from e)) (node_at g (edge_to e)) e"
    if e: "e \<in> set (live_edges g)" for e
  proof -
    have "e \<in> set (ir_edges plan)" "edge_from e \<in> live_set plan trigger" "edge_to e \<in> live_set plan trigger"
      using e live(2) by auto
    moreover obtain s t where "s \<in> set (ir_nodes plan)" "t \<in> set (ir_nodes plan)" "in_id s = edge_from e"
      "in_id t = edge_to e" "edge_fits s t e" using calculation(1) assms(2) unfolding plan_ok_def by blast
    ultimately show ?thesis using node_at_plan [OF assms] live(1) by (metis IntI imageI)
  qed
  have "keyed g" by (rule prepare_graph_keyed [OF assms(1)])
  moreover have "[] \<notin> node_ids g" using live(1) assms(2) by (auto simp: plan_ok_def)
  ultimately show ?thesis using ends by (simp add: well_typed_def well_formed_def)
qed

subsection \<open>Deliveries\<close>

text \<open>What an edge carries of an output.\<close>

definition carried :: "node_output \<Rightarrow> ir_edge \<Rightarrow> item list" where
  "carried output e = (if source_output_index e < length output then output ! source_output_index e else [])"

text \<open>
  The contract of a delivery: one entry per target, in the order the targets were first met, each
  holding on every port what the edges to that port carry, in order, and skipped when they carry
  nothing.
\<close>

definition entry_ok :: "node_output \<Rightarrow> ir_edge list \<Rightarrow> pending \<Rightarrow> bool" where
  "entry_ok output es p \<longleftrightarrow>
     (pe_skipped p \<longleftrightarrow> (\<forall>e \<in> set es. edge_to e = pe_node p \<longrightarrow> carried output e = [])) \<and>
     (\<forall>q. pe_input p q = concat (map (carried output)
        (filter (\<lambda>e. edge_to e = pe_node p \<and> end_port (edge_target e) = q) es)))"

definition delivered_by :: "node_output \<Rightarrow> ir_edge list \<Rightarrow> pending list \<Rightarrow> bool" where
  "delivered_by output es owed \<longleftrightarrow>
     map pe_node owed = rev (remdups (rev (map edge_to es))) \<and> (\<forall>p \<in> set owed. entry_ok output es p)"

text \<open>What one more edge does to an entry.\<close>

definition feed :: "node_output \<Rightarrow> ir_edge \<Rightarrow> pending \<Rightarrow> pending" where
  "feed output e p =
     (if carried output e \<noteq> [] \<and> pe_node p = edge_to e
      then p\<lparr>pe_input := (pe_input p)(end_port (edge_target e) := pe_input p (end_port (edge_target e)) @ carried output e),
             pe_skipped := False\<rparr>
      else p)"

lemma feed_node [simp]: "pe_node (feed output e p) = pe_node p"
  by (simp add: feed_def)

lemma entry_ok_feed: "entry_ok output es p \<Longrightarrow> entry_ok output (es @ [e]) (feed output e p)"
  by (auto simp: entry_ok_def feed_def)

lemma entry_ok_fresh:
  "k \<notin> edge_to ` set es \<Longrightarrow> entry_ok output es \<lparr>pe_node = k, pe_input = no_input, pe_skipped = True\<rparr>"
  by (auto simp: entry_ok_def no_input_def filter_empty_conv)

lemma deliver_edge_eq:
  "deliver_edge g output e owed =
     map (feed output e)
       (if edge_to e \<in> pe_node ` set owed then owed
        else owed @ [\<lparr>pe_node = edge_to e, pe_input = no_input, pe_skipped = True\<rparr>])"
proof -
  have known: "list_ex (\<lambda>p. pe_node p = edge_to e) owed \<longleftrightarrow> edge_to e \<in> pe_node ` set owed"
    by (force simp: list_ex_iff)
  show ?thesis
    unfolding deliver_edge_def Let_def known carried_def [symmetric] clone_id
    by (cases "carried output e = []") (simp_all add: feed_def map_idI)
qed

lemma delivered_by_step:
  assumes "delivered_by output es owed"
  shows "delivered_by output (es @ [e]) (deliver_edge g output e owed)"
proof -
  have nodes: "pe_node ` set owed = edge_to ` set es"
  proof -
    have "set (map pe_node owed) = edge_to ` set es" using assms unfolding delivered_by_def by simp
    then show ?thesis by simp
  qed
  have "\<forall>p \<in> set owed. entry_ok output es p" using assms by (simp add: delivered_by_def)
  then have "\<forall>p \<in> set (deliver_edge g output e owed). entry_ok output (es @ [e]) p"
    unfolding deliver_edge_eq nodes by (auto intro!: entry_ok_feed entry_ok_fresh)
  moreover have "map pe_node (deliver_edge g output e owed) = rev (remdups (rev (map edge_to (es @ [e]))))"
    using assms unfolding deliver_edge_eq nodes delivered_by_def by (simp add: comp_def)
  ultimately show ?thesis by (simp add: delivered_by_def)
qed

lemma delivered_by_all: "delivered_by output es (fold (deliver_edge g output) es [])"
  by (induction es rule: rev_induct) (simp add: delivered_by_def, simp add: delivered_by_step)

lemma deliveries_spec: "delivered_by output (filter (delivers g n output) (outgoing g (in_id n))) (deliveries g n output)"
  unfolding deliveries_def by (rule delivered_by_all)

lemma deliveries_targets:
  "set (map pe_node (deliveries g n output)) = edge_to ` {e \<in> set (outgoing g (in_id n)). delivers g n output e}"
  "distinct (map pe_node (deliveries g n output))"
proof -
  have "map pe_node (deliveries g n output) =
      rev (remdups (rev (map edge_to (filter (delivers g n output) (outgoing g (in_id n))))))"
    using deliveries_spec by (simp add: delivered_by_def)
  then show "set (map pe_node (deliveries g n output)) = edge_to ` {e \<in> set (outgoing g (in_id n)). delivers g n output e}"
    "distinct (map pe_node (deliveries g n output))" by auto
qed

subsection \<open>What is taken next\<close>

lemma take_ready_Some:
  "take_ready ready ps = Some (p, rest) \<longleftrightarrow>
     (\<exists>before after. ps = before @ p # after \<and> rest = before @ after \<and> ready p \<and> (\<forall>q \<in> set before. \<not> ready q))"
proof (induction ps arbitrary: rest)
  case (Cons q ps)
  show ?case
  proof (cases "ready q")
    case True
    then have "q # ps = before @ p # after \<and> rest = before @ after \<and> ready p \<and> (\<forall>q \<in> set before. \<not> ready q) \<longleftrightarrow>
        before = [] \<and> p = q \<and> rest = ps \<and> after = ps" for before after by (cases before) auto
    then show ?thesis using True by auto
  next
    case False
    then have "q # ps = before @ p # after \<and> rest = before @ after \<and> ready p \<and> (\<forall>q \<in> set before. \<not> ready q) \<longleftrightarrow>
        (\<exists>b r. before = q # b \<and> rest = q # r \<and> ps = b @ p # after \<and> r = b @ after \<and> ready p \<and>
           (\<forall>q \<in> set b. \<not> ready q))" for before after by (cases before) auto
    moreover have "take_ready ready (q # ps) = Some (p, rest) \<longleftrightarrow>
        (\<exists>r. rest = q # r \<and> take_ready ready ps = Some (p, r))" using False by (auto split: option.splits)
    ultimately show ?thesis unfolding Cons by auto
  qed
qed simp

lemma take_ready_None: "take_ready ready ps = None \<longleftrightarrow> (\<forall>p \<in> set ps. \<not> ready p)"
  by (induction ps) (auto split: option.splits)

lemma ready_nodes_in:
  "k \<in> set (ready_nodes g st) \<longleftrightarrow> (\<exists>n. (k, n) \<in> set (pg_nodes g) \<and> rs_completed st k = None \<and>
     \<not> in_disabled n \<and> \<not> annotation n \<and> dependencies_complete g st k \<and> delivered g st k)"
  by (force simp: ready_nodes_def)

lemma unreached_in:
  "k \<in> set (unreached g st) \<longleftrightarrow> (\<exists>n. (k, n) \<in> set (pg_nodes g) \<and> rs_completed st k = None \<and> \<not> annotation n)"
  by (force simp: unreached_def)

lemma seed_roots_in:
  "k \<in> set (seed_roots g) \<longleftrightarrow> (\<exists>n. (k, n) \<in> set (pg_nodes g) \<and> incoming g k = [] \<and> \<not> in_disabled n \<and> \<not> annotation n)"
  by (force simp: seed_roots_def)

end
