(* ===== verification/Steps.thy ===== *)
theory Steps
  imports Runner Scheduler_Correct
begin

text \<open>
  The run as a transition system: \<open>move\<close> is one change of the run's state, each rule one place where
  the runner changes it. Every operation of the runner, up to the whole loop, is a sequence of moves,
  so a property that every move keeps holds of every state a run passes through: the locale
  \<open>run_invariant\<close> states that once, and each invariant of the engine interprets it.
\<close>

subsection \<open>The moves of a run\<close>

inductive move :: "(string \<Rightarrow> string) \<Rightarrow> prepared_graph \<Rightarrow> 'm run_state \<Rightarrow> 'm run_state \<Rightarrow> bool"
  for quote g where
    taken: "take_ready (\<lambda>p. config_ready g st (pe_node p)) (rs_pending st) = Some (p, rest) \<Longrightarrow>
      move quote g st (st\<lparr>rs_pending := rest\<rparr>)"
  | started: "n = node_at g k \<Longrightarrow> \<not> in_disabled n \<Longrightarrow> in_pinned n = None \<Longrightarrow>
      move quote g st (st\<lparr>rs_started := rs_started st @ [in_id n]\<rparr>)"
  | looked_up: "move quote g st (snd (connected_outputs_for g k st))"
  | answered: "move quote g st (st\<lparr>rs_memory := memory, rs_events := rs_events st @ events\<rparr>)"
  | attempted: "nr_error row \<noteq> None \<Longrightarrow> nr_output row = [] \<Longrightarrow> move quote g st (record_row row st)"
  | completed: "n = node_at g k \<Longrightarrow> shaped n out \<Longrightarrow> nr_node row = in_id n \<Longrightarrow> \<not> nr_skipped row \<Longrightarrow>
      move quote g st (complete quote g n out row st)"
  | skipped: "n = node_at g k \<Longrightarrow> move quote g st (mark_skipped g (in_id n) input st)"

abbreviation moves :: "(string \<Rightarrow> string) \<Rightarrow> prepared_graph \<Rightarrow> 'm run_state \<Rightarrow> 'm run_state \<Rightarrow> bool" where
  "moves quote g \<equiv> (move quote g)\<^sup>*\<^sup>*"

lemma moves_move: "moves quote g st st' \<Longrightarrow> move quote g st' st'' \<Longrightarrow> moves quote g st st''"
  by (rule rtranclp.rtrancl_into_rtrancl)

lemma move_moves: "move quote g st st' \<Longrightarrow> moves quote g st' st'' \<Longrightarrow> moves quote g st st''"
  by (rule converse_rtranclp_into_rtranclp)

lemma node_run0_fields [simp]:
  "nr_node (node_run0 k input) = k" "nr_output (node_run0 k input) = []" "nr_error (node_run0 k input) = None"
  "\<not> nr_skipped (node_run0 k input)" "nr_run_index (node_run0 k input) = 0"
  by (simp_all add: node_run0_def)

text \<open>The moves a call of an executor makes: none completes a node or touches what is owed.\<close>

inductive work :: "prepared_graph \<Rightarrow> 'm run_state \<Rightarrow> 'm run_state \<Rightarrow> bool" for g where
    work_looked_up: "work g st (snd (connected_outputs_for g k st))"
  | work_answered: "work g st (st\<lparr>rs_memory := memory, rs_events := rs_events st @ events\<rparr>)"
  | work_attempted: "nr_error row \<noteq> None \<Longrightarrow> nr_output row = [] \<Longrightarrow> work g st (record_row row st)"

lemma work_move: "work g st st' \<Longrightarrow> move quote g st st'"
  by (auto elim!: work.cases intro: looked_up answered attempted)

lemma works_moves: "(work g)\<^sup>*\<^sup>* st st' \<Longrightarrow> moves quote g st st'"
  by (induction rule: rtranclp_induct) (auto intro: work_move moves_move)

definition same_progress :: "'m run_state \<Rightarrow> 'm run_state \<Rightarrow> bool" where
  "same_progress st st' \<longleftrightarrow> rs_completed st' = rs_completed st \<and> rs_runs st' = rs_runs st \<and>
     rs_executions st' = rs_executions st \<and> rs_pending st' = rs_pending st \<and> rs_output st' = rs_output st \<and>
     rs_node_outputs st' = rs_node_outputs st \<and> rs_node_items st' = rs_node_items st"

lemma same_progress_refl [simp]: "same_progress st st"
  by (simp add: same_progress_def)

lemma same_progress_trans: "same_progress a b \<Longrightarrow> same_progress b c \<Longrightarrow> same_progress a c"
  by (simp add: same_progress_def)

lemma record_row_outputs [state_simps]: "rs_node_outputs (record_row row st) = rs_node_outputs st"
  by (simp add: record_row_def)

lemma works_progress: "(work g)\<^sup>*\<^sup>* st st' \<Longrightarrow> same_progress st st'"
proof (induction rule: rtranclp_induct)
  case (step y z)
  from step(2) have "same_progress y z" by cases (simp_all add: same_progress_def state_simps)
  with step(3) show ?case by (rule same_progress_trans)
qed simp

subsection \<open>Every operation is a sequence of moves\<close>

text \<open>A row of one attempt, and one attempt as a case analysis: it ends the invocation, or it is retried.\<close>

definition attempt_row :: "ir_node \<Rightarrow> nat \<Rightarrow> node_run \<Rightarrow> bool" where
  "attempt_row n attempt row \<longleftrightarrow>
     nr_node row = in_id n \<and> nr_attempt row = attempt \<and> nr_error row \<noteq> None \<and> nr_output row = []"

definition ends_attempt :: "nat \<Rightarrow> invoked \<Rightarrow> bool" where
  "ends_attempt attempt res \<longleftrightarrow>
     (case res of Answered _ k \<Rightarrow> k = attempt | FailedAttempts _ _ k \<Rightarrow> k = attempt | Suspends _ k \<Rightarrow> k = attempt
      | _ \<Rightarrow> False)"

lemma try_attempts_cases [consumes 1, case_names config ended cancelled again]:
  assumes run: "try_attempts en g n input policy (Suc left) attempt (cap, st, w) = (res, cap', st', w')"
  obtains e row where "res = Aborts (ConfigInvalid e)" "st' = record_row row st" "attempt_row n attempt row"
    | "ends_attempt attempt res" "(work g)\<^sup>*\<^sup>* st st'" "rs_rows st' = rs_rows st"
    | mid msg row row' where "res = Aborts (NodeFailed msg)" "(work g)\<^sup>*\<^sup>* st mid" "rs_rows mid = rs_rows st"
        "st' = record_row row' (record_row row mid)" "attempt_row n attempt row" "attempt_row n (Suc attempt) row'"
    | mid row c v where "0 < left" "(work g)\<^sup>*\<^sup>* st mid" "rs_rows mid = rs_rows st" "attempt_row n attempt row"
        "try_attempts en g n input policy left (Suc attempt) (c, record_row row mid, v) = (res, cap', st', w')"
proof (cases "node_timeout n")
  case (Inl e)
  then show thesis using run that(1) by (auto simp: attempt_row_def)
next
  case (Inr timeout)
  obtain branches st1 where look: "connected_outputs_for g (in_id n) st = (branches, st1)"
    by (cases "connected_outputs_for g (in_id n) st")
  have st1: "work g st st1" using work_looked_up [of g st "in_id n"] look by simp
  obtain reply w1 where exec: "ex_execute en (executor_id (in_definition n)) (call_of n input policy timeout branches st1)
      (rs_memory st1) w = (reply, w1)" by (cases "ex_execute en (executor_id (in_definition n))
      (call_of n input policy timeout branches st1) (rs_memory st1) w")
  define mid where "mid = st1\<lparr>rs_memory := rp_memory reply, rs_events := rs_events st1 @ rp_events reply\<rparr>"
  have mid: "(work g)\<^sup>*\<^sup>* st mid"
    unfolding mid_def using work_answered by (rule converse_rtranclp_into_rtranclp [where r = "work g", OF st1 r_into_rtranclp])
  have rows: "rs_rows mid = rs_rows st"
    using connected_outputs_for_fields(4) [of g "in_id n" st] by (simp add: mid_def look)
  note unfolded = run [simplified, unfolded Inr sum.case look prod.case exec Let_def, folded mid_def]
  show thesis
  proof (cases "rp_result reply")
    case (Inr out)
    then show thesis using unfolded mid rows by (intro that(2)) (auto simp: ends_attempt_def)
  next
    case (Inl raw)
    note body = unfolded [unfolded Inl sum.case]
    note goals = that
    have again: thesis
      if "try_attempts en g n input policy left (Suc attempt) (c, record_row row mid, v) = (res, cap', st', w')"
        "0 < left" "attempt_row n attempt row" for c v row
      by (rule goals(4)) (use that mid rows in auto)
    have cancelled: thesis
      if "res = Aborts (NodeFailed msg)" "st' = record_row row' (record_row row mid)"
        "attempt_row n attempt row" "attempt_row n (Suc attempt) row'" for msg row row'
      by (rule goals(3)) (use that mid rows in auto)
    have suspended: thesis if "res = Suspends m attempt" "mid = st'" for m
      by (rule goals(2)) (use that mid rows in \<open>auto simp: ends_attempt_def\<close>)
    have failed: thesis if "res = FailedAttempts c d attempt" "mid = st'" for c d
      by (rule goals(2)) (use that mid rows in \<open>auto simp: ends_attempt_def\<close>)
    show thesis
      using body mid rows
      by (auto split: if_split_asm prod.split_asm simp: attempt_row_def elim!: again cancelled suspended failed)
  qed
qed

lemma try_attempts_work:
  "try_attempts en g n input policy left attempt (cap, st, w) = (res, cap', st', w') \<Longrightarrow> (work g)\<^sup>*\<^sup>* st st'"
proof (induction left arbitrary: attempt cap st w)
  case (Suc left)
  have row: "(work g)\<^sup>*\<^sup>* a (record_row row b)" if "(work g)\<^sup>*\<^sup>* a b" "attempt_row n k row" for a b row k
    using that work_attempted [of row g b] by (auto simp: attempt_row_def intro: rtranclp.rtrancl_into_rtrancl)
  from Suc(2) show ?case
    by (cases rule: try_attempts_cases) (auto intro: row rtranclp_trans [OF _ Suc(1)])
qed simp

text \<open>Every attempt but the last leaves a failed row, numbered from the first.\<close>

lemma try_attempts_rows:
  "try_attempts en g n input policy (Suc left) attempt (cap, st, w) = (res, cap', st', w') \<Longrightarrow>
     \<exists>rows last. rs_rows st' = rs_rows st @ rows \<and> attempt \<le> last \<and> last \<le> attempt + left \<and>
       (\<forall>row \<in> set rows. attempt_row n (nr_attempt row) row) \<and>
       (if ends_attempt last res then map nr_attempt rows = [attempt..<last]
        else \<exists>f. res = Aborts f \<and> map nr_attempt rows \<in> {[attempt..<Suc last], [attempt..<Suc (Suc last)]})"
proof (induction left arbitrary: attempt cap st w)
  case 0
  from 0 show ?case
  proof (cases rule: try_attempts_cases)
    case (config e row)
    then show ?thesis by (auto simp: state_simps attempt_row_def ends_attempt_def intro!: exI [of _ "[row]"])
  next
    case ended
    then show ?thesis by (auto intro!: exI [of _ attempt])
  next
    case (cancelled mid msg row row')
    then show ?thesis
      by (auto simp: state_simps attempt_row_def ends_attempt_def intro!: exI [of _ "[row, row']"] exI [of _ attempt])
  qed simp
next
  case (Suc left)
  from Suc(2) show ?case
  proof (cases rule: try_attempts_cases)
    case (config e row)
    then show ?thesis by (auto simp: state_simps attempt_row_def ends_attempt_def intro!: exI [of _ "[row]"] exI [of _ attempt])
  next
    case ended
    then show ?thesis by (auto intro!: exI [of _ attempt])
  next
    case (cancelled mid msg row row')
    then show ?thesis
      by (auto simp: state_simps attempt_row_def ends_attempt_def intro!: exI [of _ "[row, row']"] exI [of _ attempt])
  next
    case (again mid row c v)
    obtain rows last where r: "rs_rows st' = rs_rows (record_row row mid) @ rows" "Suc attempt \<le> last"
      "last \<le> Suc attempt + left" "\<forall>row \<in> set rows. attempt_row n (nr_attempt row) row"
      "if ends_attempt last res then map nr_attempt rows = [Suc attempt..<last]
       else \<exists>f. res = Aborts f \<and> map nr_attempt rows \<in> {[Suc attempt..<Suc last], [Suc attempt..<Suc (Suc last)]}"
      using Suc(1) [OF again(5)] by blast
    have up: "attempt # [Suc attempt..<k] = [attempt..<k]" if "Suc attempt \<le> k" for k
      using that by (simp add: upt_rec [of attempt])
    show ?thesis
    proof (intro exI [of _ "row # rows"] exI [of _ last] conjI)
      show "if ends_attempt last res then map nr_attempt (row # rows) = [attempt..<last]
        else \<exists>f. res = Aborts f \<and> map nr_attempt (row # rows) \<in> {[attempt..<Suc last], [attempt..<Suc (Suc last)]}"
        using r(2,5) again(4) up [of last] up [of "Suc last"] up [of "Suc (Suc last)"]
        by (auto simp: attempt_row_def split: if_split_asm)
    qed (use r again(3,4) in \<open>auto simp: state_simps attempt_row_def\<close>)
  qed
qed

lemma invoke_work:
  "invoke en g n input policy (cap, st, w) = (res, cap', st', w') \<Longrightarrow> (work g)\<^sup>*\<^sup>* st st'"
  by (auto simp: invoke_def dest: try_attempts_work split: if_split_asm)

lemmas invoke_moves = works_moves [OF invoke_work]
lemmas invoke_progress = works_progress [OF invoke_work]

lemma complete_moves:
  assumes "moves quote g st st'" "n = node_at g k" "shaped n out" "nr_node row = in_id n" "\<not> nr_skipped row"
  shows "moves quote g st (complete quote g n out row st')"
  using assms(1) completed [OF assms(2-5)] by (rule moves_move)

lemma per_item_row_fields [simp]: "nr_node (per_item_row n input pr) = in_id n" "\<not> nr_skipped (per_item_row n input pr)"
  by (simp_all add: per_item_row_def)

lemma row_of_fields [simp]:
  "nr_node (row_of n input attempt cap) = in_id n" "\<not> nr_skipped (row_of n input attempt cap)"
  "nr_output (row_of n input attempt cap) = []"
  by (simp_all add: row_of_def)

lemma resolve_items_moves:
  assumes "n = node_at g k"
  shows "resolve_items en trigger g n input policy position its pr st w = (res, st', w') \<Longrightarrow>
    shaped n (pr_assembled pr) \<Longrightarrow> moves (ex_quote en) g st st'"
proof (induction its arbitrary: position pr st w)
  case Nil
  then show ?case using assms by (auto simp: shape_simps intro!: complete_moves)
next
  case (Cons it its)
  obtain r cap st1 w1 where inv: "invoke en g n (single_item_input input it) policy (pr_capture pr, st, w) = (r, cap, st1, w1)"
    by (metis prod_cases4)
  then have st1: "moves (ex_quote en) g st st1" by (rule invoke_moves)
  have more: "moves (ex_quote en) g st st'"
    if "resolve_items en trigger g n input policy (Suc position) its pr' st1 w1 = (res, st', w')"
      "shaped n (pr_assembled pr')" for pr'
    using st1 Cons(1) [OF that] by (rule rtranclp_trans)
  show ?case
  proof (cases r)
    case (Answered out attempt)
    then show ?thesis using Cons(2) inv by (auto simp: Let_def shape_simps Cons(3) intro!: more)
  next
    case (FailedAttempts cause code attempt)
    then show ?thesis using Cons(2) inv st1
      by (auto simp: Let_def shape_simps Cons(3) split: option.splits dest: shaped_append_at [of _ _ _ _ n] intro!: more)
  qed (use Cons(2) inv st1 in \<open>auto simp: Let_def\<close>)
qed

lemma run_per_item_moves:
  "run_per_item en trigger g n input policy st w = (res, st', w') \<Longrightarrow> n = node_at g k \<Longrightarrow> moves (ex_quote en) g st st'"
  by (simp add: run_per_item_def resolve_items_moves shape_simps)

lemma run_whole_moves:
  assumes "run_whole en trigger g n input policy st w = (res, st', w')" "n = node_at g k"
  shows "moves (ex_quote en) g st st'"
proof -
  obtain r cap st1 w1 where inv: "invoke en g n input policy (no_capture, st, w) = (r, cap, st1, w1)"
    by (metis prod_cases4)
  then have st1: "moves (ex_quote en) g st st1" by (rule invoke_moves)
  have row: "moves (ex_quote en) g st (record_row row st1)" if "nr_error row \<noteq> None" "nr_output row = []" for row
    by (rule moves_move [OF st1]) (rule attempted [OF that])
  show ?thesis
  proof (cases r)
    case (FailedAttempts cause code attempt)
    then show ?thesis using assms inv st1
      by (auto simp: run_whole_def finish_failed_def Let_def shape_simps
          split: option.splits if_split_asm intro!: complete_moves row)
  next
    case (Answered out attempt)
    then show ?thesis using assms inv st1
      by (auto simp: run_whole_def finish_answered_def Let_def shape_simps shaped_padded
          split: if_split_asm intro!: complete_moves)
  qed (use assms inv st1 in \<open>auto simp: run_whole_def\<close>)
qed

lemma run_node_moves:
  assumes "run_node en trigger g p st w = (res, st', w')"
  shows "moves (ex_quote en) g st st'"
proof -
  let ?n = "node_at g (pe_node p)"
  have start: "move (ex_quote en) g st (st\<lparr>rs_started := rs_started st @ [in_id ?n]\<rparr>)"
    if "\<not> in_disabled ?n" "in_pinned ?n = None" using that by (rule started [OF refl])
  have skip: "moves (ex_quote en) g st (mark_skipped g (in_id ?n) input st)" for input
    by (rule r_into_rtranclp) (rule skipped [OF refl])
  have complete: "moves (ex_quote en) g st (complete (ex_quote en) g ?n out row st)"
    if "shaped ?n out" "nr_node row = in_id ?n" "\<not> nr_skipped row" for out row
    using that by (intro complete_moves) auto
  show ?thesis
    using assms
    by (auto simp: run_node_def skip_def Let_def shape_simps split: if_split_asm option.split_asm
        intro!: skip complete intro: move_moves [OF start] run_whole_moves run_per_item_moves)
qed

text \<open>What runs next is the newest ready entry of the stack or, when there is none, a ready node.\<close>

lemma next_invocation_cases [consumes 1, case_names stack fallback]:
  assumes "next_invocation g st = Inr (Some (p, st'))"
  obtains q rest where "take_ready (\<lambda>p. config_ready g st (pe_node p)) (rs_pending st) = Some (q, rest)"
      "pe_node p = pe_node q" "pe_skipped p = pe_skipped q" "st' = st\<lparr>rs_pending := rest\<rparr>"
    | "take_ready (\<lambda>p. config_ready g st (pe_node p)) (rs_pending st) = None"
      "pe_node p \<in> set (ready_nodes g st)" "\<not> pe_skipped p" "st' = st"
  using assms by (auto simp: next_invocation_def split: option.splits sum.splits list.splits)

lemma next_invocation_move:
  "next_invocation g st = Inr (Some (p, st')) \<Longrightarrow> move quote g st st' \<or> st' = st"
  by (erule next_invocation_cases) (auto intro: taken)

lemma ready_nodes_ids: "k \<in> set (ready_nodes g st) \<Longrightarrow> k \<in> node_ids g \<and> rs_completed st k = None"
  by (force simp: ready_nodes_in node_ids_def)

lemma record_skips_moves: "keyed g \<Longrightarrow> moves quote g st (record_skips g st)"
proof -
  assume g: "keyed g"
  have "moves quote g st (fold (\<lambda>k. mark_skipped g k no_input) ks st)" if "set ks \<subseteq> node_ids g" for ks
    using that
  proof (induction ks rule: rev_induct)
    case (snoc k ks)
    have "move quote g st' (mark_skipped g k no_input st')" for st' :: "'a run_state"
      using skipped [of "node_at g k" g k quote st' no_input] snoc(2) g by (simp add: node_at_id)
    with snoc show ?case by (simp add: moves_move)
  qed simp
  moreover have "set (unreached g st) \<subseteq> node_ids g" by (force simp: unreached_in node_ids_def)
  ultimately show "moves quote g st (record_skips g st)" by (simp add: record_skips_def)
qed

subsection \<open>The loop\<close>

text \<open>One turn of the loop: the state it goes on from, or how the run ends.\<close>

definition turn ::
  "('w, 'm) env \<Rightarrow> string \<Rightarrow> prepared_graph \<Rightarrow> 'm run_state \<Rightarrow> 'w \<Rightarrow>
   ('m run_state \<times> 'w) + ('m run_end \<times> 'm run_state \<times> 'w)" where
  "turn en trigger g st w =
     (case ex_ctx en w of
        Some e \<Rightarrow> Inr (Failed (ContextDone e), st, w)
      | None \<Rightarrow>
          (case next_invocation g st of
             Inl f \<Rightarrow> Inr (Failed f, st, w)
           | Inr None \<Rightarrow> Inr (Finished, record_skips g st, w)
           | Inr (Some (p, st')) \<Rightarrow>
               (case run_node en trigger g p st' w of
                  (Continue, st'', w') \<Rightarrow> Inl (st'', w')
                | (SuspendedWith cp, st'', w') \<Rightarrow> Inr (Suspended cp, st'', w')
                | (Aborted f, st'', w') \<Rightarrow> Inr (Failed f, st'', w')
                | (Panicked, st'', w') \<Rightarrow> Inr (Crashed, st'', w'))))"

lemma run_loop_turn:
  "run_loop en trigger g st w =
     (case turn en trigger g st w of Inl (st', w') \<Rightarrow> run_loop en trigger g st' w' | Inr e \<Rightarrow> Some e)"
  by (subst run_loop.simps) (simp add: turn_def split: option.split sum.split prod.split step_end.split)

lemma run_loop_ends:
  assumes "run_loop en trigger g st w = Some e" "Q st w"
    and "\<And>s v s' v'. Q s v \<Longrightarrow> turn en trigger g s v = Inl (s', v') \<Longrightarrow> Q s' v'"
  shows "\<exists>s v. Q s v \<and> turn en trigger g s v = Inr e"
proof -
  have "(\<forall>s v s' v'. Q s v \<longrightarrow> turn en trigger g s v = Inl (s', v') \<longrightarrow> Q s' v') \<longrightarrow> Q st w \<longrightarrow>
      (\<exists>s v. Q s v \<and> turn en trigger g s v = Inr e)"
  proof (rule run_loop.raw_induct [where P = "\<lambda>en trigger g st w e.
          (\<forall>s v s' v'. Q s v \<longrightarrow> turn en trigger g s v = Inl (s', v') \<longrightarrow> Q s' v') \<longrightarrow> Q st w \<longrightarrow>
          (\<exists>s v. Q s v \<and> turn en trigger g s v = Inr e)", OF _ assms(1)], goal_cases)
    case (1 loop en trigger g st w e)
    have "(case turn en trigger g st w of Inl (st', w') \<Rightarrow> loop en trigger g st' w' | Inr e \<Rightarrow> Some e) = Some e"
      by (subst 1(2) [symmetric]) (simp add: turn_def split: option.split sum.split prod.split step_end.split)
    then consider s' v' where "turn en trigger g st w = Inl (s', v')" "loop en trigger g s' v' = Some e"
      | "turn en trigger g st w = Inr e" by (auto split: sum.splits)
    then show ?case
    proof cases
      case a: 1
      then show ?thesis using 1(1) [OF a(2)] by blast
    qed blast
  qed
  with assms(2,3) show ?thesis by blast
qed

lemma turn_moves:
  assumes "keyed g"
  shows "turn en trigger g st w = Inl (st', w') \<Longrightarrow> moves (ex_quote en) g st st'"
    and "turn en trigger g st w = Inr (res, st', w') \<Longrightarrow> moves (ex_quote en) g st st'"
proof -
  have next': "moves (ex_quote en) g st s" if "next_invocation g st = Inr (Some (p, s))" for p s
    using next_invocation_move [OF that, of "ex_quote en"] by auto
  show "turn en trigger g st w = Inl (st', w') \<Longrightarrow> moves (ex_quote en) g st st'"
    "turn en trigger g st w = Inr (res, st', w') \<Longrightarrow> moves (ex_quote en) g st st'"
    using record_skips_moves [OF assms]
    by (auto simp: turn_def split: option.splits sum.splits prod.splits step_end.splits
        dest!: run_node_moves next' intro: rtranclp_trans)
qed

lemma run_loop_moves:
  assumes "run_loop en trigger g st w = Some (res, st', w')" "keyed g"
  shows "moves (ex_quote en) g st st'"
proof -
  obtain s v where "moves (ex_quote en) g st s" "turn en trigger g s v = Inr (res, st', w')"
    using run_loop_ends [OF assms(1), of "\<lambda>s v. moves (ex_quote en) g st s"] turn_moves(1) [OF assms(2)]
    by (meson rtranclp.rtrancl_refl rtranclp_trans)
  then show ?thesis using turn_moves(2) [OF assms(2)] by (meson rtranclp_trans)
qed

lemma run_moves:
  assumes "run en plan trigger memory w = Some (res, st, w')"
  shows "(\<exists>f. prepare_graph plan trigger = Inl f \<and> res = Failed f \<and> st = empty_run_state memory \<and> w' = w) \<or>
    (\<exists>g. prepare_graph plan trigger = Inr g \<and> moves (ex_quote en) g (new_run_state g memory) st)"
  using assms by (auto simp: run_def split: sum.splits dest: run_loop_moves prepare_graph_keyed)

end
