(* ===== verification/Invariants.thy ===== *)
theory Invariants
  imports Steps
begin

text \<open>
  The invariants of a run. Each interprets the locale \<open>run_invariant\<close> by showing that every move
  keeps it; the locale gives that it holds of the state any run, resumed or not, ends in.
\<close>

subsection \<open>The contract of an invariant\<close>

locale run_invariant =
  fixes quote :: "string \<Rightarrow> string"
    and g :: prepared_graph
    and inv :: "'m run_state \<Rightarrow> bool"
  assumes kept: "inv st \<Longrightarrow> move quote g st st' \<Longrightarrow> inv st'"
begin

lemma moves_keep: "moves quote g st st' \<Longrightarrow> inv st \<Longrightarrow> inv st'"
  by (induction rule: rtranclp_induct) (auto intro: kept)

lemma loop_keeps:
  "run_loop en trigger g st w = Some (res, st', w') \<Longrightarrow> ex_quote en = quote \<Longrightarrow> keyed g \<Longrightarrow> inv st \<Longrightarrow> inv st'"
  using run_loop_moves moves_keep by metis

lemma run_keeps:
  "run en plan trigger memory w = Some (res, st, w') \<Longrightarrow> ex_quote en = quote \<Longrightarrow>
     prepare_graph plan trigger = Inr g \<Longrightarrow> inv (new_run_state g memory) \<Longrightarrow> inv st"
  using run_moves [of en plan trigger memory w res st w'] moves_keep by auto

end

lemma new_run_state_fields [simp]:
  "rs_completed (new_run_state g memory) = Map.empty" "rs_runs (new_run_state g memory) = (\<lambda>_. [])"
  "rs_executions (new_run_state g memory) = (\<lambda>_. 0)" "rs_rows (new_run_state g memory) = []"
  "rs_output (new_run_state g memory) = Map.empty" "rs_branches (new_run_state g memory) = Map.empty"
  "rs_node_items (new_run_state g memory) = Map.empty" "rs_sunk (new_run_state g memory) = []"
  "rs_started (new_run_state g memory) = []" "rs_memory (new_run_state g memory) = memory"
  "rs_pending (new_run_state g memory) =
     map (\<lambda>k. \<lparr>pe_node = k, pe_input = no_input, pe_skipped = False\<rparr>) (seed_roots g)"
  by (simp_all add: new_run_state_def seed_def empty_run_state_def)

lemma empty_run_state_fields [simp]:
  "rs_completed (empty_run_state memory) = Map.empty" "rs_runs (empty_run_state memory) = (\<lambda>_. [])"
  "rs_executions (empty_run_state memory) = (\<lambda>_. 0)" "rs_rows (empty_run_state memory) = []"
  "rs_output (empty_run_state memory) = Map.empty" "rs_branches (empty_run_state memory) = Map.empty"
  "rs_node_items (empty_run_state memory) = Map.empty" "rs_sunk (empty_run_state memory) = []"
  "rs_started (empty_run_state memory) = []" "rs_memory (empty_run_state memory) = memory"
  "rs_pending (empty_run_state memory) = []"
  by (simp_all add: empty_run_state_def)

lemma taken_pending: "take_ready ready ps = Some (p, rest) \<Longrightarrow> set rest \<subseteq> set ps \<and> p \<in> set ps"
  by (auto simp: take_ready_Some)

subsection \<open>The trace\<close>

definition log_ok :: "'m run_state \<Rightarrow> bool" where
  "log_ok st \<longleftrightarrow> rs_sunk st = indexed (rs_rows st)"

lemma indexed_snoc: "indexed (xs @ [x]) = indexed xs @ [(length xs, x)]"
  by (simp add: indexed_def)

interpretation log: run_invariant quote g log_ok for quote g
  by unfold_locales (auto elim!: move.cases simp: log_ok_def state_simps indexed_snoc)

text \<open>Every recorded run of a node has its row.\<close>

definition rows_ok :: "'m run_state \<Rightarrow> bool" where
  "rows_ok st \<longleftrightarrow> (\<forall>k i. i < length (rs_runs st k) \<longrightarrow>
     (\<exists>row \<in> set (rs_rows st). nr_node row = k \<and> nr_output row = rs_runs st k ! i \<and>
        (nr_skipped row \<or> nr_run_index row = i)))"

lemma rows_ok_more:
  assumes "rows_ok st" "set (rs_rows st) \<subseteq> set (rs_rows st')" "rs_runs st' = rs_runs st"
  shows "rows_ok st'"
  using assms unfolding rows_ok_def by (metis subsetD)

lemma rows_ok_run:
  assumes "rows_ok st" "rs_rows st' = rs_rows st @ [row]" "rs_runs st' = (rs_runs st)(k := rs_runs st k @ [out])"
    and "nr_node row = k" "nr_output row = out" "nr_skipped row \<or> nr_run_index row = length (rs_runs st k)"
  shows "rows_ok st'"
  unfolding rows_ok_def
proof (intro allI impI)
  fix j i assume i: "i < length (rs_runs st' j)"
  show "\<exists>row \<in> set (rs_rows st'). nr_node row = j \<and> nr_output row = rs_runs st' j ! i \<and>
      (nr_skipped row \<or> nr_run_index row = i)"
  proof (cases "j = k \<and> i = length (rs_runs st k)")
    case True
    then show ?thesis using assms by auto
  next
    case False
    then have "i < length (rs_runs st j) \<and> rs_runs st' j ! i = rs_runs st j ! i"
      using i assms(3) by (auto simp: nth_append less_Suc_eq split: if_split_asm)
    then show ?thesis using assms(1,2) unfolding rows_ok_def by (metis Un_iff set_append)
  qed
qed

interpretation rows: run_invariant quote g rows_ok for quote g
proof
  fix st st' :: "'a run_state" assume ok: "rows_ok st" and m: "move quote g st st'"
  show "rows_ok st'"
    using m
  proof cases
    case (completed n k out row)
    then show ?thesis by (auto simp: state_simps intro: rows_ok_run [OF ok])
  next
    case (skipped n k input)
    then show ?thesis by (auto simp: state_simps intro: rows_ok_run [OF ok])
  qed (auto simp: state_simps intro: rows_ok_more [OF ok])
qed

subsection \<open>Runs, results and the final output\<close>

definition last_run :: "node_output list \<Rightarrow> node_output option" where
  "last_run outs = (if outs = [] then None else Some (last outs))"

definition runs_ok :: "prepared_graph \<Rightarrow> 'm run_state \<Rightarrow> bool" where
  "runs_ok g st \<longleftrightarrow> (\<forall>k. rs_completed st k = last_run (rs_runs st k) \<and>
     rs_output st k = (if outgoing g k = [] then rs_completed st k else None) \<and>
     rs_executions st k \<le> length (rs_runs st k))"

lemma runs_ok_run:
  assumes "runs_ok g st" "rs_completed st' = (rs_completed st)(k \<mapsto> out)"
    "rs_runs st' = (rs_runs st)(k := rs_runs st k @ [out])"
    "rs_output st' = (if outgoing g k = [] then (rs_output st)(k \<mapsto> out) else rs_output st)"
    "rs_executions st' = rs_executions st \<or> rs_executions st' = (rs_executions st)(k := Suc (rs_executions st k))"
  shows "runs_ok g st'"
  unfolding runs_ok_def
proof
  fix j
  have "rs_completed st j = last_run (rs_runs st j) \<and>
      rs_output st j = (if outgoing g j = [] then rs_completed st j else None) \<and>
      rs_executions st j \<le> length (rs_runs st j)" using assms(1) by (simp add: runs_ok_def)
  then show "rs_completed st' j = last_run (rs_runs st' j) \<and>
      rs_output st' j = (if outgoing g j = [] then rs_completed st' j else None) \<and>
      rs_executions st' j \<le> length (rs_runs st' j)"
    using assms(2-5) by (cases "j = k") (auto simp: last_run_def)
qed

lemma runs_ok_same:
  "runs_ok g st \<Longrightarrow> rs_completed st' = rs_completed st \<Longrightarrow> rs_runs st' = rs_runs st \<Longrightarrow>
     rs_output st' = rs_output st \<Longrightarrow> rs_executions st' = rs_executions st \<Longrightarrow> runs_ok g st'"
  by (simp add: runs_ok_def)

interpretation runs: run_invariant quote g "runs_ok g" for quote g
proof
  fix st st' :: "'a run_state" assume ok: "runs_ok g st" and m: "move quote g st st'"
  show "runs_ok g st'"
    using m
  proof cases
    case (completed n k out row)
    then show ?thesis by (intro runs_ok_run [OF ok]) (auto simp: state_simps)
  next
    case (skipped n k input)
    then show ?thesis by (intro runs_ok_run [OF ok]) (auto simp: state_simps)
  qed (rule runs_ok_same [OF ok]; simp add: state_simps)+
qed

definition shapes_ok :: "prepared_graph \<Rightarrow> 'm run_state \<Rightarrow> bool" where
  "shapes_ok g st \<longleftrightarrow> (\<forall>k. \<forall>out \<in> set (rs_runs st k). well_formed g \<longrightarrow> shaped (node_at g k) out)"

lemma shapes_ok_run:
  assumes "shapes_ok g st" "rs_runs st' = (rs_runs st)(in_id n := rs_runs st (in_id n) @ [out])"
    and "n = node_at g k" "shaped n out"
  shows "shapes_ok g st'"
  unfolding shapes_ok_def
proof (intro allI ballI impI)
  fix j x assume x: "x \<in> set (rs_runs st' j)" and g: "well_formed g"
  show "shaped (node_at g j) x"
  proof (cases "j = in_id n \<and> x = out")
    case True
    then show ?thesis using assms(3,4) node_at_again [OF g, of k] by simp
  next
    case False
    then have "x \<in> set (rs_runs st j)" using x assms(2) by (auto split: if_split_asm)
    then show ?thesis using assms(1) g by (simp add: shapes_ok_def)
  qed
qed

interpretation shapes: run_invariant quote g "shapes_ok g" for quote g
proof
  fix st st' :: "'a run_state" assume ok: "shapes_ok g st" and m: "move quote g st st'"
  show "shapes_ok g st'"
    using m
  proof cases
    case (completed n k out row)
    then show ?thesis
      by (intro shapes_ok_run [OF ok, of _ n "final_output n out st" k]) (simp_all add: state_simps shape_simps)
  next
    case (skipped n k input)
    show ?thesis
    proof (cases "well_formed g")
      case True
      then show ?thesis using skipped
        by (intro shapes_ok_run [OF ok, of _ n "empty_output n" k]) (simp_all add: state_simps shape_simps node_at_again)
    qed (simp add: shapes_ok_def)
  qed (use ok in \<open>auto simp: shapes_ok_def state_simps\<close>)
qed

subsection \<open>What executes\<close>

definition started_ok :: "prepared_graph \<Rightarrow> 'm run_state \<Rightarrow> bool" where
  "started_ok g st \<longleftrightarrow> (well_formed g \<longrightarrow>
     (\<forall>k \<in> set (rs_started st). \<not> in_disabled (node_at g k) \<and> in_pinned (node_at g k) = None))"

interpretation started: run_invariant quote g "started_ok g" for quote g
  by unfold_locales (auto elim!: move.cases simp: started_ok_def state_simps node_at_again)

definition cache_ok :: "prepared_graph \<Rightarrow> 'm run_state \<Rightarrow> bool" where
  "cache_ok g st \<longleftrightarrow> (\<forall>k outs. rs_branches st k = Some outs \<longrightarrow> outs = connected_outputs g k)"

lemma cache_ok_looked_up:
  "cache_ok g st \<Longrightarrow> cache_ok g (snd (connected_outputs_for g k st)) \<and>
     fst (connected_outputs_for g k st) = connected_outputs g k"
  by (auto simp: cache_ok_def connected_outputs_for_def Let_def split: option.split if_split_asm)

interpretation cache: run_invariant quote g "cache_ok g" for quote g
proof
  fix st st' :: "'a run_state" assume ok: "cache_ok g st" and m: "move quote g st st'"
  show "cache_ok g st'"
    using m
  proof cases
    case (looked_up k)
    then show ?thesis using cache_ok_looked_up [OF ok, of k] by simp
  qed (use ok in \<open>auto simp: cache_ok_def state_simps\<close>)
qed

subsection \<open>What is published to expressions\<close>

definition items_ok :: "prepared_graph \<Rightarrow> 'm run_state \<Rightarrow> bool" where
  "items_ok g st \<longleftrightarrow> (\<forall>name ni. rs_node_items st name = Some ni \<longrightarrow>
     item_shape ni \<and> with_output_lengths ni (aget (pg_nodes g)) = ni)"

lemma node_item_for_kept:
  "with_output_lengths ((node_item_for quote n out r)\<lparr>ni_executions := ex\<rparr>) nodes =
     (node_item_for quote n out r)\<lparr>ni_executions := ex\<rparr>"
proof (cases "out = []")
  case True
  then have "ni_port_lengths (node_item_for quote n out r) = []"
    by (simp add: node_item_for_def indexed_def)
  then show ?thesis by (simp add: with_output_lengths_def)
next
  case False
  then show ?thesis by (simp add: with_output_lengths_def node_item_for_fields port_lengths_def)
qed

interpretation items: run_invariant quote g "items_ok g" for quote g
proof
  fix st st' :: "'a run_state" assume ok: "items_ok g st" and m: "move quote g st st'"
  have shape: "item_shape ((node_item_for quote n out r)\<lparr>ni_executions := ex\<rparr>)" for n out r ex
    using node_item_for_shape [of quote n out r] by (simp add: item_shape_def)
  show "items_ok g st'"
    using m by cases (use ok shape in \<open>auto simp: items_ok_def state_simps node_item_for_kept\<close>)
qed

subsection \<open>What is owed\<close>

text \<open>
  An entry of the stack is for a node of the graph, never for one with several item inputs unless it
  was seeded, and its skipped mark says what its input says: that nothing was delivered.
\<close>

definition owed_ok :: "prepared_graph \<Rightarrow> pending \<Rightarrow> bool" where
  "owed_ok g p \<longleftrightarrow> pe_node p \<in> node_ids g \<and>
     (item_input_ports (node_at g (pe_node p)) \<le> 1 \<or> incoming g (pe_node p) = []) \<and>
     (pe_skipped p \<longleftrightarrow> delivered_nothing g (pe_node p) (pe_input p))"

lemma node_ids_aget: "k \<in> node_ids g \<Longrightarrow> aget (pg_nodes g) k = Some (node_at g k)"
  by (auto simp: node_ids_def node_at_def aget_None_iff split: option.split)

lemma delivered_nothing_at:
  "k \<in> node_ids g \<Longrightarrow> delivered_nothing g k input \<longleftrightarrow> (\<exists>e \<in> set (live_edges g). edge_to e = k \<and> is_main e) \<and>
     (\<forall>p \<in> set (def_inputs (in_definition (node_at g k))). port_kind p = connection_main \<longrightarrow> input (port_name p) = [])"
  by (auto simp: delivered_nothing_def node_ids_aget list_ex_iff)

lemma delivery_owed:
  assumes g: "well_typed g" and p: "p \<in> set (deliveries g n output)"
  shows "owed_ok g p"
proof -
  let ?es = "filter (delivers g n output) (outgoing g (in_id n))"
  have entry: "entry_ok output ?es p" using deliveries_spec [of "output" g n] p by (simp add: delivered_by_def)
  have "pe_node p \<in> edge_to ` set ?es" using p deliveries_targets(1) [of g n "output"] by auto
  then obtain e where e: "e \<in> set ?es" "edge_to e = pe_node p" by auto
  then have main: "e \<in> set (live_edges g)" "is_main e" "item_input_ports (node_at g (pe_node p)) \<le> 1"
    by (auto simp: delivers_def)
  then have k: "pe_node p \<in> node_ids g" using g e(2) by (auto simp: well_typed_def well_formed_def)
  have "pe_skipped p \<longleftrightarrow> (\<forall>q \<in> set (def_inputs (in_definition (node_at g (pe_node p)))).
      port_kind q = connection_main \<longrightarrow> pe_input p (port_name q) = [])"
  proof
    assume "pe_skipped p"
    then show "\<forall>q \<in> set (def_inputs (in_definition (node_at g (pe_node p)))).
      port_kind q = connection_main \<longrightarrow> pe_input p (port_name q) = []"
      using entry by (auto simp: entry_ok_def)
  next
    assume empty: "\<forall>q \<in> set (def_inputs (in_definition (node_at g (pe_node p)))).
      port_kind q = connection_main \<longrightarrow> pe_input p (port_name q) = []"
    have "carried output f = []" if f: "f \<in> set ?es" "edge_to f = pe_node p" for f
    proof -
      have "edge_fits (node_at g (edge_from f)) (node_at g (pe_node p)) f" "is_main f"
        using f g by (auto simp: well_typed_def delivers_def)
      then have "pe_input p (end_port (edge_target f)) = []"
        using empty by (auto simp: edge_fits_def is_main_def)
      then show ?thesis using entry f by (auto simp: entry_ok_def)
    qed
    then show "pe_skipped p" using entry by (auto simp: entry_ok_def)
  qed
  then show ?thesis using k main e(2) by (auto simp: owed_ok_def delivered_nothing_at)
qed

definition pending_ok :: "prepared_graph \<Rightarrow> 'm run_state \<Rightarrow> bool" where
  "pending_ok g st \<longleftrightarrow> (well_typed g \<longrightarrow> (\<forall>p \<in> set (rs_pending st). owed_ok g p))"

interpretation pending: run_invariant quote g "pending_ok g" for quote g
  by unfold_locales
    (auto elim!: move.cases simp: pending_ok_def state_simps delivery_owed dest!: taken_pending)

lemma new_pending_ok: "pending_ok g (new_run_state g memory)"
proof -
  have "owed_ok g \<lparr>pe_node = k, pe_input = no_input, pe_skipped = False\<rparr>" if k: "k \<in> set (seed_roots g)" for k
  proof -
    obtain n where "(k, n) \<in> set (pg_nodes g)" "incoming g k = []" using k by (auto simp: seed_roots_in)
    then have "k \<in> node_ids g" "\<not> (\<exists>e \<in> set (live_edges g). edge_to e = k \<and> is_main e)"
      by (force simp: node_ids_def, metis in_incoming empty_iff list.set(1))
    with \<open>incoming g k = []\<close> show ?thesis by (auto simp: owed_ok_def delivered_nothing_at)
  qed
  then show ?thesis by (auto simp: pending_ok_def)
qed

text \<open>A new run's state has every invariant.\<close>

lemma new_run_state_ok [intro!]:
  "log_ok (new_run_state g memory)" "rows_ok (new_run_state g memory)" "runs_ok g (new_run_state g memory)"
  "shapes_ok g (new_run_state g memory)" "started_ok g (new_run_state g memory)"
  "cache_ok g (new_run_state g memory)" "items_ok g (new_run_state g memory)" "pending_ok g (new_run_state g memory)"
  by (simp_all add: log_ok_def indexed_def rows_ok_def runs_ok_def last_run_def shapes_ok_def started_ok_def
      cache_ok_def items_ok_def new_pending_ok)

end
