(* ===== verification/Termination.thy ===== *)
theory Termination
  imports Invariants
begin

text \<open>
  When the loop ends. What one turn does to the run's progress, a weight of the nodes of a graph
  whose item edges have no cycle, and the measure that every turn makes smaller: what the stack owes
  plus the nodes not completed, each counted by its weight.
\<close>

subsection \<open>What a turn does\<close>

text \<open>A turn that goes on completed its node, once, or recorded its delivery as skipped.\<close>

definition finishes ::
  "(string \<Rightarrow> string) \<Rightarrow> prepared_graph \<Rightarrow> ir_node \<Rightarrow> 'm run_state \<Rightarrow> 'm run_state \<Rightarrow> bool" where
  "finishes quote g n st st' \<longleftrightarrow>
     (\<exists>mid. same_progress st mid \<and>
       ((\<exists>out row. st' = complete quote g n out row mid) \<or> (\<exists>input. st' = mark_skipped g (in_id n) input mid)))"

lemma finishesI [intro]:
  "same_progress st mid \<Longrightarrow> finishes quote g n st (complete quote g n out row mid)"
  "same_progress st mid \<Longrightarrow> finishes quote g n st (mark_skipped g (in_id n) input mid)"
  by (auto simp: finishes_def)

lemma finishes_before: "same_progress a b \<Longrightarrow> finishes quote g n b c \<Longrightarrow> finishes quote g n a c"
  unfolding finishes_def using same_progress_trans by blast

lemma resolve_items_finishes:
  "resolve_items en trigger g n input policy position its pr st w = (Continue, st', w') \<Longrightarrow>
     finishes (ex_quote en) g n st st'"
proof (induction its arbitrary: position pr st w)
  case Nil
  then show ?case by auto
next
  case (Cons it its)
  obtain r cap st1 w1 where inv: "invoke en g n (single_item_input input it) policy (pr_capture pr, st, w) = (r, cap, st1, w1)"
    by (metis prod_cases4)
  then have st1: "same_progress st st1" by (rule invoke_progress)
  show ?case
    using Cons(2) inv
    by (auto simp: Let_def split: invoked.splits option.splits intro!: finishes_before [OF st1] elim!: Cons(1))
qed

lemma run_whole_finishes:
  assumes "run_whole en trigger g n input policy st w = (Continue, st', w')"
  shows "finishes (ex_quote en) g n st st'"
proof -
  obtain r cap st1 w1 where inv: "invoke en g n input policy (no_capture, st, w) = (r, cap, st1, w1)"
    by (metis prod_cases4)
  then have "same_progress st st1" by (rule invoke_progress)
  then show ?thesis using assms inv
    by (auto simp: run_whole_def finish_failed_def finish_answered_def Let_def
        split: invoked.splits option.splits if_split_asm)
qed

lemma started_progress: "same_progress st (st\<lparr>rs_started := ks\<rparr>)"
  by (simp add: same_progress_def)

lemma run_node_finishes:
  assumes "run_node en trigger g p st w = (Continue, st', w')"
  shows "finishes (ex_quote en) g (node_at g (pe_node p)) st st'"
  using assms
  by (auto simp: run_node_def skip_def run_per_item_def Let_def split: if_split_asm option.split_asm
      intro: finishes_before [OF started_progress] dest!: run_whole_finishes resolve_items_finishes)

subsection \<open>Weights on a graph without cycles\<close>

lemma weight_exists:
  fixes R :: "('a \<times> 'a) set"
  assumes fin: "finite R" and acyc: "acyclic R"
  shows "\<exists>wt :: 'a \<Rightarrow> nat. \<forall>k. (\<Sum>t \<in> R `` {k}. wt t) < wt k"
proof -
  define D where "D k = R\<^sup>+ `` {k}" for k
  define B where "B = Suc (card (snd ` R))"
  have finD: "finite (D k)" for k
  proof (rule finite_subset)
    show "D k \<subseteq> snd ` R" unfolding D_def using trancl_range [of R] by (force simp: Range_snd)
  qed (simp add: fin)
  have less: "card (D t) < card (D k)" if "(k, t) \<in> R" for k t
  proof (rule psubset_card_mono [OF finD])
    have "t \<notin> D t" using acyc by (simp add: D_def acyclic_def)
    moreover have "t \<in> D k" "D t \<subseteq> D k" using that by (auto simp: D_def intro: trancl_into_trancl2)
    ultimately show "D t \<subset> D k" by blast
  qed
  have "(\<Sum>t \<in> R `` {k}. B ^ card (D t)) < B ^ card (D k)" for k
  proof (cases "R `` {k} = {}")
    case False
    then obtain t where "(k, t) \<in> R" by auto
    then have "0 < card (D k)" using less by fastforce
    then obtain c where c: "card (D k) = Suc c" by (cases "card (D k)") simp_all
    have "(\<Sum>t \<in> R `` {k}. B ^ card (D t)) \<le> (\<Sum>t \<in> R `` {k}. B ^ c)"
    proof (rule sum_mono)
      fix t assume "t \<in> R `` {k}"
      then have "card (D t) \<le> c" using less [of k t] c by simp
      then show "B ^ card (D t) \<le> B ^ c" by (rule power_increasing) (simp add: B_def)
    qed
    also have "\<dots> = card (R `` {k}) * B ^ c" by simp
    also have "\<dots> \<le> card (snd ` R) * B ^ c"
      by (rule mult_right_mono, rule card_mono) (use fin in force)+
    also have "\<dots> < B ^ card (D k)" by (simp add: c B_def)
    finally show ?thesis .
  qed (simp add: B_def)
  then show ?thesis by (intro exI [of _ "\<lambda>k. B ^ card (D k)"]) simp
qed

subsection \<open>The measure\<close>

definition item_arcs :: "prepared_graph \<Rightarrow> (string \<times> string) set" where
  "item_arcs g = {(edge_from e, edge_to e) | e. e \<in> set (live_edges g) \<and> is_main e}"

definition owed_weight :: "(string \<Rightarrow> nat) \<Rightarrow> 'm run_state \<Rightarrow> nat" where
  "owed_weight wt st = (\<Sum>p \<leftarrow> rs_pending st. wt (pe_node p))"

definition open_weight :: "(string \<Rightarrow> nat) \<Rightarrow> prepared_graph \<Rightarrow> 'm run_state \<Rightarrow> nat" where
  "open_weight wt g st = (\<Sum>k \<in> {k \<in> node_ids g. rs_completed st k = None}. wt k)"

lemma finite_node_ids [simp]: "finite (node_ids g)"
  by (simp add: node_ids_def)

lemma open_weight_mono:
  "dom (rs_completed st) \<subseteq> dom (rs_completed st') \<Longrightarrow> open_weight wt g st' \<le> open_weight wt g st"
  unfolding open_weight_def by (rule sum_mono2) (auto simp: domIff)

lemma open_weight_finish:
  assumes "k \<in> node_ids g" "rs_completed st k = None" "rs_completed st' k \<noteq> None"
    and "dom (rs_completed st) \<subseteq> dom (rs_completed st')"
  shows "open_weight wt g st' + wt k \<le> open_weight wt g st"
proof -
  let ?S = "{k \<in> node_ids g. rs_completed st k = None}" and ?T = "{k \<in> node_ids g. rs_completed st' k = None}"
  have "(\<Sum>k \<in> insert k ?T. wt k) \<le> (\<Sum>k \<in> ?S. wt k)" by (rule sum_mono2) (use assms in \<open>auto simp: domIff\<close>)
  then show ?thesis using assms by (simp add: open_weight_def add.commute)
qed

lemma owed_weight_deliveries:
  assumes wt: "\<forall>k. (\<Sum>t \<in> item_arcs g `` {k}. wt t) < wt k"
  shows "(\<Sum>p \<leftarrow> deliveries g n output. wt (pe_node p)) < (wt (in_id n) :: nat)"
proof -
  let ?ts = "map pe_node (deliveries g n output)"
  have "(\<Sum>p \<leftarrow> deliveries g n output. wt (pe_node p)) = (\<Sum>t \<leftarrow> ?ts. wt t)" by (simp add: comp_def)
  also have "\<dots> = (\<Sum>t \<in> set ?ts. wt t)"
    using deliveries_targets(2) [of g n "output"] by (rule sum_list_distinct_conv_sum_set)
  also have "\<dots> \<le> (\<Sum>t \<in> item_arcs g `` {in_id n}. wt t)"
  proof (rule sum_mono2)
    have "item_arcs g `` {in_id n} \<subseteq> edge_to ` set (live_edges g)" by (auto simp: item_arcs_def)
    then show "finite (item_arcs g `` {in_id n})" by (rule finite_subset) simp
    show "set ?ts \<subseteq> item_arcs g `` {in_id n}"
      unfolding deliveries_targets(1) by (force simp: item_arcs_def delivers_def)
  qed simp
  also have "\<dots> < wt (in_id n)" using wt by simp
  finally show ?thesis .
qed

lemma finishes_effect:
  assumes "finishes quote g n st st'"
  shows "rs_completed st' (in_id n) \<noteq> None"
    and "dom (rs_completed st) \<subseteq> dom (rs_completed st')"
    and "\<forall>k. (\<Sum>t \<in> item_arcs g `` {k}. wt t) < wt k \<Longrightarrow> owed_weight wt st' < owed_weight wt st + (wt (in_id n) :: nat)"
proof -
  obtain mid where mid: "same_progress st mid"
    "(\<exists>out row. st' = complete quote g n out row mid) \<or> (\<exists>input. st' = mark_skipped g (in_id n) input mid)"
    using assms by (auto simp: finishes_def)
  show "rs_completed st' (in_id n) \<noteq> None" "dom (rs_completed st) \<subseteq> dom (rs_completed st')"
    using mid by (auto simp: state_simps same_progress_def)
  assume wt: "\<forall>k. (\<Sum>t \<in> item_arcs g `` {k}. wt t) < wt k"
  then have "0 < wt (in_id n)" using gr_implies_not0 by (metis neq0_conv)
  then show "owed_weight wt st' < owed_weight wt st + wt (in_id n)"
    using mid owed_weight_deliveries [OF wt]
    by (auto simp: owed_weight_def state_simps same_progress_def)
qed

lemma turn_decreases:
  assumes wt: "\<forall>k. (\<Sum>t \<in> item_arcs g `` {k}. wt t) < (wt k :: nat)" and g: "well_typed g" and ok: "pending_ok g st"
    and turn: "turn en trigger g st w = Inl (st', w')"
  shows "owed_weight wt st' + open_weight wt g st' < owed_weight wt st + open_weight wt g st"
proof -
  obtain p s where n: "next_invocation g st = Inr (Some (p, s))"
    and r: "run_node en trigger g p s w = (Continue, st', w')"
    using turn by (auto simp: turn_def split: option.splits sum.splits prod.splits step_end.splits)
  have keyed: "keyed g" using g by (simp add: well_typed_def)
  note f = run_node_finishes [OF r]
  show ?thesis
    using n
  proof (cases rule: next_invocation_cases)
    case (stack q rest)
    obtain before after where split: "rs_pending st = before @ q # after" "rest = before @ after"
      using stack(1) by (auto simp: take_ready_Some)
    then have "pe_node q \<in> node_ids g" using ok g by (simp add: pending_ok_def owed_ok_def)
    then have id: "in_id (node_at g (pe_node p)) = pe_node q" using stack(2) keyed by (simp add: node_at_id)
    have "owed_weight wt st = owed_weight wt s + wt (pe_node q)" using stack(4) split by (simp add: owed_weight_def)
    moreover have "open_weight wt g st' \<le> open_weight wt g st"
      by (rule open_weight_mono) (use finishes_effect(2) [OF f] stack(4) in auto)
    ultimately show ?thesis using finishes_effect(3) [OF f wt] id by simp
  next
    case fallback
    let ?k = "pe_node p"
    have k: "?k \<in> node_ids g" "rs_completed st ?k = None" using ready_nodes_ids [OF fallback(2)] by simp_all
    then have id: "in_id (node_at g ?k) = ?k" using keyed by (simp add: node_at_id)
    have "open_weight wt g st' + wt ?k \<le> open_weight wt g st"
      by (rule open_weight_finish [OF k]) (use finishes_effect(1,2) [OF f] id fallback(4) in auto)
    then show ?thesis using finishes_effect(3) [OF f wt] id fallback(4) by simp
  qed
qed

lemma run_loop_returns:
  fixes en :: "('w, 'm) env"
  assumes acyc: "acyclic (item_arcs g)" and g: "well_typed g" and ok: "pending_ok g st"
  shows "run_loop en trigger g st w \<noteq> None"
proof -
  have "finite (item_arcs g)"
    by (rule finite_subset [of _ "(\<lambda>e. (edge_from e, edge_to e)) ` set (live_edges g)"]) (auto simp: item_arcs_def)
  then obtain wt :: "string \<Rightarrow> nat" where wt: "\<forall>k. (\<Sum>t \<in> item_arcs g `` {k}. wt t) < wt k"
    using weight_exists acyc by blast
  show ?thesis
    using ok
  proof (induction "owed_weight wt st + open_weight wt g st" arbitrary: st w rule: less_induct)
    case less
    show ?case
    proof (cases "turn en trigger g st w")
      case (Inl nxt)
      obtain st' w' where next': "nxt = (st', w')" by (cases nxt)
      have t: "turn en trigger g st w = Inl (st', w')" using Inl next' by simp
      have "keyed g" using g by (simp add: well_typed_def)
      then have "moves (ex_quote en) g st st'" by (rule turn_moves(1) [OF _ t])
      then have "pending_ok g st'" using less(2) by (rule pending.moves_keep)
      then have "run_loop en trigger g st' w' \<noteq> None" using less(1) turn_decreases [OF wt g less(2) t] by blast
      then show ?thesis by (subst run_loop_turn) (simp add: t)
    next
      case (Inr e)
      then show ?thesis by (subst run_loop_turn) simp
    qed
  qed
qed

end
