(* ===== verification/Plan_Correct.thy ===== *)
theory Plan_Correct
  imports Compiler_Correct Termination
begin

text \<open>
  Where the compiler and the runner meet: a plan that \<open>Compile\<close> returned satisfies what the runner
  relies on. Its edges fit the ports they name, so the prepared graph is well typed, and without
  loop nodes its item edges have no cycle, so every run of it returns.
\<close>

lemma clone_node_definition_fields [simp]:
  "def_inputs (clone_node_definition d) = def_inputs d" "def_outputs (clone_node_definition d) = def_outputs d"
  "loop_entry (clone_node_definition d) = loop_entry d"
  by (simp_all add: clone_node_definition_def)

lemma ir_node_of_fields [simp]:
  "in_id (ir_node_of n df pinned) = node_id n" "in_definition (ir_node_of n df pinned) = clone_node_definition df"
  "in_disabled (ir_node_of n df pinned) = node_disabled n" "in_pinned (ir_node_of n df pinned) = pinned"
  by (simp_all add: ir_node_of_def)

lemma resolved_nodes_in: "(n, df) \<in> set (resolved_nodes cat ns) \<longleftrightarrow> n \<in> set ns \<and> resolve_definition cat n = Some df"
  by (auto simp: resolved_nodes_def split: option.splits)

lemma resolved_nodes_ids:
  "\<forall>n \<in> set ns. resolve_definition cat n \<noteq> None \<Longrightarrow> map (node_id \<circ> fst) (resolved_nodes cat ns) = map node_id ns"
  by (induction ns) (auto split: option.splits)

lemma plan_nodes_ids:
  assumes "\<forall>n \<in> set ns. node_accepted cat pins n"
  shows "map in_id (plan_nodes cat pins ns) = map node_id ns"
proof -
  have "\<forall>n \<in> set ns. resolve_definition cat n \<noteq> None" using assms by (auto simp: node_accepted_def)
  from resolved_nodes_ids [OF this] show ?thesis by (simp add: plan_nodes_def comp_def split_def)
qed

lemma table_entries:
  assumes "aget (node_table cat ns) k = Some n" "aget (definition_table cat ns) (node_id n) = Some df"
    and "distinct (map node_id ns)"
  shows "node_id n = k" "ir_node_of n df (pinned_items pins n) \<in> set (plan_nodes cat pins ns)"
proof -
  obtain d' where n: "(n, d') \<in> set (resolved_nodes cat ns)" "node_id n = k"
    using aget_in [OF assms(1)] by (auto simp: node_table_def)
  obtain m where m: "(m, df) \<in> set (resolved_nodes cat ns)" "node_id m = node_id n"
    using aget_in [OF assms(2)] by (auto simp: definition_table_def)
  have "m = n" using n m assms(3) by (auto simp: resolved_nodes_in distinct_map dest: inj_onD)
  moreover from this have "d' = df" using n(1) m(1) by (simp add: resolved_nodes_in)
  ultimately show "node_id n = k" "ir_node_of n df (pinned_items pins n) \<in> set (plan_nodes cat pins ns)"
    using n m by (auto simp: plan_nodes_def intro!: rev_image_eqI)
qed

lemma plan_edge_fits:
  assumes "e \<in> set (plan_edges cat d)" "distinct (map node_id (nodes_of d))"
  shows "\<exists>s \<in> set (plan_nodes cat (pin_data d) (nodes_of d)). \<exists>t \<in> set (plan_nodes cat (pin_data d) (nodes_of d)).
    in_id s = edge_from e \<and> in_id t = edge_to e \<and> edge_fits s t e"
proof -
  let ?nodes = "node_table cat (nodes_of d)" and ?defs = "definition_table cat (nodes_of d)"
  obtain c where "resolve_edge c ?nodes ?defs = Inr e"
    using assms(1) by (auto simp: plan_edges_def edges_of_def split: sum.splits)
  then obtain sn tn sd td sp i tp where r:
    "aget ?nodes (end_node (conn_source c)) = Some sn" "aget ?nodes (end_node (conn_target c)) = Some tn"
    "aget ?defs (node_id sn) = Some sd" "aget ?defs (node_id tn) = Some td"
    "output_port sd (end_port (conn_source c)) = Some (sp, i)" "input_port td (end_port (conn_target c)) = Some tp"
    "port_kind tp = conn_kind c"
    "e = \<lparr>edge_id = conn_id c, edge_kind = conn_kind c, edge_source = conn_source c,
          source_output_index = i, edge_target = conn_target c\<rparr>"
    unfolding resolve_edge_Inr by blast
  let ?s = "ir_node_of sn sd (pinned_items (pin_data d) sn)" and ?t = "ir_node_of tn td (pinned_items (pin_data d) tn)"
  note s = table_entries [OF r(1) r(3) assms(2)]
  note t = table_entries [OF r(2) r(4) assms(2)]
  have "tp \<in> set (def_inputs td)" "port_name tp = end_port (conn_target c)"
    using r(6) by (auto simp: input_port_def find_Some_iff)
  then have "edge_fits ?s ?t e" using r(5,7,8) by (auto simp: edge_fits_def output_port_Some)
  moreover have "in_id ?s = edge_from e" "in_id ?t = edge_to e" using s(1) t(1) r(8) by (simp_all add: edge_from_def edge_to_def)
  ultimately show ?thesis using s(2) t(2) by blast
qed

lemma plan_of_ok:
  assumes "executable h cat d"
  shows "plan_ok (plan_of cat d)"
proof -
  have draft: "draft_ok (h_lower h) d" and acc: "\<forall>n \<in> set (nodes_of d). node_accepted cat (pin_data d) n"
    using assms by (simp_all add: executable_def)
  have d: "distinct (map node_id (nodes_of d))" "\<forall>n \<in> set (nodes_of d). node_id n \<noteq> []"
    using draft by (auto simp: draft_ok_def node_ok_def)
  note ids = plan_nodes_ids [OF acc]
  then have "in_id ` set (plan_nodes cat (pin_data d) (nodes_of d)) = node_id ` set (nodes_of d)"
    by (metis list.set_map)
  then show ?thesis
    using d ids plan_edge_fits [OF _ d(1), of _ cat]
    by (auto simp: plan_ok_def plan_of_def)
qed

lemma compiled_plan_ok: "compile h cat d = Inr plan \<Longrightarrow> plan_ok plan"
  using compile_accepted plan_of_ok by metis

text \<open>Without loop nodes no edge is a back edge, so the accepted item edges have no cycle.\<close>

lemma plan_without_loops:
  assumes ex: "executable h cat d" and loops: "\<forall>n \<in> set (ir_nodes (plan_of cat d)). \<not> loop_entry (in_definition n)"
  shows "acyclic (set (arcs_of (ir_edges (plan_of cat d))))"
proof -
  let ?defs = "definition_table cat (nodes_of d)" and ?edges = "plan_edges cat d"
  have "\<not> enters_loop ?defs e" for e
  proof
    assume "enters_loop ?defs e"
    then obtain df where df: "aget ?defs (end_node (edge_target e)) = Some df" "loop_entry df"
      by (auto simp: enters_loop_def split: option.splits)
    then obtain n where n: "(n, df) \<in> set (resolved_nodes cat (nodes_of d))"
      by (auto dest!: aget_in simp: definition_table_def)
    then have "ir_node_of n df (pinned_items (pin_data d) n) \<in> set (ir_nodes (plan_of cat d))"
      by (auto simp: plan_of_def plan_nodes_def intro!: rev_image_eqI)
    then show False using loops df(2) by fastforce
  qed
  then have "forward_arcs ?defs ?edges = set (arcs_of ?edges)"
    by (auto simp: forward_arcs_def back_edge_def arcs_of_def)
  moreover have "acyclic (forward_arcs ?defs ?edges)" using ex by (simp add: executable_def graph_ok_def)
  ultimately show ?thesis by (simp add: plan_of_def)
qed

lemma item_arcs_plan:
  "prepare_graph plan trigger = Inr g \<Longrightarrow> item_arcs g \<subseteq> set (arcs_of (ir_edges plan))"
  by (auto simp: item_arcs_def arcs_of_def edge_from_def edge_to_def dest: prepare_graph_live(2))

lemma plan_run_returns:
  assumes "plan_ok plan" "acyclic (set (arcs_of (ir_edges plan)))"
  shows "run en plan trigger memory w \<noteq> None"
proof (cases "prepare_graph plan trigger")
  case (Inr g)
  have "acyclic (item_arcs g)" using acyclic_subset [OF assms(2) item_arcs_plan [OF Inr]] .
  moreover have "well_typed g" by (rule prepare_graph_well_typed [OF Inr assms(1)])
  ultimately have "run_loop en trigger g (new_run_state g memory) w \<noteq> None"
    by (rule run_loop_returns) blast
  then show ?thesis by (simp add: run_def Inr)
qed (simp add: run_def)

end
