(* ===== verification/Example_Workflow.thy ===== *)
theory Example_Workflow
  imports Plan_Correct
begin

text \<open>
  One small workflow that the properties are tried on: a trigger and a step that waits for an
  approval, with the catalogue that declares their types, a host, and executors. The waiting step
  passes its input on or suspends, as the environment is told.
\<close>

definition example_host :: host where
  "example_host = \<lparr>h_quote = (\<lambda>s. CHR 0x22 # s @ [CHR 0x22]), h_float = (\<lambda>x. itoa \<lfloor>x\<rfloor>),
     h_zone = (\<lambda>z. z = ''UTC''), h_lower = (\<lambda>r. if 65 \<le> r \<and> r \<le> 90 then r + 32 else r), h_number = (\<lambda>x. x)\<rparr>"

definition item_stream :: "string \<Rightarrow> port" where
  "item_stream name = \<lparr>port_name = name, port_kind = connection_main, port_display = [],
     port_required = False, max_connections = 0, allowed_node_types = []\<rparr>"

definition example_type :: "string \<Rightarrow> port list \<Rightarrow> port list \<Rightarrow> node_definition" where
  "example_type name ins outs = \<lparr>def_type = name, def_version = V 1, def_inputs = ins, def_outputs = outs,
     required_parameters = [], required_for = None, ports_for = None, required_inputs_for = None,
     required_credentials = [], credential_types = [], executor_id = name, def_validate = None,
     webhook_path_parameter = [], loop_entry = False, whole_batch = False, error_as_message = False\<rparr>"

definition example_lookup :: "string \<Rightarrow> type_version \<Rightarrow> node_definition option" where
  "example_lookup name version =
     (if scaled version \<noteq> 1000000 then None
      else if name = ''start'' then Some (example_type name [] [item_stream main_port])
      else if name = ''wait'' then Some (example_type name [item_stream main_port] [item_stream main_port])
      else None)"

definition example_catalog :: catalog where
  "example_catalog = \<lparr>cat_lookup = example_lookup, cat_has_type = None, cat_restricted = None\<rparr>"

definition example_node :: "string \<Rightarrow> string \<Rightarrow> jobject \<Rightarrow> node" where
  "example_node k type settings = \<lparr>node_id = k, node_name = k, node_type = type, node_type_version = V 1,
     node_position = \<lparr>pos_x = 0, pos_y = 0\<rparr>, node_parameters = [], node_credentials = [],
     node_settings = settings, node_disabled = False\<rparr>"

definition example_link :: "string \<Rightarrow> string \<Rightarrow> string \<Rightarrow> connection" where
  "example_link c a b = \<lparr>conn_id = c, conn_kind = connection_main,
     conn_source = \<lparr>end_node = a, end_port = main_port\<rparr>, conn_target = \<lparr>end_node = b, end_port = main_port\<rparr>\<rparr>"

definition example_document :: document where
  "example_document = \<lparr>schema_version = 1, doc_id = ''wf'', doc_name = ''Example'',
     doc_nodes = Some [example_node ''start'' ''start'' [], example_node ''ask'' ''wait'' []],
     doc_connections = Some [example_link ''c1'' ''start'' ''ask''],
     doc_settings = Some [], doc_tags = [], pin_data = []\<rparr>"

definition example_step :: "string \<Rightarrow> string \<Rightarrow> port list \<Rightarrow> ir_node" where
  "example_step k type ins = \<lparr>in_id = k, in_name = k, in_type = type, in_version = V 1,
     in_position = \<lparr>pos_x = 0, pos_y = 0\<rparr>, in_parameters = [], in_credentials = [], in_settings = [],
     in_disabled = False, in_pinned = None, in_definition = example_type type ins [item_stream main_port]\<rparr>"

definition example_edge :: "string \<Rightarrow> string \<Rightarrow> string \<Rightarrow> ir_edge" where
  "example_edge c a b = \<lparr>edge_id = c, edge_kind = connection_main,
     edge_source = \<lparr>end_node = a, end_port = main_port\<rparr>, source_output_index = 0,
     edge_target = \<lparr>end_node = b, end_port = main_port\<rparr>\<rparr>"

definition example_plan :: ir where
  "example_plan = \<lparr>ir_workflow_id = ''wf'', ir_name = ''Example'',
     ir_nodes = [example_step ''start'' ''start'' [], example_step ''ask'' ''wait'' [item_stream main_port]],
     ir_edges = [example_edge ''c1'' ''start'' ''ask''],
     ir_settings = []\<rparr>"

lemmas example_defs = example_document_def example_catalog_def example_lookup_def example_node_def
  example_link_def example_type_def item_stream_def nodes_of_def connections_of_def settings_of_def

lemma example_version: "V 1 = \<lparr>scaled = 1000000\<rparr>"
  by (simp add: V_def version_scale_def i64_def)

lemma example_resolved:
  "resolved_nodes example_catalog (nodes_of example_document) =
     [(example_node ''start'' ''start'' [], example_type ''start'' [] [item_stream main_port]),
      (example_node ''ask'' ''wait'' [], example_type ''wait'' [item_stream main_port] [item_stream main_port])]"
  by (simp add: example_defs resolved_nodes_def resolve_definition_def with_error_port_def jget_def example_version)

lemma example_plan_of: "plan_of example_catalog example_document = example_plan"
  apply (simp add: plan_of_def plan_nodes_def plan_edges_def example_resolved node_table_def definition_table_def)
  apply (simp add: example_plan_def example_defs edges_of_def resolve_edge_def ir_node_of_def example_step_def example_edge_def
    output_port_def input_port_def indexed_def pinned_items_def clone_node_definition_def port_accepts_node_type_def connection_main_def)
  done

text \<open>The graph's checks, evaluated on the nodes and edges of the plan.\<close>

definition example_definitions :: "(string \<times> node_definition) list" where
  "example_definitions = map (\<lambda>n. (in_id n, in_definition n)) (ir_nodes example_plan)"

lemma example_tables:
  "plan_nodes example_catalog (pin_data example_document) (nodes_of example_document) = ir_nodes example_plan"
  "plan_edges example_catalog example_document = ir_edges example_plan"
  "definition_table example_catalog (nodes_of example_document) = example_definitions"
  using example_plan_of
  by (auto simp: plan_of_def definition_table_def example_resolved example_definitions_def example_plan_def example_step_def
      example_node_def)

lemma example_issues: "graph_issues example_host (ir_nodes example_plan) (ir_edges example_plan) example_definitions = []"
  by code_simp

lemma example_draft: "validate_draft (h_lower example_host) example_document = None"
  by code_simp

lemma example_executable: "executable example_host example_catalog example_document"
proof -
  have "draft_ok (h_lower example_host) example_document" using example_draft validate_draft_None by metis
  moreover have "timezone_ok example_host (settings_of example_document)"
    by (simp add: timezone_ok_def example_defs jget_def)
  moreover have "\<forall>n \<in> set (nodes_of example_document). node_accepted example_catalog (pin_data example_document) n"
    by (simp add: example_defs node_accepted_def resolve_definition_def with_error_port_def jget_def example_version
        node_ready_def required_parameters_of_def settings_ok_def number_setting_ok_def)
  moreover have "connections_ok (node_table example_catalog (nodes_of example_document))
      (definition_table example_catalog (nodes_of example_document)) (connections_of example_document)"
    by (simp add: connections_ok_def node_table_def definition_table_def example_resolved)
      (simp add: example_defs resolve_edge_def output_port_def input_port_def indexed_def connection_key_def
        port_accepts_node_type_def connection_main_def)
  moreover have "graph_ok (ir_nodes example_plan) (ir_edges example_plan) example_definitions"
    using example_issues by (subst (asm) graph_issues_None) (simp_all add: example_plan_def example_edge_def)
  ultimately show ?thesis by (simp add: executable_def example_tables) (simp add: example_defs)
qed

lemma example_compiles: "compile example_host example_catalog example_document = Inr example_plan"
  using compile_accepts [OF example_executable] by (simp add: example_plan_of)

subsection \<open>Executors\<close>

definition example_items :: "item list" where
  "example_items =
     [\<lparr>item_json = [(''n'', JNum 1)], item_binary = [], item_paired = None\<rparr>,
      \<lparr>item_json = [(''n'', JNum 2)], item_binary = [], item_paired = None\<rparr>]"

definition example_answer :: "bool \<Rightarrow> string \<Rightarrow> exec_call \<Rightarrow> go_error + node_output" where
  "example_answer waits executor call =
     (if executor = ''start'' then Inr [example_items]
      else if executor = ''wait'' \<and> waits then Inl (GoError ''waiting'' None False None None (Some ''approval''))
      else Inr [ec_input call main_port])"

definition example_env :: "bool \<Rightarrow> (unit, unit) env" where
  "example_env waits = \<lparr>ex_quote = h_quote example_host, ex_registered = (\<lambda>_. True),
     ex_execute = (\<lambda>executor call memory w.
       (\<lparr>rp_result = example_answer waits executor call, rp_memory = memory, rp_events = [], rp_secrets = [],
         rp_deadline = False\<rparr>, w)),
     ex_ctx = (\<lambda>_. None), ex_ctx_deadline = (\<lambda>_. False), ex_sleep = (\<lambda>_ w. (True, w))\<rparr>"

lemma example_plan_ok: "plan_ok example_plan"
  by (rule compiled_plan_ok [OF example_compiles])

text \<open>The loop for a bounded number of turns, which evaluation can run.\<close>

fun turns :: "nat \<Rightarrow> ('w, 'm) env \<Rightarrow> string \<Rightarrow> prepared_graph \<Rightarrow> 'm run_state \<Rightarrow> 'w \<Rightarrow>
    ('m run_end \<times> 'm run_state \<times> 'w) option" where
  "turns 0 en trigger g st w = None"
| "turns (Suc k) en trigger g st w =
     (case turn en trigger g st w of Inl (st', w') \<Rightarrow> turns k en trigger g st' w' | Inr e \<Rightarrow> Some e)"

lemma turns_run_loop: "turns k en trigger g st w = Some e \<Longrightarrow> run_loop en trigger g st w = Some e"
  by (induction k arbitrary: st w) (simp_all add: run_loop_turn split: sum.split_asm prod.split_asm)

definition example_graph :: prepared_graph where
  "example_graph = (case prepare_graph example_plan [] of Inr g \<Rightarrow> g | Inl _ \<Rightarrow> \<lparr>pg_nodes = [], pg_edges = []\<rparr>)"

lemma example_prepared: "prepare_graph example_plan [] = Inr example_graph"
  by (simp add: example_graph_def prepare_graph_def active_nodes_def example_plan_def)

definition run_example :: "bool \<Rightarrow> (unit run_end \<times> unit run_state \<times> unit) option" where
  "run_example waits = turns 6 (example_env waits) [] example_graph (new_run_state example_graph (\<lambda>_. ())) ()"

lemma run_example: "run_example waits = Some e \<Longrightarrow> run (example_env waits) example_plan [] (\<lambda>_. ()) () = Some e"
  using turns_run_loop by (simp add: run_def example_prepared run_example_def)

lemma example_finishes:
  obtains st where "run (example_env False) example_plan [] (\<lambda>_. ()) () = Some (Finished, st, ())"
    "length (rs_rows st) = 2" "rs_runs st ''ask'' \<noteq> []" "rs_started st \<noteq> []" "rs_node_items st ''ask'' \<noteq> None"
proof -
  have "case run_example False of Some (Finished, st, w) \<Rightarrow> length (rs_rows st) = 2 \<and> 0 < length (rs_runs st ''ask'') \<and>
      0 < length (rs_started st) \<and> \<not> Option.is_none (rs_node_items st ''ask'') | _ \<Rightarrow> False"
    by code_simp
  then show thesis using that run_example [of False] by (auto split: option.split_asm prod.split_asm run_end.split_asm simp: Option.is_none_def)
qed

lemma example_suspends:
  obtains cp st where "run (example_env True) example_plan [] (\<lambda>_. ()) () = Some (Suspended cp, st, ())"
    "cp_node cp = ''ask''" "cp_partial cp = None"
proof -
  have "case run_example True of Some (Suspended cp, st, w) \<Rightarrow> cp_node cp = ''ask'' \<and> Option.is_none (cp_partial cp) | _ \<Rightarrow> False"
    by code_simp
  then show thesis using that run_example [of True]
    by (auto split: option.split_asm prod.split_asm run_end.split_asm simp: Option.is_none_def)
qed

end
