(* ===== verification/Compiler_Properties.thy ===== *)
theory Compiler_Properties
  imports Example_Workflow
begin

text \<open>
  What the compiler and the checks it is made of promise, each promise with a concrete input it is
  tried on. The properties rest on the lemmas of \<open>Compiler_Correct\<close>, \<open>Cycles\<close>, \<open>Document\<close>,
  \<open>Catalog\<close>, \<open>Tags\<close> and \<open>Type_Version\<close>.
\<close>

subsection \<open>Compile\<close>

text \<open>C35: a document that is not executable is refused with a reason: the draft error it has, or a
  non-empty list of issues in the order of their paths, codes and messages.\<close>

theorem compile_gives_reasons:
  assumes "\<not> executable h cat d"
  shows "(\<exists>e. compile h cat d = Inl (DraftRefused e) \<and> validate_draft (h_lower h) d = Some e) \<or>
    (\<exists>issues. compile h cat d = Inl (Refused issues) \<and> issues \<noteq> [] \<and> sorted (map issue_key issues))"
proof (cases "validate_draft (h_lower h) d")
  case (Some e)
  then show ?thesis by (simp add: compile_def)
next
  case None
  then show ?thesis using compile_refuses [OF assms] by (auto simp: validate_draft_None)
qed

theorem compile_gives_reasons_example:
  "\<exists>issues. compile example_host example_catalog (example_document\<lparr>doc_nodes := Some [], doc_connections := Some []\<rparr>) =
     Inl (Refused issues) \<and> issues \<noteq> []"
proof -
  let ?d = "example_document\<lparr>doc_nodes := Some [], doc_connections := Some []\<rparr>"
  have "\<not> executable example_host example_catalog ?d" by (simp add: executable_def nodes_of_def)
  moreover have "validate_draft (h_lower example_host) ?d = None" by code_simp
  ultimately show ?thesis using compile_gives_reasons [of example_host example_catalog ?d] by auto
qed

text \<open>C33: every edge of a plan that \<open>Compile\<close> returned joins two nodes of the plan, leaves by an
  output its source declares and enters by an input its target declares with the edge's kind; the
  plan's node ids are distinct and not empty.\<close>

theorem compiled_plan_typed:
  assumes "compile h cat d = Inr plan"
  shows "distinct (map in_id (ir_nodes plan)) \<and> [] \<notin> in_id ` set (ir_nodes plan) \<and>
    (\<forall>e \<in> set (ir_edges plan). \<exists>s \<in> set (ir_nodes plan). \<exists>t \<in> set (ir_nodes plan).
       in_id s = edge_from e \<and> in_id t = edge_to e \<and> source_output_index e < length (def_outputs (in_definition s)) \<and>
       (\<exists>p \<in> set (def_inputs (in_definition t)). port_name p = end_port (edge_target e) \<and> port_kind p = edge_kind e))"
  using compiled_plan_ok [OF assms] by (simp add: plan_ok_def edge_fits_def)

theorem compiled_plan_typed_example:
  "distinct (map in_id (ir_nodes example_plan)) \<and> length (ir_edges example_plan) = 1"
  using compiled_plan_typed [OF example_compiles] by (simp add: example_plan_def)

subsection \<open>Cycles\<close>

text \<open>C34: \<open>cyclesAmong\<close> always returns, names only real cycles of the graph, names a cycle in every
  strongly connected part that has one, and never two of the same part.\<close>

theorem cycles_named:
  "\<exists>cs. cycles_among order es = Some cs \<and> (\<forall>c \<in> set cs. cycle_of (set es) c) \<and>
    (\<forall>x. (x, x) \<in> (set es)\<^sup>+ \<longrightarrow> (\<exists>c \<in> set cs. (x, hd c) \<in> (set es)\<^sup>* \<and> (hd c, x) \<in> (set es)\<^sup>*)) \<and>
    sorted_wrt (\<lambda>c d. (hd c, hd d) \<notin> (set es)\<^sup>* \<or> (hd d, hd c) \<notin> (set es)\<^sup>*) cs"
  by (rule cycles_among_spec)

theorem cycles_named_example:
  "\<exists>cs. cycles_among [] [(''a'', ''b''), (''b'', ''a'')] = Some cs \<and> cs \<noteq> []"
proof -
  have "(''a'', ''a'') \<in> (set [(''a'', ''b''), (''b'', ''a'')])\<^sup>+"
    by (rule trancl_into_trancl [OF r_into_trancl]) auto
  then show ?thesis using cycles_named [of "[]" "[(''a'', ''b''), (''b'', ''a'')]"] by fastforce
qed

text \<open>a graph has illegal cycles exactly when its edges other than those that close onto a loop
  node form a cycle.\<close>

theorem illegal_cycles_exact:
  assumes "distinct (map edge_id edges)"
  shows "illegal_cycles order edges defs = Some [] \<longleftrightarrow>
    acyclic {(end_node (edge_source e), end_node (edge_target e)) | e. e \<in> set edges \<and>
      \<not> (enters_loop defs e \<and> (end_node (edge_target e), end_node (edge_source e)) \<in> (set (arcs_of edges))\<^sup>+)}"
  using illegal_cycles_None [OF assms] by (simp add: forward_arcs_def back_edge_def)

theorem illegal_cycles_exact_example:
  "illegal_cycles [] [example_edge ''x'' ''a'' ''b''] [] = Some []"
proof -
  have "acyclic {(''a'', ''b'')}" by (simp add: acyclic_def trancl_insert)
  then have "acyclic {(end_node (edge_source e), end_node (edge_target e)) | e. e \<in> set [example_edge ''x'' ''a'' ''b''] \<and>
      \<not> (enters_loop [] e \<and> (end_node (edge_target e), end_node (edge_source e)) \<in>
        (set (arcs_of [example_edge ''x'' ''a'' ''b'']))\<^sup>+)}"
    by (rule acyclic_subset) (auto simp: example_edge_def)
  then show ?thesis using illegal_cycles_exact [of "[example_edge ''x'' ''a'' ''b'']" "[]" "[]"] by simp
qed

text \<open>\<open>stronglyConnected\<close> returns, and its groups are exactly the strongly connected components of
  the graph on the nodes it is given, each once.\<close>

theorem strongly_connected_groups:
  assumes "set es `` set order \<subseteq> set order"
  shows "\<exists>groups. strongly_connected order es = Some groups \<and> distinct (map set groups) \<and>
    \<Union> (set ` set groups) = set order \<and>
    (\<forall>g \<in> set groups. g \<noteq> [] \<and> (\<forall>x \<in> set g. \<forall>y. y \<in> set g \<longleftrightarrow> (x, y) \<in> (set es)\<^sup>* \<and> (y, x) \<in> (set es)\<^sup>*))"
proof -
  obtain groups where g: "strongly_connected order es = Some groups" "\<forall>g \<in> set groups. scc (set es) (set g)"
    "\<Union> (set ` set groups) = set order" "distinct (map set groups)" using strongly_connected_spec [OF assms] by blast
  have "g \<noteq> [] \<and> (\<forall>x \<in> set g. \<forall>y. y \<in> set g \<longleftrightarrow> (x, y) \<in> (set es)\<^sup>* \<and> (y, x) \<in> (set es)\<^sup>*)"
    if "g \<in> set groups" for g using that g(2) by (simp add: scc_def)
  with g show ?thesis by blast
qed

theorem strongly_connected_groups_example:
  "\<exists>groups. strongly_connected [''a'', ''b''] [(''a'', ''b'')] = Some groups \<and> \<Union> (set ` set groups) = {''a'', ''b''}"
  using strongly_connected_groups [of "[(''a'', ''b'')]" "[''a'', ''b'']"] by auto

text \<open>\<open>reaches\<close> is the existence of a path of at least one edge.\<close>

theorem reaches_exact: "reaches es from to \<longleftrightarrow> (from, to) \<in> (set es)\<^sup>+"
  by (rule reaches_iff)

subsection \<open>Drafts, tags and settings\<close>

text \<open>\<open>ValidateDraft\<close> accepts exactly the well-formed drafts: the current schema version, an id, a
  name of at most 255 characters, the three parts present, acceptable tags, complete nodes with
  distinct ids and complete connections of known kinds with distinct ids.\<close>

theorem validate_draft_exact:
  "validate_draft lower d = None \<longleftrightarrow>
     schema_version d = 1 \<and> doc_id d \<noteq> [] \<and> doc_name d \<noteq> [] \<and> rune_count (doc_name d) \<le> 255 \<and>
     doc_nodes d \<noteq> None \<and> doc_connections d \<noteq> None \<and> doc_settings d \<noteq> None \<and>
     validate_tags lower (doc_tags d) = None \<and>
     (\<forall>n \<in> set (nodes_of d). node_id n \<noteq> [] \<and> node_name n \<noteq> [] \<and> node_type n \<noteq> [] \<and>
        (\<forall>(t, ref) \<in> set (node_credentials n). ref \<noteq> [])) \<and>
     distinct (map node_id (nodes_of d)) \<and>
     (\<forall>c \<in> set (connections_of d). conn_id c \<noteq> [] \<and> conn_kind c \<in> set connection_kinds \<and>
        end_node (conn_source c) \<noteq> [] \<and> end_port (conn_source c) \<noteq> [] \<and>
        end_node (conn_target c) \<noteq> [] \<and> end_port (conn_target c) \<noteq> []) \<and>
     distinct (map conn_id (connections_of d))"
  by (auto simp: validate_draft_None draft_ok_def node_ok_def connection_ok_def known_connection_kind_def
      list_ex_iff current_schema_version_def)

theorem validate_draft_exact_example: "distinct (map node_id (nodes_of example_document))"
  using validate_draft_exact [of "h_lower example_host" example_document] example_draft by simp

text \<open>A list of tags is accepted exactly when there are at most 20 of them, no two have the same key,
  and each is non-empty valid UTF-8 of at most 24 UTF-16 units with no space at its ends, no comma, no
  control character and no line separator.\<close>

theorem validate_tags_exact:
  "validate_tags lower tags = None \<longleftrightarrow>
     length tags \<le> 20 \<and> distinct (map (tag_key lower) tags) \<and>
     (\<forall>tag \<in> set tags. tag \<noteq> [] \<and> valid_utf8 tag \<and> no_space_ends tag \<and> utf16_length tag \<le> 24 \<and>
        (\<forall>r \<in> set (runes tag). r \<noteq> 0x2C \<and> \<not> is_control r \<and> r \<noteq> 0x2028 \<and> r \<noteq> 0x2029))"
  by (auto simp: validate_tags_None_iff storable_tag_def list_all_iff max_tags_def max_tag_length_def)

theorem validate_tags_exact_example: "validate_tags (\<lambda>r. r) [''7''] = None"
proof -
  have "runes ''7'' = [55]" "valid_utf8 ''7''" "utf16_length ''7'' = 1"
    by (simp_all add: runes_def valid_utf8_def utf16_length_def bytes_of_def decode_runes.simps decode_rune_def
        of_char_def rune_error_def)
  moreover have "no_space_ends ''7''" by (rule no_space_ends_digits) (simp_all add: is_digit_def)
  ultimately show ?thesis by (subst validate_tags_exact) (simp add: is_control_def)
qed

text \<open>a node's shared settings are accepted exactly when each of \<open>timeoutSeconds\<close>, \<open>maxTries\<close> and
  \<open>waitBetweenTries\<close> is absent or a number in its range and \<open>onError\<close> is absent or one of the three
  known modes.\<close>

theorem shared_settings_exact:
  "validate_shared_settings h settings = [] \<longleftrightarrow>
     (\<forall>(key, low, high) \<in> {(''timeoutSeconds'', 0, 86400), (''maxTries'', 1, 8), (''waitBetweenTries'', 0, 300000)}.
        jget settings key = JNull \<or> (\<exists>x. jget settings key = JNum x \<and> low \<le> x \<and> x \<le> high)) \<and>
     (jget settings ''onError'' = JNull \<or>
      jget settings ''onError'' \<in> JStr ` {''stopWorkflow'', ''continueRegularOutput'', ''continueErrorOutput''})"
  by (auto simp: validate_shared_settings_None settings_ok_def number_setting_ok_def known_on_error_def
      on_error_stop_def on_error_continue_regular_def on_error_continue_branch_def)

theorem shared_settings_exact_example:
  "validate_shared_settings example_host [(''maxTries'', JNum 3), (''onError'', JStr ''continueErrorOutput'')] = []"
  by (subst shared_settings_exact) (simp add: jget_def)

text \<open>no credential is reported as undeclared exactly when every attached one is of a type the node
  requires or accepts.\<close>

theorem undeclared_credentials_exact:
  "undeclared_credentials h index n d = [] \<longleftrightarrow>
     (\<forall>(t, ref) \<in> set (node_credentials n). trim_space ref \<noteq> [] \<longrightarrow>
        t \<in> set (credential_types d) \<union> set (required_credentials d))"
  by (rule undeclared_credentials_None)

theorem undeclared_credentials_exact_example:
  "undeclared_credentials example_host 0 (example_node ''a'' ''edit'' []\<lparr>node_credentials := [(''api'', ''c1'')]\<rparr>)
     (example_type ''edit'' [] []\<lparr>required_credentials := [''api'']\<rparr>) = []"
  by (subst undeclared_credentials_exact) (simp add: example_node_def)

subsection \<open>Versions\<close>

text \<open>A version written to JSON is read back as it was, whatever string decoding is used, for every
  non-negative version that a 64-bit integer holds.\<close>

theorem version_round_trip:
  assumes "0 \<le> scaled v" "scaled v < 2 ^ 63"
  shows "parse_type_version (version_string v) = Inr \<lparr>scaled = scaled v\<rparr>"
  using assms by (intro parse_version_string) (simp_all add: fits_i64_def)

theorem version_round_trip_example: "parse_type_version (version_string \<lparr>scaled = 4200000\<rparr>) = Inr \<lparr>scaled = 4200000\<rparr>"
  using version_round_trip [of "\<lparr>scaled = 4200000\<rparr>"] by simp

text \<open>A version's text of digits, with at most six after the point, is read as the decimal number it
  writes, in millionths, when that number fits; so comparing versions compares the numbers.\<close>

theorem version_value:
  assumes "w \<noteq> []" "list_all is_digit w" "f \<noteq> []" "list_all is_digit f" "length f \<le> 6" "digits_val w < 9000000000000"
  shows "\<exists>v. parse_type_version (w @ CHR ''.'' # f) = Inr v \<and> rat_of_int (scaled v) / 1000000 = decimal_value w f"
proof -
  define minor where "minor = digits_val f * 10 ^ (6 - length f)"
  have "digits_val f < 10 ^ length f" using assms(4) by (rule digits_val_bound)
  then have "minor < 10 ^ length f * 10 ^ (6 - length f)" by (simp add: minor_def)
  also have "\<dots> = (10::nat) ^ 6" using assms(5) by (simp flip: power_add)
  finally have "minor < 1000000" by simp
  then have "fits_i64 (int (digits_val w) * 1000000)" "fits_i64 (int (digits_val w) * 1000000 + int minor)"
    using assms(6) by (simp_all add: fits_i64_def)
  then have "parse_type_version (w @ CHR ''.'' # f) = Inr \<lparr>scaled = int (digits_val w) * 1000000 + int minor\<rparr>"
    using assms parse_type_version_pointed [of w f] by (simp add: version_scale_def flip: minor_def)
  then show ?thesis using scaled_decimal [OF assms(5), of w] unfolding minor_def by auto
qed

theorem version_value_example: "\<exists>v. parse_type_version ''4.25'' = Inr v \<and> rat_of_int (scaled v) / 1000000 = decimal_value ''4'' ''25''"
  using version_value [of "''4''" "''25''"] by (simp add: is_digit_def digits_val_def digit_val_def)

subsection \<open>Names and ports\<close>

text \<open>a normalised tool name has only letters, digits and underscores, is not empty, and normalising
  it again changes nothing.\<close>

theorem tool_name_normal:
  "normalize_tool_name name \<noteq> [] \<and> (\<forall>c \<in> set (normalize_tool_name name). tool_letter (of_char c)) \<and>
     normalize_tool_name (normalize_tool_name name) = normalize_tool_name name"
  using normalize_letters normalize_tool_name_idem by (auto simp: normalize_tool_name_def Let_def)

theorem tool_name_normal_example: "tool_letter (of_char (hd (normalize_tool_name ''a b'')))"
  using tool_name_normal [of "''a b''"] by simp

text \<open>a node whose errors continue on their own branch declares an output for them, one at most is
  added, and the outputs its type declares keep their indexes.\<close>

theorem error_branch_declared:
  assumes "resolve_definition cat n = Some d" "jget (node_settings n) ''onError'' = JStr on_error_continue_branch"
    and "cat_lookup cat (node_type n) (node_type_version n) = Some base" "ports_for base = None"
  shows "\<exists>extra. def_outputs d = def_outputs base @ extra \<and> length extra \<le> 1 \<and>
    (\<exists>i. output_port d error_port_name = Some (def_outputs d ! i, i) \<and> i < length (def_outputs d))"
proof -
  have d: "d = with_error_port base (node_settings n)" using assms by (simp add: resolve_definition_def)
  obtain p where "p \<in> set (def_outputs d)" "port_name p = error_port_name"
    using with_error_port_declares [OF assms(2), of base] d by blast
  then have "output_port d error_port_name \<noteq> None" by (auto simp: output_port_None)
  then obtain q i where "output_port d error_port_name = Some (q, i)" by (cases "output_port d error_port_name") auto
  moreover from this have "i < length (def_outputs d)" "q = def_outputs d ! i" by (auto simp: output_port_Some)
  ultimately show ?thesis using with_error_port_extends [of base "node_settings n"] d by blast
qed

theorem error_branch_declared_example:
  "\<exists>d extra. resolve_definition example_catalog
       (example_node ''a'' ''start'' [(''onError'', JStr on_error_continue_branch)]) = Some d \<and>
     def_outputs d = item_stream main_port # extra \<and> length extra \<le> 1"
proof -
  let ?n = "example_node ''a'' ''start'' [(''onError'', JStr on_error_continue_branch)]"
  have l: "cat_lookup example_catalog (node_type ?n) (node_type_version ?n) =
      Some (example_type ''start'' [] [item_stream main_port])"
    by (simp add: example_catalog_def example_lookup_def example_node_def example_version)
  then obtain d where d: "resolve_definition example_catalog ?n = Some d"
    by (simp add: resolve_definition_def example_type_def)
  have "jget (node_settings ?n) ''onError'' = JStr on_error_continue_branch" "ports_for (example_type ''start'' [] [item_stream main_port]) = None"
    "def_outputs (example_type ''start'' [] [item_stream main_port]) = [item_stream main_port]"
    by (simp_all add: example_node_def example_type_def jget_def)
  then show ?thesis using error_branch_declared [OF d _ l] d by auto
qed

end
