(* ===== verification/Resume_Correct.thy ===== *)
theory Resume_Correct
  imports Termination
begin

text \<open>
  Suspending and resuming. A checkpoint is a snapshot of the state the run was suspended in;
  restoring it gives that state back, up to what belongs to the request rather than to the run; and
  a resume goes on as the suspended node's answer would have.
\<close>

subsection \<open>What a suspension writes\<close>

lemma resolve_items_suspends:
  "resolve_items en trigger g n input policy position its pr st w = (SuspendedWith cp, st', w') \<Longrightarrow>
     \<exists>mode held attempt partial. cp = snapshot_checkpoint trigger (in_id n) mode held attempt st' partial"
proof (induction its arbitrary: position pr st w)
  case (Cons it its)
  obtain r cap st1 w1 where inv: "invoke en g n (single_item_input input it) policy (pr_capture pr, st, w) = (r, cap, st1, w1)"
    by (metis prod_cases4)
  show ?case using Cons(2) inv
    by (auto simp: Let_def split: invoked.splits option.splits elim!: Cons(1))
qed simp

lemma run_node_suspends:
  assumes "run_node en trigger g p st w = (SuspendedWith cp, st', w')"
  shows "\<exists>mode held attempt partial.
    cp = snapshot_checkpoint trigger (in_id (node_at g (pe_node p))) mode held attempt st' partial"
  using assms
  by (auto simp: run_node_def run_per_item_def run_whole_def finish_failed_def finish_answered_def Let_def
      split: if_split_asm option.split_asm prod.split_asm invoked.split_asm dest: resolve_items_suspends)

text \<open>The node that runs is a node of the graph.\<close>

lemma next_invocation_in:
  assumes "well_typed g" "pending_ok g st" "next_invocation g st = Inr (Some (p, st'))"
  shows "pe_node p \<in> node_ids g"
  using assms(3)
proof (cases rule: next_invocation_cases)
  case (stack q rest)
  then have "q \<in> set (rs_pending st)" using taken_pending by blast
  then show ?thesis using assms(1,2) stack(2) by (simp add: pending_ok_def owed_ok_def)
next
  case fallback
  then show ?thesis using ready_nodes_ids by blast
qed

subsection \<open>Restoring it\<close>

text \<open>What a suspension keeps: everything but the trace and the caches of the pass that ended.\<close>

definition kept :: "'m run_state \<Rightarrow> 'm run_state" where
  "kept st = st\<lparr>rs_rows := [], rs_sunk := [], rs_started := [], rs_events := [], rs_branches := Map.empty\<rparr>"

lemma restore_snapshot:
  assumes "well_typed g" "pending_ok g st" "items_ok g st"
  shows "restore_state g (snapshot_checkpoint trigger k mode held attempt st partial) = kept st"
proof -
  have "\<lparr>pe_node = pe_node p, pe_input = pe_input p, pe_skipped = delivered_nothing g (pe_node p) (pe_input p)\<rparr> = p"
    if "p \<in> set (rs_pending st)" for p
    using that assms(1,2) by (cases p) (auto simp: pending_ok_def owed_ok_def)
  then have pend: "map ((\<lambda>(k, input). \<lparr>pe_node = k, pe_input = input,
      pe_skipped = delivered_nothing g k input\<rparr>) \<circ> (\<lambda>p. (pe_node p, pe_input p))) (rs_pending st) = rs_pending st"
    by (intro map_idI) simp
  have "map_option (\<lambda>ni. with_output_lengths ni (aget (pg_nodes g))) (rs_node_items st k) = rs_node_items st k" for k
    using assms(3) by (cases "rs_node_items st k") (auto simp: items_ok_def)
  then have items: "(\<lambda>k. map_option (\<lambda>ni. with_output_lengths ni (aget (pg_nodes g))) (rs_node_items st k)) = rs_node_items st"
    by blast
  have clone: "map_option clone_output o' = o'" "map clone_output os = os" for o' os
    by (cases o') (simp_all add: map_idI)
  show ?thesis
    by (cases st) (use pend items in \<open>simp add: restore_state_def snapshot_checkpoint_def kept_def empty_run_state_def clone\<close>)
qed

subsection \<open>The resume goes on\<close>

lemma run_suspends:
  assumes "run en plan trigger memory w = Some (Suspended cp, st, w')" "plan_ok plan"
  obtains g mode held attempt partial where
    "prepare_graph plan trigger = Inr g" "well_typed g" "cp_node cp \<in> node_ids g"
    "cp = snapshot_checkpoint trigger (cp_node cp) mode held attempt st partial"
    "restore_state g cp = kept st"
proof (cases "prepare_graph plan trigger")
  case (Inl f)
  then show ?thesis using assms(1) by (simp add: run_def)
next
  case (Inr g)
  have g: "well_typed g" "keyed g" using prepare_graph_well_typed [OF Inr assms(2)] prepare_graph_keyed [OF Inr] .
  have loop: "run_loop en trigger g (new_run_state g memory) w = Some (Suspended cp, st, w')"
    using assms(1) Inr by (simp add: run_def)
  let ?Q = "\<lambda>s v. pending_ok g s \<and> items_ok g s"
  have "?Q s' v'" if q: "?Q s v" and t: "turn en trigger g s v = Inl (s', v')" for s v s' v'
    using turn_moves(1) [OF g(2) t] q pending.moves_keep items.moves_keep by blast
  then obtain s v where s: "?Q s v" "turn en trigger g s v = Inr (Suspended cp, st, w')"
    using run_loop_ends [OF loop, of ?Q] by blast
  then obtain p s1 where p: "next_invocation g s = Inr (Some (p, s1))"
    "run_node en trigger g p s1 v = (SuspendedWith cp, st, w')"
    by (auto simp: turn_def split: option.splits sum.splits prod.splits step_end.splits)
  have "pending_ok g st" "items_ok g st"
    using turn_moves(2) [OF g(2) s(2)] s(1) pending.moves_keep items.moves_keep by blast+
  moreover obtain mode held attempt partial where cp:
    "cp = snapshot_checkpoint trigger (in_id (node_at g (pe_node p))) mode held attempt st partial"
    using run_node_suspends [OF p(2)] by blast
  moreover have k: "pe_node p \<in> node_ids g" using next_invocation_in [OF g(1) _ p(1)] s(1) by blast
  moreover have "cp_node cp = pe_node p" using cp k g(2) by (simp add: snapshot_checkpoint_def node_at_id)
  ultimately show ?thesis using that [OF Inr g(1)] restore_snapshot [OF g(1)] k g(2) by (metis node_at_id)
qed

lemma kept_fields [state_simps]:
  "rs_completed (kept st) = rs_completed st" "rs_runs (kept st) = rs_runs st"
  "rs_executions (kept st) = rs_executions st" "rs_pending (kept st) = rs_pending st"
  "rs_memory (kept st) = rs_memory st" "rs_rows (kept st) = []"
  by (simp_all add: kept_def)

lemma snapshot_fields [simp]:
  "cp_trigger (snapshot_checkpoint trigger k mode held attempt st partial) = trigger"
  "cp_node (snapshot_checkpoint trigger k mode held attempt st partial) = k"
  "cp_run (snapshot_checkpoint trigger k mode held attempt st partial) = length (rs_runs st k)"
  "cp_runs (snapshot_checkpoint trigger k mode held attempt st partial) k = rs_runs st k"
  "cp_partial (snapshot_checkpoint trigger k mode held attempt st partial) = partial"
  by (simp_all add: snapshot_checkpoint_def map_idI)

text \<open>The state a resume starts its loop from: the suspended node completed with the given output.\<close>

definition resumed_state ::
  "(string \<Rightarrow> string) \<Rightarrow> prepared_graph \<Rightarrow> 'm checkpoint \<Rightarrow> node_output \<Rightarrow> 'm run_state \<Rightarrow> 'm run_state" where
  "resumed_state quote g cp out st =
     (let n = node_at g (cp_node cp) in
      complete quote g n
        (stamp_provenance (runs_of st n) n (incoming g (cp_node cp)) (cp_input cp) (pad_error_port n out))
        ((node_run0 (in_id n) (cp_input cp))\<lparr>nr_attempt := max 1 (cp_attempt cp)\<rparr>) st)"

lemma resume_suspended:
  assumes "run en plan trigger memory w = Some (Suspended cp, st, w')" "plan_ok plan" "cp_partial cp = None"
    and "prepare_graph plan trigger = Inr g" "length out = expected_ports (node_at g (cp_node cp))"
  shows "resume en' plan trigger memory' cp out render v =
    run_loop en' trigger g (resumed_state (ex_quote en') g cp out (kept st)) v"
proof -
  obtain mode held attempt where cp: "well_typed g" "cp_node cp \<in> node_ids g"
    "cp = snapshot_checkpoint trigger (cp_node cp) mode held attempt st None" "restore_state g cp = kept st"
    using run_suspends [OF assms(1,2)] assms(3,4) by (metis snapshot_fields(5) sum.inject(2))
  let ?k = "cp_node cp"
  have facts: "cp_trigger cp = trigger" "cp_run cp = length (rs_runs st ?k)" "cp_runs cp ?k = rs_runs st ?k"
    by (subst cp(3), simp)+
  show ?thesis
    using assms(3-5) cp(2,4) facts
    by (simp add: resume_def node_ids_aget resumed_state_def Let_def)
qed

text \<open>
  A resume goes on as an answer of the suspended node would have, unless the node always outputs
  data: Always Output Data is applied to an answer and not to a resumed output.
\<close>

lemma resumed_as_answered:
  assumes "length out = expected_ports (node_at g (cp_node cp))" "in_id (node_at g (cp_node cp)) = cp_node cp"
    and "\<not> setting_bool (in_settings (node_at g (cp_node cp))) ''alwaysOutputData''"
  shows "finish_answered en g (node_at g (cp_node cp)) (cp_input cp) out (max 1 (cp_attempt cp)) (no_capture, st, v) =
    (Continue, resumed_state (ex_quote en) g cp out st, v)"
  using assms
  by (simp add: finish_answered_def resumed_state_def row_of_def with_empty_item_def no_capture_def console_output_def
      node_run0_def Let_def)

end
