(* ===== verification/Run_Correct.thy ===== *)
theory Run_Correct
  imports Resume_Correct
begin

text \<open>
  What holds of a run as a whole: its inputs are always there, a finished run has completed every
  step, an invocation's attempts are counted and recorded, and what a node's expressions read of
  earlier nodes is the graph's own order.
\<close>

subsection \<open>Inputs\<close>

text \<open>All the state a run reaches satisfies, taken together.\<close>

definition run_ok :: "prepared_graph \<Rightarrow> 'm run_state \<Rightarrow> bool" where
  "run_ok g st \<longleftrightarrow> runs_ok g st \<and> shapes_ok g st \<and> pending_ok g st \<and> cache_ok g st"

interpretation run_ok: run_invariant quote g "run_ok g" for quote g
  by unfold_locales (auto simp: run_ok_def intro: runs.kept shapes.kept pending.kept cache.kept)

lemma new_run_ok [intro!]: "run_ok g (new_run_state g memory)"
  by (auto simp: run_ok_def)

text \<open>Every output the runner reads an input from has the stream the edge names.\<close>

lemma completed_stream:
  assumes "run_ok g st" "well_typed g" "e \<in> set (live_edges g)" "rs_completed st (edge_from e) \<noteq> None"
  shows "source_output_index e < length (completed_output (rs_completed st) (edge_from e))"
proof -
  obtain out where out: "rs_completed st (edge_from e) = Some out" using assms(4) by auto
  then have "out \<in> set (rs_runs st (edge_from e))"
    using assms(1) by (auto simp: run_ok_def runs_ok_def last_run_def split: if_split_asm)
  then have "shaped (node_at g (edge_from e)) out"
    using assms(1,2) by (auto simp: run_ok_def shapes_ok_def well_typed_def)
  moreover have "edge_fits (node_at g (edge_from e)) (node_at g (edge_to e)) e"
    using assms(2,3) by (simp add: well_typed_def)
  ultimately show ?thesis by (simp add: out completed_output_def shaped_def edge_fits_def)
qed

lemma collect_inputs_total:
  "\<forall>e \<in> set es. source_output_index e < length (completed_output completed (edge_from e)) \<Longrightarrow>
     \<exists>input'. collect_inputs failure completed es input = Inr input'"
  by (induction es arbitrary: input) (auto simp: Let_def)

lemma next_invocation_total:
  assumes "run_ok g st" "well_typed g"
  shows "next_invocation g st \<noteq> Inl f"
proof -
  have stack: "\<exists>input. merge_config_inputs g st p = Inr input" if "config_ready g st (pe_node p)" for p
    using that completed_stream [OF assms]
    unfolding merge_config_inputs_def by (intro collect_inputs_total) (auto simp: config_ready_def list_all_iff)
  have fallback: "\<exists>input. build_input g st k = Inr input" if "dependencies_complete g st k" for k
    using that completed_stream [OF assms]
    unfolding build_input_def by (intro collect_inputs_total) (auto simp: dependencies_complete_def list_all_iff)
  show ?thesis
  proof (cases "take_ready (\<lambda>p. config_ready g st (pe_node p)) (rs_pending st)")
    case None
    show ?thesis
    proof (cases "ready_nodes g st")
      case (Cons k ks)
      then have "k \<in> set (ready_nodes g st)" by simp
      then have "dependencies_complete g st k" by (auto simp: ready_nodes_in)
      then show ?thesis using None Cons fallback by (force simp: next_invocation_def)
    qed (simp add: next_invocation_def None)
  next
    case (Some pr)
    obtain p rest where pr: "pr = (p, rest)" by (cases pr)
    then have "config_ready g st (pe_node p)" using Some by (auto simp: take_ready_Some)
    then show ?thesis using Some pr stack by (force simp: next_invocation_def)
  qed
qed

definition input_failure :: "run_failure \<Rightarrow> bool" where
  "input_failure f \<longleftrightarrow> (case f of InputMissing _ _ _ \<Rightarrow> True | AttachmentMissing _ _ \<Rightarrow> True | _ \<Rightarrow> False)"

lemma try_attempts_failure:
  "try_attempts en g n input policy left attempt (cap, st, w) = (Aborts f, cap', st', w') \<Longrightarrow> \<not> input_failure f"
proof (induction left arbitrary: attempt cap st w)
  case (Suc left)
  from Suc(2) show ?case
    by (cases rule: try_attempts_cases) (auto simp: input_failure_def ends_attempt_def dest: Suc(1))
qed simp

lemma invoke_failure:
  "invoke en g n input policy (cap, st, w) = (Aborts f, cap', st', w') \<Longrightarrow> \<not> input_failure f"
  by (auto simp: invoke_def dest: try_attempts_failure split: if_split_asm)

lemma resolve_items_failure:
  "resolve_items en trigger g n input policy position its pr st w = (Aborted f, st', w') \<Longrightarrow> \<not> input_failure f"
proof (induction its arbitrary: position pr st w)
  case (Cons it its)
  obtain r cap st1 w1 where inv: "invoke en g n (single_item_input input it) policy (pr_capture pr, st, w) = (r, cap, st1, w1)"
    by (metis prod_cases4)
  show ?case using Cons(2) inv invoke_failure
    by (fastforce simp: Let_def split: invoked.splits option.splits dest: Cons(1))
qed simp

lemma run_node_failure:
  assumes "run_node en trigger g p st w = (Aborted f, st', w')"
  shows "\<not> input_failure f"
proof -
  have simple: "\<not> input_failure (ExecutorMissing a b)" "\<not> input_failure (NodeFailed m)"
    "\<not> input_failure (StreamCount a i j)" for a b m i j
    by (simp_all add: input_failure_def)
  show ?thesis
    using assms
    by (auto simp: run_node_def run_per_item_def run_whole_def finish_failed_def finish_answered_def Let_def simple
        split: if_split_asm option.split_asm prod.split_asm invoked.split_asm
        dest: resolve_items_failure invoke_failure)
qed

lemma run_loop_reaches:
  fixes en :: "('w, 'm) env"
  assumes "run_loop en trigger g st w = Some e" "run_ok g st" "keyed g"
  obtains s v where "run_ok g s" "turn en trigger g s v = Inr e"
proof -
  have "\<exists>s v. run_ok g s \<and> turn en trigger g s v = Inr e"
  proof (rule run_loop_ends [OF assms(1), of "\<lambda>s v. run_ok g s"])
    show "run_ok g s'" if "run_ok g s" "turn en trigger g s v = Inl (s', v')" for s v s' v'
      using turn_moves(1) [OF assms(3) that(2)] that(1) by (rule run_ok.moves_keep)
  qed (rule assms(2))
  then show thesis using that by blast
qed

lemma run_loop_failure:
  assumes "run_loop en trigger g st w = Some (Failed f, st', w')" "run_ok g st" "well_typed g"
  shows "\<not> input_failure f"
proof -
  have "keyed g" using assms(3) by (simp add: well_typed_def)
  then obtain s v where s: "run_ok g s" "turn en trigger g s v = Inr (Failed f, st', w')"
    using run_loop_reaches [OF assms(1,2)] by blast
  show ?thesis
  proof (cases "ex_ctx en v")
    case None
    obtain r where "next_invocation g s = Inr r" using next_invocation_total [OF s(1) assms(3)]
      by (cases "next_invocation g s") auto
    then show ?thesis using s(2) None
      by (auto simp: turn_def split: option.split_asm prod.split_asm step_end.split_asm dest: run_node_failure)
  qed (use s(2) in \<open>auto simp: turn_def input_failure_def\<close>)
qed

subsection \<open>A finished run\<close>

lemma record_skips_completes:
  "rs_completed (record_skips g st) k = None \<longleftrightarrow> rs_completed st k = None \<and> k \<notin> set (unreached g st)"
proof -
  have "rs_completed (fold (\<lambda>k. mark_skipped g k no_input) ks st) k = None \<longleftrightarrow> rs_completed st k = None \<and> k \<notin> set ks" for ks
    by (induction ks arbitrary: st) (auto simp: state_simps)
  then show ?thesis by (simp add: record_skips_def)
qed

lemma run_loop_finished:
  assumes "run_loop en trigger g st w = Some (Finished, st', w')" "run_ok g st" "keyed g"
    and "k \<in> node_ids g" "\<not> annotation (node_at g k)"
  shows "rs_completed st' k \<noteq> None"
proof -
  obtain s v where "turn en trigger g s v = Inr (Finished, st', w')"
    using run_loop_reaches [OF assms(1-3)] by blast
  then have "st' = record_skips g s"
    by (auto simp: turn_def split: option.split_asm sum.split_asm prod.split_asm step_end.split_asm)
  moreover have "(k, node_at g k) \<in> set (pg_nodes g)" using assms(3,4) by (simp add: node_at_in)
  ultimately show ?thesis using assms(5) by (auto simp: record_skips_completes unreached_in)
qed


subsection \<open>Crashes\<close>

text \<open>
  The runner indexes an output it has not checked in one place: the error item of a failed per-item
  call. It panics only for a node that tolerates failures per item and declares no output.
\<close>

lemma try_attempts_no_panic:
  "try_attempts en g n input policy left attempt (cap, st, w) = (Panics, cap', st', w') \<Longrightarrow> False"
proof (induction left arbitrary: attempt cap st w)
  case (Suc left)
  from Suc(2) show ?case by (cases rule: try_attempts_cases) (auto simp: ends_attempt_def intro: Suc(1))
qed simp

lemma invoke_no_panic:
  assumes "ex_registered en (executor_id (in_definition n))"
  shows "invoke en g n input policy (cap, st, w) \<noteq> (Panics, cap', st', w')"
  using assms try_attempts_no_panic by (auto simp: invoke_def)

lemma failure_port_bound:
  assumes "shaped n output" "def_outputs (in_definition n) \<noteq> []"
  shows "append_at (failure_port n mode) items output \<noteq> None"
  using assms error_port_index_bound [of n]
  by (auto simp: append_at_def failure_port_def shaped_def split: option.split)

lemma resolve_items_no_panic:
  assumes n: "ex_registered en (executor_id (in_definition n))" "def_outputs (in_definition n) \<noteq> []"
  shows "shaped n (pr_assembled pr) \<Longrightarrow>
    resolve_items en trigger g n input policy position its pr st w \<noteq> (Panicked, st', w')"
proof (induction its arbitrary: position pr st w)
  case (Cons it its)
  obtain r cap st1 w1 where inv: "invoke en g n (single_item_input input it) policy (pr_capture pr, st, w) = (r, cap, st1, w1)"
    by (metis prod_cases4)
  then have r: "r \<noteq> Panics" using invoke_no_panic [OF n(1)] by blast
  show ?case
  proof (cases r)
    case (Answered out attempt)
    then show ?thesis using inv Cons by (simp add: Let_def shape_simps)
  next
    case (FailedAttempts cause code attempt)
    obtain assembled where app: "append_at (failure_port n (on_error policy))
        [error_item (ex_quote en) n it cause (on_error policy = ErrorBranch)] (pr_assembled pr) = Some assembled"
      using failure_port_bound [OF Cons(2) n(2)] by blast
    then have "shaped n assembled" using shaped_append_at Cons(2) by blast
    then show ?thesis using inv FailedAttempts app Cons(1) by (simp add: Let_def shape_simps)
  qed (use inv r in \<open>auto simp: Let_def\<close>)
qed (simp add: Let_def)

lemma run_node_no_panic:
  assumes "run_node en trigger g p st w = (Panicked, st', w')"
  shows "def_outputs (in_definition (node_at g (pe_node p))) = []"
proof (rule ccontr)
  assume outs: "def_outputs (in_definition (node_at g (pe_node p))) \<noteq> []"
  have shaped: "shaped (node_at g (pe_node p)) (empty_output (node_at g (pe_node p)))" by (simp add: shape_simps)
  show False
    using assms outs shaped resolve_items_no_panic invoke_no_panic
    by (fastforce simp: run_node_def run_per_item_def run_whole_def finish_failed_def finish_answered_def Let_def
        split: if_split_asm option.split_asm prod.split_asm invoked.split_asm)
qed

lemma run_loop_no_panic:
  assumes "run_loop en trigger g st w = Some (Crashed, st', w')" "run_ok g st" "well_typed g"
  obtains k where "k \<in> node_ids g" "def_outputs (in_definition (node_at g k)) = []"
proof -
  have "keyed g" using assms(3) by (simp add: well_typed_def)
  then obtain s v where s: "run_ok g s" "turn en trigger g s v = Inr (Crashed, st', w')"
    using run_loop_reaches [OF assms(1,2)] by blast
  then obtain p s1 where p: "next_invocation g s = Inr (Some (p, s1))" "run_node en trigger g p s1 v = (Panicked, st', w')"
    by (auto simp: turn_def split: option.split_asm sum.split_asm prod.split_asm step_end.split_asm)
  have "pe_node p \<in> node_ids g" using next_invocation_in [OF assms(3) _ p(1)] s(1) by (simp add: run_ok_def)
  then show thesis using that run_node_no_panic [OF p(2)] by blast
qed


subsection \<open>Attempts\<close>

lemma invoke_attempts:
  assumes "invoke en g n input (retry_policy settings) (cap, st, w) = (res, cap', st', w')"
    and "ex_registered en (executor_id (in_definition n))"
  shows "\<exists>rows last. rs_rows st' = rs_rows st @ rows \<and> 1 \<le> last \<and> last \<le> attempts (retry_policy settings) \<and>
    (\<forall>row \<in> set rows. attempt_row n (nr_attempt row) row) \<and>
    (if ends_attempt last res then map nr_attempt rows = [1..<last]
     else \<exists>f. res = Aborts f \<and> map nr_attempt rows \<in> {[1..<Suc last], [1..<Suc (Suc last)]})"
proof -
  obtain left where left: "attempts (retry_policy settings) = Suc left"
    using retry_attempts [of settings] by (cases "attempts (retry_policy settings)") auto
  have "try_attempts en g n input (retry_policy settings) (Suc left) 1 (cap, st, w) = (res, cap', st', w')"
    using assms left by (simp add: invoke_def)
  from try_attempts_rows [OF this] show ?thesis by (simp add: left)
qed

end
