(* ===== verification/Branches.thy ===== *)
theory Branches
  imports Run_Correct
begin

text \<open>
  What \<open>$('X')\<close> reads by default (\<open>internal/engine/node_branches.go\<close>): the outputs a node is
  connected to name exactly the nodes upstream of it along item edges, each with an output that an
  edge on the way takes. The search is a walk, so the contract of walks gives what it reaches.
\<close>

function upstream_walk :: "prepared_graph \<Rightarrow> string list \<Rightarrow> string list \<Rightarrow> string list" where
  "upstream_walk g seen [] = seen"
| "upstream_walk g seen (k # queue) =
     (case enqueue_new (map edge_from (upstream_edges g k)) seen queue of (seen', queue') \<Rightarrow> upstream_walk g seen' queue')"
  by pat_completeness auto
termination
proof (relation "measures [\<lambda>(g, seen, queue). card (edge_from ` set (live_edges g) - set seen),
    \<lambda>(g, seen, queue). length queue]", goal_cases)
  case (2 g seen k queue seen' queue')
  then have "enqueue_new (map edge_from (upstream_edges g k)) seen queue = (seen', queue')" by simp
  from enqueue_new_decreases [OF this upstream_edges_sources] show ?case by auto
qed simp

interpretation upstream: worklist "\<lambda>k. map edge_from (upstream_edges g k)" "upstream_walk g" "edge_from ` set (live_edges g)" for g
  by unfold_locales (use upstream_edges_sources in auto)

lemma in_upstream_edges: "e \<in> set (upstream_edges g k) \<longleftrightarrow> e \<in> set (live_edges g) \<and> edge_to e = k \<and> is_main e"
  by (auto simp: upstream_edges_def input_order_def)

lemma upstream_arc: "upstream.arc g = (item_arcs g)\<inverse>"
  by (auto simp: upstream.arc_def item_arcs_def in_upstream_edges)

text \<open>A node's output, by name, as one incoming item edge of a node offers it.\<close>

definition offered :: "prepared_graph \<Rightarrow> string \<Rightarrow> string \<Rightarrow> nat \<Rightarrow> bool" where
  "offered g k name i \<longleftrightarrow>
     name \<noteq> [] \<and> (\<exists>e \<in> set (upstream_edges g k). in_name (node_at g (edge_from e)) = name \<and> source_output_index e = i)"

lemma offered_from: "offered g k name i \<Longrightarrow> \<exists>m. (m, k) \<in> item_arcs g \<and> in_name (node_at g m) = name"
  by (fastforce simp: offered_def in_upstream_edges item_arcs_def)

lemma offered_to:
  "(m, k) \<in> item_arcs g \<Longrightarrow> in_name (node_at g m) = name \<Longrightarrow> name \<noteq> [] \<Longrightarrow> \<exists>i. offered g k name i"
proof -
  assume a: "(m, k) \<in> item_arcs g" "in_name (node_at g m) = name" "name \<noteq> []"
  then obtain e where "e \<in> set (upstream_edges g k)" "m = edge_from e"
    by (auto simp: item_arcs_def in_upstream_edges)
  with a show ?thesis unfolding offered_def by blast
qed

lemma aget_note_output:
  "aget (note_output g e outs) name =
     (if aget outs name = None \<and> name \<noteq> [] \<and> in_name (node_at g (edge_from e)) = name
      then Some (source_output_index e) else aget outs name)"
  by (auto simp: note_output_def Let_def)

lemma note_outputs:
  "aget (fold (note_output g) es outs) name =
     (case aget outs name of Some i \<Rightarrow> Some i
      | None \<Rightarrow> if name = [] then None
          else map_option source_output_index (find (\<lambda>e. in_name (node_at g (edge_from e)) = name) es))"
  by (induction es arbitrary: outs) (auto simp: aget_note_output split: option.splits)

lemma connected_walk_sound:
  "aget (connected_walk g outs seen queue) name = Some i \<Longrightarrow> aget outs name = Some i \<or>
     (\<exists>k \<in> set queue \<union> (set (upstream_walk g seen queue) - set seen). offered g k name i)"
proof (induction seen queue arbitrary: outs rule: upstream.walk_induct [of _ g])
  case (Cons seen k q seen' q')
  note s = enqueue_new_set(1,2) [OF Cons(1)]
  have "aget (connected_walk g (fold (note_output g) (upstream_edges g k) outs) seen' q') name = Some i"
    using Cons(1,3) by simp
  from Cons(2) [OF this] consider
      "aget (fold (note_output g) (upstream_edges g k) outs) name = Some i"
    | j where "j \<in> set q' \<union> (set (upstream_walk g seen' q') - set seen')" "offered g j name i" by blast
  then show ?case
  proof cases
    case 1
    then have "aget outs name = Some i \<or> offered g k name i"
      by (auto simp: note_outputs offered_def find_Some_iff split: option.splits if_split_asm)
    then show ?thesis by auto
  next
    case 2
    have "set seen' \<subseteq> set (upstream_walk g seen' q')" by (rule upstream.walk_mono)
    then have "set q' \<union> (set (upstream_walk g seen' q') - set seen') \<subseteq>
        set (k # q) \<union> (set (upstream_walk g seen (k # q)) - set seen)" using s Cons(1) by auto
    with 2 show ?thesis by blast
  qed
qed simp

lemma connected_walk_complete:
  "aget outs name \<noteq> None \<or> (\<exists>k \<in> set queue \<union> (set (upstream_walk g seen queue) - set seen). \<exists>i. offered g k name i) \<Longrightarrow>
     aget (connected_walk g outs seen queue) name \<noteq> None"
proof (induction seen queue arbitrary: outs rule: upstream.walk_induct [of _ g])
  case (Cons seen k q seen' q')
  note s = enqueue_new_set(1,2) [OF Cons(1)]
  let ?outs = "fold (note_output g) (upstream_edges g k) outs"
  have here: "aget ?outs name \<noteq> None" if "aget outs name \<noteq> None \<or> offered g k name i" for i
  proof (cases "aget outs name")
    case None
    then have "find (\<lambda>e. in_name (node_at g (edge_from e)) = name) (upstream_edges g k) \<noteq> None" "name \<noteq> []"
      using that by (auto simp: offered_def find_None_iff simp del: not_None_eq)
    then show ?thesis using None by (simp add: note_outputs)
  qed (simp add: note_outputs)
  have "aget (connected_walk g ?outs seen' q') name \<noteq> None"
  proof (rule Cons(2))
    have sub: "set (k # q) \<union> (set (upstream_walk g seen (k # q)) - set seen) \<subseteq>
        insert k (set q' \<union> (set (upstream_walk g seen' q') - set seen'))" using s Cons(1) by auto
    show "aget ?outs name \<noteq> None \<or>
        (\<exists>k \<in> set q' \<union> (set (upstream_walk g seen' q') - set seen'). \<exists>i. offered g k name i)"
      using Cons(3) here sub by blast
  qed
  then show ?case using Cons(1) by simp
qed simp

lemma upstream_of: "set (upstream_walk g [k] [k]) = ((item_arcs g)\<inverse>)\<^sup>* `` {k}"
  using upstream.walk_reachable [of "[k]" "[k]" g] by (simp add: upstream_arc del: upstream_walk.simps)

lemma connected_outputs_sound:
  "aget (connected_outputs g k) name = Some i \<Longrightarrow> \<exists>j. (j, k) \<in> (item_arcs g)\<^sup>* \<and> offered g j name i"
  using connected_walk_sound [of g "[]" "[k]" "[k]" name i]
  by (auto simp: connected_outputs_def upstream_of rtrancl_converse simp del: upstream_walk.simps connected_walk.simps)

lemma connected_outputs_complete:
  "(j, k) \<in> (item_arcs g)\<^sup>* \<Longrightarrow> offered g j name i \<Longrightarrow> aget (connected_outputs g k) name \<noteq> None"
  using connected_walk_complete [of "[]" name "[k]" g "[k]"]
  by (auto simp: connected_outputs_def upstream_of rtrancl_converse simp del: upstream_walk.simps connected_walk.simps)

text \<open>In terms of nodes: the named nodes with a path of item edges to the reader.\<close>

lemma connected_outputs_names:
  assumes "name \<noteq> []"
  shows "aget (connected_outputs g k) name \<noteq> None \<longleftrightarrow>
    (\<exists>m. (m, k) \<in> (item_arcs g)\<^sup>+ \<and> in_name (node_at g m) = name)"
proof
  assume "aget (connected_outputs g k) name \<noteq> None"
  then obtain i j where "(j, k) \<in> (item_arcs g)\<^sup>*" "offered g j name i" using connected_outputs_sound by blast
  moreover from this(2) obtain m where "(m, j) \<in> item_arcs g" "in_name (node_at g m) = name"
    using offered_from by blast
  ultimately show "\<exists>m. (m, k) \<in> (item_arcs g)\<^sup>+ \<and> in_name (node_at g m) = name"
    by (blast intro: rtrancl_into_trancl2)
next
  assume "\<exists>m. (m, k) \<in> (item_arcs g)\<^sup>+ \<and> in_name (node_at g m) = name"
  then obtain m j where "(m, j) \<in> item_arcs g" "(j, k) \<in> (item_arcs g)\<^sup>*" "in_name (node_at g m) = name"
    by (blast dest: tranclD)
  moreover from this(1,3) obtain i where "offered g j name i"
    using assms offered_to by blast
  ultimately show "aget (connected_outputs g k) name \<noteq> None" using connected_outputs_complete by blast
qed

end
