(* ===== verification/Engine_Properties.thy ===== *)
theory Engine_Properties
  imports Example_Workflow Branches Policies_Correct
begin

text \<open>
  What a run promises: of the graph it prepares, of the steps it takes, of the state it leaves, of its
  ends, and of a suspended run's continuation. Each property is tried on the example's runs.
\<close>

subsection \<open>The prepared graph\<close>

lemma example_graph_typed: "well_typed example_graph"
  by (rule prepare_graph_well_typed [OF example_prepared example_plan_ok])

text \<open>A run of a named trigger keeps exactly the nodes item edges lead to from it, with everything
  attached to those through other edges, and the edges between them; without a named trigger it keeps
  all of them.\<close>

theorem live_part:
  assumes "prepare_graph plan trigger = Inr g"
  shows "let live = (if trigger = [] then in_id ` set (ir_nodes plan)
      else {k. \<exists>m. (trigger, m) \<in> (set (main_arcs (ir_edges plan)))\<^sup>* \<and> (k, m) \<in> (set (attachment_arcs (ir_edges plan)))\<^sup>*})
    in node_ids g = in_id ` set (ir_nodes plan) \<inter> live \<and>
       set (live_edges g) = {e \<in> set (ir_edges plan). edge_from e \<in> live \<and> edge_to e \<in> live}"
proof -
  have "live_set plan trigger = (if trigger = [] then in_id ` set (ir_nodes plan)
      else {k. \<exists>m. (trigger, m) \<in> (set (main_arcs (ir_edges plan)))\<^sup>* \<and> (k, m) \<in> (set (attachment_arcs (ir_edges plan)))\<^sup>*})"
    by (auto simp: live_set_def rtrancl_converse)
  then show ?thesis using prepare_graph_live [OF assms] by (simp add: Let_def)
qed

theorem live_part_example: "node_ids example_graph = {''start'', ''ask''}"
  using live_part [OF example_prepared] by (auto simp: Let_def example_plan_def example_step_def)

text \<open>A graph is refused in three cases only: the plan has no node, the named trigger is not one of
  its nodes, or it is a disabled one.\<close>

theorem graph_refused:
  assumes "distinct (map in_id (ir_nodes plan))"
  shows "prepare_graph plan trigger = Inl f \<longleftrightarrow>
    (if ir_nodes plan = [] then f = EmptyGraph
     else trigger \<noteq> [] \<and>
       (if trigger \<notin> in_id ` set (ir_nodes plan) then f = UnknownTrigger trigger
        else f = TriggerDisabled trigger \<and> (\<exists>n \<in> set (ir_nodes plan). in_id n = trigger \<and> in_disabled n)))"
proof (cases "ir_nodes plan = [] \<or> trigger = [] \<or> trigger \<notin> in_id ` set (ir_nodes plan)")
  case True
  then show ?thesis by (auto simp: prepare_graph_def active_nodes_def list_ex_iff Let_def image_iff)
next
  case False
  then obtain n where n: "n \<in> set (ir_nodes plan)" "in_id n = trigger" by auto
  have known: "list_ex (\<lambda>n. in_id n = trigger) (ir_nodes plan)" using n by (auto simp: list_ex_iff)
  obtain active where act: "active_nodes plan trigger = Inr active" using False known by (auto simp: active_nodes_def)
  then have "trigger \<in> set active"
    using False active_nodes_live [OF act] by (auto simp: live_set_def)
  let ?live = "filter (\<lambda>n. in_id n \<in> set active) (ir_nodes plan)"
  have d: "distinct (map in_id ?live)" using assms by (rule distinct_map_filter)
  have same: "m = n" if "m \<in> set (ir_nodes plan)" "in_id m = trigger" for m
    using that n assms by (auto simp: distinct_map dest: inj_onD)
  have "trigger \<in> fst ` set (index_nodes ?live)"
    unfolding index_nodes_map [OF d] using n \<open>trigger \<in> set active\<close> by force
  then obtain m where m: "aget (index_nodes ?live) trigger = Some m" using aget_None_iff by (metis not_None_eq)
  then have "m = n" using same aget_in [OF m] unfolding index_nodes_map [OF d] by auto
  then have "prepare_graph plan trigger = Inl f \<longleftrightarrow> in_disabled n \<and> f = TriggerDisabled trigger"
    using False act m by (auto simp: prepare_graph_def Let_def)
  moreover have "(\<exists>n' \<in> set (ir_nodes plan). in_id n' = trigger \<and> in_disabled n') \<longleftrightarrow> in_disabled n" using n same by blast
  ultimately show ?thesis using False by auto
qed

theorem graph_refused_example: "prepare_graph example_plan ''nobody'' = Inl (UnknownTrigger ''nobody'')"
  by (subst graph_refused) (simp_all add: example_plan_def example_step_def)

subsection \<open>The run and its ends\<close>



text \<open>C2: a run of a compiled workflow without loop nodes ends, whatever its executors answer.\<close>

theorem compiled_run_returns:
  assumes "compile h cat d = Inr plan" "\<forall>n \<in> set (ir_nodes plan). \<not> loop_entry (in_definition n)"
  shows "\<exists>res st w'. run en plan trigger memory w = Some (res, st, w')"
proof -
  have "executable h cat d" "plan = plan_of cat d" using compile_accepted [OF assms(1)] by auto
  then have "acyclic (set (arcs_of (ir_edges plan)))" using plan_without_loops assms(2) by blast
  then show ?thesis using plan_run_returns [OF compiled_plan_ok [OF assms(1)]] by (metis not_None_eq prod_cases3)
qed

theorem compiled_run_returns_example:
  "\<exists>res st w'. run (example_env True) example_plan ''start'' (\<lambda>_. ()) () = Some (res, st, w')"
  by (rule compiled_run_returns [OF example_compiles]) (simp add: example_plan_def example_step_def example_type_def)

text \<open>C4: a run of a compiled workflow never fails for an input: every delivery and every attachment a
  node is given exists when the node is started.\<close>

theorem inputs_always_there:
  assumes "compile h cat d = Inr plan" "run en plan trigger memory w = Some (Failed f, st, w')"
  shows "(\<forall>k source p. f \<noteq> InputMissing k source p) \<and> (\<forall>source p. f \<noteq> AttachmentMissing source p)"
proof (cases "prepare_graph plan trigger")
  case (Inl e)
  then show ?thesis using assms(2) by (auto simp: run_def prepare_graph_def active_nodes_def Let_def split: if_split_asm sum.split_asm)
next
  case (Inr g)
  then have "run_loop en trigger g (new_run_state g memory) w = Some (Failed f, st, w')"
    using assms(2) by (simp add: run_def)
  then have "\<not> input_failure f"
    by (rule run_loop_failure [OF _ new_run_ok prepare_graph_well_typed [OF Inr compiled_plan_ok [OF assms(1)]]])
  then show ?thesis by (auto simp: input_failure_def)
qed

theorem inputs_always_there_example:
  "\<exists>f st. run (example_env False) example_plan ''x'' (\<lambda>_. ()) () = Some (Failed f, st, ()) \<and>
     (\<forall>source p. f \<noteq> AttachmentMissing source p)"
proof -
  have run: "run (example_env False) example_plan ''x'' (\<lambda>_. ()) () = Some (Failed (UnknownTrigger ''x''), empty_run_state (\<lambda>_. ()), ())"
    by (simp add: run_def prepare_graph_def active_nodes_def example_plan_def example_step_def)
  from inputs_always_there [OF example_compiles this] run show ?thesis by blast
qed

text \<open>C31: when a run finishes, every node of the prepared graph that is not a mere annotation has
  completed, if only as skipped.\<close>

theorem finished_completes:
  assumes "run en plan trigger memory w = Some (Finished, st, w')" "prepare_graph plan trigger = Inr g"
    and "k \<in> node_ids g" "\<not> annotation (node_at g k)"
  shows "\<exists>out. rs_completed st k = Some out"
  using assms run_loop_finished [OF _ new_run_ok prepare_graph_keyed [OF assms(2)] assms(3,4)] by (auto simp: run_def)

theorem finished_completes_example:
  "\<exists>st out. run (example_env False) example_plan [] (\<lambda>_. ()) () = Some (Finished, st, ()) \<and> rs_completed st ''ask'' = Some out"
proof -
  obtain st where st: "run (example_env False) example_plan [] (\<lambda>_. ()) () = Some (Finished, st, ())" by (rule example_finishes)
  have "(''ask'', example_step ''ask'' ''wait'' [item_stream main_port]) \<in> set (pg_nodes example_graph)"
    using prepare_graph_Inr(1) [OF example_prepared]
    by (simp add: live_set_def example_plan_def example_step_def index_nodes_def)
  moreover have "keyed example_graph" by (rule prepare_graph_keyed [OF example_prepared])
  ultimately have "''ask'' \<in> node_ids example_graph" "\<not> annotation (node_at example_graph ''ask'')"
    by (auto simp: node_at_in annotation_def example_step_def example_type_def)
  from finished_completes [OF st example_prepared this] st show ?thesis by blast
qed

text \<open>The process never panics on a plan whose nodes all declare an output.\<close>

theorem no_crash:
  assumes "compile h cat d = Inr plan" "\<forall>n \<in> set (ir_nodes plan). def_outputs (in_definition n) \<noteq> []"
  shows "run en plan trigger memory w \<noteq> Some (Crashed, st, w')"
proof
  assume r: "run en plan trigger memory w = Some (Crashed, st, w')"
  then obtain g where g: "prepare_graph plan trigger = Inr g" "run_loop en trigger g (new_run_state g memory) w = Some (Crashed, st, w')"
    by (auto simp: run_def split: sum.split_asm)
  obtain k where k: "k \<in> node_ids g" "def_outputs (in_definition (node_at g k)) = []"
    using run_loop_no_panic [OF g(2) new_run_ok prepare_graph_well_typed [OF g(1) compiled_plan_ok [OF assms(1)]]] by blast
  then obtain n where "n \<in> set (ir_nodes plan)" "in_id n = k" "k \<in> live_set plan trigger"
    using prepare_graph_live(1) [OF g(1)] by auto
  then show False using node_at_plan [OF g(1) compiled_plan_ok [OF assms(1)]] k assms(2) by auto
qed

theorem no_crash_example: "\<forall>st. run (example_env False) example_plan [] (\<lambda>_. ()) () \<noteq> Some (Crashed, st, ())"
  by (intro allI no_crash [OF example_compiles]) (simp add: example_plan_def example_step_def example_type_def)

subsection \<open>The state a run leaves\<close>

lemma example_run:
  obtains st where "run (example_env False) example_plan [] (\<lambda>_. ()) () = Some (Finished, st, ())"
    "moves (h_quote example_host) example_graph (new_run_state example_graph (\<lambda>_. ())) st"
proof -
  obtain st where st: "run (example_env False) example_plan [] (\<lambda>_. ()) () = Some (Finished, st, ())" by (rule example_finishes)
  show thesis using that [OF st] run_moves [OF st] example_prepared by (auto simp: example_env_def)
qed

text \<open>C32: a run's trace is whole: the sink is given every row once, in order and under its number, and
  every recorded run of a node has a row with its output.\<close>

theorem trace_whole:
  assumes "run en plan trigger memory w = Some (res, st, w')"
  shows "rs_sunk st = indexed (rs_rows st) \<and>
    (\<forall>k i. i < length (rs_runs st k) \<longrightarrow> (\<exists>row \<in> set (rs_rows st). nr_node row = k \<and> nr_output row = rs_runs st k ! i \<and>
       (nr_skipped row \<or> nr_run_index row = i)))"
proof -
  have "log_ok st \<and> rows_ok st"
  proof (cases "prepare_graph plan trigger")
    case (Inl f)
    then show ?thesis using run_moves [OF assms] by (auto simp: log_ok_def rows_ok_def indexed_def)
  next
    case (Inr g)
    then show ?thesis using log.run_keeps [OF assms refl Inr] rows.run_keeps [OF assms refl Inr] by blast
  qed
  then show ?thesis by (simp add: log_ok_def rows_ok_def)
qed

theorem trace_whole_example:
  "\<exists>st. run (example_env False) example_plan [] (\<lambda>_. ()) () = Some (Finished, st, ()) \<and> rs_sunk st = indexed (rs_rows st)"
proof -
  obtain st where st: "run (example_env False) example_plan [] (\<lambda>_. ()) () = Some (Finished, st, ())" by (rule example_finishes)
  then show ?thesis using trace_whole [OF st] by blast
qed

text \<open>C30: at the end of a run a node's completed output is its last run's, the workflow's output holds
  exactly the nodes no edge leaves with their completed outputs, and a node has executed at most as often
  as it has runs.\<close>

theorem results_last_runs:
  assumes "run en plan trigger memory w = Some (res, st, w')" "prepare_graph plan trigger = Inr g"
  shows "rs_completed st k = (if rs_runs st k = [] then None else Some (last (rs_runs st k))) \<and>
    rs_output st k = (if outgoing g k = [] then rs_completed st k else None) \<and>
    rs_executions st k \<le> length (rs_runs st k)"
  using runs.run_keeps [OF assms(1) refl assms(2)] new_run_state_ok(3) by (auto simp: runs_ok_def last_run_def)

theorem results_last_runs_example:
  "\<exists>st. run (example_env False) example_plan [] (\<lambda>_. ()) () = Some (Finished, st, ()) \<and>
     rs_executions st ''ask'' \<le> length (rs_runs st ''ask'')"
proof -
  obtain st where st: "run (example_env False) example_plan [] (\<lambda>_. ()) () = Some (Finished, st, ())" by (rule example_finishes)
  then show ?thesis using results_last_runs [OF st example_prepared] by blast
qed

text \<open>Every output a run records has one stream for each output port its node declares.\<close>

theorem outputs_shaped:
  assumes "compile h cat d = Inr plan" "run en plan trigger memory w = Some (res, st, w')"
    and "prepare_graph plan trigger = Inr g" "out \<in> set (rs_runs st k)"
  shows "length out = length (def_outputs (in_definition (node_at g k)))"
proof -
  have "well_formed g"
    using prepare_graph_well_typed [OF assms(3) compiled_plan_ok [OF assms(1)]] by (simp add: well_typed_def)
  moreover have "shapes_ok g st" using shapes.run_keeps [OF assms(2) refl assms(3)] by blast
  ultimately show ?thesis using assms(4) by (auto simp: shapes_ok_def shaped_def)
qed

theorem outputs_shaped_example:
  "\<exists>st out. run (example_env False) example_plan [] (\<lambda>_. ()) () = Some (Finished, st, ()) \<and>
     out \<in> set (rs_runs st ''ask'') \<and> length out = length (def_outputs (in_definition (node_at example_graph ''ask'')))"
proof -
  obtain st where st: "run (example_env False) example_plan [] (\<lambda>_. ()) () = Some (Finished, st, ())"
    "rs_runs st ''ask'' \<noteq> []" by (rule example_finishes)
  then have "last (rs_runs st ''ask'') \<in> set (rs_runs st ''ask'')" by simp
  from outputs_shaped [OF example_compiles st(1) example_prepared this] this st(1) show ?thesis by blast
qed

text \<open>No executor is started for a disabled node or for one with pinned data.\<close>

theorem disabled_and_pinned_rest:
  assumes "compile h cat d = Inr plan" "run en plan trigger memory w = Some (res, st, w')"
    and "prepare_graph plan trigger = Inr g" "k \<in> set (rs_started st)"
  shows "\<not> in_disabled (node_at g k) \<and> in_pinned (node_at g k) = None"
proof -
  have "well_formed g"
    using prepare_graph_well_typed [OF assms(3) compiled_plan_ok [OF assms(1)]] by (simp add: well_typed_def)
  moreover have "started_ok g st" using started.run_keeps [OF assms(2) refl assms(3)] by blast
  ultimately show ?thesis using assms(4) by (simp add: started_ok_def)
qed

theorem disabled_and_pinned_rest_example:
  "\<exists>st k. run (example_env False) example_plan [] (\<lambda>_. ()) () = Some (Finished, st, ()) \<and>
     k \<in> set (rs_started st) \<and> in_pinned (node_at example_graph k) = None"
proof -
  obtain st where st: "run (example_env False) example_plan [] (\<lambda>_. ()) () = Some (Finished, st, ())"
    "rs_started st \<noteq> []" by (rule example_finishes)
  then have "last (rs_started st) \<in> set (rs_started st)" by simp
  from disabled_and_pinned_rest [OF example_compiles st(1) example_prepared this] this st(1) show ?thesis by blast
qed

text \<open>What a run publishes of a node to later expressions is consistent: an origin for every item, and
  the lengths of its streams as \<open>$input\<close> reads them.\<close>

theorem published_items_consistent:
  assumes "run en plan trigger memory w = Some (res, st, w')" "prepare_graph plan trigger = Inr g"
    and "rs_node_items st name = Some ni"
  shows "length (ni_origins ni) = length (ni_items ni) \<and> with_output_lengths ni (aget (pg_nodes g)) = ni"
  using items.run_keeps [OF assms(1) refl assms(2)] new_run_state_ok(7) assms(3)
  by (auto simp: items_ok_def item_shape_def)

theorem published_items_consistent_example:
  "\<exists>st ni. run (example_env False) example_plan [] (\<lambda>_. ()) () = Some (Finished, st, ()) \<and>
     rs_node_items st ''ask'' = Some ni \<and> length (ni_origins ni) = length (ni_items ni)"
proof -
  obtain st where st: "run (example_env False) example_plan [] (\<lambda>_. ()) () = Some (Finished, st, ())"
    "rs_node_items st ''ask'' \<noteq> None" by (rule example_finishes)
  then obtain ni where "rs_node_items st ''ask'' = Some ni" by blast
  from published_items_consistent [OF st(1) example_prepared this] this st(1) show ?thesis by blast
qed

subsection \<open>Scheduling\<close>

text \<open>C29: completing a node owes one invocation to each node its delivering edges lead to, with the items
  of every such edge on the port it enters, in the edges' order; it is marked as skipped exactly when no
  edge to that node carries an item.\<close>

theorem deliveries_exact:
  "let es = filter (delivers g n output) (outgoing g (in_id n)) in
   distinct (map pe_node (deliveries g n output)) \<and>
   set (map pe_node (deliveries g n output)) = edge_to ` set es \<and>
   (\<forall>p \<in> set (deliveries g n output).
      (pe_skipped p \<longleftrightarrow> (\<forall>e \<in> set es. edge_to e = pe_node p \<longrightarrow> carried output e = [])) \<and>
      (\<forall>port. pe_input p port = concat (map (carried output)
         (filter (\<lambda>e. edge_to e = pe_node p \<and> end_port (edge_target e) = port) es))))"
  using deliveries_spec [of "output" g n] deliveries_targets [of g n "output"]
  by (auto simp: delivered_by_def entry_ok_def Let_def)

theorem deliveries_exact_example:
  "distinct (map pe_node (deliveries example_graph (node_at example_graph ''start'') [example_items]))"
  using deliveries_exact [of example_graph "node_at example_graph ''start''" "[example_items]"] by (simp add: Let_def)

text \<open>What runs next is the newest owed invocation whose attachments are ready; only when none is, a
  node that never completed, has all its dependencies and was delivered to; and the rest of the stack is
  kept as it was.\<close>

theorem next_is_newest:
  assumes "next_invocation g st = Inr (Some (p, st'))"
  shows "(\<exists>before q after. rs_pending st = before @ q # after \<and> config_ready g st (pe_node q) \<and>
      (\<forall>b \<in> set before. \<not> config_ready g st (pe_node b)) \<and> pe_node p = pe_node q \<and> pe_skipped p = pe_skipped q \<and>
      st' = st\<lparr>rs_pending := before @ after\<rparr>) \<or>
    ((\<forall>q \<in> set (rs_pending st). \<not> config_ready g st (pe_node q)) \<and> st' = st \<and> \<not> pe_skipped p \<and>
      rs_completed st (pe_node p) = None \<and> dependencies_complete g st (pe_node p) \<and> delivered g st (pe_node p))"
  using assms
proof (cases rule: next_invocation_cases)
  case (stack q rest)
  then obtain before after where "rs_pending st = before @ q # after" "rest = before @ after"
    "config_ready g st (pe_node q)" "\<forall>b \<in> set before. \<not> config_ready g st (pe_node b)"
    unfolding take_ready_Some by blast
  then show ?thesis using stack by blast
next
  case fallback
  then show ?thesis by (auto simp: take_ready_None ready_nodes_in)
qed

theorem next_is_newest_example:
  "\<exists>p st'. next_invocation example_graph (new_run_state example_graph (\<lambda>_. ())) = Inr (Some (p, st')) \<and>
     ((\<exists>q \<in> set (rs_pending (new_run_state example_graph (\<lambda>_. ()))). pe_node p = pe_node q) \<or>
      st' = new_run_state example_graph (\<lambda>_. ()))"
proof -
  have "case next_invocation example_graph (new_run_state example_graph (\<lambda>_. ())) of Inr (Some _) \<Rightarrow> True | _ \<Rightarrow> False"
    by code_simp
  then obtain p st' where n: "next_invocation example_graph (new_run_state example_graph (\<lambda>_. ())) = Inr (Some (p, st'))"
    by (auto split: sum.split_asm option.split_asm)
  show ?thesis using next_is_newest [OF n] n by (metis in_set_conv_decomp)
qed

end
