(* ===== verification/Item_Properties.thy ===== *)
theory Item_Properties
  imports Example_Workflow Branches Policies_Correct
begin

text \<open>
  What the runner promises of one invocation and of the items it handles: attempts and waits, secrets in
  errors, lineage stamps, the pairing of items and the outputs an expression reads by default.
\<close>

subsection \<open>Attempts\<close>

text \<open>An invocation calls its executor at most as often as its policy allows; each failed call but the
  one it ends with leaves exactly one row, numbered from one and carrying an error and no output; a
  cancelled wait leaves one more.\<close>

theorem attempts_recorded:
  assumes "invoke en g n input (retry_policy settings) (cap, st, w) = (res, cap', st', w')"
    and "ex_registered en (executor_id (in_definition n))"
  shows "\<exists>rows last. rs_rows st' = rs_rows st @ rows \<and> 1 \<le> last \<and> last \<le> attempts (retry_policy settings) \<and>
    (\<forall>row \<in> set rows. nr_node row = in_id n \<and> nr_error row \<noteq> None \<and> nr_output row = []) \<and>
    (case res of
       Answered _ k \<Rightarrow> k = last \<and> map nr_attempt rows = [1..<last]
     | FailedAttempts _ _ k \<Rightarrow> k = last \<and> map nr_attempt rows = [1..<last]
     | Suspends _ k \<Rightarrow> k = last \<and> map nr_attempt rows = [1..<last]
     | Aborts _ \<Rightarrow> map nr_attempt rows \<in> {[1..<Suc last], [1..<Suc (Suc last)]}
     | Panics \<Rightarrow> False)"
proof -
  obtain rows last where r: "rs_rows st' = rs_rows st @ rows" "1 \<le> last" "last \<le> attempts (retry_policy settings)"
    "\<forall>row \<in> set rows. attempt_row n (nr_attempt row) row"
    "if ends_attempt last res then map nr_attempt rows = [1..<last]
     else \<exists>f. res = Aborts f \<and> map nr_attempt rows \<in> {[1..<Suc last], [1..<Suc (Suc last)]}"
    using invoke_attempts [OF assms] by blast
  then show ?thesis
    by (intro exI [of _ rows] exI [of _ last])
      (auto simp: attempt_row_def ends_attempt_def split: invoked.splits if_split_asm)
qed

theorem attempts_recorded_example:
  "\<exists>res r rows. invoke (example_env False) example_graph (node_at example_graph ''ask'') no_input (retry_policy [])
     (no_capture, empty_run_state (\<lambda>_. ()), ()) = (res, r) \<and> res \<noteq> Panics"
proof -
  obtain res cap st w where r: "invoke (example_env False) example_graph (node_at example_graph ''ask'') no_input (retry_policy [])
      (no_capture, empty_run_state (\<lambda>_. ()), ()) = (res, cap, st, w)" by (metis prod_cases4)
  from attempts_recorded [OF r] have "res \<noteq> Panics" by (auto simp: example_env_def)
  with r show ?thesis by blast
qed

text \<open>whatever a node's settings say, an invocation has between one and eight attempts and waits
  between none and five minutes before the next.\<close>

theorem retry_policy_bounded:
  "1 \<le> attempts (retry_policy settings) \<and> attempts (retry_policy settings) \<le> 8 \<and>
   0 \<le> retry_wait (retry_policy settings) \<and> retry_wait (retry_policy settings) \<le> 5 * 60 * 1000000000"
  using retry_attempts [of settings] retry_wait_bounds [of settings] by simp

subsection \<open>Secrets\<close>

text \<open>C36: an error text that was scrubbed with a secret does not contain it, for every secret that is not
  empty, shares no bracket and is not found inside the redaction's own word; whatever other secrets are
  scrubbed before and after it.\<close>

theorem secrets_scrubbed:
  assumes "secret \<in> set secrets" "secret \<noteq> []" "CHR ''['' \<notin> set secret" "CHR '']'' \<notin> set secret"
    and "\<not> contains_sub ''redacted'' secret"
  shows "\<not> contains_sub (scrub_text message secrets) secret"
  using assms by (intro scrub_text_removes) (simp_all add: scrubbable_def left_mark_def right_mark_def marker_word_def)

theorem secrets_scrubbed_example: "\<not> contains_sub (scrub_text ''key s3 bad'' [''x'', ''s3'']) ''s3''"
proof -
  have "\<not> contains_sub ''redacted'' ''s3''" by code_simp
  then show ?thesis by (intro secrets_scrubbed) simp_all
qed

subsection \<open>Lineage\<close>

text \<open>After \<open>anchorFanOuts\<close> two different items of one output never share an origin, if they shared one
  before: every item that a fan-out made can be told from its siblings.\<close>

theorem fan_outs_distinct:
  assumes "CHR 0x00 \<notin> set (in_id n)" "\<forall>q \<in> set (def_outputs (in_definition n)). CHR 0x00 \<notin> set (port_name q)"
    and "distinct (map port_name (def_outputs (in_definition n)))" "length output = length (def_outputs (in_definition n))"
    and "p < length output" "i < length (output ! p)" "q < length output" "j < length (output ! q)" "(p, i) \<noteq> (q, j)"
    and "origin_key_of (item_paired (output ! p ! i)) = origin_key_of (item_paired (output ! q ! j))"
    and "origin_key_of (item_paired (output ! p ! i)) \<noteq> []"
  shows "origin_key_of (item_paired (anchor_fan_outs n output index ! p ! i)) \<noteq>
    origin_key_of (item_paired (anchor_fan_outs n output index ! q ! j))"
proof (rule anchored_distinct [OF assms(1) _ _ assms(5-11)])
  show "CHR 0x00 \<notin> set (port_name_at n k)" for k using assms(2) by (simp add: port_name_at_def)
  show "p = q" if "port_name_at n p = port_name_at n q"
    using that assms(3-5,7) by (simp add: port_name_at_def distinct_conv_nth) metis
  show "2 \<le> count_list (map (\<lambda>it. origin_key_of (item_paired it)) (concat output)) (origin_key_of (item_paired (output ! p ! i)))"
    by (rule count_shared [OF assms(5-9)]) (simp_all add: assms(10))
qed

theorem fan_outs_distinct_example:
  "let origin = Some (PairedItem ''a'' ''main'' 0 0 False None);
       it = \<lparr>item_json = [], item_binary = [], item_paired = origin\<rparr>;
       n = example_step ''split'' ''edit'' [item_stream main_port]
   in origin_key_of (item_paired (anchor_fan_outs n [[it, it]] 0 ! 0 ! 0)) \<noteq>
      origin_key_of (item_paired (anchor_fan_outs n [[it, it]] 0 ! 0 ! 1))"
  unfolding Let_def
  by (rule fan_outs_distinct)
    (simp_all add: example_step_def example_type_def item_stream_def main_port_def origin_key_of_def origin_key_def nul_def)

text \<open>Bounding a lineage keeps at most the given number of levels, the nearest ones and the root, and
  leaves a lineage that fits as it is.\<close>

theorem lineage_bounded:
  assumes "0 < limit"
  shows "length (levels (bounded_lineage origin limit)) \<le> limit \<and>
    (length (levels origin) \<le> limit \<longrightarrow> bounded_lineage origin limit = origin) \<and>
    map flat (take (limit - 1) (levels (bounded_lineage origin limit))) = map flat (take (limit - 1) (levels origin)) \<and>
    (origin \<noteq> None \<longrightarrow> flat (last (levels (bounded_lineage origin limit))) = flat (last (levels origin)))"
proof -
  have keep: "bounded_lineage origin limit = origin" if "length (levels origin) \<le> limit"
    using that by (simp add: bounded_lineage_def Let_def)
  have cut: "map flat (levels (bounded_lineage origin limit)) = map flat (take (limit - 1) (levels origin)) @ [flat (last (levels origin))]"
    if "\<not> length (levels origin) \<le> limit" using that by (simp add: levels_bounded)
  show ?thesis
  proof (cases "length (levels origin) \<le> limit")
    case False
    have len: "length (take (limit - 1) (levels origin)) = limit - 1" using False by simp
    have "levels (bounded_lineage origin limit) \<noteq> []" using cut [OF False] by auto
    then have "flat (last (levels (bounded_lineage origin limit))) = flat (last (levels origin))"
      using cut [OF False] by (metis last_map last_snoc)
    moreover have "map flat (take (limit - 1) (levels (bounded_lineage origin limit))) = map flat (take (limit - 1) (levels origin))"
      using cut [OF False] len by (simp add: take_map [symmetric])
    ultimately show ?thesis using levels_bounded_length [OF assms] False by blast
  qed (simp add: keep)
qed

theorem lineage_bounded_example:
  "length (levels (bounded_lineage (Some (PairedItem ''a'' [] 0 0 False (Some (PairedItem ''b'' [] 0 0 False None)))) 1)) \<le> 1"
  using lineage_bounded [of 1] by simp

text \<open>Stamping an output changes nothing but the stamps, stamps every item, and where a node turned its
  one input stream item by item gives each output item the origin of the input item at its place.\<close>

theorem stamps_complete:
  assumes "p < length output" "i < length (output ! p)"
  shows "(let it = stamp_provenance runs n edges input output ! p ! i in
      item_json it = item_json (output ! p ! i) \<and> item_binary it = item_binary (output ! p ! i) \<and> item_paired it \<noteq> None) \<and>
    (\<forall>e origin. lineage_sources edges input = [e] \<and> length (input (end_port (edge_target e))) = length (output ! p) \<and>
       item_paired (output ! p ! i) = None \<and> item_paired (input (end_port (edge_target e)) ! i) = Some origin \<and> \<not> lost origin \<longrightarrow>
       item_paired (stamp_provenance runs n edges input output ! p ! i) = Some origin)"
proof -
  obtain stamp where "stamp_provenance runs n edges input output ! p ! i = stamp_item stamp (output ! p ! i)"
    using stamp_provenance_nth [OF assms] by blast
  then have "let it = stamp_provenance runs n edges input output ! p ! i in
      item_json it = item_json (output ! p ! i) \<and> item_binary it = item_binary (output ! p ! i) \<and> item_paired it \<noteq> None"
    using stamp_item_same [of stamp "output ! p ! i"] stamp_item_stamped [of stamp "output ! p ! i"]
    by (simp add: same_but_lineage_def Let_def)
  then show ?thesis by (intro conjI allI impI stamp_provenance_one_to_one [OF _ _ assms]) auto
qed

theorem stamps_complete_example:
  "item_paired (stamp_provenance 0 (example_step ''a'' ''start'' []) [] no_input [example_items] ! 0 ! 1) \<noteq> None"
  using stamps_complete [of 0 "[example_items]" 1] by (simp add: example_items_def Let_def)

text \<open>C40: pairing an item with another node's items never gives a position outside them, and gives the
  position of the only item with the same origin when nothing names a position directly.\<close>

theorem pairing_sound:
  assumes "length (ni_origins ni) = length (ni_items ni)"
  shows "(\<forall>i. pair_index name ni key origin index = Inr i \<longrightarrow> i < length (ni_items ni)) \<and>
    (\<forall>i. named_item_position ni origin = None \<and> length (ni_items ni) \<noteq> 1 \<and> i < length (ni_origins ni) \<and>
       ni_origins ni ! i = key \<and> key \<noteq> [] \<and> (\<forall>j < length (ni_origins ni). ni_origins ni ! j = key \<longrightarrow> j = i) \<longrightarrow>
       pair_index name ni key origin index = Inr i)"
proof (intro conjI allI impI)
  have shape: "item_shape ni" using assms by (simp add: item_shape_def)
  show "i < length (ni_items ni)" if "pair_index name ni key origin index = Inr i" for i
    using pair_index_bound [OF shape that] .
  show "pair_index name ni key origin index = Inr i"
    if "named_item_position ni origin = None \<and> length (ni_items ni) \<noteq> 1 \<and> i < length (ni_origins ni) \<and>
       ni_origins ni ! i = key \<and> key \<noteq> [] \<and> (\<forall>j < length (ni_origins ni). ni_origins ni ! j = key \<longrightarrow> j = i)" for i
    using that by (intro pair_index_unique [OF _ _ shape]) blast+
qed

theorem pairing_sound_example:
  "\<exists>ni. length (ni_items ni) = 2 \<and> pair_index ''a'' ni ''k2'' None 0 = Inr 1"
proof -
  let ?ni = "(node_item_for (\<lambda>s. s) (example_step ''a'' ''start'' []) [] 0)\<lparr>ni_items := [[], []], ni_origins := [''k1'', ''k2'']\<rparr>"
  have "pair_index ''a'' ?ni ''k2'' None 0 = Inr 1"
    using pairing_sound [of ?ni "''a''" "''k2''" None 0] by (auto simp: named_item_position_def less_Suc_eq)
  then show ?thesis by (intro exI [of _ ?ni]) simp
qed

subsection \<open>Default branches\<close>

text \<open>In every state a run passes through, the outputs an executor is handed for its node's
  expressions are those of exactly the named nodes that a path of item edges leads from to that node:
  the cache of earlier searches changes nothing.\<close>

theorem default_branches:
  assumes "moves quote g (new_run_state g memory) st" "name \<noteq> []"
  shows "aget (fst (connected_outputs_for g k st)) name \<noteq> None \<longleftrightarrow>
    (\<exists>m. (m, k) \<in> {(edge_from e, edge_to e) | e. e \<in> set (live_edges g) \<and> edge_kind e = connection_main}\<^sup>+ \<and>
       in_name (node_at g m) = name)"
proof -
  have "cache_ok g st" using cache.moves_keep [OF assms(1)] by blast
  then have "fst (connected_outputs_for g k st) = connected_outputs g k" using cache_ok_looked_up by blast
  then show ?thesis using connected_outputs_names [OF assms(2)] by (simp add: item_arcs_def is_main_def)
qed

theorem default_branches_example:
  "aget (fst (connected_outputs_for example_graph ''ask'' (new_run_state example_graph (\<lambda>_. ())))) ''ask'' = None"
proof -
  have "set (live_edges example_graph) = {example_edge ''c1'' ''start'' ''ask''}"
  proof -
    have "live_set example_plan [] = {''start'', ''ask''}"
      by (simp add: live_set_def example_plan_def example_step_def insert_commute)
    moreover have "ir_edges example_plan = [example_edge ''c1'' ''start'' ''ask'']" by (simp add: example_plan_def)
    moreover have "edge_from (example_edge ''c1'' ''start'' ''ask'') = ''start''" "edge_to (example_edge ''c1'' ''start'' ''ask'') = ''ask''"
      by (simp_all add: example_edge_def edge_from_def edge_to_def)
    ultimately show ?thesis unfolding prepare_graph_live(2) [OF example_prepared] by auto
  qed
  then have "{(edge_from e, edge_to e) | e. e \<in> set (live_edges example_graph) \<and> edge_kind e = connection_main} = {(''start'', ''ask'')}"
    by (auto simp: example_edge_def edge_from_def edge_to_def)
  note arcs = this
  have start: "in_name (node_at example_graph ''start'') = ''start''" by code_simp
  have from_start: "m = ''start''" if "(m, ''ask'') \<in> {(''start'', ''ask'')}\<^sup>+" for m using tranclD [OF that] by blast
  have "in_name (node_at example_graph m) \<noteq> ''ask''" if "(m, ''ask'') \<in> {(''start'', ''ask'')}\<^sup>+" for m
    unfolding from_start [OF that] start by simp
  moreover have "aget (fst (connected_outputs_for example_graph ''ask'' (new_run_state example_graph (\<lambda>_. ())))) ''ask'' \<noteq> None \<longleftrightarrow>
      (\<exists>m. (m, ''ask'') \<in> {(edge_from e, edge_to e) | e. e \<in> set (live_edges example_graph) \<and> edge_kind e = connection_main}\<^sup>+ \<and>
         in_name (node_at example_graph m) = ''ask'')"
    by (rule default_branches [OF rtranclp.rtrancl_refl]) simp
  ultimately show ?thesis unfolding arcs by blast
qed

end
