(* ===== verification/Resume_Properties.thy ===== *)
theory Resume_Properties
  imports Example_Workflow Resume_Correct
begin






text \<open>A resume is refused when the checkpoint is of another trigger's run, when the graph cannot be
  prepared or has no such node, when that run of the node completed already, or when the output has the
  wrong number of streams; a refused resume executes nothing, completes nothing and changes nothing outside.\<close>

theorem resume_refused:
  assumes "cp_trigger cp \<noteq> trigger \<or> (\<exists>f. prepare_graph plan trigger = Inl f) \<or>
    (\<exists>g. prepare_graph plan trigger = Inr g \<and>
       (cp_node cp \<notin> node_ids g \<or> cp_run cp < length (cp_runs cp (cp_node cp)) \<or>
        length out \<noteq> expected_ports (node_at g (cp_node cp))))"
  shows "\<exists>f st. resume en plan trigger memory cp out render v = Some (Failed f, st, v) \<and>
    rs_started st = [] \<and> rs_completed st = Map.empty \<and> rs_pending st = [] \<and> length (rs_rows st) \<le> 1"
proof -
  have refused: "\<exists>f st. failed_resume memory cp f' e v = Some (Failed f, st, v) \<and> rs_started st = [] \<and>
      rs_completed st = Map.empty \<and> rs_pending st = [] \<and> length (rs_rows st) \<le> 1" for f' e
    by (simp add: failed_resume_def refused_rows_def refused_row_def Let_def)
  consider (other) "cp_trigger cp \<noteq> trigger" | (unprepared) f where "prepare_graph plan trigger = Inl f"
    | (unknown) g where "cp_trigger cp = trigger" "prepare_graph plan trigger = Inr g" "cp_node cp \<notin> node_ids g"
    | (known) g where "cp_trigger cp = trigger" "prepare_graph plan trigger = Inr g" "cp_node cp \<in> node_ids g"
        "cp_run cp < length (cp_runs cp (cp_node cp)) \<or> length out \<noteq> expected_ports (node_at g (cp_node cp))"
    using assms by blast
  then show ?thesis
  proof cases
    case unknown
    then have "aget (pg_nodes g) (cp_node cp) = None" by (simp add: aget_None_iff node_ids_def)
    then show ?thesis using unknown(1,2) refused by (simp add: resume_def Let_def)
  next
    case known
    then show ?thesis using refused by (auto simp: resume_def Let_def node_ids_aget)
  qed (use refused in \<open>auto simp: resume_def Let_def\<close>)
qed

theorem resume_refused_example:
  "\<exists>cp f st. resume (example_env False) example_plan ''other'' (\<lambda>_. ()) cp [] (\<lambda>_. plain_error []) () = Some (Failed f, st, ()) \<and>
     rs_started st = []"
proof -
  let ?cp = "snapshot_checkpoint [] ''ask'' [] no_input 1 (new_run_state example_graph (\<lambda>_. ())) None"
  have "cp_trigger ?cp \<noteq> ''other''" by simp
  then have "\<exists>f st. resume (example_env False) example_plan ''other'' (\<lambda>_. ()) ?cp [] (\<lambda>_. plain_error []) () = Some (Failed f, st, ()) \<and>
      rs_started st = [] \<and> rs_completed st = Map.empty \<and> rs_pending st = [] \<and> length (rs_rows st) \<le> 1"
    by (intro resume_refused disjI1)
  then show ?thesis by blast
qed

end
