(* ===== verification/Sql_Guard.thy ===== *)
theory Sql_Guard
  imports Tags
begin

text \<open>
  The guard before every SQL statement (\<open>internal/sqlguard\<close>): the lexer that splits a text into
  statements (\<open>sqlguard.go\<close>), the grammars of the three servers (\<open>dialect.go\<close>) and the decision whether
  a statement may be sent (\<open>admit.go\<close>).

  The lexer's position is the pair of what it has consumed, latest byte first, and what is left. The
  upper-case table of \<open>strings.ToUpper\<close> is the parameter \<open>up\<close>.
\<close>

subsection \<open>Dialects\<close>

record sql_dialect =
  sd_name :: string
  sd_brackets :: bool
  sd_backticks :: bool
  sd_dollars :: bool
  sd_escapes :: bool
  sd_may_escape :: bool
  sd_always_escapes :: bool
  sd_double_strings :: bool
  sd_nested :: bool
  sd_hash :: bool
  sd_dash_space :: bool
  sd_executable :: bool
  sd_allowed :: "string list"
  sd_two_word :: "(string \<times> string list) list"
  sd_phrases :: "string list list"
  sd_names :: "string list"

definition with_known_backslashes :: "bool \<Rightarrow> sql_dialect \<Rightarrow> sql_dialect" where
  "with_known_backslashes escapes d = d\<lparr>sd_may_escape := False, sd_always_escapes := escapes\<rparr>"

definition backslash_readings :: "sql_dialect \<Rightarrow> bool list" where
  "backslash_readings d = (if sd_may_escape d then [True, False] else [sd_always_escapes d])"

definition sqlite_guard :: sql_dialect where
  "sqlite_guard = \<lparr>sd_name = ''sqlite'', sd_brackets = True, sd_backticks = True, sd_dollars = False,
     sd_escapes = False, sd_may_escape = False, sd_always_escapes = False, sd_double_strings = False,
     sd_nested = False, sd_hash = False, sd_dash_space = False, sd_executable = False,
     sd_allowed = [''SELECT'', ''VALUES'', ''TABLE'', ''WITH'', ''INSERT'', ''UPDATE'', ''DELETE'', ''REPLACE''],
     sd_two_word =
       [(''CREATE'', [''TABLE'', ''INDEX'', ''UNIQUE'', ''TEMP'', ''TEMPORARY'', ''VIRTUAL'', ''VIEW'']),
        (''DROP'', [''TABLE'', ''INDEX'', ''VIEW'']), (''ALTER'', [''TABLE''])],
     sd_phrases = [], sd_names = []\<rparr>"

definition postgres_guard :: sql_dialect where
  "postgres_guard = \<lparr>sd_name = ''postgres'', sd_brackets = False, sd_backticks = False, sd_dollars = True,
     sd_escapes = True, sd_may_escape = True, sd_always_escapes = False, sd_double_strings = False,
     sd_nested = True, sd_hash = False, sd_dash_space = False, sd_executable = False,
     sd_allowed = [''SELECT'', ''VALUES'', ''TABLE'', ''WITH'', ''INSERT'', ''UPDATE'', ''DELETE'', ''MERGE'',
       ''TRUNCATE'', ''SHOW'', ''ANALYZE''],
     sd_two_word =
       [(''CREATE'', [''TABLE'', ''INDEX'', ''UNIQUE'', ''TEMP'', ''TEMPORARY'', ''VIEW'', ''MATERIALIZED'',
           ''SCHEMA'', ''TYPE'', ''SEQUENCE'']),
        (''DROP'', [''TABLE'', ''INDEX'', ''VIEW'', ''MATERIALIZED'', ''SCHEMA'', ''TYPE'', ''SEQUENCE'']),
        (''ALTER'', [''TABLE'', ''INDEX'', ''VIEW'', ''SEQUENCE'', ''MATERIALIZED''])],
     sd_phrases = [[''GRANT''], [''REVOKE''],
       [''CREATE'', ''TRIGGER''], [''CREATE'', ''FUNCTION''], [''CREATE'', ''PROCEDURE''],
       [''CREATE'', ''OR'', ''REPLACE'', ''FUNCTION''], [''CREATE'', ''OR'', ''REPLACE'', ''PROCEDURE''],
       [''CREATE'', ''OR'', ''REPLACE'', ''TRIGGER'']],
     sd_names = [''PG_READ_FILE'', ''PG_READ_BINARY_FILE'', ''PG_LS_DIR'', ''PG_STAT_FILE'', ''LO_IMPORT'',
       ''LO_EXPORT'', ''DBLINK'']\<rparr>"

definition mysql_guard :: sql_dialect where
  "mysql_guard = \<lparr>sd_name = ''mysql'', sd_brackets = False, sd_backticks = True, sd_dollars = False,
     sd_escapes = False, sd_may_escape = True, sd_always_escapes = False, sd_double_strings = True,
     sd_nested = False, sd_hash = True, sd_dash_space = True, sd_executable = True,
     sd_allowed = [''SELECT'', ''VALUES'', ''WITH'', ''INSERT'', ''UPDATE'', ''DELETE'', ''REPLACE'', ''TRUNCATE'',
       ''SHOW'', ''DESCRIBE'', ''DESC''],
     sd_two_word =
       [(''CREATE'', [''TABLE'', ''INDEX'', ''UNIQUE'', ''TEMPORARY'', ''VIEW'']),
        (''DROP'', [''TABLE'', ''INDEX'', ''VIEW'']), (''ALTER'', [''TABLE''])],
     sd_phrases = [[''INTO'', ''OUTFILE''], [''INTO'', ''DUMPFILE''], [''GRANT''], [''REVOKE''],
       [''CREATE'', ''TRIGGER''], [''CREATE'', ''FUNCTION''], [''CREATE'', ''PROCEDURE'']],
     sd_names = [''LOAD_FILE'']\<rparr>"

subsection \<open>The lexer's state\<close>

datatype sql_refusal =
    NothingToRun
  | SeveralStatements nat
  | UnicodeEscaped
  | QuoteUnclosed
  | DollarUnclosed
  | ForbiddenPhrase "string list"
  | ForbiddenName string
  | CteNamesNothing
  | CteUnreadable
  | CteUnclosed
  | PairNotAdmitted string string
  | NotAdmitted string "string list"

record statement =
  st_names :: "string list"
  st_words :: "string list"

record lexer =
  lx_before :: string
  lx_rest :: string
  lx_statements :: "statement list"
  lx_current :: statement
  lx_word :: string
  lx_last_name :: string

definition no_statement :: statement where
  "no_statement = \<lparr>st_names = [], st_words = []\<rparr>"

definition lexer_start :: "string \<Rightarrow> lexer" where
  "lexer_start text = \<lparr>lx_before = [], lx_rest = text, lx_statements = [], lx_current = no_statement,
     lx_word = [], lx_last_name = []\<rparr>"

definition advance :: "nat \<Rightarrow> lexer \<Rightarrow> lexer" where
  "advance n l = l\<lparr>lx_before := rev (take n (lx_rest l)) @ lx_before l, lx_rest := drop n (lx_rest l)\<rparr>"

definition is_word_byte :: "char \<Rightarrow> bool" where
  "is_word_byte c = (let b = (of_char c :: nat) in
     b = 95 \<or> 128 \<le> b \<or> (97 \<le> b \<and> b \<le> 122) \<or> (65 \<le> b \<and> b \<le> 90) \<or> (48 \<le> b \<and> b \<le> 57))"

definition is_tag_byte :: "char \<Rightarrow> bool \<Rightarrow> bool" where
  "is_tag_byte c first = (let b = (of_char c :: nat) in
     b = 95 \<or> 128 \<le> b \<or> (97 \<le> b \<and> b \<le> 122) \<or> (65 \<le> b \<and> b \<le> 90) \<or> (\<not> first \<and> 48 \<le> b \<and> b \<le> 57))"

definition upper_byte :: "char \<Rightarrow> char" where
  "upper_byte c = (let b = (of_char c :: nat) in if 97 \<le> b \<and> b \<le> 122 then char_of (b - 32) else c)"

definition starts_with_space :: "string \<Rightarrow> bool" where
  "starts_with_space s \<longleftrightarrow>
     s = [] \<or> hd s \<in> {CHR '' '', CHR 0x09, CHR 0x0A, CHR 0x0D, CHR 0x0B, CHR 0x0C}"

definition line_length :: "string \<Rightarrow> nat" where
  "line_length rest =
     (let line = takeWhile (\<lambda>c. c \<noteq> CHR 0x0A) rest
      in if length line < length rest then Suc (length line) else length rest)"

definition end_word :: "lexer \<Rightarrow> lexer" where
  "end_word l =
     (if lx_word l = [] then l
      else l\<lparr>lx_current := (lx_current l)\<lparr>st_words := st_words (lx_current l) @ [lx_word l]\<rparr>, lx_word := []\<rparr>)"

definition end_statement :: "lexer \<Rightarrow> lexer" where
  "end_statement l =
     l\<lparr>lx_statements := lx_statements l @ (if st_words (lx_current l) = [] then [] else [lx_current l]),
       lx_current := no_statement\<rparr>"

definition add_word :: "string \<Rightarrow> lexer \<Rightarrow> lexer" where
  "add_word w l = l\<lparr>lx_current := (lx_current l)\<lparr>st_words := st_words (lx_current l) @ [w]\<rparr>\<rparr>"

subsection \<open>Comments\<close>

text \<open>How long a block comment's text is, after its opening; the whole rest when it is never closed.\<close>

function block_length :: "bool \<Rightarrow> int \<Rightarrow> string \<Rightarrow> nat" where
  "block_length nested depth s =
     (if s = [] then 0
      else if nested \<and> is_prefix ''/*'' s then 2 + block_length nested (depth + 1) (drop 2 s)
      else if is_prefix ''*/'' s then (if depth = 1 then 2 else 2 + block_length nested (depth - 1) (drop 2 s))
      else 1 + block_length nested depth (tl s))"
  by pat_completeness auto
termination by (relation "measure (\<lambda>(_, _, s). length s)") auto

declare block_length.simps [simp del]

definition skip_block_comment :: "bool \<Rightarrow> lexer \<Rightarrow> lexer" where
  "skip_block_comment nested l =
     (let l = advance 2 l in advance (block_length nested 1 (lx_rest l)) l)"

definition skip_version_digits :: "lexer \<Rightarrow> lexer" where
  "skip_version_digits l = advance (length (takeWhile is_digit (lx_rest l))) l"

definition skip_comment :: "sql_dialect \<Rightarrow> lexer \<Rightarrow> lexer option" where
  "skip_comment d l =
     (let rest = lx_rest l in
      if is_prefix ''--'' rest
      then (if sd_dash_space d \<and> \<not> starts_with_space (drop 2 rest) then None
            else Some (advance (line_length rest) l))
      else if sd_hash d \<and> is_prefix ''#'' rest then Some (advance (line_length rest) l)
      else if is_prefix ''/*'' rest
      then (if sd_executable d \<and> (is_prefix ''/*!'' rest \<or> is_prefix ''/*M!'' rest)
            then (let l = advance 3 l;
                      l = (if is_prefix ''!'' (lx_rest l) then advance 1 l else l)
                  in Some (skip_version_digits l))
            else Some (skip_block_comment (sd_nested d) l))
      else None)"

subsection \<open>Quoted text\<close>

definition at_token_start :: "lexer \<Rightarrow> bool" where
  "at_token_start l \<longleftrightarrow> lx_before l = [] \<or> \<not> is_word_byte (hd (lx_before l))"

text \<open>The tag after the opening dollar, with the closing one.\<close>

fun tag_rest :: "bool \<Rightarrow> string \<Rightarrow> string option" where
  "tag_rest first [] = None"
| "tag_rest first (c # s) =
     (if c = CHR ''$'' then Some [c]
      else if \<not> is_tag_byte c first then None
      else map_option (\<lambda>t. c # t) (tag_rest False s))"

definition dollar_tag :: "lexer \<Rightarrow> string" where
  "dollar_tag l =
     (case lx_rest l of
        [] \<Rightarrow> []
      | c # s \<Rightarrow> (case tag_rest True s of None \<Rightarrow> [] | Some t \<Rightarrow> c # t))"

definition next_is :: "nat \<Rightarrow> char list \<Rightarrow> string \<Rightarrow> bool" where
  "next_is k cs s \<longleftrightarrow> k < length s \<and> s ! k \<in> set cs"

definition at_quoted :: "sql_dialect \<Rightarrow> lexer \<Rightarrow> bool" where
  "at_quoted d l =
     (let rest = lx_rest l; c = hd rest in
      if c = CHR 0x27 \<or> c = CHR 0x22 then True
      else if c = CHR 0x60 \<and> sd_backticks d then True
      else if c = CHR ''['' \<and> sd_brackets d then True
      else if c = CHR ''$'' \<and> sd_dollars d then dollar_tag l \<noteq> []
      else if (c = CHR ''U'' \<or> c = CHR ''u'') \<and> sd_escapes d \<and> at_token_start l
      then next_is 1 [CHR ''&''] rest \<and> next_is 2 [CHR 0x27, CHR 0x22] rest
      else if (c = CHR ''E'' \<or> c = CHR ''e'') \<and> sd_escapes d then at_token_start l \<and> next_is 1 [CHR 0x27] rest
      else if (c = CHR ''x'' \<or> c = CHR ''X'') \<and> next_is 1 [CHR 0x27] rest then at_token_start l
      else False)"

text \<open>How long the text before the closing delimiter is.\<close>

fun quoted_length :: "bool \<Rightarrow> char \<Rightarrow> string \<Rightarrow> nat option" where
  "quoted_length backslash close [] = None"
| "quoted_length backslash close [c] = (if c = close then Some 0 else None)"
| "quoted_length backslash close (c # c' # s) =
     (if backslash \<and> c = CHR 0x5C then map_option (\<lambda>k. k + 2) (quoted_length backslash close s)
      else if c = close
      then (if close \<noteq> CHR '']'' \<and> c' = close then map_option (\<lambda>k. k + 2) (quoted_length backslash close s)
            else Some 0)
      else map_option Suc (quoted_length backslash close (c' # s)))"

text \<open>\<open>strings.Index\<close> in the text after a dollar quote's opening tag.\<close>

fun index_of :: "string \<Rightarrow> string \<Rightarrow> nat option" where
  "index_of p [] = (if p = [] then Some 0 else None)"
| "index_of p (c # s) = (if is_prefix p (c # s) then Some 0 else map_option Suc (index_of p s))"

definition consume_dollar_quoted :: "lexer \<Rightarrow> sql_refusal + lexer" where
  "consume_dollar_quoted l =
     (let tag = dollar_tag l; l = advance (length tag) l in
      case index_of tag (lx_rest l) of
        Some end' \<Rightarrow> Inr (advance (end' + length tag) l)
      | None \<Rightarrow> Inl DollarUnclosed)"

definition upper_text :: "(nat \<Rightarrow> nat) \<Rightarrow> string \<Rightarrow> string" where
  "upper_text up s = encode_runes (map up (runes s))"

definition is_letter_of :: "char \<Rightarrow> string \<Rightarrow> bool" where
  "is_letter_of c s \<longleftrightarrow> c \<in> set s"

text \<open>From the opening delimiter on: where the name or string ends, and what a name spells.\<close>

definition consume_delimited :: "(nat \<Rightarrow> nat) \<Rightarrow> sql_dialect \<Rightarrow> bool \<Rightarrow> lexer \<Rightarrow> sql_refusal + lexer" where
  "consume_delimited up d backslash l =
     (let opening' = hd (lx_rest l);
          identifier = (opening' = CHR 0x60 \<or> opening' = CHR ''['' \<or>
            (opening' = CHR 0x22 \<and> \<not> sd_double_strings d));
          close = (if opening' = CHR ''['' then CHR '']'' else opening');
          l = advance 1 l
      in case quoted_length (backslash \<and> \<not> identifier) close (lx_rest l) of
           None \<Rightarrow> Inl QuoteUnclosed
         | Some k \<Rightarrow>
             Inr (advance (Suc k)
               (l\<lparr>lx_last_name := (if identifier then upper_text up (take k (lx_rest l)) else lx_last_name l)\<rparr>)))"

definition consume_quoted :: "(nat \<Rightarrow> nat) \<Rightarrow> sql_dialect \<Rightarrow> bool \<Rightarrow> lexer \<Rightarrow> sql_refusal + lexer" where
  "consume_quoted up d escapes l =
     (let c = hd (lx_rest l) in
      if sd_dollars d \<and> c = CHR ''$'' then consume_dollar_quoted l
      else if is_letter_of c ''Uu'' \<and> sd_escapes d \<and> next_is 1 [CHR ''&''] (lx_rest l) then Inl UnicodeEscaped
      else if is_letter_of c ''EexX''
      then consume_delimited up d (is_letter_of c ''Ee'' \<and> sd_escapes d \<or> escapes) (advance 1 l)
      else consume_delimited up d escapes l)"

subsection \<open>The lexer\<close>

text \<open>A single quote stands in for any string or quoted name.\<close>

definition quoted_token :: string where "quoted_token = [CHR 0x27]"

definition after_quoted :: "lexer \<Rightarrow> lexer" where
  "after_quoted l =
     (let l = add_word quoted_token (end_word l) in
      if lx_last_name l = [] then l
      else l\<lparr>lx_current := (lx_current l)\<lparr>st_names := st_names (lx_current l) @ [lx_last_name l]\<rparr>, lx_last_name := []\<rparr>)"

definition consume_bare :: "lexer \<Rightarrow> lexer" where
  "consume_bare l =
     (let c = hd (lx_rest l) in
      if is_word_byte c then advance 1 (l\<lparr>lx_word := lx_word l @ [upper_byte c]\<rparr>)
      else
        (let l = end_word l;
             l = (if is_letter_of c ''(),'' then add_word [c] l else l)
         in advance 1 l))"

lemma advance_rest [simp]: "lx_rest (advance n l) = drop n (lx_rest l)"
  by (simp add: advance_def)

lemma end_rest [simp]: "lx_rest (end_word l) = lx_rest l" "lx_rest (end_statement l) = lx_rest l"
  "lx_rest (add_word w l) = lx_rest l" "lx_rest (after_quoted l) = lx_rest l"
  by (simp_all add: end_word_def end_statement_def add_word_def after_quoted_def Let_def)

lemma line_length_pos: "rest \<noteq> [] \<Longrightarrow> 0 < line_length rest"
  by (simp add: line_length_def Let_def)

lemma is_prefix_nonempty: "is_prefix p s \<Longrightarrow> p \<noteq> [] \<Longrightarrow> s \<noteq> []"
  by (auto simp: is_prefix_def)

lemma skip_comment_decreases: "skip_comment d l = Some l' \<Longrightarrow> length (lx_rest l') < length (lx_rest l)"
  using line_length_pos [of "lx_rest l"]
  by (auto simp: skip_comment_def skip_block_comment_def skip_version_digits_def Let_def
      split: if_split_asm dest!: is_prefix_nonempty)

lemma tag_rest_nonempty: "tag_rest first s = Some t \<Longrightarrow> t \<noteq> []"
  by (induction s arbitrary: first t) (auto split: if_split_asm)

lemma consume_dollar_decreases:
  assumes "dollar_tag l \<noteq> []" "consume_dollar_quoted l = Inr l'"
  shows "length (lx_rest l') < length (lx_rest l)"
  using assms by (auto simp: consume_dollar_quoted_def Let_def dollar_tag_def split: option.splits list.splits)

lemma consume_quoted_decreases:
  assumes "lx_rest l \<noteq> []" "at_quoted d l" "consume_quoted up d escapes l = Inr l'"
  shows "length (lx_rest l') < length (lx_rest l)"
proof (cases "sd_dollars d \<and> hd (lx_rest l) = CHR ''$''")
  case True
  then have "dollar_tag l \<noteq> []" using assms(2) by (simp add: at_quoted_def Let_def)
  then show ?thesis using assms(3) True consume_dollar_decreases by (simp add: consume_quoted_def Let_def)
next
  case False
  have "length (lx_rest l0') < length (lx_rest l0)"
    if "consume_delimited up d b l0 = Inr l0'" "lx_rest l0 \<noteq> []" for b l0 l0'
    using that by (auto simp: consume_delimited_def Let_def split: option.split_asm)
  moreover have "length (lx_rest l0') < length (lx_rest l)"
    if "consume_delimited up d b (advance 1 l) = Inr l0'" for b l0'
    using that assms(1) by (auto simp: consume_delimited_def Let_def split: option.split_asm)
  ultimately show ?thesis using assms False
    by (auto simp: consume_quoted_def Let_def split: if_split_asm)
qed

lemma consume_bare_rest [simp]: "lx_rest (consume_bare l) = tl (lx_rest l)"
  by (simp add: consume_bare_def Let_def drop_Suc)

function lex :: "(nat \<Rightarrow> nat) \<Rightarrow> sql_dialect \<Rightarrow> bool \<Rightarrow> lexer \<Rightarrow> sql_refusal + statement list" where
  "lex up d escapes l =
     (if lx_rest l = [] then Inr (lx_statements (end_statement (end_word l)))
      else
        case skip_comment d l of
          Some l' \<Rightarrow> lex up d escapes (end_word l')
        | None \<Rightarrow>
            if at_quoted d l
            then (case consume_quoted up d escapes l of
                    Inl e \<Rightarrow> Inl e
                  | Inr l' \<Rightarrow> lex up d escapes (after_quoted l'))
            else if hd (lx_rest l) = CHR '';'' then lex up d escapes (advance 1 (end_statement (end_word l)))
            else lex up d escapes (consume_bare l))"
  by pat_completeness auto
termination
  by (relation "measure (\<lambda>(_, _, _, l). length (lx_rest l))")
    (auto dest: skip_comment_decreases consume_quoted_decreases)

declare lex.simps [simp del]

definition split_statements :: "(nat \<Rightarrow> nat) \<Rightarrow> sql_dialect \<Rightarrow> string \<Rightarrow> bool \<Rightarrow> sql_refusal + statement list" where
  "split_statements up d text escapes = lex up d escapes (lexer_start text)"

subsection \<open>The decision\<close>

definition contains_word :: "string list \<Rightarrow> string \<Rightarrow> bool" where
  "contains_word ws want \<longleftrightarrow> want \<in> set ws"

fun starts_with_phrase :: "string list \<Rightarrow> string list \<Rightarrow> bool" where
  "starts_with_phrase ws [] \<longleftrightarrow> True"
| "starts_with_phrase [] (p # ps) \<longleftrightarrow> False"
| "starts_with_phrase (w # ws) (p # ps) \<longleftrightarrow> w = p \<and> starts_with_phrase ws ps"

fun phrase_within :: "string list \<Rightarrow> string list \<Rightarrow> bool" where
  "phrase_within [] phrase \<longleftrightarrow> False"
| "phrase_within (w # ws) phrase \<longleftrightarrow> starts_with_phrase (w # ws) phrase \<or> phrase_within ws phrase"

definition contains_phrase :: "string list \<Rightarrow> string list \<Rightarrow> bool" where
  "contains_phrase ws phrase \<longleftrightarrow> phrase \<noteq> [] \<and> phrase_within ws phrase"

definition refuse_forbidden_phrases :: "sql_dialect \<Rightarrow> statement \<Rightarrow> sql_refusal option" where
  "refuse_forbidden_phrases d st =
     (case List.find (contains_phrase (st_words st)) (sd_phrases d) of
        Some phrase \<Rightarrow> Some (ForbiddenPhrase phrase)
      | None \<Rightarrow>
          map_option ForbiddenName
            (List.find (\<lambda>n. contains_phrase (st_words st) [n] \<or> contains_word (st_names st) n) (sd_names d)))"

text \<open>The words after the parenthesis group that opens the list; \<open>None\<close> when it is never closed.\<close>

fun skip_balanced :: "int \<Rightarrow> string list \<Rightarrow> string list option" where
  "skip_balanced depth [] = None"
| "skip_balanced depth (w # ws) =
     (if w = ''('' then skip_balanced (depth + 1) ws
      else if w = '')'' then (if depth = 1 then Some ws else skip_balanced (depth - 1) ws)
      else skip_balanced depth ws)"

definition is_statement_keyword :: "string \<Rightarrow> bool" where
  "is_statement_keyword w \<longleftrightarrow>
     w \<in> {''SELECT'', ''INSERT'', ''UPDATE'', ''DELETE'', ''MERGE'', ''VALUES'', ''TABLE'', ''REPLACE''}"

definition create_modifiers :: "string list" where
  "create_modifiers = [''OR'', ''REPLACE'', ''UNLOGGED'', ''GLOBAL'', ''LOCAL'', ''IF'', ''NOT'', ''EXISTS'', ''CONCURRENTLY'']"

text \<open>\<open>SEARCH\<close> and \<open>CYCLE\<close> clauses run to the next statement keyword, which is neither of the two words.\<close>

definition skip_search :: "string list \<Rightarrow> string list" where
  "skip_search ws =
     (if ws \<noteq> [] \<and> hd ws \<in> {''SEARCH'', ''CYCLE''} then dropWhile (\<lambda>w. \<not> is_statement_keyword w) ws else ws)"

text \<open>
  One round of the loop over common table expressions, at the expression's name: the words after it. The index
  of the source is the suffix of the words it points to.
\<close>

definition one_cte :: "string list \<Rightarrow> sql_refusal + string list" where
  "one_cte ws =
     (if ws = [] then Inl CteNamesNothing
      else
        (let ws = tl ws in
         case (if ws \<noteq> [] \<and> hd ws = ''('' then skip_balanced 0 ws else Some ws) of
           None \<Rightarrow> Inl CteUnclosed
         | Some ws \<Rightarrow>
             (let ws = dropWhile (\<lambda>w. w \<in> {''AS'', ''NOT'', ''MATERIALIZED''}) ws in
              if ws = [] \<or> hd ws \<noteq> ''('' then Inl CteUnreadable
              else
                case skip_balanced 0 ws of
                  None \<Rightarrow> Inl CteUnclosed
                | Some ws \<Rightarrow> Inr (skip_search ws))))"

lemma skip_balanced_shorter: "skip_balanced n ws = Some ws' \<Longrightarrow> length ws' < length ws"
  by (induction n ws rule: skip_balanced.induct) (auto split: if_split_asm)

lemma skip_search_length: "length (skip_search ws) \<le> length ws"
  by (simp add: skip_search_def length_dropWhile_le)

lemma one_cte_shorter:
  assumes "one_cte ws = Inr ws'"
  shows "length ws' < length ws"
proof -
  let ?arg = "\<lambda>w. w \<in> {''AS'', ''NOT'', ''MATERIALIZED''}"
  obtain a b where ab: "(if tl ws \<noteq> [] \<and> hd (tl ws) = ''('' then skip_balanced 0 (tl ws) else Some (tl ws)) = Some a"
    "skip_balanced 0 (dropWhile ?arg a) = Some b" "ws' = skip_search b" "ws \<noteq> []"
    using assms by (simp add: one_cte_def Let_def split: if_split_asm option.split_asm)
  have "length a \<le> length (tl ws)"
    using ab(1) skip_balanced_shorter by (fastforce split: if_split_asm)
  moreover have "length b < length (dropWhile ?arg a)" using ab(2) skip_balanced_shorter by blast
  moreover have "length (dropWhile ?arg a) \<le> length a" by (rule length_dropWhile_le)
  moreover have "length ws' \<le> length b" using ab(3) skip_search_length by simp
  moreover have "length (tl ws) < length ws" using ab(4) by simp
  ultimately show ?thesis by linarith
qed

function after_ctes :: "string list \<Rightarrow> sql_refusal + string list" where
  "after_ctes ws =
     (case one_cte ws of
        Inl e \<Rightarrow> Inl e
      | Inr ws' \<Rightarrow>
          if ws' \<noteq> [] \<and> hd ws' = '','' then after_ctes (tl ws')
          else if ws' = [] then Inl CteNamesNothing
          else Inr ws')"
  by pat_completeness auto
termination
  by (relation "measure length") (auto dest!: one_cte_shorter)

declare after_ctes.simps [simp del]

definition after_common_table_expressions :: "string list \<Rightarrow> sql_refusal + string list" where
  "after_common_table_expressions ws =
     (let rest = tl ws in after_ctes (if rest \<noteq> [] \<and> hd rest = ''RECURSIVE'' then tl rest else rest))"

text \<open>The loop over the words between the verb and the kind of object; the list is what follows the verb.\<close>

fun skip_modifiers :: "string list \<Rightarrow> string list" where
  "skip_modifiers (a # b # ws) = (if a \<in> set create_modifiers then skip_modifiers (b # ws) else a # b # ws)"
| "skip_modifiers ws = ws"

fun insert_sorted :: "string \<Rightarrow> string list \<Rightarrow> string list" where
  "insert_sorted w [] = [w]"
| "insert_sorted w (x # xs) = (if w < x then w # x # xs else x # insert_sorted w xs)"

definition sort_strings :: "string list \<Rightarrow> string list" where
  "sort_strings ws = foldl (\<lambda>acc w. insert_sorted w acc) [] ws"

definition allowed_list :: "sql_dialect \<Rightarrow> string list" where
  "allowed_list d = sort_strings (sd_allowed d @ map (\<lambda>(w, _). w @ '' TABLE'') (sd_two_word d))"

definition refusal :: "sql_dialect \<Rightarrow> string \<Rightarrow> sql_refusal" where
  "refusal d keyword = NotAdmitted keyword (allowed_list d)"

definition admit_words :: "sql_dialect \<Rightarrow> string list \<Rightarrow> sql_refusal option" where
  "admit_words d ws =
     (let keyword = hd ws in
      if keyword \<in> set (sd_allowed d) then None
      else
        case map_of (sd_two_word d) keyword of
          None \<Rightarrow> Some (refusal d keyword)
        | Some kinds \<Rightarrow>
            (case skip_modifiers (tl ws) of
               [] \<Rightarrow> Some (refusal d keyword)
             | kind # _ \<Rightarrow> if kind \<in> set kinds then None else Some (PairNotAdmitted keyword kind)))"

definition admit :: "sql_dialect \<Rightarrow> statement \<Rightarrow> sql_refusal option" where
  "admit d st =
     (case refuse_forbidden_phrases d st of
        Some e \<Rightarrow> Some e
      | None \<Rightarrow>
          (let ws = dropWhile (\<lambda>w. w = ''('') (st_words st) in
           if ws = [] then Some NothingToRun
           else if hd ws = ''WITH''
           then (case after_common_table_expressions ws of
                   Inl e \<Rightarrow> Some e
                 | Inr ws' \<Rightarrow> admit_words d ws')
           else admit_words d ws))"

definition check_reading :: "(nat \<Rightarrow> nat) \<Rightarrow> sql_dialect \<Rightarrow> string \<Rightarrow> bool \<Rightarrow> sql_refusal option" where
  "check_reading up d text escapes =
     (case split_statements up d text escapes of
        Inl e \<Rightarrow> Some e
      | Inr [] \<Rightarrow> Some NothingToRun
      | Inr [st] \<Rightarrow> admit d st
      | Inr sts \<Rightarrow> Some (SeveralStatements (length sts)))"

fun first_refusal :: "('a \<Rightarrow> 'e option) \<Rightarrow> 'a list \<Rightarrow> 'e option" where
  "first_refusal f [] = None"
| "first_refusal f (x # xs) = (case f x of Some e \<Rightarrow> Some e | None \<Rightarrow> first_refusal f xs)"

definition sql_check :: "(nat \<Rightarrow> nat) \<Rightarrow> sql_dialect \<Rightarrow> string \<Rightarrow> sql_refusal option" where
  "sql_check up d text =
     (if trim_space text = [] then Some NothingToRun
      else first_refusal (check_reading up d text) (backslash_readings d))"

text \<open>The position of the first refused statement and its refusal.\<close>

definition check_all :: "(nat \<Rightarrow> nat) \<Rightarrow> sql_dialect \<Rightarrow> string list \<Rightarrow> (nat \<times> sql_refusal) option" where
  "check_all up d texts =
     first_refusal (\<lambda>(i, t). map_option (\<lambda>e. (i + 1, e)) (sql_check up d t)) (enumerate 0 texts)"

end
