(* ===== verification/Sql_Build.thy ===== *)
theory Sql_Build
  imports Sql_Guard
begin

text \<open>
  The statements the SQL nodes build themselves (\<open>internal/sqlbuild\<close>): the two dialects with their quoting of
  identifiers (\<open>dialect.go\<close>) and the builders of a select, an insert, an update, an upsert and a delete
  (\<open>sqlbuild.go\<close>).

  A bound value is opaque: the type \<open>'v\<close>. The map of column values is an association list whose first entry for
  a name counts. The identifier quoting of the PostgreSQL driver, \<open>pgx.Identifier.Sanitize\<close>, is the parameter
  \<open>sanitize\<close>.
\<close>

subsection \<open>Dialects\<close>

datatype build_error =
    NoIdentifierPart
  | PartEmpty
  | PartHasNul
  | PartTooManyBytes string nat nat
  | PartEndsInSpace string
  | PartTooManyRunes string nat nat
  | NeedsTable
  | InsertNeedsColumn
  | UpdateNeedsMatch
  | UpdateNeedsOtherColumn
  | UpsertNeedsMatch
  | UpsertNeedsColumn
  | DeleteNeedsCondition
  | DeleteModeUnsupported string
  | ComparisonUnknown string string
  | MatchHasNoValue string

record build_dialect =
  bd_name :: string
  bd_quote :: "string \<Rightarrow> string"
  bd_check_part :: "string \<Rightarrow> build_error option"
  bd_placeholder :: "nat \<Rightarrow> string"
  bd_qualifies :: bool
  bd_comparison :: "string \<Rightarrow> string \<Rightarrow> string \<Rightarrow> string option"
  bd_upsert_tail :: "string list \<Rightarrow> string list \<Rightarrow> string list \<Rightarrow> string"
  bd_excluded :: "string \<Rightarrow> string"
  bd_returning_all :: string
  bd_drop_cascade :: string
  bd_truncate_restart :: string
  bd_skip_conflict :: "string \<Rightarrow> string"

definition max_identifier_bytes :: nat where "max_identifier_bytes = 63"
definition max_identifier_runes :: nat where "max_identifier_runes = 64"

definition check_postgres_part :: "string \<Rightarrow> build_error option" where
  "check_postgres_part part =
     (if trim_space part = [] then Some PartEmpty
      else if CHR 0x00 \<in> set part then Some PartHasNul
      else if max_identifier_bytes < length part
      then Some (PartTooManyBytes part (length part) max_identifier_bytes)
      else None)"

definition check_mysql_part :: "string \<Rightarrow> build_error option" where
  "check_mysql_part part =
     (if trim_space part = [] then Some PartEmpty
      else if CHR 0x00 \<in> set part then Some PartHasNul
      else if part \<noteq> [] \<and> last part = CHR '' '' then Some (PartEndsInSpace part)
      else if max_identifier_runes < rune_count part
      then Some (PartTooManyRunes part (rune_count part) max_identifier_runes)
      else None)"

definition comparison_sql :: "(string \<times> string) list" where
  "comparison_sql =
     [(''equals'', ''=''), (''notEquals'', ''<>''), (''gt'', ''>''), (''gte'', ''>=''), (''lt'', ''<''), (''lte'', ''<=''),
      (''like'', ''LIKE''), (''ilike'', ''ILIKE'')]"

definition standard_comparison :: "string \<Rightarrow> string \<Rightarrow> string \<Rightarrow> string option" where
  "standard_comparison column operator bind =
     map_option (\<lambda>symbol. column @ '' '' @ symbol @ '' '' @ bind) (aget comparison_sql operator)"

definition mysql_comparison :: "string \<Rightarrow> string \<Rightarrow> string \<Rightarrow> string option" where
  "mysql_comparison column operator bind =
     (if operator = ''ilike'' then Some (''LOWER('' @ column @ '') LIKE LOWER('' @ bind @ '')'')
      else standard_comparison column operator bind)"

fun join :: "string \<Rightarrow> string list \<Rightarrow> string" where
  "join sep [] = []"
| "join sep [x] = x"
| "join sep (x # y # xs) = x @ sep @ join sep (y # xs)"

definition postgres_skip_conflict :: "string \<Rightarrow> string" where
  "postgres_skip_conflict statement =
     (case index_of '' RETURNING '' statement of
        Some i \<Rightarrow> take i statement @ '' ON CONFLICT DO NOTHING'' @ drop i statement
      | None \<Rightarrow> statement @ '' ON CONFLICT DO NOTHING'')"

definition mysql_skip_conflict :: "string \<Rightarrow> string" where
  "mysql_skip_conflict statement =
     (case index_of ''INSERT INTO '' statement of
        Some i \<Rightarrow> take i statement @ ''INSERT IGNORE INTO '' @ drop (i + length ''INSERT INTO '') statement
      | None \<Rightarrow> statement)"

definition postgres_build :: "(string \<Rightarrow> string) \<Rightarrow> build_dialect" where
  "postgres_build sanitize = \<lparr>bd_name = ''postgres'', bd_quote = sanitize, bd_check_part = check_postgres_part,
     bd_placeholder = (\<lambda>position. ''$'' @ itoa (int position)), bd_qualifies = True,
     bd_comparison = standard_comparison,
     bd_upsert_tail = (\<lambda>quoted matching updates.
       (let tail = '' ON CONFLICT ('' @ join '', '' matching @ '')''
        in if updates = [] then tail @ '' DO NOTHING'' else tail @ '' DO UPDATE SET '' @ join '', '' updates)),
     bd_excluded = (\<lambda>quoted. quoted @ '' = EXCLUDED.'' @ quoted),
     bd_returning_all = '' RETURNING *'', bd_drop_cascade = '' CASCADE'',
     bd_truncate_restart = '' RESTART IDENTITY'', bd_skip_conflict = postgres_skip_conflict\<rparr>"

definition mysql_build :: build_dialect where
  "mysql_build = \<lparr>bd_name = ''mysql'',
     bd_quote = (\<lambda>part. [CHR 0x60] @ replace_all part [CHR 0x60] [CHR 0x60, CHR 0x60] @ [CHR 0x60]),
     bd_check_part = check_mysql_part, bd_placeholder = (\<lambda>_. ''?''), bd_qualifies = False,
     bd_comparison = mysql_comparison,
     bd_upsert_tail = (\<lambda>quoted matching updates.
       (if updates = [] then '' ON DUPLICATE KEY UPDATE '' @ hd matching @ '' = '' @ hd matching
        else '' ON DUPLICATE KEY UPDATE '' @ join '', '' updates)),
     bd_excluded = (\<lambda>quoted. quoted @ '' = VALUES('' @ quoted @ '')''),
     bd_returning_all = [], bd_drop_cascade = [], bd_truncate_restart = [],
     bd_skip_conflict = mysql_skip_conflict\<rparr>"

definition drops_cascade :: "build_dialect \<Rightarrow> bool" where
  "drops_cascade d \<longleftrightarrow> bd_drop_cascade d \<noteq> []"

definition chooses_sequence_restart :: "build_dialect \<Rightarrow> bool" where
  "chooses_sequence_restart d \<longleftrightarrow> bd_truncate_restart d \<noteq> []"

definition returns_row :: "build_dialect \<Rightarrow> bool" where
  "returns_row d \<longleftrightarrow> bd_returning_all d \<noteq> []"

text \<open>The loop over the parts of an identifier: the first refused part ends it.\<close>

fun quote_parts :: "build_dialect \<Rightarrow> string list \<Rightarrow> build_error + string list" where
  "quote_parts d [] = Inr []"
| "quote_parts d (p # ps) =
     (case bd_check_part d p of
        Some e \<Rightarrow> Inl e
      | None \<Rightarrow> (case quote_parts d ps of Inl e \<Rightarrow> Inl e | Inr qs \<Rightarrow> Inr (bd_quote d p # qs)))"

definition quoted_identifier :: "build_dialect \<Rightarrow> string list \<Rightarrow> build_error + string" where
  "quoted_identifier d parts =
     (if parts = [] then Inl NoIdentifierPart
      else case quote_parts d parts of Inl e \<Rightarrow> Inl e | Inr qs \<Rightarrow> Inr (join ''.'' qs))"

subsection \<open>What is built and from what\<close>

record 'v sql_statement =
  ss_sql :: string
  ss_parameters :: "'v list"
  ss_returning :: bool

record target =
  tg_schema :: string
  tg_table :: string

record 'v comparison =
  cm_column :: string
  cm_operator :: string
  cm_value :: 'v

record order_by =
  or_column :: string
  or_descending :: bool

record removal =
  rm_cascade :: bool
  rm_restart :: bool

definition known_operators :: "string list" where
  "known_operators =
     [''equals'', ''notEquals'', ''gt'', ''gte'', ''lt'', ''lte'', ''like'', ''ilike'', ''isNull'', ''isNotNull'']"

definition qualified_name :: "build_dialect \<Rightarrow> target \<Rightarrow> build_error + string" where
  "qualified_name d t =
     (if trim_space (tg_table t) = [] then Inl NeedsTable
      else if \<not> bd_qualifies d \<or> trim_space (tg_schema t) = [] then quoted_identifier d [tg_table t]
      else quoted_identifier d [tg_schema t, tg_table t])"

fun quote_all :: "build_dialect \<Rightarrow> string list \<Rightarrow> build_error + string list" where
  "quote_all d [] = Inr []"
| "quote_all d (n # ns) =
     (case quoted_identifier d [n] of
        Inl e \<Rightarrow> Inl e
      | Inr q \<Rightarrow> (case quote_all d ns of Inl e \<Rightarrow> Inl e | Inr qs \<Rightarrow> Inr (q # qs)))"

definition sorted_keys :: "(string \<times> 'v) list \<Rightarrow> string list" where
  "sorted_keys values = sort (remdups (map fst values))"

subsection \<open>Conditions\<close>

text \<open>One term, and whether it takes a bound value.\<close>

definition where_term :: "build_dialect \<Rightarrow> nat \<Rightarrow> string \<Rightarrow> string \<Rightarrow> build_error + string \<times> bool" where
  "where_term d position column operator =
     (case quoted_identifier d [column] of
        Inl e \<Rightarrow> Inl e
      | Inr q \<Rightarrow>
          if operator = ''isNull'' then Inr (q @ '' IS NULL'', False)
          else if operator = ''isNotNull'' then Inr (q @ '' IS NOT NULL'', False)
          else
            (case bd_comparison d q operator (bd_placeholder d position) of
               None \<Rightarrow> Inl (ComparisonUnknown operator (bd_name d))
             | Some term \<Rightarrow> Inr (term, True)))"

fun where_terms :: "build_dialect \<Rightarrow> nat \<Rightarrow> 'v comparison list \<Rightarrow> build_error + string list \<times> 'v list" where
  "where_terms d position [] = Inr ([], [])"
| "where_terms d position (c # cs) =
     (case where_term d position (cm_column c) (cm_operator c) of
        Inl e \<Rightarrow> Inl e
      | Inr (term, bound) \<Rightarrow>
          (case where_terms d (if bound then Suc position else position) cs of
             Inl e \<Rightarrow> Inl e
           | Inr (terms, vs) \<Rightarrow> Inr (term # terms, if bound then cm_value c # vs else vs)))"

definition where_clause :: "build_dialect \<Rightarrow> 'v comparison list \<Rightarrow> string \<Rightarrow> nat \<Rightarrow> build_error + string \<times> 'v list" where
  "where_clause d cs combine from_position =
     (if cs = [] then Inr ([], [])
      else
        (let joiner = (if equal_fold_ascii (trim_space combine) ''or'' then '' OR '' else '' AND '')
         in case where_terms d from_position cs of
              Inl e \<Rightarrow> Inl e
            | Inr (terms, vs) \<Rightarrow> Inr ('' WHERE '' @ join joiner terms, vs)))"

text \<open>The assignments of a \<open>SET\<close> list, the matching columns left out.\<close>

fun assignments :: "build_dialect \<Rightarrow> (string \<times> 'v) list \<Rightarrow> string list \<Rightarrow> nat \<Rightarrow> string list \<Rightarrow> build_error + string list \<times> 'v list"
where
  "assignments d values matching position [] = Inr ([], [])"
| "assignments d values matching position (c # cs) =
     (if c \<in> set matching then assignments d values matching position cs
      else
        case quoted_identifier d [c] of
          Inl e \<Rightarrow> Inl e
        | Inr q \<Rightarrow>
            (case assignments d values matching (Suc position) cs of
               Inl e \<Rightarrow> Inl e
             | Inr (as, vs) \<Rightarrow> Inr ((q @ '' = '' @ bd_placeholder d position) # as, the (aget values c) # vs)))"

definition assignment_list ::
  "build_dialect \<Rightarrow> (string \<times> 'v) list \<Rightarrow> string list \<Rightarrow> nat \<Rightarrow> build_error + string list \<times> 'v list" where
  "assignment_list d values matching from_position =
     (case assignments d values matching from_position (sorted_keys values) of
        Inl e \<Rightarrow> Inl e
      | Inr (as, vs) \<Rightarrow> if as = [] then Inl UpdateNeedsOtherColumn else Inr (as, vs))"

fun match_terms :: "(string \<times> 'v) list \<Rightarrow> string list \<Rightarrow> build_error + 'v comparison list" where
  "match_terms values [] = Inr []"
| "match_terms values (c # cs) =
     (case aget values c of
        None \<Rightarrow> Inl (MatchHasNoValue c)
      | Some v \<Rightarrow>
          (case match_terms values cs of
             Inl e \<Rightarrow> Inl e
           | Inr ts \<Rightarrow> Inr (\<lparr>cm_column = c, cm_operator = ''equals'', cm_value = v\<rparr> # ts)))"

definition match_clause ::
  "build_dialect \<Rightarrow> (string \<times> 'v) list \<Rightarrow> string list \<Rightarrow> nat \<Rightarrow> build_error + string \<times> 'v list" where
  "match_clause d values matching from_position =
     (case match_terms values matching of
        Inl e \<Rightarrow> Inl e
      | Inr ts \<Rightarrow> where_clause d ts ''and'' from_position)"

subsection \<open>The builders\<close>

fun order_terms :: "build_dialect \<Rightarrow> order_by list \<Rightarrow> build_error + string list" where
  "order_terms d [] = Inr []"
| "order_terms d (t # ts) =
     (case quoted_identifier d [or_column t] of
        Inl e \<Rightarrow> Inl e
      | Inr q \<Rightarrow>
          (case order_terms d ts of
             Inl e \<Rightarrow> Inl e
           | Inr qs \<Rightarrow> Inr ((q @ (if or_descending t then '' DESC'' else '' ASC'')) # qs)))"

definition select_projection :: "build_dialect \<Rightarrow> string list \<Rightarrow> build_error + string" where
  "select_projection d columns =
     (if columns = [] then Inr ''*''
      else case quote_all d columns of Inl e \<Rightarrow> Inl e | Inr qs \<Rightarrow> Inr (join '', '' qs))"

definition order_clause :: "build_dialect \<Rightarrow> order_by list \<Rightarrow> build_error + string" where
  "order_clause d sorts =
     (if sorts = [] then Inr []
      else case order_terms d sorts of Inl e \<Rightarrow> Inl e | Inr ts \<Rightarrow> Inr ('' ORDER BY '' @ join '', '' ts))"

definition limit_clause :: "int \<Rightarrow> string" where
  "limit_clause limit = (if 0 < limit then '' LIMIT '' @ itoa limit else [])"

definition build_select ::
  "build_dialect \<Rightarrow> target \<Rightarrow> string list \<Rightarrow> 'v comparison list \<Rightarrow> string \<Rightarrow> order_by list \<Rightarrow> int
   \<Rightarrow> build_error + 'v sql_statement" where
  "build_select d t columns cs combine sorts limit =
     (case qualified_name d t of
        Inl e \<Rightarrow> Inl e
      | Inr name \<Rightarrow>
          (case select_projection d columns of
             Inl e \<Rightarrow> Inl e
           | Inr projection \<Rightarrow>
               (case where_clause d cs combine 1 of
                  Inl e \<Rightarrow> Inl e
                | Inr (clause, vs) \<Rightarrow>
                    (case order_clause d sorts of
                       Inl e \<Rightarrow> Inl e
                     | Inr ordered \<Rightarrow>
                         Inr \<lparr>ss_sql = ''SELECT '' @ projection @ '' FROM '' @ name @ clause @ ordered @ limit_clause limit,
                              ss_parameters = vs, ss_returning = True\<rparr>))))"

text \<open>The column list and the placeholder list of an insert.\<close>

definition insert_head :: "build_dialect \<Rightarrow> string \<Rightarrow> string list \<Rightarrow> string" where
  "insert_head d name quoted =
     ''INSERT INTO '' @ name @ '' ('' @ join '', '' quoted @ '') VALUES ('' @
     join '', '' (map (bd_placeholder d) [1..<Suc (length quoted)]) @ '')''"

definition build_insert ::
  "build_dialect \<Rightarrow> target \<Rightarrow> (string \<times> 'v) list \<Rightarrow> bool \<Rightarrow> build_error + 'v sql_statement" where
  "build_insert d t values skip =
     (case qualified_name d t of
        Inl e \<Rightarrow> Inl e
      | Inr name \<Rightarrow>
          (let columns = sorted_keys values in
           if columns = [] then Inl InsertNeedsColumn
           else
             case quote_all d columns of
               Inl e \<Rightarrow> Inl e
             | Inr quoted \<Rightarrow>
                 (let statement = insert_head d name quoted @ bd_returning_all d in
                  Inr \<lparr>ss_sql = (if skip then bd_skip_conflict d statement else statement),
                       ss_parameters = map (\<lambda>c. the (aget values c)) columns, ss_returning = returns_row d\<rparr>)))"

definition build_update ::
  "build_dialect \<Rightarrow> target \<Rightarrow> (string \<times> 'v) list \<Rightarrow> string list \<Rightarrow> build_error + 'v sql_statement" where
  "build_update d t values matching =
     (case qualified_name d t of
        Inl e \<Rightarrow> Inl e
      | Inr name \<Rightarrow>
          if matching = [] then Inl UpdateNeedsMatch
          else
            (case assignment_list d values matching 1 of
               Inl e \<Rightarrow> Inl e
             | Inr (as, bound) \<Rightarrow>
                 (case match_clause d values matching (Suc (length bound)) of
                    Inl e \<Rightarrow> Inl e
                  | Inr (clause, vs) \<Rightarrow>
                      Inr \<lparr>ss_sql = ''UPDATE '' @ name @ '' SET '' @ join '', '' as @ clause @ bd_returning_all d,
                           ss_parameters = bound @ vs, ss_returning = returns_row d\<rparr>)))"

definition build_upsert ::
  "build_dialect \<Rightarrow> target \<Rightarrow> (string \<times> 'v) list \<Rightarrow> string list \<Rightarrow> build_error + 'v sql_statement" where
  "build_upsert d t values matching =
     (case qualified_name d t of
        Inl e \<Rightarrow> Inl e
      | Inr name \<Rightarrow>
          if matching = [] then Inl UpsertNeedsMatch
          else
            (let columns = sorted_keys values in
             if columns = [] then Inl UpsertNeedsColumn
             else
               case quote_all d columns of
                 Inl e \<Rightarrow> Inl e
               | Inr quoted \<Rightarrow>
                   (case quote_all d matching of
                      Inl e \<Rightarrow> Inl e
                    | Inr conflict \<Rightarrow>
                        (let updates = map (\<lambda>(_, q). bd_excluded d q)
                               (filter (\<lambda>(c, _). c \<notin> set matching) (zip columns quoted)) in
                         Inr \<lparr>ss_sql = insert_head d name quoted @ bd_upsert_tail d quoted conflict updates @
                                bd_returning_all d,
                              ss_parameters = map (\<lambda>c. the (aget values c)) columns, ss_returning = returns_row d\<rparr>))))"

definition build_delete ::
  "build_dialect \<Rightarrow> target \<Rightarrow> string \<Rightarrow> 'v comparison list \<Rightarrow> string \<Rightarrow> removal \<Rightarrow> build_error + 'v sql_statement" where
  "build_delete d t mode cs combine r =
     (case qualified_name d t of
        Inl e \<Rightarrow> Inl e
      | Inr name \<Rightarrow>
          if mode = ''drop''
          then Inr \<lparr>ss_sql = ''DROP TABLE IF EXISTS '' @ name @ (if rm_cascade r then bd_drop_cascade d else []),
                    ss_parameters = [], ss_returning = False\<rparr>
          else if mode = ''truncate''
          then Inr \<lparr>ss_sql = ''TRUNCATE TABLE '' @ name @ (if rm_restart r then bd_truncate_restart d else []),
                    ss_parameters = [], ss_returning = False\<rparr>
          else if mode = [] \<or> mode = ''delete''
          then (if cs = [] then Inl DeleteNeedsCondition
                else
                  case where_clause d cs combine 1 of
                    Inl e \<Rightarrow> Inl e
                  | Inr (clause, vs) \<Rightarrow>
                      Inr \<lparr>ss_sql = ''DELETE FROM '' @ name @ clause, ss_parameters = vs, ss_returning = False\<rparr>)
          else Inl (DeleteModeUnsupported mode))"

end
