(* ===== verification/Sql_Correct.thy ===== *)
theory Sql_Correct
  imports Sql_Build
begin

text \<open>
  What the guard's lexer reads in SQL text made of bare text, quoted names and quoted strings, and that every
  statement of the builders is such a text. The relation \<open>reads\<close> gives the words and the names of a text; its
  soundness lemma \<open>reads_lex\<close> connects it to the lexer once, under every reading of a backslash.
\<close>

subsection \<open>One step of the lexer\<close>

definition bare_char :: "char \<Rightarrow> bool" where
  "bare_char c \<longleftrightarrow>
     c \<notin> {CHR 0x27, CHR 0x22, CHR 0x60, CHR ''['', CHR '';'', CHR ''-'', CHR ''/'', CHR ''#'', CHR ''&''}"

fun bare_text :: "string \<Rightarrow> bool" where
  "bare_text [] \<longleftrightarrow> True"
| "bare_text (c # s) \<longleftrightarrow> bare_char c \<and> (c = CHR ''$'' \<longrightarrow> s \<noteq> [] \<and> is_digit (hd s)) \<and> bare_text s"

definition may_follow :: "string \<Rightarrow> bool" where
  "may_follow r \<longleftrightarrow> r = [] \<or> hd r \<noteq> CHR ''&'' \<and> hd r \<noteq> CHR 0x27"

lemma dollar_digit: "lx_rest l = CHR ''$'' # c # s \<Longrightarrow> is_digit c \<Longrightarrow> dollar_tag l = []"
  by (auto simp: dollar_tag_def is_tag_byte_def is_digit_def Let_def)

lemma not_next_is: "may_follow s \<Longrightarrow> set cs \<subseteq> {CHR ''&'', CHR 0x27} \<Longrightarrow> \<not> next_is (Suc 0) cs (c # s)"
  by (cases s) (auto simp: next_is_def may_follow_def)

lemma bare_not_quoted:
  assumes "lx_rest l = c # s" "bare_char c" "c = CHR ''$'' \<longrightarrow> s \<noteq> [] \<and> is_digit (hd s)"
    "may_follow s \<or> \<not> is_word_byte c"
  shows "\<not> at_quoted g l"
proof -
  have dollar: "dollar_tag l = []" if "c = CHR ''$''"
    using assms(1,3) that dollar_digit [of l "hd s" "tl s"] by (cases s) auto
  have letter: "is_word_byte c" if "c \<in> set ''UuEexX''"
    using that by (auto simp: is_word_byte_def)
  have quote: "\<not> next_is (Suc 0) [CHR 0x27] (c # s)" "\<not> next_is (Suc 0) [CHR ''&''] (c # s)" if "c \<in> set ''UuEexX''"
    using that letter assms(4) not_next_is [of s] by auto
  have "c \<noteq> CHR 0x27" "c \<noteq> CHR 0x22" "c \<noteq> CHR 0x60" "c \<noteq> CHR ''[''"
    using assms(2) by (auto simp: bare_char_def)
  note other = this
  show ?thesis
  proof (cases "c \<in> set ''UuEexX''")
    case True
    then have "c \<noteq> CHR ''$''" by auto
    then show ?thesis using other quote [OF True] by (simp add: at_quoted_def assms(1) Let_def)
  next
    case False
    then show ?thesis using other dollar by (simp add: at_quoted_def assms(1) Let_def)
  qed
qed

lemma bare_not_comment: "lx_rest l = c # s \<Longrightarrow> bare_char c \<Longrightarrow> skip_comment g l = None"
  by (auto simp: skip_comment_def bare_char_def is_prefix_def Let_def)

lemma lex_bare:
  assumes "lx_rest l = c # s" "bare_char c" "c = CHR ''$'' \<longrightarrow> s \<noteq> [] \<and> is_digit (hd s)"
    "may_follow s \<or> \<not> is_word_byte c"
  shows "lex up g e l = lex up g e (consume_bare l)"
  using bare_not_quoted [OF assms] bare_not_comment [OF assms(1,2)] assms(1,2)
  by (subst lex.simps) (auto simp: bare_char_def)

lemma lex_semicolon:
  assumes "lx_rest l = CHR '';'' # s"
  shows "lex up g e l = lex up g e (advance 1 (end_statement (end_word l)))"
  using assms by (subst lex.simps) (simp add: skip_comment_def is_prefix_def at_quoted_def Let_def)

text \<open>A quote character that delimits a name in the dialect.\<close>

definition name_quote :: "sql_dialect \<Rightarrow> char \<Rightarrow> bool" where
  "name_quote g q \<longleftrightarrow>
     (q = CHR 0x22 \<and> \<not> sd_double_strings g) \<or> (q = CHR 0x60 \<and> sd_backticks g)"

definition doubled :: "char \<Rightarrow> string \<Rightarrow> string" where
  "doubled q p = replace_all p [q] [q, q]"

lemma doubled_simps [simp]:
  "doubled q [] = []" "doubled q (c # p) = (if c = q then q # q # doubled q p else c # doubled q p)"
  by (simp_all add: doubled_def replace_all.simps is_prefix_def)

lemma quoted_length_doubled:
  assumes "r = [] \<or> hd r \<noteq> q" "q \<noteq> CHR '']''"
  shows "quoted_length False q (doubled q p @ q # r) = Some (length (doubled q p))"
  using assms
proof (induction p)
  case Nil
  then show ?case by (cases r) auto
next
  case (Cons c p)
  then show ?case by (cases "doubled q p @ q # r") auto
qed

subsection \<open>Reading a text piece by piece\<close>

definition words_of :: "lexer \<Rightarrow> string list" where
  "words_of l = st_words (lx_current (end_word l))"

definition names_of :: "lexer \<Rightarrow> string list" where
  "names_of l = st_names (lx_current l)"

fun bare_words :: "string \<Rightarrow> string \<Rightarrow> string list" where
  "bare_words w [] = (if w = [] then [] else [w])"
| "bare_words w (c # s) =
     (if is_word_byte c then bare_words (w @ [upper_byte c]) s
      else (if w = [] then [] else [w]) @ (if is_letter_of c ''(),'' then [[c]] else []) @ bare_words [] s)"

text \<open>A text with nothing of a word or a quote at its ends may stand next to any other.\<close>

definition opens_free :: "char \<Rightarrow> string \<Rightarrow> bool" where
  "opens_free q s \<longleftrightarrow> s = [] \<or> \<not> is_word_byte (hd s) \<and> hd s \<notin> {q, CHR 0x27, CHR ''&''}"

definition closes_free :: "char \<Rightarrow> string \<Rightarrow> bool" where
  "closes_free q s \<longleftrightarrow> s = [] \<or> \<not> is_word_byte (last s) \<and> last s \<notin> {q, CHR 0x27}"

definition spelled :: "(nat \<Rightarrow> nat) \<Rightarrow> char \<Rightarrow> string \<Rightarrow> string" where
  "spelled up q p = upper_text up (doubled q p)"

inductive reads :: "(nat \<Rightarrow> nat) \<Rightarrow> char \<Rightarrow> string \<Rightarrow> string list \<Rightarrow> string list \<Rightarrow> bool" for up q where
  bare: "bare_text s \<Longrightarrow> reads up q s (bare_words [] s) []"
| name: "p \<noteq> [] \<Longrightarrow> reads up q (q # doubled q p @ [q]) [quoted_token] [spelled up q p]"
| literal: "CHR 0x27 \<notin> set s \<Longrightarrow> CHR 0x5C \<notin> set s \<Longrightarrow>
    reads up q (CHR 0x27 # s @ [CHR 0x27]) [quoted_token] []"
| append: "reads up q a ws ns \<Longrightarrow> reads up q b ws' ns' \<Longrightarrow> closes_free q a \<or> opens_free q b \<Longrightarrow>
    reads up q (a @ b) (ws @ ws') (ns @ ns')"

lemma words_of_bare:
  "words_of (consume_bare l) =
     (if is_word_byte (hd (lx_rest l)) then st_words (lx_current l) @ [lx_word l @ [upper_byte (hd (lx_rest l))]]
      else words_of l @ (if is_letter_of (hd (lx_rest l)) ''(),'' then [[hd (lx_rest l)]] else []))"
  by (simp add: words_of_def consume_bare_def end_word_def add_word_def advance_def Let_def)

lemma consume_bare_fields [simp]:
  "lx_statements (consume_bare l) = lx_statements l" "lx_last_name (consume_bare l) = lx_last_name l"
  "names_of (consume_bare l) = names_of l"
  "lx_word (consume_bare l) =
     (if is_word_byte (hd (lx_rest l)) then lx_word l @ [upper_byte (hd (lx_rest l))] else [])"
  by (simp_all add: consume_bare_def names_of_def end_word_def add_word_def advance_def Let_def)

lemma consume_bare_current:
  "is_word_byte (hd (lx_rest l)) \<Longrightarrow> lx_current (consume_bare l) = lx_current l"
  "\<not> is_word_byte (hd (lx_rest l)) \<Longrightarrow> st_words (lx_current (consume_bare l)) = words_of (consume_bare l)"
  by (simp_all add: consume_bare_def words_of_def end_word_def add_word_def advance_def Let_def)

lemma bare_text_follow: "bare_text s \<Longrightarrow> may_follow r \<Longrightarrow> may_follow (s @ r)"
  by (cases s) (auto simp: may_follow_def bare_char_def)

text \<open>What reading a piece of text does to the lexer's state.\<close>

definition reads_to :: "(nat \<Rightarrow> nat) \<Rightarrow> sql_dialect \<Rightarrow> bool \<Rightarrow> string \<Rightarrow> string list \<Rightarrow> string list \<Rightarrow> lexer \<Rightarrow> lexer \<Rightarrow> bool"
where
  "reads_to up g e s ws ns l l' \<longleftrightarrow>
     lex up g e l = lex up g e l' \<and> lx_rest l = s @ lx_rest l' \<and> lx_statements l' = lx_statements l \<and>
     words_of l' = words_of l @ ws \<and> names_of l' = names_of l @ ns \<and> lx_last_name l' = [] \<and>
     (s \<noteq> [] \<longrightarrow> lx_word l' = [] \<or> is_word_byte (last s)) \<and> (s = [] \<longrightarrow> l' = l)"

text \<open>Bare text, the pending word being the one it continues.\<close>

lemma lex_bare_text:
  assumes "bare_text s" "may_follow r \<or> s \<noteq> [] \<and> \<not> is_word_byte (last s)" "lx_rest l = s @ r" "lx_last_name l = []"
  shows "\<exists>l'. lex up g e l = lex up g e l' \<and> lx_rest l' = r \<and> names_of l' = names_of l \<and>
    lx_statements l' = lx_statements l \<and> lx_last_name l' = [] \<and>
    words_of l' = st_words (lx_current l) @ bare_words (lx_word l) s \<and>
    (s \<noteq> [] \<longrightarrow> lx_word l' = [] \<or> is_word_byte (last s)) \<and> (s = [] \<longrightarrow> l' = l)"
  using assms
proof (induction s arbitrary: l)
  case Nil
  then show ?case by (auto simp: words_of_def end_word_def)
next
  case (Cons c s)
  let ?m = "consume_bare l"
  have rest: "lx_rest l = c # (s @ r)" using Cons.prems by simp
  have follow: "may_follow (s @ r) \<or> \<not> is_word_byte c"
    using Cons.prems(1,2) bare_text_follow [of s r] by (cases s) (auto simp: may_follow_def bare_char_def)
  have step: "lex up g e l = lex up g e ?m"
    by (rule lex_bare [OF rest _ _ follow]) (use Cons.prems(1) in auto)
  obtain l' where l': "lex up g e ?m = lex up g e l'" "lx_rest l' = r" "names_of l' = names_of ?m"
    "lx_statements l' = lx_statements ?m" "lx_last_name l' = []"
    "words_of l' = st_words (lx_current ?m) @ bare_words (lx_word ?m) s"
    "s \<noteq> [] \<longrightarrow> lx_word l' = [] \<or> is_word_byte (last s)" "s = [] \<longrightarrow> l' = ?m"
  proof (cases "s = []")
    case True
    then show ?thesis using that [of ?m] Cons.prems rest by (auto simp: words_of_def end_word_def)
  next
    case False
    then show ?thesis using that Cons.IH [of ?m] Cons.prems rest by auto
  qed
  have "words_of l' = st_words (lx_current l) @ bare_words (lx_word l) (c # s)"
    using l'(6) consume_bare_current [of l] words_of_bare [of l] rest
    by (auto simp: words_of_def end_word_def)
  then show ?case using l' step rest by (intro exI [of _ l']) auto
qed

lemma reads_to_bare:
  assumes "bare_text s" "closes_free q s \<or> opens_free q r" "lx_rest l = s @ r" "lx_last_name l = []"
    "lx_word l = [] \<or> s = [] \<or> \<not> is_word_byte (hd s)"
  shows "\<exists>l'. reads_to up g e s (bare_words [] s) [] l l' \<and> lx_rest l' = r"
proof (cases "s = []")
  case True
  then show ?thesis using assms(3,4) by (auto simp: reads_to_def)
next
  case False
  then have "may_follow r \<or> s \<noteq> [] \<and> \<not> is_word_byte (last s)"
    using assms(2) by (auto simp: closes_free_def opens_free_def may_follow_def)
  from lex_bare_text [OF assms(1) this assms(3,4)] obtain l' where
    l': "lex up g e l = lex up g e l'" "lx_rest l' = r" "names_of l' = names_of l"
    "lx_statements l' = lx_statements l" "lx_last_name l' = []"
    "words_of l' = st_words (lx_current l) @ bare_words (lx_word l) s"
    "s \<noteq> [] \<longrightarrow> lx_word l' = [] \<or> is_word_byte (last s)" by blast
  have "st_words (lx_current l) @ bare_words (lx_word l) s = words_of l @ bare_words [] s"
    using assms(5) False by (cases s) (auto simp: words_of_def end_word_def)
  then show ?thesis using l' assms(3) False by (intro exI [of _ l']) (auto simp: reads_to_def)
qed

text \<open>A quoted name and a quoted string.\<close>

lemma upper_text_not_Nil: "s \<noteq> [] \<Longrightarrow> upper_text up s \<noteq> []"
proof -
  assume "s \<noteq> []"
  then have "bytes_of s \<noteq> []" by (simp add: bytes_of_def)
  then have "decode_runes (bytes_of s) \<noteq> []"
    by (subst decode_runes.simps) (simp split: prod.split list.split)
  then show ?thesis by (cases "decode_runes (bytes_of s)") (auto simp: upper_text_def runes_def encode_runes_def)
qed

lemma doubled_not_Nil: "p \<noteq> [] \<Longrightarrow> doubled q p \<noteq> []"
  by (cases p) auto

lemma spelled_not_Nil: "p \<noteq> [] \<Longrightarrow> spelled up q p \<noteq> []"
  by (simp add: spelled_def upper_text_not_Nil doubled_not_Nil)

lemma lex_quoted:
  assumes "lx_rest l = c # s" "c \<in> {CHR 0x27, CHR 0x22, CHR 0x60}" "at_quoted g l" "consume_quoted up g e l = Inr l'"
  shows "lex up g e l = lex up g e (after_quoted l')"
  using assms by (subst lex.simps) (auto simp: skip_comment_def is_prefix_def Let_def)

lemma advance_fields [simp]:
  "lx_statements (advance n l) = lx_statements l" "lx_current (advance n l) = lx_current l"
  "lx_word (advance n l) = lx_word l" "lx_last_name (advance n l) = lx_last_name l"
  by (simp_all add: advance_def)

lemma end_word_fields [simp]:
  "lx_statements (end_word l) = lx_statements l" "lx_word (end_word l) = []" "lx_last_name (end_word l) = lx_last_name l"
  "st_names (lx_current (end_word l)) = st_names (lx_current l)"
  by (simp_all add: end_word_def)

lemma after_quoted_fields [simp]:
  "lx_statements (after_quoted l) = lx_statements l" "lx_word (after_quoted l) = []" "lx_last_name (after_quoted l) = []"
  "words_of (after_quoted l) = words_of l @ [quoted_token]"
  "names_of (after_quoted l) = names_of l @ (if lx_last_name l = [] then [] else [lx_last_name l])"
  by (simp_all add: after_quoted_def add_word_def words_of_def names_of_def end_word_def Let_def)

lemma words_of_cong: "lx_current l = lx_current l' \<Longrightarrow> lx_word l = lx_word l' \<Longrightarrow> words_of l = words_of l'"
  by (simp add: words_of_def end_word_def)

lemma reads_to_quoted:
  assumes "lx_rest l = s @ r" "s = c # s'" "c \<in> {CHR 0x27, CHR 0x22, CHR 0x60}" "at_quoted g l"
    "consume_quoted up g e l = Inr l'" "lx_rest l' = r" "lx_statements l' = lx_statements l" "lx_current l' = lx_current l"
    "lx_word l' = lx_word l"
  shows "reads_to up g e s [quoted_token] (if lx_last_name l' = [] then [] else [lx_last_name l']) l (after_quoted l')"
proof -
  have "names_of l' = names_of l" using assms(8) by (simp add: names_of_def)
  then show ?thesis using assms lex_quoted [of l c "s' @ r" g up e l'] words_of_cong [of l' l]
    by (simp add: reads_to_def)
qed

lemma reads_to_name:
  assumes "name_quote g q" "p \<noteq> []" "opens_free q r" "lx_rest l = (q # doubled q p @ [q]) @ r" "lx_last_name l = []"
  shows "\<exists>l'. reads_to up g e (q # doubled q p @ [q]) [quoted_token] [spelled up q p] l l' \<and> lx_rest l' = r"
proof -
  have q: "q \<in> {CHR 0x27, CHR 0x22, CHR 0x60}" using assms(1) by (auto simp: name_quote_def)
  have rest: "lx_rest l = q # doubled q p @ q # r" using assms(4) by simp
  have quoted: "at_quoted g l"
    using assms(1) by (auto simp: at_quoted_def name_quote_def rest)
  have len: "quoted_length False q (doubled q p @ q # r) = Some (length (doubled q p))"
    using assms(3) q by (intro quoted_length_doubled) (auto simp: opens_free_def)
  define l' where "l' = advance (Suc (length (doubled q p))) ((advance 1 l)\<lparr>lx_last_name := spelled up q p\<rparr>)"
  have delimited: "consume_delimited up g e l = Inr l'"
    using assms(1) len by (auto simp: consume_delimited_def name_quote_def l'_def spelled_def rest)
  have consumed: "consume_quoted up g e l = Inr l'"
    using q delimited by (auto simp: consume_quoted_def is_letter_of_def rest)
  show ?thesis
    using reads_to_quoted [OF assms(4) refl q quoted consumed] assms(2,4)
    by (intro exI [of _ "after_quoted l'"]) (simp add: l'_def spelled_not_Nil)
qed

lemma quoted_length_literal:
  assumes "r = [] \<or> hd r \<noteq> c" "c \<notin> set s" "CHR 0x5C \<notin> set s" "c \<noteq> CHR 0x5C" "c \<noteq> CHR '']''"
  shows "quoted_length b c (s @ c # r) = Some (length s)"
  using assms
proof (induction s)
  case Nil
  then show ?case by (cases r) auto
next
  case (Cons a s)
  then show ?case by (cases "s @ c # r") auto
qed

lemma reads_to_literal:
  assumes "opens_free q r" "CHR 0x27 \<notin> set s" "CHR 0x5C \<notin> set s" "lx_rest l = (CHR 0x27 # s @ [CHR 0x27]) @ r"
    "lx_last_name l = []"
  shows "\<exists>l'. reads_to up g e (CHR 0x27 # s @ [CHR 0x27]) [quoted_token] [] l l' \<and> lx_rest l' = r"
proof -
  have quoted: "at_quoted g l" using assms(4) by (simp add: at_quoted_def Let_def)
  have len: "quoted_length e CHR 0x27 (s @ CHR 0x27 # r) = Some (length s)"
    using assms(1-3) by (intro quoted_length_literal) (auto simp: opens_free_def)
  define l' where "l' = advance (Suc (length s)) ((advance 1 l)\<lparr>lx_last_name := []\<rparr>)"
  have consumed: "consume_quoted up g e l = Inr l'"
    using assms(4,5) len by (simp add: consume_quoted_def consume_delimited_def l'_def Let_def is_letter_of_def)
  show ?thesis
    using reads_to_quoted [OF assms(4) refl _ quoted consumed] assms(4,5)
    by (intro exI [of _ "after_quoted l'"]) (simp add: l'_def)
qed

text \<open>Soundness: the lexer takes exactly the words and names of the relation, under either reading.\<close>

lemma free_Nil [simp]: "opens_free q []" "closes_free q []"
  by (simp_all add: opens_free_def closes_free_def)

lemma free_append:
  "opens_free q (a @ b) \<longleftrightarrow> (if a = [] then opens_free q b else opens_free q a)"
  "closes_free q (a @ b) \<longleftrightarrow> (if b = [] then closes_free q a else closes_free q b)"
  by (auto simp: opens_free_def closes_free_def)

lemma reads_to_trans:
  assumes "reads_to up g e a ws ns l l1" "reads_to up g e b ws' ns' l1 l2"
  shows "reads_to up g e (a @ b) (ws @ ws') (ns @ ns') l l2"
  using assms by (auto simp: reads_to_def)

lemma reads_sound:
  assumes "reads up q s ws ns" "name_quote g q" "closes_free q s \<or> opens_free q r" "lx_rest l = s @ r"
    "lx_last_name l = []" "lx_word l = [] \<or> s = [] \<or> \<not> is_word_byte (hd s)"
  shows "\<exists>l'. reads_to up g e s ws ns l l' \<and> lx_rest l' = r"
  using assms
proof (induction arbitrary: r l rule: reads.induct)
  case (bare s)
  then show ?case by (intro reads_to_bare) auto
next
  case (name p)
  then show ?case by (intro reads_to_name) (auto simp: closes_free_def)
next
  case (literal s)
  then show ?case by (intro reads_to_literal) (auto simp: closes_free_def)
next
  case (append a ws ns b ws' ns')
  have "closes_free q a \<or> opens_free q (b @ r)" using append.hyps(3) append.prems(2) by (auto simp: free_append)
  then obtain l1 where l1: "reads_to up g e a ws ns l l1" "lx_rest l1 = b @ r"
    using append.IH(1) [of "b @ r" l] append.prems by (cases "a = []") auto
  have "lx_word l1 = [] \<or> b = [] \<or> \<not> is_word_byte (hd b)"
  proof (cases "a = []")
    case True
    then have "l1 = l" using l1(1) by (simp add: reads_to_def)
    then show ?thesis using True append.prems(5) by simp
  next
    case False
    then have "lx_word l1 = [] \<or> is_word_byte (last a)" using l1(1) by (simp add: reads_to_def)
    then show ?thesis using append.hyps(3) False by (metis closes_free_def opens_free_def)
  qed
  then obtain l2 where "reads_to up g e b ws' ns' l1 l2" "lx_rest l2 = r"
    using append.IH(2) [of r l1] append.prems(1,2) l1 by (auto simp: free_append reads_to_def split: if_split_asm)
  then show ?case using reads_to_trans l1(1) by blast
qed

subsection \<open>What stands before a statement does not change how it is read\<close>

definition same_reading :: "statement list \<Rightarrow> lexer \<Rightarrow> lexer \<Rightarrow> bool" where
  "same_reading S l m \<longleftrightarrow>
     lx_rest m = lx_rest l \<and> lx_statements m = S @ lx_statements l \<and> lx_current m = lx_current l \<and>
     lx_word m = lx_word l \<and> lx_last_name m = lx_last_name l \<and> at_token_start m = at_token_start l"

definition same_outcome :: "statement list \<Rightarrow> sql_refusal + lexer \<Rightarrow> sql_refusal + lexer \<Rightarrow> bool" where
  "same_outcome S x y \<longleftrightarrow>
     (case x of Inl e \<Rightarrow> y = Inl e | Inr l \<Rightarrow> (\<exists>m. y = Inr m \<and> same_reading S l m))"

lemma token_start_advance:
  "at_token_start (advance n l) = (if take n (lx_rest l) = [] then at_token_start l else \<not> is_word_byte (last (take n (lx_rest l))))"
  by (auto simp: at_token_start_def advance_def hd_append hd_rev)

lemma same_reading_advance: "same_reading S l m \<Longrightarrow> same_reading S (advance n l) (advance n m)"
  by (simp add: same_reading_def token_start_advance)

lemma token_start_end [simp]:
  "at_token_start (end_word l) = at_token_start l" "at_token_start (end_statement l) = at_token_start l"
  "at_token_start (add_word w l) = at_token_start l" "at_token_start (after_quoted l) = at_token_start l"
  by (simp_all add: at_token_start_def end_word_def end_statement_def add_word_def after_quoted_def Let_def)

lemma token_start_update [simp]:
  "at_token_start (l\<lparr>lx_current := c\<rparr>) = at_token_start l" "at_token_start (l\<lparr>lx_word := w\<rparr>) = at_token_start l"
  "at_token_start (l\<lparr>lx_statements := s\<rparr>) = at_token_start l" "at_token_start (l\<lparr>lx_last_name := n\<rparr>) = at_token_start l"
  by (simp_all add: at_token_start_def)

lemma same_reading_ends:
  assumes "same_reading S l m"
  shows "same_reading S (end_word l) (end_word m)" "same_reading S (end_statement l) (end_statement m)"
    "same_reading S (add_word w l) (add_word w m)"
  using assms by (simp_all add: same_reading_def end_word_def end_statement_def add_word_def)

lemma same_reading_name: "same_reading S l m \<Longrightarrow> same_reading S (l\<lparr>lx_last_name := n\<rparr>) (m\<lparr>lx_last_name := n\<rparr>)"
  by (simp add: same_reading_def at_token_start_def)

lemma same_reading_word: "same_reading S l m \<Longrightarrow> same_reading S (l\<lparr>lx_word := n\<rparr>) (m\<lparr>lx_word := n\<rparr>)"
  by (simp add: same_reading_def at_token_start_def)

lemma same_reading_current: "same_reading S l m \<Longrightarrow> same_reading S (l\<lparr>lx_current := n\<rparr>) (m\<lparr>lx_current := n\<rparr>)"
  by (simp add: same_reading_def at_token_start_def)

lemma same_reading_fields:
  assumes "same_reading S l m"
  shows "lx_rest m = lx_rest l" "lx_current m = lx_current l" "lx_word m = lx_word l" "lx_last_name m = lx_last_name l"
    "at_token_start m = at_token_start l" "dollar_tag m = dollar_tag l" "at_quoted g m = at_quoted g l"
  using assms by (simp_all add: same_reading_def dollar_tag_def at_quoted_def)

lemma same_reading_comment:
  assumes "same_reading S l m"
  shows "(case skip_comment g l of None \<Rightarrow> skip_comment g m = None | Some l' \<Rightarrow> \<exists>m'. skip_comment g m = Some m' \<and> same_reading S l' m')"
  using assms same_reading_advance [OF assms] same_reading_fields(1) [OF assms]
  by (auto simp: skip_comment_def skip_block_comment_def skip_version_digits_def Let_def intro!: same_reading_advance)

lemma same_outcome_quoted:
  assumes "same_reading S l m"
  shows "same_outcome S (consume_quoted up g e l) (consume_quoted up g e m)"
proof -
  have delimited: "same_outcome S (consume_delimited up g b l) (consume_delimited up g b m)" if "same_reading S l m" for b l m
    using that same_reading_fields [OF that]
    by (simp add: same_outcome_def consume_delimited_def Let_def same_reading_advance same_reading_name split: option.split)
  have dollar: "same_outcome S (consume_dollar_quoted l) (consume_dollar_quoted m)"
    using same_reading_fields [OF assms] assms
    by (simp add: same_outcome_def consume_dollar_quoted_def Let_def same_reading_advance split: option.split)
  show ?thesis
    using delimited [OF assms] delimited [OF same_reading_advance [OF assms]] dollar same_reading_fields(1) [OF assms]
    by (simp add: consume_quoted_def Let_def) (simp add: same_outcome_def)
qed

lemma same_reading_after_quoted:
  assumes "same_reading S l m"
  shows "same_reading S (after_quoted l) (after_quoted m)"
  using same_reading_ends(3) [OF same_reading_ends(1) [OF assms], of quoted_token]
  by (simp add: after_quoted_def Let_def) (auto simp: same_reading_def at_token_start_def)

lemma same_reading_bare:
  assumes "same_reading S l m"
  shows "same_reading S (consume_bare l) (consume_bare m)"
  using same_reading_fields [OF assms] same_reading_ends [OF assms] same_reading_word [OF assms]
  by (auto simp: consume_bare_def Let_def intro!: same_reading_advance same_reading_ends)

lemma lex_after_statements:
  assumes "same_reading S l m"
  shows "lex up g e m = map_sum id (\<lambda>sts. S @ sts) (lex up g e l)"
  using assms
proof (induction up g e l arbitrary: m rule: lex.induct)
  case (1 up g e l)
  note f = same_reading_fields [OF 1(5)]
  show ?case
  proof (cases "lx_rest l = []")
    case True
    have "same_reading S (end_statement (end_word l)) (end_statement (end_word m))"
      using 1(5) by (intro same_reading_ends)
    then show ?thesis using True f by (subst (1 2) lex.simps) (simp add: same_reading_def)
  next
    case False
    show ?thesis
    proof (cases "skip_comment g l")
      case (Some l')
      then obtain m' where m': "skip_comment g m = Some m'" "same_reading S l' m'"
        using same_reading_comment [OF 1(5), of g] by auto
      have "lex up g e (end_word m') = map_sum id (\<lambda>sts. S @ sts) (lex up g e (end_word l'))"
        by (rule 1(4) [OF False Some same_reading_ends(1) [OF m'(2)]])
      then show ?thesis using False f(1) Some m'(1) by (subst (1 2) lex.simps) simp
    next
      case None
      then have comment: "skip_comment g m = None" using same_reading_comment [OF 1(5), of g] by auto
      consider (quoted) "at_quoted g l" | (semicolon) "\<not> at_quoted g l" "hd (lx_rest l) = CHR '';''"
        | (bare) "\<not> at_quoted g l" "hd (lx_rest l) \<noteq> CHR '';''" by blast
      then show ?thesis
      proof cases
        case quoted
        show ?thesis
        proof (cases "consume_quoted up g e l")
          case (Inl x)
          then have "consume_quoted up g e m = Inl x" using same_outcome_quoted [OF 1(5), of up g e] by (simp add: same_outcome_def)
          then show ?thesis using Inl False f(1,7) None comment quoted by (subst (1 2) lex.simps) simp
        next
          case (Inr l')
          then obtain m' where m': "consume_quoted up g e m = Inr m'" "same_reading S l' m'"
            using same_outcome_quoted [OF 1(5), of up g e] by (auto simp: same_outcome_def)
          have "lex up g e (after_quoted m') = map_sum id (\<lambda>sts. S @ sts) (lex up g e (after_quoted l'))"
            by (rule 1(1) [OF False None quoted Inr same_reading_after_quoted [OF m'(2)]])
          then show ?thesis using Inr m'(1) False f(1,7) None comment quoted by (subst (1 2) lex.simps) simp
        qed
      next
        case semicolon
        have "same_reading S (advance 1 (end_statement (end_word l))) (advance 1 (end_statement (end_word m)))"
          using 1(5) by (intro same_reading_advance same_reading_ends)
        from 1(2) [OF False None semicolon this] show ?thesis
          using False f(1,7) None comment semicolon by (subst (1 2) lex.simps) (simp add: id_def)
      next
        case bare
        from 1(3) [OF False None bare same_reading_bare [OF 1(5)]] show ?thesis
          using False f(1,7) None comment bare by (subst (1 2) lex.simps) (simp add: id_def)
      qed
    qed
  qed
qed

text \<open>A text of the relation is one statement, and a semicolon after it starts a new one.\<close>

lemma start_fields [simp]:
  "lx_rest (lexer_start s) = s" "lx_last_name (lexer_start s) = []" "lx_word (lexer_start s) = []"
  "lx_statements (lexer_start s) = []" "words_of (lexer_start s) = []" "names_of (lexer_start s) = []"
  "at_token_start (lexer_start s)" "lx_current (lexer_start s) = no_statement"
  by (simp_all add: lexer_start_def words_of_def names_of_def end_word_def no_statement_def at_token_start_def)

lemma end_statement_reads:
  assumes "words_of l = ws" "names_of l = ns" "ws \<noteq> []"
  shows "lx_statements (end_statement (end_word l)) = lx_statements l @ [\<lparr>st_names = ns, st_words = ws\<rparr>]"
proof -
  have "st_names (lx_current (end_word l)) = ns" "st_words (lx_current (end_word l)) = ws"
    using assms(1,2) by (simp_all add: words_of_def names_of_def)
  then have "lx_current (end_word l) = \<lparr>st_names = ns, st_words = ws\<rparr>" by simp
  then show ?thesis using assms(3) by (simp add: end_statement_def)
qed

lemma split_one:
  assumes "reads up q s ws ns" "name_quote g q" "ws \<noteq> []"
  shows "split_statements up g s e = Inr [\<lparr>st_names = ns, st_words = ws\<rparr>]"
proof -
  obtain l' where l': "reads_to up g e s ws ns (lexer_start s) l'" "lx_rest l' = []"
    using reads_sound [OF assms(1,2), of "[]" "lexer_start s" e] by auto
  then have "lex up g e (lexer_start s) = lex up g e l'" "words_of l' = ws" "names_of l' = ns" "lx_statements l' = []"
    by (simp_all add: reads_to_def)
  then show ?thesis
    using end_statement_reads [of l' ws ns] assms(3) l'(2) by (simp add: split_statements_def lex.simps [of _ _ _ l'])
qed

lemma split_append:
  assumes "reads up q s ws ns" "name_quote g q" "ws \<noteq> []"
  shows "split_statements up g (s @ CHR '';'' # t) e =
    map_sum id (\<lambda>sts. \<lparr>st_names = ns, st_words = ws\<rparr> # sts) (split_statements up g t e)"
proof -
  have "opens_free q (CHR '';'' # t)"
    using assms(2) by (auto simp: opens_free_def name_quote_def is_word_byte_def)
  then obtain l' where l': "reads_to up g e s ws ns (lexer_start (s @ CHR '';'' # t)) l'" "lx_rest l' = CHR '';'' # t"
    using reads_sound [OF assms(1,2), of "CHR '';'' # t" "lexer_start (s @ CHR '';'' # t)" e] by auto
  let ?m = "advance 1 (end_statement (end_word l'))"
  have l: "words_of l' = ws" "names_of l' = ns" "lx_statements l' = []" "lx_last_name l' = []"
    "lex up g e (lexer_start (s @ CHR '';'' # t)) = lex up g e l'"
    using l'(1) unfolding reads_to_def start_fields append_Nil by blast+
  have "lx_statements ?m = [\<lparr>st_names = ns, st_words = ws\<rparr>]"
    using end_statement_reads [OF l(1,2) assms(3)] l(3) by simp
  moreover have "at_token_start ?m" using l'(2) by (simp add: token_start_advance is_word_byte_def)
  ultimately have "same_reading [\<lparr>st_names = ns, st_words = ws\<rparr>] (lexer_start t) ?m"
    using l'(2) l(4) by (simp add: same_reading_def) (simp add: end_statement_def)
  from lex_after_statements [OF this, of up g e] show ?thesis
    using l(5) lex_semicolon [OF l'(2), of up g e] by (simp add: split_statements_def)
qed

end
