(* ===== verification/Sql_Built.thy ===== *)
theory Sql_Built
  imports Sql_Correct
begin

text \<open>
  Every statement of the builders is one statement to the guard's lexer, whatever its names contain. The locale
  \<open>sql_spelling\<close> states what a dialect's functions owe the builders; both dialects provide it.
\<close>

subsection \<open>Clean pieces of text\<close>

text \<open>The words the builders write themselves, and numbers.\<close>

definition vocabulary :: "string list" where
  "vocabulary =
     [quoted_token, ''('', '')'', '','', ''SELECT'', ''FROM'', ''WHERE'', ''AND'', ''OR'', ''IS'', ''NOT'', ''NULL'', ''LIKE'',
      ''ILIKE'', ''LOWER'', ''ORDER'', ''BY'', ''ASC'', ''DESC'', ''LIMIT'', ''INSERT'', ''IGNORE'', ''INTO'', ''VALUES'',
      ''UPDATE'', ''SET'', ''ON'', ''CONFLICT'', ''DO'', ''NOTHING'', ''DUPLICATE'', ''KEY'', ''EXCLUDED'', ''RETURNING'',
      ''DELETE'', ''DROP'', ''TABLE'', ''IF'', ''EXISTS'', ''CASCADE'', ''TRUNCATE'', ''RESTART'', ''IDENTITY'']"

definition safe_word :: "string \<Rightarrow> bool" where
  "safe_word w \<longleftrightarrow> w \<in> set vocabulary \<or> (w \<noteq> [] \<and> list_all is_digit w)"

text \<open>A text of safe words and of the names in \<open>A\<close>.\<close>

definition clean :: "(nat \<Rightarrow> nat) \<Rightarrow> char \<Rightarrow> string set \<Rightarrow> string \<Rightarrow> bool" where
  "clean up q A s \<longleftrightarrow> (\<exists>ws ns. reads up q s ws ns \<and> list_all safe_word ws \<and> set ns \<subseteq> spelled up q ` A)"

definition plain_text :: "string \<Rightarrow> bool" where
  "plain_text s \<longleftrightarrow> bare_text s \<and> list_all safe_word (bare_words [] s)"

lemma clean_plain: "plain_text s \<Longrightarrow> clean up q A s"
  unfolding clean_def plain_text_def using reads.bare by fastforce

lemma clean_name: "p \<noteq> [] \<Longrightarrow> p \<in> A \<Longrightarrow> clean up q A (q # doubled q p @ [q])"
  unfolding clean_def using reads.name [of p up q] by (fastforce simp: safe_word_def vocabulary_def)

lemma clean_append:
  assumes "clean up q A a" "clean up q A b" "closes_free q a \<or> opens_free q b"
  shows "clean up q A (a @ b)"
proof -
  obtain ws ns ws' ns' where "reads up q a ws ns" "list_all safe_word ws" "set ns \<subseteq> spelled up q ` A"
    "reads up q b ws' ns'" "list_all safe_word ws'" "set ns' \<subseteq> spelled up q ` A"
    using assms(1,2) by (auto simp: clean_def)
  then show ?thesis unfolding clean_def using reads.append [OF _ _ assms(3)] by fastforce
qed

lemma clean_tail: "clean up q A a \<Longrightarrow> clean up q A b \<Longrightarrow> opens_free q b \<Longrightarrow> clean up q A (a @ b)"
  by (simp add: clean_append)

lemma opens_append: "opens_free q a \<Longrightarrow> opens_free q b \<Longrightarrow> opens_free q (a @ b)"
  by (simp add: free_append)

lemma clean_prefix: "plain_text s \<Longrightarrow> closes_free q s \<Longrightarrow> clean up q A c \<Longrightarrow> clean up q A (s @ c)"
  by (simp add: clean_append clean_plain)

lemma clean_suffix: "clean up q A c \<Longrightarrow> plain_text s \<Longrightarrow> opens_free q s \<Longrightarrow> clean up q A (c @ s)"
  by (simp add: clean_append clean_plain)

lemma clean_between:
  "clean up q A a \<Longrightarrow> clean up q A b \<Longrightarrow> plain_text s \<Longrightarrow> opens_free q s \<Longrightarrow> closes_free q s \<Longrightarrow> s \<noteq> [] \<Longrightarrow>
   clean up q A (a @ s @ b)"
  by (simp add: clean_append clean_plain free_append)

lemma clean_mono: "clean up q A s \<Longrightarrow> A \<subseteq> B \<Longrightarrow> clean up q B s"
  by (fastforce simp: clean_def)

lemma clean_join:
  assumes "\<forall>x \<in> set xs. clean up q A x" "clean up q A sep" "opens_free q sep" "closes_free q sep" "sep \<noteq> []"
  shows "clean up q A (join sep xs)"
  using assms
proof (induction sep xs rule: join.induct)
  case (1 sep)
  then show ?case by (simp add: clean_plain plain_text_def)
next
  case (3 sep x y xs)
  then have "clean up q A (sep @ join sep (y # xs))" by (intro clean_append) auto
  with 3 show ?case by (simp add: clean_append free_append)
qed simp

text \<open>What the builders write themselves.\<close>

lemma plain_literals:
  shows "plain_text ''*''" "plain_text '', ''" "plain_text '' FROM ''" "plain_text '' WHERE ''"
  "plain_text '' AND ''" "plain_text '' OR ''" "plain_text '' IS NULL''" "plain_text '' IS NOT NULL''"
  "plain_text '' ''" "plain_text '' = ''" "plain_text '' <> ''" "plain_text '' > ''"
  "plain_text '' >= ''" "plain_text '' < ''" "plain_text '' <= ''" "plain_text '' LIKE ''"
  "plain_text '' ILIKE ''" "plain_text ''LOWER(''" "plain_text '') LIKE LOWER(''" "plain_text '')''"
  "plain_text '' ASC''" "plain_text '' DESC''" "plain_text '' ORDER BY ''" "plain_text '' LIMIT ''"
  "plain_text ''SELECT ''" "plain_text ''INSERT INTO ''" "plain_text ''INSERT IGNORE INTO ''" "plain_text '' (''"
  "plain_text '') VALUES (''" "plain_text ''UPDATE ''" "plain_text '' SET ''" "plain_text '' ON CONFLICT (''"
  "plain_text '' DO NOTHING''" "plain_text '' DO UPDATE SET ''" "plain_text '' = EXCLUDED.''" "plain_text '' = VALUES(''"
  "plain_text '' ON DUPLICATE KEY UPDATE ''" "plain_text ''DELETE FROM ''" "plain_text ''DROP TABLE IF EXISTS ''" "plain_text ''TRUNCATE TABLE ''"
  "plain_text '' RETURNING *''" "plain_text '' CASCADE''" "plain_text '' RESTART IDENTITY''" "plain_text ''?''"
  "plain_text ''.''"
  by (simp_all add: plain_text_def bare_char_def is_word_byte_def is_letter_of_def upper_byte_def safe_word_def vocabulary_def quoted_token_def is_digit_def)

text \<open>Numbers.\<close>

lemma digit_is_word: "is_digit c \<Longrightarrow> is_word_byte c \<and> upper_byte c = c \<and> bare_char c \<and> c \<noteq> CHR ''$''"
  by (auto simp: is_digit_def is_word_byte_def upper_byte_def bare_char_def Let_def)

lemma bare_digits:
  assumes "list_all is_digit s"
  shows "bare_text s" "bare_words w s = (if w @ s = [] then [] else [w @ s])"
proof -
  show "bare_text s" using assms digit_is_word by (induction s) auto
  show "bare_words w s = (if w @ s = [] then [] else [w @ s])"
    using assms digit_is_word by (induction s arbitrary: w) auto
qed

lemma plain_number: "plain_text (dec_nat n)"
  using bare_digits(1) [OF dec_nat_digits [of n]] bare_digits(2) [OF dec_nat_digits [of n], of "[]"] dec_nat_digits [of n]
  by (simp add: plain_text_def safe_word_def)

lemma plain_dollar: "plain_text (CHR ''$'' # dec_nat n)"
proof -
  have "is_digit (hd (dec_nat n))" using dec_nat_digits [of n] by (cases "dec_nat n") auto
  then show ?thesis using plain_number [of n] dec_nat_not_Nil [of n]
    by (simp add: plain_text_def bare_char_def is_word_byte_def is_letter_of_def)
qed

subsection \<open>What a dialect owes the builders\<close>

locale sql_spelling =
  fixes d :: build_dialect and g :: sql_dialect and q :: char and up :: "nat \<Rightarrow> nat"
  assumes quote_char: "name_quote g q"
    and quoted_part: "bd_check_part d p = None \<Longrightarrow> bd_quote d p = q # doubled q p @ [q] \<and> p \<noteq> []"
    and placeholder_clean: "clean up q {} (bd_placeholder d n)"
    and placeholder_opens: "opens_free q (bd_placeholder d n)"
    and comparison_clean: "clean up q A column \<Longrightarrow> clean up q A bind \<Longrightarrow> opens_free q bind \<Longrightarrow>
      bd_comparison d column operator bind = Some s \<Longrightarrow> clean up q A s"
    and excluded_clean: "clean up q A s \<Longrightarrow> clean up q A (bd_excluded d s)"
    and tail_clean: "matching \<noteq> [] \<Longrightarrow> \<forall>x \<in> set matching. clean up q A x \<Longrightarrow> \<forall>x \<in> set updates. clean up q A x \<Longrightarrow>
      clean up q A (bd_upsert_tail d quoted matching updates)"
    and tail_opens: "opens_free q (bd_upsert_tail d quoted matching updates)"
    and suffix_clean: "s \<in> {bd_returning_all d, bd_drop_cascade d, bd_truncate_restart d} \<Longrightarrow> plain_text s \<and> opens_free q s"
begin

lemma quote_cases: "q = CHR 0x22 \<or> q = CHR 0x60"
  using quote_char by (auto simp: name_quote_def)

lemma opensI: "\<not> is_word_byte (hd s) \<Longrightarrow> hd s \<notin> {CHR 0x27, CHR ''&'', CHR 0x22, CHR 0x60} \<Longrightarrow> opens_free q s"
  using quote_cases by (auto simp: opens_free_def)

lemma closesI: "\<not> is_word_byte (last s) \<Longrightarrow> last s \<notin> {CHR 0x27, CHR 0x22, CHR 0x60} \<Longrightarrow> closes_free q s"
  using quote_cases by (auto simp: closes_free_def)

lemma parts_clean: "quote_parts d ps = Inr qs \<Longrightarrow> set ps \<subseteq> A \<Longrightarrow> \<forall>x \<in> set qs. clean up q A x"
proof (induction ps arbitrary: qs)
  case (Cons p ps)
  then show ?case using quoted_part [of p] clean_name [of p A up q] by (auto split: option.splits sum.splits)
qed simp

lemma identifier_clean: "quoted_identifier d ps = Inr s \<Longrightarrow> set ps \<subseteq> A \<Longrightarrow> clean up q A s"
  using parts_clean
  by (auto simp: quoted_identifier_def clean_plain plain_literals is_word_byte_def intro!: clean_join opensI closesI
      split: if_split_asm sum.split_asm)

lemma quote_all_clean: "quote_all d ns = Inr qs \<Longrightarrow> set ns \<subseteq> A \<Longrightarrow> \<forall>x \<in> set qs. clean up q A x"
proof (induction ns arbitrary: qs)
  case (Cons n ns)
  then show ?case using identifier_clean by (auto split: sum.splits)
qed simp

lemma quote_all_length: "quote_all d ns = Inr qs \<Longrightarrow> length qs = length ns"
  by (induction ns arbitrary: qs) (auto split: sum.splits)

lemma name_clean: "qualified_name d t = Inr s \<Longrightarrow> {tg_schema t, tg_table t} \<subseteq> A \<Longrightarrow> clean up q A s"
  using identifier_clean by (auto simp: qualified_name_def split: if_split_asm)

lemma comma: "clean up q A '', ''" "opens_free q '', ''" "closes_free q '', ''"
  by (intro clean_plain opensI closesI; simp add: plain_literals is_word_byte_def)+

lemma list_clean: "\<forall>x \<in> set xs. clean up q A x \<Longrightarrow> clean up q A (join '', '' xs)"
  by (rule clean_join) (simp_all add: comma)

lemma where_term_clean:
  assumes "where_term d n column operator = Inr (s, b)" "column \<in> A"
  shows "clean up q A s"
proof -
  obtain c where c: "quoted_identifier d [column] = Inr c"
    using assms(1) by (auto simp: where_term_def split: sum.splits)
  have col: "clean up q A c" using identifier_clean [OF c] assms(2) by simp
  have "clean up q A (c @ '' IS NULL'')" "clean up q A (c @ '' IS NOT NULL'')"
    by (intro clean_suffix col opensI; simp add: plain_literals is_word_byte_def)+
  moreover have "clean up q A t" if "bd_comparison d c operator (bd_placeholder d n) = Some t" for t
    using comparison_clean [OF col _ placeholder_opens that] placeholder_clean clean_mono by blast
  ultimately show ?thesis using assms(1) c
    by (auto simp: where_term_def split: if_split_asm option.split_asm)
qed

lemma where_terms_clean:
  "where_terms d n cs = Inr (ts, vs) \<Longrightarrow> cm_column ` set cs \<subseteq> A \<Longrightarrow> \<forall>x \<in> set ts. clean up q A x"
proof (induction cs arbitrary: n ts vs)
  case (Cons c cs)
  then show ?case using where_term_clean by (fastforce split: sum.splits prod.splits)
qed simp

lemma where_clean:
  assumes "where_clause d cs combine n = Inr (s, vs)" "cm_column ` set cs \<subseteq> A"
  shows "clean up q A s \<and> opens_free q s"
proof (cases "cs = []")
  case True
  then show ?thesis using assms(1) by (auto simp: where_clause_def clean_plain plain_text_def)
next
  case False
  then obtain ts joiner where ts: "where_terms d n cs = Inr (ts, vs)" "s = '' WHERE '' @ join joiner ts"
    "joiner = '' OR '' \<or> joiner = '' AND ''"
    using assms(1) by (auto simp: where_clause_def Let_def split: sum.splits if_split_asm)
  have "clean up q A joiner \<and> opens_free q joiner \<and> closes_free q joiner \<and> joiner \<noteq> []"
    using ts(3) by (elim disjE; intro conjI clean_plain opensI closesI; simp add: plain_literals is_word_byte_def)
  then have "clean up q A (join joiner ts)"
    using where_terms_clean [OF ts(1) assms(2)] by (intro clean_join) auto
  then have "clean up q A ('' WHERE '' @ join joiner ts)"
    by (intro clean_prefix) (auto simp: plain_literals is_word_byte_def intro!: closesI)
  then show ?thesis using ts(2) by (auto simp: is_word_byte_def intro!: opensI)
qed

lemma placeholder: "clean up q A (bd_placeholder d n)"
  using placeholder_clean clean_mono by blast

lemma assignment_clean: "clean up q A c \<Longrightarrow> clean up q A (c @ '' = '' @ bd_placeholder d n)"
  by (rule clean_between [OF _ placeholder]; (intro opensI closesI)?; simp add: plain_literals is_word_byte_def)

lemma assignments_clean:
  "assignments d values matching n cs = Inr (as, vs) \<Longrightarrow> set cs \<subseteq> A \<Longrightarrow> \<forall>x \<in> set as. clean up q A x"
proof (induction cs arbitrary: n as vs)
  case (Cons c cs)
  then show ?case
    using identifier_clean [of "[c]" _ A] assignment_clean by (fastforce split: if_split_asm sum.splits)
qed simp

lemma match_terms_columns: "match_terms values cs = Inr ts \<Longrightarrow> map cm_column ts = cs"
  by (induction cs arbitrary: ts) (auto split: option.splits sum.splits)

lemma match_clean:
  assumes "match_clause d values matching n = Inr (s, vs)" "set matching \<subseteq> A"
  shows "clean up q A s \<and> opens_free q s"
proof -
  obtain ts where "match_terms values matching = Inr ts" "where_clause d ts ''and'' n = Inr (s, vs)"
    using assms(1) by (auto simp: match_clause_def split: sum.splits)
  then show ?thesis using where_clean match_terms_columns assms(2) by (metis list.set_map)
qed

lemma suffixes [simp]:
  "plain_text (bd_returning_all d)" "opens_free q (bd_returning_all d)" "plain_text (bd_drop_cascade d)"
  "opens_free q (bd_drop_cascade d)" "plain_text (bd_truncate_restart d)" "opens_free q (bd_truncate_restart d)"
  using suffix_clean by simp_all

lemma returning_clean [simp]: "clean up q A (bd_returning_all d)"
  by (simp add: clean_plain)

lemma order_terms_clean: "order_terms d ts = Inr ss \<Longrightarrow> or_column ` set ts \<subseteq> A \<Longrightarrow> \<forall>x \<in> set ss. clean up q A x"
proof (induction ts arbitrary: ss)
  case (Cons t ts)
  have "clean up q A (c @ (if b then '' DESC'' else '' ASC''))" if "clean up q A c" for c b
    by (intro clean_suffix that opensI; simp add: plain_literals is_word_byte_def)
  then show ?case using Cons identifier_clean by (auto split: sum.splits)
qed simp

lemma order_clean:
  assumes "order_clause d ts = Inr s" "or_column ` set ts \<subseteq> A"
  shows "clean up q A s \<and> opens_free q s"
proof (cases "ts = []")
  case True
  then show ?thesis using assms(1) by (auto simp: order_clause_def clean_plain plain_text_def)
next
  case False
  then obtain ss where ss: "order_terms d ts = Inr ss" "s = '' ORDER BY '' @ join '', '' ss"
    using assms(1) by (auto simp: order_clause_def split: sum.splits)
  have "clean up q A ('' ORDER BY '' @ join '', '' ss)"
    by (intro clean_prefix list_clean order_terms_clean [OF ss(1) assms(2)] closesI; simp add: plain_literals is_word_byte_def)
  then show ?thesis using ss(2) by (auto simp: is_word_byte_def intro!: opensI)
qed

lemma limit_clean: "clean up q A (limit_clause n) \<and> opens_free q (limit_clause n)"
proof (cases "0 < n")
  case True
  have "itoa n = dec_nat (nat n)" using True by (simp add: itoa_def)
  moreover have "clean up q A ('' LIMIT '' @ dec_nat (nat n))"
    by (intro clean_prefix clean_plain plain_number closesI; simp add: plain_literals is_word_byte_def)
  ultimately show ?thesis using True by (auto simp: limit_clause_def is_word_byte_def intro!: opensI)
next
  case False
  then show ?thesis by (simp add: limit_clause_def clean_plain plain_text_def)
qed

lemma projection_clean:
  assumes "select_projection d cs = Inr s" "set cs \<subseteq> A"
  shows "clean up q A s"
  using assms list_clean quote_all_clean
  by (auto simp: select_projection_def clean_plain plain_literals split: if_split_asm sum.split_asm)

text \<open>The text after a statement's verb; what each builder is given is the set of names it may write.\<close>

lemma select_clean:
  assumes "build_select d t cs ws combine ts n = Inr st"
    "{tg_schema t, tg_table t} \<union> set cs \<union> cm_column ` set ws \<union> or_column ` set ts \<subseteq> A"
  shows "\<exists>s. ss_sql st = ''SELECT '' @ s \<and> clean up q A s"
proof -
  obtain name p clause vs o' where parts: "qualified_name d t = Inr name" "select_projection d cs = Inr p"
    "where_clause d ws combine 1 = Inr (clause, vs)" "order_clause d ts = Inr o'"
    "ss_sql st = ''SELECT '' @ p @ '' FROM '' @ name @ clause @ o' @ limit_clause n"
    using assms(1) by (auto simp: build_select_def split: sum.splits)
  note c = name_clean [OF parts(1), of A] projection_clean [OF parts(2), of A] where_clean [OF parts(3), of A]
    order_clean [OF parts(4), of A] limit_clean [of A n]
  have "clean up q A (name @ clause @ o' @ limit_clause n)"
    using c assms(2) by (auto intro!: clean_tail opens_append)
  then have "clean up q A (p @ '' FROM '' @ name @ clause @ o' @ limit_clause n)"
    by (rule clean_between [rotated]) (use c(2) assms(2) in \<open>auto simp: plain_literals is_word_byte_def intro!: opensI closesI\<close>)
  then show ?thesis using parts(5) by blast
qed

lemma insert_head_clean:
  assumes "clean up q A name" "\<forall>x \<in> set quoted. clean up q A x"
  shows "\<exists>s. insert_head d name quoted = ''INSERT INTO '' @ s \<and> clean up q A s"
proof -
  have marks: "clean up q A (join '', '' (map (bd_placeholder d) [1..<Suc (length quoted)]) @ '')'')"
    by (intro clean_suffix list_clean opensI) (auto simp: placeholder plain_literals is_word_byte_def)
  have "clean up q A (join '', '' quoted @ '') VALUES ('' @ join '', '' (map (bd_placeholder d) [1..<Suc (length quoted)]) @ '')'')"
    by (intro clean_between list_clean marks assms opensI closesI; simp add: plain_literals is_word_byte_def)
  from clean_between [OF assms(1) this, of "'' (''"] have "clean up q A (name @ '' ('' @ join '', '' quoted @ '') VALUES ('' @
      join '', '' (map (bd_placeholder d) [1..<Suc (length quoted)]) @ '')'')"
    using opensI [of "'' (''"] closesI [of "'' (''"] by (simp add: plain_literals is_word_byte_def)
  then show ?thesis unfolding insert_head_def by blast
qed

lemma insert_clean:
  assumes "build_insert d t values False = Inr st" "{tg_schema t, tg_table t} \<union> fst ` set values \<subseteq> A"
  shows "\<exists>s. ss_sql st = ''INSERT INTO '' @ s \<and> clean up q A s"
proof -
  obtain name quoted where parts: "qualified_name d t = Inr name" "quote_all d (sorted_keys values) = Inr quoted"
    "ss_sql st = insert_head d name quoted @ bd_returning_all d"
    using assms(1) by (auto simp: build_insert_def Let_def split: sum.splits if_split_asm)
  have "set (sorted_keys values) \<subseteq> A" using assms(2) by (simp add: sorted_keys_def)
  then obtain s where "insert_head d name quoted = ''INSERT INTO '' @ s" "clean up q A s"
    using insert_head_clean [of A name quoted] name_clean [OF parts(1)] quote_all_clean [OF parts(2)] assms(2) by auto
  then show ?thesis using parts(3) by (auto intro!: exI [of _ "s @ bd_returning_all d"] clean_suffix)
qed

lemma update_clean:
  assumes "build_update d t values matching = Inr st"
    "{tg_schema t, tg_table t} \<union> fst ` set values \<union> set matching \<subseteq> A"
  shows "\<exists>s. ss_sql st = ''UPDATE '' @ s \<and> clean up q A s"
proof -
  obtain name as bound clause vs where parts: "qualified_name d t = Inr name"
    "assignment_list d values matching 1 = Inr (as, bound)"
    "match_clause d values matching (Suc (length bound)) = Inr (clause, vs)"
    "ss_sql st = ''UPDATE '' @ name @ '' SET '' @ join '', '' as @ clause @ bd_returning_all d"
    using assms(1) by (auto simp: build_update_def split: sum.splits if_split_asm)
  have "set (sorted_keys values) \<subseteq> A" using assms(2) by (simp add: sorted_keys_def)
  then have as: "\<forall>x \<in> set as. clean up q A x"
    using parts(2) assignments_clean by (fastforce simp: assignment_list_def split: sum.splits if_split_asm)
  have "clean up q A (join '', '' as @ clause @ bd_returning_all d)"
    using list_clean [OF as] match_clean [OF parts(3), of A] assms(2)
    by (auto intro!: clean_tail opens_append)
  from clean_between [OF _ this, of name "'' SET ''"]
  have "clean up q A (name @ '' SET '' @ join '', '' as @ clause @ bd_returning_all d)"
    using name_clean [OF parts(1), of A] assms(2) opensI [of "'' SET ''"] closesI [of "'' SET ''"]
    by (simp add: plain_literals is_word_byte_def)
  then show ?thesis using parts(4) by blast
qed

lemma upsert_clean:
  assumes "build_upsert d t values matching = Inr st"
    "{tg_schema t, tg_table t} \<union> fst ` set values \<union> set matching \<subseteq> A"
  shows "\<exists>s. ss_sql st = ''INSERT INTO '' @ s \<and> clean up q A s"
proof -
  obtain name quoted conflict updates where parts: "qualified_name d t = Inr name" "matching \<noteq> []"
    "quote_all d (sorted_keys values) = Inr quoted" "quote_all d matching = Inr conflict"
    "updates = map (\<lambda>(_, q). bd_excluded d q) (filter (\<lambda>(c, _). c \<notin> set matching) (zip (sorted_keys values) quoted))"
    "ss_sql st = insert_head d name quoted @ bd_upsert_tail d quoted conflict updates @ bd_returning_all d"
    using assms(1) by (auto simp: build_upsert_def Let_def split: sum.splits if_split_asm)
  have "set (sorted_keys values) \<subseteq> A" using assms(2) by (simp add: sorted_keys_def)
  then have quoted: "\<forall>x \<in> set quoted. clean up q A x" by (rule quote_all_clean [OF parts(3)])
  then have "\<forall>x \<in> set updates. clean up q A x"
    using excluded_clean parts(5) by (auto dest: set_zip_rightD)
  moreover have "\<forall>x \<in> set conflict. clean up q A x" "conflict \<noteq> []"
    using quote_all_clean [OF parts(4), of A] quote_all_length [OF parts(4)] parts(2) assms(2) by auto
  ultimately have tail: "clean up q A (bd_upsert_tail d quoted conflict updates @ bd_returning_all d)"
    by (intro clean_suffix tail_clean) simp_all
  obtain s where "insert_head d name quoted = ''INSERT INTO '' @ s" "clean up q A s"
    using insert_head_clean [of A name quoted] name_clean [OF parts(1)] quoted assms(2) by auto
  then show ?thesis using parts(6) tail tail_opens
    by (auto intro!: exI [of _ "s @ bd_upsert_tail d quoted conflict updates @ bd_returning_all d"] clean_tail opens_append)
qed

lemma delete_clean:
  assumes "build_delete d t mode ws combine r = Inr st" "{tg_schema t, tg_table t} \<union> cm_column ` set ws \<subseteq> A"
  shows "\<exists>s. ss_sql st \<in> {''DROP TABLE IF EXISTS '' @ s, ''TRUNCATE TABLE '' @ s, ''DELETE FROM '' @ s} \<and> clean up q A s"
proof -
  obtain name where name: "qualified_name d t = Inr name" using assms(1) by (auto simp: build_delete_def split: sum.splits)
  have clean: "clean up q A name" using name_clean [OF name] assms(2) by simp
  have cascade: "clean up q A (name @ (if b then bd_drop_cascade d else []))" for b
    using clean by (auto intro!: clean_suffix)
  have restart: "clean up q A (name @ (if b then bd_truncate_restart d else []))" for b
    using clean by (auto intro!: clean_suffix)
  consider "mode = ''drop''" | "mode = ''truncate''" | "mode \<noteq> ''drop''" "mode \<noteq> ''truncate''" by blast
  then show ?thesis
  proof cases
    case 3
    then obtain clause vs where "where_clause d ws combine 1 = Inr (clause, vs)" "ss_sql st = ''DELETE FROM '' @ name @ clause"
      using assms(1) name by (simp add: build_delete_def split: if_split_asm sum.split_asm prod.split_asm) force+
    moreover from this have "clean up q A (name @ clause)"
      using clean where_clean [of ws combine 1 clause vs A] assms(2) by (auto intro!: clean_tail)
    ultimately show ?thesis by blast
  next
    case 1
    then show ?thesis using assms(1) name cascade [of "rm_cascade r"]
      by (intro exI [of _ "name @ (if rm_cascade r then bd_drop_cascade d else [])"]) (auto simp: build_delete_def)
  next
    case 2
    then show ?thesis using assms(1) name restart [of "rm_restart r"]
      by (intro exI [of _ "name @ (if rm_restart r then bd_truncate_restart d else [])"]) (auto simp: build_delete_def)
  qed
qed

end

subsection \<open>The two dialects\<close>

text \<open>
  What \<open>pgx.Identifier.Sanitize\<close> documents for one part without a NUL byte: double quotes around it, the ones
  inside doubled.
\<close>

definition quotes_names :: "(string \<Rightarrow> string) \<Rightarrow> bool" where
  "quotes_names sanitize \<longleftrightarrow>
     (\<forall>p. CHR 0x00 \<notin> set p \<longrightarrow> sanitize p = [CHR 0x22] @ replace_all p [CHR 0x22] [CHR 0x22, CHR 0x22] @ [CHR 0x22])"

lemma trim_space_Nil: "trim_space [] = []"
proof -
  have "strip_forms forms [] = []" for forms using strip_forms_length [of forms "[]"] by simp
  then show ?thesis by (simp add: trim_space_def)
qed

lemma free_cases:
  assumes "q = CHR 0x22 \<or> q = CHR 0x60"
  shows "\<not> is_word_byte (hd s) \<Longrightarrow> hd s \<notin> {CHR 0x27, CHR ''&'', CHR 0x22, CHR 0x60} \<Longrightarrow> opens_free q s"
    "\<not> is_word_byte (last s) \<Longrightarrow> last s \<notin> {CHR 0x27, CHR 0x22, CHR 0x60} \<Longrightarrow> closes_free q s"
  using assms by (auto simp: opens_free_def closes_free_def)

lemma symbol_clean: "aget comparison_sql operator = Some s \<Longrightarrow> plain_text ('' '' @ s @ '' '')"
  by (auto simp: comparison_sql_def plain_literals split: if_split_asm)

lemma comparison_between:
  assumes "clean up q A c" "clean up q A b" "opens_free q b" "q = CHR 0x22 \<or> q = CHR 0x60"
    "standard_comparison c operator b = Some s"
  shows "clean up q A s"
proof -
  obtain symbol where s: "aget comparison_sql operator = Some symbol" "s = c @ ('' '' @ symbol @ '' '') @ b"
    using assms(5) by (auto simp: standard_comparison_def)
  have "opens_free q ('' '' @ symbol @ '' '')" "closes_free q ('' '' @ symbol @ '' '')"
    using free_cases [OF assms(4), of "'' '' @ symbol @ '' ''"] by (auto simp: is_word_byte_def)
  then show ?thesis unfolding s(2) by (intro clean_between assms symbol_clean [OF s(1)]) auto
qed

lemma list_of_clean:
  assumes "\<forall>x \<in> set xs. clean up q A x" "q = CHR 0x22 \<or> q = CHR 0x60"
  shows "clean up q A (join '', '' xs)"
  using assms free_cases [OF assms(2), of "'', ''"]
  by (intro clean_join) (auto simp: clean_plain plain_literals is_word_byte_def)

lemma postgres_spelling:
  assumes "quotes_names sanitize"
  shows "sql_spelling (postgres_build sanitize) postgres_guard (CHR 0x22) up"
proof unfold_locales
  let ?d = "postgres_build sanitize" and ?q = "CHR 0x22"
  note free = free_cases [of ?q, simplified]
  show "name_quote postgres_guard ?q" by (simp add: name_quote_def postgres_guard_def)
  show "bd_quote ?d p = ?q # doubled ?q p @ [?q] \<and> p \<noteq> []" if "bd_check_part ?d p = None" for p
    using that assms trim_space_Nil
    by (auto simp: postgres_build_def check_postgres_part_def quotes_names_def doubled_def split: if_split_asm)
  show "clean up ?q {} (bd_placeholder ?d n)" for n
    by (simp add: postgres_build_def itoa_def clean_plain plain_dollar)
  show "opens_free ?q (bd_placeholder ?d n)" for n
    by (rule free) (simp_all add: postgres_build_def is_word_byte_def)
  show "clean up ?q A s" if "clean up ?q A column" "clean up ?q A bind" "opens_free ?q bind"
    "bd_comparison ?d column operator bind = Some s" for A column operator bind s
    using comparison_between [OF that(1-3)] that(4) by (simp add: postgres_build_def)
  show "clean up ?q A (bd_excluded ?d s)" if "clean up ?q A s" for A s
    using clean_between [OF that that, of "'' = EXCLUDED.''"] free [of "'' = EXCLUDED.''"]
    by (simp add: postgres_build_def plain_literals is_word_byte_def)
  show "opens_free ?q (bd_upsert_tail ?d quoted matching updates)" for quoted matching updates
    by (rule free) (simp_all add: postgres_build_def is_word_byte_def Let_def)
  show "plain_text s \<and> opens_free ?q s" if "s \<in> {bd_returning_all ?d, bd_drop_cascade ?d, bd_truncate_restart ?d}" for s
    using that free [of s] by (auto simp: postgres_build_def plain_literals is_word_byte_def)
  show "clean up ?q A (bd_upsert_tail ?d quoted matching updates)"
    if "matching \<noteq> []" "\<forall>x \<in> set matching. clean up ?q A x" "\<forall>x \<in> set updates. clean up ?q A x"
    for A matching updates quoted
  proof -
    have "clean up ?q A ('' ON CONFLICT ('' @ join '', '' matching @ '')'')"
      by (intro clean_prefix clean_suffix list_of_clean that free; simp add: plain_literals is_word_byte_def)
    moreover have "clean up ?q A ('' DO UPDATE SET '' @ join '', '' updates)"
      by (intro clean_prefix list_of_clean that free; simp add: plain_literals is_word_byte_def)
    moreover have "clean up ?q A '' DO NOTHING''" by (simp add: clean_plain plain_literals)
    moreover have "opens_free ?q '' DO NOTHING''" "opens_free ?q ('' DO UPDATE SET '' @ join '', '' updates)"
      by (rule free; simp add: is_word_byte_def)+
    ultimately have
      "clean up ?q A (('' ON CONFLICT ('' @ join '', '' matching @ '')'') @ '' DO NOTHING'')"
      "clean up ?q A (('' ON CONFLICT ('' @ join '', '' matching @ '')'') @ ('' DO UPDATE SET '' @ join '', '' updates))"
      by (blast intro: clean_tail)+
    then show ?thesis by (simp add: postgres_build_def Let_def)
  qed
qed

lemma mysql_spelling: "sql_spelling mysql_build mysql_guard (CHR 0x60) up"
proof unfold_locales
  let ?d = mysql_build and ?q = "CHR 0x60"
  note free = free_cases [of ?q, simplified]
  show "name_quote mysql_guard ?q" by (simp add: name_quote_def mysql_guard_def)
  show "bd_quote ?d p = ?q # doubled ?q p @ [?q] \<and> p \<noteq> []" if "bd_check_part ?d p = None" for p
    using that trim_space_Nil by (auto simp: mysql_build_def check_mysql_part_def doubled_def split: if_split_asm)
  show "clean up ?q {} (bd_placeholder ?d n)" for n
    by (simp add: mysql_build_def clean_plain plain_literals)
  show "opens_free ?q (bd_placeholder ?d n)" for n
    by (rule free) (simp_all add: mysql_build_def is_word_byte_def)
  show "clean up ?q A s" if "clean up ?q A column" "clean up ?q A bind" "opens_free ?q bind"
    "bd_comparison ?d column operator bind = Some s" for A column operator bind s
  proof (cases "operator = ''ilike''")
    case True
    have "clean up ?q A (''LOWER('' @ (column @ '') LIKE LOWER('' @ (bind @ '')'')))"
      by (intro clean_prefix clean_between clean_suffix that(1,2) free; simp add: plain_literals is_word_byte_def)
    then show ?thesis using that(4) True by (simp add: mysql_build_def mysql_comparison_def)
  next
    case False
    then show ?thesis using comparison_between [OF that(1-3)] that(4) by (simp add: mysql_build_def mysql_comparison_def)
  qed
  show "clean up ?q A (bd_excluded ?d s)" if "clean up ?q A s" for A s
  proof -
    have "clean up ?q A (s @ '' = VALUES('' @ (s @ '')''))"
      by (intro clean_between clean_suffix that free; simp add: plain_literals is_word_byte_def)
    then show ?thesis by (simp add: mysql_build_def)
  qed
  show "opens_free ?q (bd_upsert_tail ?d quoted matching updates)" for quoted matching updates
    by (rule free) (simp_all add: mysql_build_def is_word_byte_def Let_def)
  show "plain_text s \<and> opens_free ?q s" if "s \<in> {bd_returning_all ?d, bd_drop_cascade ?d, bd_truncate_restart ?d}" for s
    using that by (auto simp: mysql_build_def plain_text_def)
  show "clean up ?q A (bd_upsert_tail ?d quoted matching updates)"
    if "matching \<noteq> []" "\<forall>x \<in> set matching. clean up ?q A x" "\<forall>x \<in> set updates. clean up ?q A x"
    for A matching updates quoted
  proof -
    have "clean up ?q A (hd matching)" using that(1,2) by simp
    then have "clean up ?q A ('' ON DUPLICATE KEY UPDATE '' @ (hd matching @ '' = '' @ hd matching))"
      by (intro clean_prefix clean_between free; simp add: plain_literals is_word_byte_def)
    moreover have "clean up ?q A ('' ON DUPLICATE KEY UPDATE '' @ join '', '' updates)"
      by (intro clean_prefix list_of_clean that free; simp add: plain_literals is_word_byte_def)
    ultimately show ?thesis by (simp add: mysql_build_def)
  qed
qed

subsection \<open>What the guard says of a built statement\<close>

text \<open>The statements the builders return, with the names each was given.\<close>

inductive built :: "build_dialect \<Rightarrow> string set \<Rightarrow> 'v sql_statement \<Rightarrow> bool" for d where
  built_select: "build_select d t cs ws combine ts n = Inr st \<Longrightarrow>
    built d ({tg_schema t, tg_table t} \<union> set cs \<union> cm_column ` set ws \<union> or_column ` set ts) st"
| built_insert: "build_insert d t values False = Inr st \<Longrightarrow> built d ({tg_schema t, tg_table t} \<union> fst ` set values) st"
| built_update: "build_update d t values matching = Inr st \<Longrightarrow>
    built d ({tg_schema t, tg_table t} \<union> fst ` set values \<union> set matching) st"
| built_upsert: "build_upsert d t values matching = Inr st \<Longrightarrow>
    built d ({tg_schema t, tg_table t} \<union> fst ` set values \<union> set matching) st"
| built_delete: "build_delete d t mode ws combine r = Inr st \<Longrightarrow>
    built d ({tg_schema t, tg_table t} \<union> cm_column ` set ws) st"

definition verbs :: "string list" where
  "verbs = [''SELECT '', ''INSERT INTO '', ''INSERT IGNORE INTO '', ''UPDATE '', ''DELETE FROM '', ''DROP TABLE IF EXISTS '',
     ''TRUNCATE TABLE '']"

lemma verbs_in:
  "''SELECT '' \<in> set verbs" "''INSERT INTO '' \<in> set verbs" "''UPDATE '' \<in> set verbs" "''DELETE FROM '' \<in> set verbs"
  "''DROP TABLE IF EXISTS '' \<in> set verbs" "''TRUNCATE TABLE '' \<in> set verbs" "''INSERT IGNORE INTO '' \<in> set verbs"
  by (simp_all add: verbs_def)

lemma phrase_words: "contains_phrase ws phrase \<Longrightarrow> set phrase \<subseteq> set ws"
proof -
  have "set ps \<subseteq> set ws" if "starts_with_phrase ws ps" for ws ps
    using that by (induction ws ps rule: starts_with_phrase.induct) auto
  then have "set phrase \<subseteq> set ws" if "phrase_within ws phrase" for ws
    using that by (induction ws phrase rule: phrase_within.induct) fastforce+
  then show "contains_phrase ws phrase \<Longrightarrow> set phrase \<subseteq> set ws" by (simp add: contains_phrase_def)
qed

lemma trim_space_keeps:
  assumes "c \<in> set s" "\<forall>w \<in> set space_forms. c \<notin> set w"
  shows "trim_space s \<noteq> []"
proof -
  have keeps: "c \<in> set (strip_forms forms t)" if "\<forall>w \<in> set forms. c \<notin> set w" "c \<in> set t" for forms t
    using that
  proof (induction forms t rule: strip_forms.induct)
    case (1 forms t)
    show ?case
    proof (cases "strip_form forms t")
      case (Some u)
      then obtain w where "find (\<lambda>w. w \<noteq> [] \<and> is_prefix w t) forms = Some w" "u = drop (length w) t"
        by (auto simp: strip_form_def split: option.splits)
      then have w: "w \<in> set forms" "is_prefix w t" "u = drop (length w) t" by (auto simp: find_Some_iff)
      then have "c \<in> set u"
        using 1(2,3) append_take_drop_id [of "length w" t] by (metis UnE is_prefix_def set_append)
      then show ?thesis using 1 Some by (simp add: strip_forms.simps [of forms t])
    qed (use 1 in \<open>simp add: strip_forms.simps [of forms t]\<close>)
  qed
  have "c \<in> set (trim_space s)"
    unfolding trim_space_def using assms by (auto intro!: keeps)
  then show ?thesis by auto
qed

lemma verb_letters: "c \<in> set ''SIUDT'' \<Longrightarrow> \<forall>w \<in> set space_forms. c \<notin> set w"
proof -
  have "list_all (\<lambda>w. list_all (\<lambda>c. c \<notin> set w) ''SIUDT'') space_forms" by code_simp
  then show "c \<in> set ''SIUDT'' \<Longrightarrow> \<forall>w \<in> set space_forms. c \<notin> set w" by (auto simp: list_all_iff)
qed

lemma first_refusal_None: "first_refusal f xs = None \<longleftrightarrow> (\<forall>x \<in> set xs. f x = None)"
  by (induction xs) (auto split: option.splits)

locale sql_served = sql_spelling +
  assumes guard_phrases: "phrase \<in> set (sd_phrases g) \<Longrightarrow> \<exists>w \<in> set phrase. \<not> safe_word w"
    and guard_names: "n \<in> set (sd_names g) \<Longrightarrow> \<not> safe_word n"
    and guard_verbs: "v \<in> set verbs \<Longrightarrow> st_words st = bare_words [] v @ ws \<Longrightarrow>
      refuse_forbidden_phrases g st = None \<Longrightarrow> admit g st = None"
begin

lemma words_allowed:
  assumes "list_all safe_word ws" "set ns \<inter> set (sd_names g) = {}"
  shows "refuse_forbidden_phrases g \<lparr>st_names = ns, st_words = ws\<rparr> = None"
proof -
  have safe: "\<forall>w \<in> set ws. safe_word w" using assms(1) by (simp add: list_all_iff)
  have "\<not> contains_phrase ws phrase" if "phrase \<in> set (sd_phrases g)" for phrase
    using that guard_phrases safe phrase_words by blast
  then have "find (contains_phrase ws) (sd_phrases g) = None" by (simp add: find_None_iff)
  moreover have "\<not> contains_phrase ws [n] \<and> \<not> contains_word ns n" if "n \<in> set (sd_names g)" for n
    using that guard_names safe phrase_words [of ws "[n]"] assms(2) by (auto simp: contains_word_def)
  then have "find (\<lambda>n. contains_phrase ws [n] \<or> contains_word ns n) (sd_names g) = None" by (simp add: find_None_iff)
  ultimately show ?thesis by (simp add: refuse_forbidden_phrases_def)
qed

text \<open>A verb of the builders followed by clean text is one statement in every reading, and it is admitted.\<close>

lemma verb_reads:
  assumes "v \<in> set verbs" "clean up q A s"
  shows "\<exists>ws ns. reads up q (v @ s) (bare_words [] v @ ws) ns \<and> list_all safe_word (bare_words [] v @ ws) \<and>
    set ns \<subseteq> spelled up q ` A \<and> bare_words [] v \<noteq> []"
proof -
  obtain ws ns where r: "reads up q s ws ns" "list_all safe_word ws" "set ns \<subseteq> spelled up q ` A"
    using assms(2) by (auto simp: clean_def)
  have v: "plain_text v" "closes_free q v" "bare_words [] v \<noteq> []"
    using assms(1) by (auto simp: verbs_def plain_literals is_word_byte_def intro!: closesI)
  then have "reads up q (v @ s) (bare_words [] v @ ws) ([] @ ns)"
    using r(1) by (intro reads.append reads.bare) (auto simp: plain_text_def)
  then show ?thesis using r v by (auto simp: plain_text_def)
qed

lemma verb_split:
  assumes "v \<in> set verbs" "clean up q A s"
  shows "\<exists>ws ns. list_all safe_word (bare_words [] v @ ws) \<and> set ns \<subseteq> spelled up q ` A \<and>
    (\<forall>e. split_statements up g (v @ s) e = Inr [\<lparr>st_names = ns, st_words = bare_words [] v @ ws\<rparr>])"
  using verb_reads [OF assms] split_one quote_char by blast

lemma verb_checked:
  assumes "v \<in> set verbs" "clean up q A s" "spelled up q ` A \<inter> set (sd_names g) = {}"
  shows "sql_check up g (v @ s) = None"
proof -
  obtain ws ns where split: "list_all safe_word (bare_words [] v @ ws)" "set ns \<subseteq> spelled up q ` A"
    "\<And>e. split_statements up g (v @ s) e = Inr [\<lparr>st_names = ns, st_words = bare_words [] v @ ws\<rparr>]"
    using verb_split [OF assms(1,2)] by blast
  have "refuse_forbidden_phrases g \<lparr>st_names = ns, st_words = bare_words [] v @ ws\<rparr> = None"
    using words_allowed split(1,2) assms(3) by blast
  then have "check_reading up g (v @ s) e = None" for e
    using guard_verbs [OF assms(1)] split(3) by (simp add: check_reading_def)
  moreover have "hd v \<in> set (v @ s)" "hd v \<in> set ''SIUDT''" using assms(1) by (auto simp: verbs_def)
  then have "trim_space (v @ s) \<noteq> []" using trim_space_keeps verb_letters by blast
  ultimately show ?thesis by (simp add: sql_check_def first_refusal_None)
qed

lemma built_verb: "built d A st \<Longrightarrow> \<exists>v s. v \<in> set verbs \<and> ss_sql st = v @ s \<and> clean up q A s"
proof (induction rule: built.induct)
  case (built_delete t mode ws combine r st)
  then show ?case using delete_clean [OF built_delete subset_refl] verbs_in by blast
next
  case (built_select t cs ws combine ts n st)
  then show ?case using select_clean [OF built_select subset_refl] verbs_in by blast
next
  case (built_insert t vs st)
  then show ?case using insert_clean [OF built_insert subset_refl] verbs_in by blast
next
  case (built_update t vs matching st)
  then show ?case using update_clean [OF built_update subset_refl] verbs_in by blast
next
  case (built_upsert t vs matching st)
  then show ?case using upsert_clean [OF built_upsert subset_refl] verbs_in by blast
qed

lemma built_one:
  assumes "built d A st"
  shows "\<exists>s. \<forall>e. split_statements up g (ss_sql st) e = Inr [s]"
  using built_verb [OF assms] verb_split by metis

lemma built_checked:
  assumes "built d A st" "spelled up q ` A \<inter> set (sd_names g) = {}"
  shows "sql_check up g (ss_sql st) = None"
  using built_verb [OF assms(1)] verb_checked assms(2) by metis

end

text \<open>Both dialects keep the guard's side of the contract.\<close>

lemma guard_words:
  assumes "g = postgres_guard \<or> g = mysql_guard"
  shows "phrase \<in> set (sd_phrases g) \<Longrightarrow> \<exists>w \<in> set phrase. \<not> safe_word w" "n \<in> set (sd_names g) \<Longrightarrow> \<not> safe_word n"
proof -
  have "list_all (\<lambda>phrase. list_ex (\<lambda>w. \<not> safe_word w) phrase) (sd_phrases postgres_guard @ sd_phrases mysql_guard)"
    by code_simp
  then show "phrase \<in> set (sd_phrases g) \<Longrightarrow> \<exists>w \<in> set phrase. \<not> safe_word w"
    using assms by (auto simp: list_all_iff list_ex_iff)
  have "list_all (\<lambda>n. \<not> safe_word n) (sd_names postgres_guard @ sd_names mysql_guard)" by code_simp
  then show "n \<in> set (sd_names g) \<Longrightarrow> \<not> safe_word n" using assms by (auto simp: list_all_iff)
qed

lemma verb_words:
  "v \<in> set verbs \<Longrightarrow> bare_words [] v \<in> set [[''SELECT''], [''INSERT'', ''INTO''], [''INSERT'', ''IGNORE'', ''INTO''], [''UPDATE''],
     [''DELETE'', ''FROM''], [''DROP'', ''TABLE'', ''IF'', ''EXISTS''], [''TRUNCATE'', ''TABLE'']]"
  by (auto simp: verbs_def is_word_byte_def upper_byte_def is_letter_of_def)

lemma guard_verbs_admitted:
  assumes "g = postgres_guard \<or> g = mysql_guard" "v \<in> set verbs" "st_words st = bare_words [] v @ ws"
    "refuse_forbidden_phrases g st = None"
  shows "admit g st = None"
  using verb_words [OF assms(2)] assms(1,3,4)
  by (auto simp: admit_def admit_words_def postgres_guard_def mysql_guard_def create_modifiers_def)

lemma served:
  assumes "sql_spelling d g q up" "g = postgres_guard \<or> g = mysql_guard"
  shows "sql_served d g q up"
  by (intro sql_served.intro sql_served_axioms.intro assms(1) guard_words [OF assms(2)] guard_verbs_admitted [OF assms(2)])

lemma postgres_served: "quotes_names sanitize \<Longrightarrow> sql_served (postgres_build sanitize) postgres_guard (CHR 0x22) up"
  by (rule served) (simp_all add: postgres_spelling)

interpretation my: sql_served mysql_build mysql_guard "CHR 0x60" up for up
  by (rule served) (simp_all add: mysql_spelling)

end
