(* ===== verification/Sql_Conflict.thy ===== *)
theory Sql_Conflict
  imports Sql_Built
begin

text \<open>
  The rewriting of an insert into one that passes over a conflicting row (\<open>skipConflict\<close>). The PostgreSQL one
  looks for the text of the returning clause; it finds the clause when no quoted name contains that text.
\<close>

subsection \<open>Where a text first occurs\<close>

declare is_prefix_Cons [simp]

lemma is_prefix_iff: "is_prefix p s \<longleftrightarrow> (\<exists>r. s = p @ r)"
  by (metis append_eq_conv_conj append_take_drop_id is_prefix_def)

lemma index_of_split:
  assumes "c \<notin> set p" "p \<noteq> []" "\<not> contains_sub a p"
  shows "index_of p (a @ c # b) = map_option (\<lambda>i. length a + 1 + i) (index_of p b)"
  using assms(3)
proof (induction a)
  case Nil
  then show ?case using assms(1,2) by (cases p) (auto simp: option.map_comp comp_def)
next
  case (Cons x a)
  have "\<not> is_prefix p ((x # a) @ c # b)"
    using Cons.prems assms(1)
    by (auto simp: is_prefix_iff append_eq_append_conv2 append_eq_Cons_conv Cons_eq_append_conv)
  then show ?case using Cons by (auto simp: option.map_comp comp_def)
qed

text \<open>Texts without the pattern, put together at a character outside it.\<close>

definition misses :: "string \<Rightarrow> string \<Rightarrow> bool" where
  "misses p s \<longleftrightarrow> \<not> contains_sub s p"

lemma misses_append:
  assumes "misses p a" "misses p b" "p \<noteq> []" "a \<noteq> [] \<and> last a \<notin> set p \<or> b \<noteq> [] \<and> hd b \<notin> set p"
  shows "misses p (a @ b)"
proof -
  have ends: "contains_sub (s @ [c]) p \<longleftrightarrow> contains_sub s p" "contains_sub (c # s) p \<longleftrightarrow> contains_sub s p" if "c \<notin> set p" for c s
    using contains_sub_barrier [OF that assms(3), of s "[]"] contains_sub_barrier [OF that assms(3), of "[]" s] assms(3) by auto
  consider a' c where "a = a' @ [c]" "c \<notin> set p" | b' c where "b = c # b'" "c \<notin> set p"
    using assms(4) by (metis append_butlast_last_id list.collapse)
  then show ?thesis
  proof cases
    case (1 a' c)
    then show ?thesis using assms(1,2) ends(1) [OF 1(2), of a'] contains_sub_barrier [OF 1(2) assms(3), of a' b] by (simp add: misses_def)
  next
    case (2 b' c)
    then show ?thesis using assms(1,2) ends(2) [OF 2(2), of b'] contains_sub_barrier [OF 2(2) assms(3), of a b'] by (simp add: misses_def)
  qed
qed

lemma misses_Nil: "p \<noteq> [] \<Longrightarrow> misses p []"
  by (simp add: misses_def)

lemma misses_doubled:
  assumes "q \<notin> set p" "p \<noteq> []"
  shows "misses p (doubled q n) \<longleftrightarrow> misses p n"
proof -
  have prefix: "is_prefix r (doubled q n) \<longleftrightarrow> is_prefix r n" if "q \<notin> set r" for r n
    using that
  proof (induction r arbitrary: n)
    case (Cons x r)
    then show ?case by (cases n) auto
  qed simp
  show ?thesis
  proof (induction n)
    case (Cons c n)
    show ?case
    proof (cases "c = q")
      case True
      obtain x p' where "p = x # p'" "x \<noteq> q" using assms by (cases p) auto
      then show ?thesis using True Cons by (simp add: misses_def)
    next
      case False
      then show ?thesis using Cons prefix [OF assms(1), of "c # n"] by (simp add: misses_def)
    qed
  qed simp
qed

lemma misses_join:
  assumes "\<forall>x \<in> set xs. misses p x \<and> x \<noteq> [] \<and> hd x \<notin> set p \<and> last x \<notin> set p" "misses p sep" "p \<noteq> []"
  shows "misses p (join sep xs) \<and> (xs \<noteq> [] \<longrightarrow> join sep xs \<noteq> [] \<and> hd (join sep xs) \<notin> set p \<and> last (join sep xs) \<notin> set p)"
  using assms
proof (induction sep xs rule: join.induct)
  case (3 sep x y xs)
  let ?rest = "join sep (y # xs)"
  have rest: "misses p ?rest" "?rest \<noteq> []" "hd ?rest \<notin> set p" "last ?rest \<notin> set p" using 3 by auto
  have "misses p (sep @ ?rest)" using rest 3 by (intro misses_append) auto
  then have "misses p (x @ (sep @ ?rest))" using 3 by (intro misses_append) auto
  then show ?case using rest 3 by simp
qed (simp_all add: misses_Nil)

subsection \<open>The PostgreSQL insert\<close>

definition returning_text :: string where "returning_text = '' RETURNING ''"

lemma returning_chars: "set returning_text = {CHR '' '', CHR ''R'', CHR ''E'', CHR ''T'', CHR ''U'', CHR ''N'', CHR ''I'', CHR ''G''}"
  "returning_text \<noteq> []"
  by (auto simp: returning_text_def)

lemma misses_absent: "CHR ''R'' \<notin> set s \<Longrightarrow> misses returning_text s"
proof (induction s)
  case (Cons c s)
  have "\<not> is_prefix returning_text (c # s)"
    using Cons.prems by (cases s) (auto simp: returning_text_def)
  then show ?case using Cons by (simp add: misses_def)
qed (simp add: misses_Nil returning_chars)

lemma misses_literal: "\<not> contains_sub s returning_text \<Longrightarrow> misses returning_text s"
  by (simp add: misses_def)

lemma join_chars: "c \<in> set (join sep xs) \<Longrightarrow> c \<in> set sep \<or> (\<exists>x \<in> set xs. c \<in> set x)"
  by (induction sep xs rule: join.induct) auto

definition shaped :: "string \<Rightarrow> bool" where
  "shaped s \<longleftrightarrow> misses returning_text s \<and> s \<noteq> [] \<and> hd s \<notin> set returning_text \<and> last s \<notin> set returning_text"

lemma shaped_join:
  assumes "\<forall>x \<in> set xs. shaped x" "misses returning_text sep"
  shows "misses returning_text (join sep xs)" "xs \<noteq> [] \<Longrightarrow> shaped (join sep xs)"
  using misses_join [of xs returning_text sep] assms by (auto simp: shaped_def returning_chars(2))

context sql_spelling
begin

lemma part_shape:
  assumes "bd_check_part d p = None" "misses returning_text p"
  shows "shaped (bd_quote d p)"
proof -
  have q: "q \<notin> set returning_text" using quote_cases by (auto simp: returning_chars)
  have one: "misses returning_text [q]" using quote_cases by (intro misses_absent) auto
  have "misses returning_text ([q] @ (doubled q p @ [q]))"
    using q assms(2) misses_doubled [OF q returning_chars(2)]
    by (intro misses_append one returning_chars) auto
  then show ?thesis using quoted_part [OF assms(1)] q by (simp add: shaped_def)
qed

lemma parts_shape:
  "quote_parts d ps = Inr qs \<Longrightarrow> \<forall>p \<in> set ps. misses returning_text p \<Longrightarrow> length qs = length ps \<and> (\<forall>x \<in> set qs. shaped x)"
proof (induction ps arbitrary: qs)
  case (Cons p ps)
  then obtain qs' where "bd_check_part d p = None" "quote_parts d ps = Inr qs'" "qs = bd_quote d p # qs'"
    by (auto split: option.splits sum.splits)
  then show ?case using Cons part_shape by simp
qed simp

lemma identifier_shape:
  assumes "quoted_identifier d ps = Inr s" "\<forall>p \<in> set ps. misses returning_text p"
  shows "shaped s"
proof -
  obtain qs where qs: "quote_parts d ps = Inr qs" "s = join ''.'' qs" "ps \<noteq> []"
    using assms(1) by (auto simp: quoted_identifier_def split: if_split_asm sum.split_asm)
  then have "\<forall>x \<in> set qs. shaped x" "qs \<noteq> []" using parts_shape [OF qs(1) assms(2)] by auto
  then show ?thesis using shaped_join(2) [of qs "''.''"] misses_absent [of "''.''"] qs(2) by simp
qed

lemma quote_all_shape: "quote_all d ns = Inr qs \<Longrightarrow> \<forall>n \<in> set ns. misses returning_text n \<Longrightarrow> \<forall>x \<in> set qs. shaped x"
proof (induction ns arbitrary: qs)
  case (Cons n ns)
  then obtain x qs' where "quoted_identifier d [n] = Inr x" "quote_all d ns = Inr qs'" "qs = x # qs'"
    by (auto split: sum.splits)
  then show ?case using Cons identifier_shape [of "[n]" x] by simp
qed simp

text \<open>An insert's text up to its closing parenthesis.\<close>

lemma insert_head_shape:
  assumes "shaped name" "\<forall>x \<in> set quoted. shaped x" "quoted \<noteq> []" "\<And>n. CHR ''R'' \<notin> set (bd_placeholder d n)"
  shows "\<exists>h. insert_head d name quoted = h @ '')'' \<and> misses returning_text h"
proof -
  let ?marks = "join '', '' (map (bd_placeholder d) [1..<Suc (length quoted)])"
  have "CHR ''R'' \<notin> set (join '', '' (map (bd_placeholder d) ns))" for ns
    using assms(4) join_chars [of "CHR ''R''" "'', ''" "map (bd_placeholder d) ns"] by auto
  then have marks: "misses returning_text ('') VALUES ('' @ ?marks)" by (intro misses_absent) auto
  have "misses returning_text (join '', '' quoted)" "shaped (join '', '' quoted)"
    using shaped_join [of quoted "'', ''"] assms(2,3) misses_absent [of "'', ''"] by auto
  note columns = this
  let ?a = "join '', '' quoted @ ('') VALUES ('' @ ?marks)"
  have a: "misses returning_text ?a"
    by (rule misses_append [OF columns(1) marks returning_chars(2)]) (use columns in \<open>simp add: shaped_def\<close>)
  have "hd ?a = hd (join '', '' quoted)" using columns(2) by (simp add: shaped_def)
  then have b: "misses returning_text ('' ('' @ ?a)"
    using misses_append [OF misses_absent [of "'' (''"] a returning_chars(2)] columns(2) by (simp add: shaped_def)
  have c: "misses returning_text (name @ ('' ('' @ ?a))"
    using misses_append [OF _ b returning_chars(2), of name] assms(1) by (simp add: shaped_def)
  have "misses returning_text ''INSERT INTO ''" by (rule misses_literal) code_simp
  from misses_append [OF this c returning_chars(2)] assms(1)
  have "misses returning_text (''INSERT INTO '' @ (name @ ('' ('' @ ?a)))" by (simp add: shaped_def)
  then show ?thesis
    by (intro exI [of _ "''INSERT INTO '' @ (name @ ('' ('' @ (join '', '' quoted @ ('') VALUES ('' @ ?marks))))"])
      (simp add: insert_head_def)
qed

end

lemma postgres_skip_clause:
  assumes "misses returning_text h"
  shows "postgres_skip_conflict ((h @ '')'') @ '' RETURNING *'') = (h @ '')'') @ '' ON CONFLICT DO NOTHING'' @ '' RETURNING *''"
proof -
  have "CHR '')'' \<notin> set returning_text" by (simp add: returning_chars)
  from index_of_split [OF this returning_chars(2), of h "'' RETURNING *''"] assms
  have "index_of returning_text (h @ CHR '')'' # '' RETURNING *'') = Some (length (h @ '')''))"
    by (simp add: misses_def) (simp add: returning_text_def)
  then show ?thesis by (simp add: postgres_skip_conflict_def returning_text_def)
qed

text \<open>The insert with the clause is the plain insert with the clause before its returning clause.\<close>

lemma postgres_insert_skips:
  assumes "quotes_names sanitize" "build_insert (postgres_build sanitize) t vals True = Inr st"
    "\<forall>n \<in> {tg_schema t, tg_table t} \<union> fst ` set vals. misses returning_text n"
  shows "\<exists>h st'. build_insert (postgres_build sanitize) t vals False = Inr st' \<and> ss_sql st' = h @ '' RETURNING *'' \<and>
    ss_sql st = h @ '' ON CONFLICT DO NOTHING'' @ '' RETURNING *'' \<and> ss_parameters st = ss_parameters st'"
proof -
  let ?d = "postgres_build sanitize"
  note spelling = postgres_spelling [OF assms(1), of id]
  obtain name quoted where parts: "qualified_name ?d t = Inr name" "sorted_keys vals \<noteq> []"
    "quote_all ?d (sorted_keys vals) = Inr quoted"
    "ss_sql st = postgres_skip_conflict (insert_head ?d name quoted @ '' RETURNING *'')"
    "ss_parameters st = map (\<lambda>c. the (aget vals c)) (sorted_keys vals)"
    using assms(2) by (auto simp: build_insert_def Let_def postgres_build_def split: sum.splits if_split_asm)
  have "shaped name"
    using parts(1) sql_spelling.identifier_shape [OF spelling] assms(3) by (auto simp: qualified_name_def split: if_split_asm)
  moreover have "\<forall>x \<in> set quoted. shaped x" "quoted \<noteq> []"
    using sql_spelling.quote_all_shape [OF spelling parts(3)] sql_spelling.quote_all_length [OF spelling parts(3)] assms(3) parts(2)
    by (auto simp: sorted_keys_def)
  moreover have "CHR ''R'' \<notin> set (bd_placeholder ?d n)" for n
    using dec_nat_chars [of "CHR ''R''" n] by (auto simp: postgres_build_def itoa_def is_digit_def)
  ultimately obtain h where h: "insert_head ?d name quoted = h @ '')''" "misses returning_text h"
    using sql_spelling.insert_head_shape [OF spelling] by blast
  have "ss_sql st = (h @ '')'') @ '' ON CONFLICT DO NOTHING'' @ '' RETURNING *''"
    using parts(4) h(1) postgres_skip_clause [OF h(2)] by simp
  moreover have "build_insert ?d t vals False = Inr \<lparr>ss_sql = (h @ '')'') @ '' RETURNING *'',
      ss_parameters = ss_parameters st, ss_returning = returns_row ?d\<rparr>"
    using parts h(1) by (simp add: build_insert_def Let_def) (simp add: postgres_build_def)
  ultimately show ?thesis by (intro exI [of _ "h @ '')''"] exI) (auto simp del: append_assoc append.simps)
qed

text \<open>MySQL rewrites the verb, which is where the statement begins; the result is admitted like the plain insert.\<close>

lemma mysql_insert_skips:
  assumes "build_insert mysql_build t vals True = Inr st"
  shows "\<exists>s st'. build_insert mysql_build t vals False = Inr st' \<and> ss_sql st' = ''INSERT INTO '' @ s \<and>
    ss_sql st = ''INSERT IGNORE INTO '' @ s \<and> ss_parameters st = ss_parameters st'"
proof -
  have first: "mysql_skip_conflict (''INSERT INTO '' @ s) = ''INSERT IGNORE INTO '' @ s" for s
    by (simp add: mysql_skip_conflict_def)
  obtain name quoted where parts: "qualified_name mysql_build t = Inr name" "sorted_keys vals \<noteq> []"
    "quote_all mysql_build (sorted_keys vals) = Inr quoted"
    "ss_sql st = mysql_skip_conflict (insert_head mysql_build name quoted @ bd_returning_all mysql_build)"
    "ss_parameters st = map (\<lambda>c. the (aget vals c)) (sorted_keys vals)"
    using assms by (auto simp: build_insert_def Let_def mysql_build_def split: sum.splits if_split_asm)
  obtain s where s: "insert_head mysql_build name quoted @ bd_returning_all mysql_build = ''INSERT INTO '' @ s"
    by (simp add: insert_head_def)
  have "build_insert mysql_build t vals False = Inr \<lparr>ss_sql = ''INSERT INTO '' @ s,
      ss_parameters = ss_parameters st, ss_returning = returns_row mysql_build\<rparr>"
    using parts s by (simp add: build_insert_def Let_def)
  moreover have "ss_sql st = ''INSERT IGNORE INTO '' @ s" using parts(4) s first by simp
  ultimately show ?thesis by auto
qed

end
