(* ===== verification/Sql_Values.thy ===== *)
theory Sql_Values
  imports Sql_Build
begin

text \<open>
  What becomes of the values given to a builder: they are the statement's parameters, in the order of their
  placeholders, and the text does not depend on them.
\<close>

subsection \<open>The text does not depend on the values\<close>

text \<open>The same call with other values.\<close>

definition with_value :: "('v \<Rightarrow> 'w) \<Rightarrow> 'v comparison \<Rightarrow> 'w comparison" where
  "with_value f c = \<lparr>cm_column = cm_column c, cm_operator = cm_operator c, cm_value = f (cm_value c)\<rparr>"

definition with_parameters :: "('v \<Rightarrow> 'w) \<Rightarrow> 'v sql_statement \<Rightarrow> 'w sql_statement" where
  "with_parameters f st =
     \<lparr>ss_sql = ss_sql st, ss_parameters = map f (ss_parameters st), ss_returning = ss_returning st\<rparr>"

definition with_values :: "('v \<Rightarrow> 'w) \<Rightarrow> (string \<times> 'v) list \<Rightarrow> (string \<times> 'w) list" where
  "with_values f vals = map (\<lambda>(c, v). (c, f v)) vals"

lemma with_value_fields [simp]:
  "cm_column (with_value f c) = cm_column c" "cm_operator (with_value f c) = cm_operator c"
  "cm_value (with_value f c) = f (cm_value c)"
  by (simp_all add: with_value_def)

lemma keys_with_values [simp]: "sorted_keys (with_values f vals) = sorted_keys vals"
  by (simp add: sorted_keys_def with_values_def comp_def case_prod_unfold)

lemma aget_with_values [simp]: "aget (with_values f vals) c = map_option f (aget vals c)"
  by (induction vals) (auto simp: with_values_def)

lemma key_has_value: "c \<in> set (sorted_keys vals) \<Longrightarrow> \<exists>v. aget vals c = Some v"
  using aget_None_iff [of vals c] by (auto simp: sorted_keys_def)

lemma values_of_keys:
  "map (\<lambda>c. the (aget (with_values f vals) c)) (sorted_keys vals) =
   map f (map (\<lambda>c. the (aget vals c)) (sorted_keys vals))"
  using key_has_value by fastforce

lemma where_terms_with:
  "where_terms d n (map (with_value f) cs) = map_sum id (\<lambda>(ts, vs). (ts, map f vs)) (where_terms d n cs)"
  by (induction cs arbitrary: n) (auto split: sum.split prod.split)

lemma where_clause_with:
  "where_clause d (map (with_value f) cs) combine n = map_sum id (\<lambda>(s, vs). (s, map f vs)) (where_clause d cs combine n)"
  by (simp add: where_clause_def where_terms_with Let_def split: sum.split prod.split)

lemma assignments_with:
  "set cs \<subseteq> set (sorted_keys vals) \<Longrightarrow>
   assignments d (with_values f vals) matching n cs =
     map_sum id (\<lambda>(as, vs). (as, map f vs)) (assignments d vals matching n cs)"
proof (induction cs arbitrary: n)
  case (Cons c cs)
  then show ?case using key_has_value [of c vals] by (auto split: sum.split prod.split)
qed simp

lemma assignment_list_with:
  "assignment_list d (with_values f vals) matching n =
     map_sum id (\<lambda>(as, vs). (as, map f vs)) (assignment_list d vals matching n)"
  by (simp add: assignment_list_def assignments_with split: sum.split prod.split)

lemma match_terms_with:
  "match_terms (with_values f vals) cs = map_sum id (map (with_value f)) (match_terms vals cs)"
  by (induction cs) (auto simp: with_value_def split: option.split sum.split)

lemma match_clause_with:
  "match_clause d (with_values f vals) matching n =
     map_sum id (\<lambda>(s, vs). (s, map f vs)) (match_clause d vals matching n)"
  by (simp add: match_clause_def match_terms_with where_clause_with split: sum.split)

lemma select_with:
  "build_select d t columns (map (with_value f) cs) combine sorts limit =
     map_sum id (with_parameters f) (build_select d t columns cs combine sorts limit)"
  by (simp add: build_select_def where_clause_with with_parameters_def split: sum.split prod.split)

lemma insert_with:
  "build_insert d t (with_values f vals) skip = map_sum id (with_parameters f) (build_insert d t vals skip)"
  using values_of_keys [of f vals] by (simp add: build_insert_def Let_def with_parameters_def split: sum.split)

lemma update_with:
  "build_update d t (with_values f vals) matching = map_sum id (with_parameters f) (build_update d t vals matching)"
  by (simp add: build_update_def assignment_list_with match_clause_with with_parameters_def split: sum.split prod.split)

lemma upsert_with:
  "build_upsert d t (with_values f vals) matching = map_sum id (with_parameters f) (build_upsert d t vals matching)"
  using values_of_keys [of f vals] by (simp add: build_upsert_def Let_def with_parameters_def split: sum.split)

lemma delete_with:
  "build_delete d t mode (map (with_value f) cs) combine r =
     map_sum id (with_parameters f) (build_delete d t mode cs combine r)"
  by (simp add: build_delete_def where_clause_with with_parameters_def split: sum.split prod.split)

subsection \<open>Parameters and placeholders\<close>

definition takes_value :: "string \<Rightarrow> bool" where
  "takes_value operator \<longleftrightarrow> operator \<noteq> ''isNull'' \<and> operator \<noteq> ''isNotNull''"

lemma where_term_takes: "where_term d n column operator = Inr (s, b) \<Longrightarrow> b = takes_value operator"
  by (auto simp: where_term_def takes_value_def split: sum.split_asm if_split_asm option.split_asm)

text \<open>Term \<open>i\<close> is written with the placeholder after those of the terms before it.\<close>

lemma where_terms_exact:
  assumes "where_terms d n cs = Inr (ts, vs)"
  shows "length ts = length cs"
    "vs = map cm_value (filter (\<lambda>c. takes_value (cm_operator c)) cs)"
    "i < length cs \<Longrightarrow>
       where_term d (n + length (filter (\<lambda>c. takes_value (cm_operator c)) (take i cs))) (cm_column (cs ! i)) (cm_operator (cs ! i)) =
         Inr (ts ! i, takes_value (cm_operator (cs ! i)))"
  using assms
proof (induction cs arbitrary: n ts vs i)
  case (Cons c cs)
  {
    case 1
    then show ?case using Cons(1) by (fastforce split: sum.splits prod.splits)
  next
    case 2
    then show ?case using Cons(2) where_term_takes by (fastforce split: sum.splits prod.splits)
  next
    case 3
    then show ?case using Cons(3) where_term_takes
      by (cases i) (fastforce split: sum.splits prod.splits if_splits)+
  }
qed simp_all

end
