(* ===== verification/Sql_Properties.thy ===== *)
theory Sql_Properties
  imports Sql_Conflict Sql_Values
begin

text \<open>
  The properties of the SQL guard and the statement builders, each with an instance of its hypotheses. The
  quoting function of the instances is the one the PostgreSQL driver documents.
\<close>

subsection \<open>The two dialects and an example\<close>



definition double_quoted :: "string \<Rightarrow> string" where
  "double_quoted p = [CHR 0x22] @ replace_all p [CHR 0x22] [CHR 0x22, CHR 0x22] @ [CHR 0x22]"

lemma double_quoted_quotes: "quotes_names double_quoted"
  by (simp add: quotes_names_def double_quoted_def)

definition example_target :: target where
  "example_target = \<lparr>tg_schema = [], tg_table = ''a'' @ [CHR 0x22] @ ''; b''\<rparr>"

definition example_condition :: "nat comparison" where
  "example_condition = \<lparr>cm_column = ''id'', cm_operator = ''equals'', cm_value = 7\<rparr>"

lemma letter_kept:
  assumes "c \<in> set ''abcdefghijklmnopqrstuvwxyz''"
  shows "trim_space (c # s) \<noteq> []"
proof -
  have "list_all (\<lambda>w. list_all (\<lambda>c. c \<notin> set w) ''abcdefghijklmnopqrstuvwxyz'') space_forms" by code_simp
  then have "\<forall>w \<in> set space_forms. c \<notin> set w" using assms by (auto simp: list_all_iff)
  then show ?thesis using trim_space_keeps [of c "c # s"] by simp
qed

lemmas build_evaluation = letter_kept trim_space_Nil quoted_identifier_def qualified_name_def postgres_build_def
  mysql_build_def check_postgres_part_def check_mysql_part_def max_identifier_bytes_def double_quoted_def
  doubled_def [symmetric] where_clause_def where_term_def standard_comparison_def comparison_sql_def
  equal_fold_ascii_def itoa_def

lemma dec_nat_examples: "dec_nat (Suc 0) = ''1''" "dec_nat 10 = ''10''"
  by code_simp+




subsection \<open>One statement, and an admitted one\<close>





text \<open>Text that consists of bare text, quoted names and quoted strings, a semicolon and more text is only
  accepted when what follows the semicolon is no statement, under every reading the guard tries.\<close>

theorem second_statement_refused:
  assumes "name_quote g q" "reads up q s ws ns" "ws \<noteq> []" "sql_check up g (s @ CHR '';'' # t) = None"
    "escapes \<in> set (backslash_readings g)"
  shows "split_statements up g t escapes = Inr []"
proof -
  have "check_reading up g (s @ CHR '';'' # t) escapes = None"
    using assms(4,5) by (auto simp: sql_check_def first_refusal_None split: if_split_asm)
  then show ?thesis using split_append [OF assms(2,1,3), of t escapes]
    by (cases "split_statements up g t escapes") (auto simp: check_reading_def split: list.splits)
qed

theorem second_statement_refused_example:
  "split_statements (\<lambda>r. r) sqlite_guard '' '' False = Inr []"
proof (rule second_statement_refused)
  show "name_quote sqlite_guard (CHR 0x22)" by (simp add: name_quote_def sqlite_guard_def)
  show reads: "reads (\<lambda>r. r) (CHR 0x22) ''SELECT 1'' [''SELECT'', ''1''] []"
    using reads.bare [of "''SELECT 1''" "\<lambda>r. r" "CHR 0x22"]
    by (simp add: bare_char_def is_word_byte_def upper_byte_def is_letter_of_def)
  show "False \<in> set (backslash_readings sqlite_guard)" by (simp add: backslash_readings_def sqlite_guard_def)
  have "check_reading (\<lambda>r. r) sqlite_guard (''SELECT 1'' @ CHR '';'' # '' '') False = None" by code_simp
  then show "sql_check (\<lambda>r. r) sqlite_guard (''SELECT 1'' @ CHR '';'' # '' '') = None"
    using trim_space_keeps [OF _ verb_letters, of "CHR ''S''" "''SELECT 1; ''"]
    by (simp add: sql_check_def backslash_readings_def sqlite_guard_def)
qed simp

subsection \<open>What was accepted\<close>








subsection \<open>Values and placeholders\<close>

text \<open>The text of a built statement, and whether it is built at all, do not depend on the values: the same call
  with the values mapped gives the same text with the parameters mapped.\<close>

theorem values_stay_out:
  shows "build_select d t columns (map (with_value f) cs) combine sorts limit =
      map_sum id (with_parameters f) (build_select d t columns cs combine sorts limit) \<and>
    build_insert d t (with_values f vals) skip = map_sum id (with_parameters f) (build_insert d t vals skip) \<and>
    build_update d t (with_values f vals) matching = map_sum id (with_parameters f) (build_update d t vals matching) \<and>
    build_upsert d t (with_values f vals) matching = map_sum id (with_parameters f) (build_upsert d t vals matching) \<and>
    build_delete d t mode (map (with_value f) cs) combine r =
      map_sum id (with_parameters f) (build_delete d t mode cs combine r)"
  by (intro conjI select_with insert_with update_with upsert_with delete_with)

text \<open>The conditions of a \<open>WHERE\<close> clause: one term for each, the values of those that compare with one bound in
  their order, and the placeholder of each numbered after those before it.\<close>

theorem placeholders_in_order:
  assumes "where_terms d n cs = Inr (ts, vs)" "i < length cs"
  shows "length ts = length cs \<and> vs = map cm_value (filter (\<lambda>c. takes_value (cm_operator c)) cs) \<and>
    where_term d (n + length (filter (\<lambda>c. takes_value (cm_operator c)) (take i cs))) (cm_column (cs ! i)) (cm_operator (cs ! i)) =
      Inr (ts ! i, takes_value (cm_operator (cs ! i)))"
  using where_terms_exact [OF assms(1)] assms(2) by blast

theorem placeholders_in_order_example:
  "where_term mysql_build 1 ''id'' ''equals'' = Inr ([CHR 0x60] @ ''id'' @ [CHR 0x60] @ '' = ?'', True)"
proof -
  have "where_terms mysql_build 1 [example_condition] = Inr ([[CHR 0x60] @ ''id'' @ [CHR 0x60] @ '' = ?''], [7])"
    by (simp add: example_condition_def build_evaluation mysql_comparison_def max_identifier_runes_def rune_count_def
        runes_def bytes_of_def decode_runes.simps decode_rune_def)
  from placeholders_in_order [OF this, of 0] show ?thesis by (simp add: takes_value_def example_condition_def)
qed

text \<open>On PostgreSQL an insert that passes over conflicts is the plain insert with the conflict clause before its
  returning clause, when no name it writes contains the text of that clause.\<close>

theorem conflict_clause_placed:
  assumes "quotes_names sanitize" "build_insert (postgres_build sanitize) t vals True = Inr st"
    "\<forall>n \<in> {tg_schema t, tg_table t} \<union> fst ` set vals. \<not> contains_sub n '' RETURNING ''"
  shows "\<exists>h st'. build_insert (postgres_build sanitize) t vals False = Inr st' \<and> ss_sql st' = h @ '' RETURNING *'' \<and>
    ss_sql st = h @ '' ON CONFLICT DO NOTHING'' @ '' RETURNING *'' \<and> ss_parameters st = ss_parameters st'"
  by (rule postgres_insert_skips [OF assms(1,2)]) (use assms(3) in \<open>simp add: misses_def returning_text_def\<close>)

lemma example_insert:
  "build_insert (postgres_build double_quoted) example_target [(''id'', 7 :: nat)] True =
     Inr \<lparr>ss_sql = ''INSERT INTO '' @ [CHR 0x22] @ ''a'' @ [CHR 0x22, CHR 0x22] @ ''; b'' @ [CHR 0x22] @
            '' ('' @ [CHR 0x22] @ ''id'' @ [CHR 0x22] @ '') VALUES ($1) ON CONFLICT DO NOTHING RETURNING *'',
          ss_parameters = [7], ss_returning = True\<rparr>"
  by (simp add: build_insert_def example_target_def build_evaluation sorted_keys_def insert_head_def dec_nat_examples
      returns_row_def postgres_skip_conflict_def)

theorem conflict_clause_placed_example:
  "\<exists>h st'. build_insert (postgres_build double_quoted) example_target [(''id'', 7 :: nat)] False = Inr st' \<and>
    ss_sql st' = h @ '' RETURNING *'' \<and>
    ''INSERT INTO '' @ [CHR 0x22] @ ''a'' @ [CHR 0x22, CHR 0x22] @ ''; b'' @ [CHR 0x22] @
            '' ('' @ [CHR 0x22] @ ''id'' @ [CHR 0x22] @ '') VALUES ($1) ON CONFLICT DO NOTHING RETURNING *'' =
      h @ '' ON CONFLICT DO NOTHING'' @ '' RETURNING *'' \<and> [7] = ss_parameters st'"
  using conflict_clause_placed [OF double_quoted_quotes example_insert] by (simp add: example_target_def)

end
