(* ===== verification/Redact.thy ===== *)
theory Redact
  imports Policies
begin

text \<open>
  The redaction of stored and served payloads (\<open>internal/execution/redact.go\<close>) and the two forms in
  which \<open>internal/repository/executions.go\<close> stores one (\<open>payload\<close>, \<open>triggerPayload\<close>), with the lemmas that
  say what redaction withholds and that it changes nothing else.

  A raw JSON message is given by the value its text denotes; a text that is not JSON is kept as it is.
  Numbers of a message are the numbers it writes: one outside the range of \<open>float64\<close> is valid JSON that
  \<open>json.Unmarshal\<close> refuses, and one that is decoded and encoded again is written as \<open>h_number\<close> of the host
  says. The branch for a value that cannot be marshalled again is left out, since
  \<open>encoding/json\<close> marshals whatever it decoded.
\<close>

subsection \<open>Raw messages\<close>

datatype raw = RawEmpty | RawInvalid string | RawJson jval

definition float_limit :: rat where
  "float_limit = 2 ^ 1024 - 2 ^ 970"

fun decodable :: "jval \<Rightarrow> bool" where
  "decodable (JNum x) = (\<bar>x\<bar> < float_limit)"
| "decodable (JArr vs) = list_all decodable vs"
| "decodable (JObj m) = list_all (\<lambda>kv. decodable (snd kv)) m"
| "decodable v = True"

definition raw_valid :: "raw \<Rightarrow> bool" where
  "raw_valid r = (case r of RawJson v \<Rightarrow> True | _ \<Rightarrow> False)"

definition unmarshal :: "raw \<Rightarrow> jval option" where
  "unmarshal r = (case r of RawJson v \<Rightarrow> if decodable v then Some v else None | _ \<Rightarrow> None)"

subsection \<open>Sensitive keys\<close>

definition sensitive_keys :: "string list" where
  "sensitive_keys =
     [''authorization'', ''proxyauthorization'', ''wwwauthenticate'', ''cookie'', ''cookies'', ''setcookie'',
      ''apikey'', ''apisecret'', ''apitoken'', ''token'', ''accesstoken'', ''refreshtoken'', ''idtoken'',
      ''bearertoken'', ''secret'', ''clientsecret'', ''password'', ''passwd'', ''pwd'', ''passphrase'',
      ''privatekey'', ''secretkey'', ''credential'', ''credentials'', ''sessiontoken'', ''signature'',
      ''xhubsignature'', ''xhubsignature256'']"

definition name_half :: string where "name_half = ''name''"
definition value_half :: string where "value_half = ''value''"

definition is_separator :: "nat \<Rightarrow> bool" where
  "is_separator r \<longleftrightarrow> r = 0x2D \<or> r = 0x5F \<or> r = 0x20 \<or> r = 0x2E"

definition normalize_key :: "(nat \<Rightarrow> nat) \<Rightarrow> string \<Rightarrow> string" where
  "normalize_key lower key = tag_key lower (encode_runes (filter (\<lambda>r. \<not> is_separator r) (runes key)))"

definition is_sensitive_key :: "(nat \<Rightarrow> nat) \<Rightarrow> string \<Rightarrow> bool" where
  "is_sensitive_key lower key =
     (let n = normalize_key lower key in
      n \<in> set sensitive_keys \<or> (is_prefix ''x'' n \<and> drop 1 n \<in> set sensitive_keys))"

text \<open>An object whose \<open>name\<close> is a sensitive header hides the credential under \<open>value\<close>.\<close>

definition header_pair_is_sensitive :: "(nat \<Rightarrow> nat) \<Rightarrow> jobject \<Rightarrow> bool" where
  "header_pair_is_sensitive lower m =
     list_ex (\<lambda>(k, v). normalize_key lower k = name_half \<and>
       (case v of JStr n \<Rightarrow> is_sensitive_key lower n | _ \<Rightarrow> False)) m"

subsection \<open>Redaction\<close>

fun redact_value :: "(nat \<Rightarrow> nat) \<Rightarrow> jval \<Rightarrow> jval" where
  "redact_value lower (JObj m) =
     (let pair = header_pair_is_sensitive lower m in
      JObj (map (\<lambda>kv.
        (fst kv,
         if is_sensitive_key lower (fst kv) then JStr redacted_value
         else if pair \<and> normalize_key lower (fst kv) = value_half then JStr redacted_value
         else redact_value lower (snd kv))) m))"
| "redact_value lower (JArr vs) = JArr (map (redact_value lower) vs)"
| "redact_value lower v = v"

text \<open>Decoding into \<open>float64\<close> and encoding again writes a number anew; \<open>h_number\<close> says what it writes.\<close>

fun rewrite_numbers :: "(rat \<Rightarrow> rat) \<Rightarrow> jval \<Rightarrow> jval" where
  "rewrite_numbers number (JNum x) = JNum (number x)"
| "rewrite_numbers number (JArr vs) = JArr (map (rewrite_numbers number) vs)"
| "rewrite_numbers number (JObj m) = JObj (map (\<lambda>kv. (fst kv, rewrite_numbers number (snd kv))) m)"
| "rewrite_numbers number v = v"

definition redact :: "host \<Rightarrow> raw \<Rightarrow> raw" where
  "redact h r =
     (if \<not> raw_valid r then r
      else case unmarshal r of
        None \<Rightarrow> r
      | Some v \<Rightarrow> RawJson (redact_value (h_lower h) (rewrite_numbers (h_number h) v)))"

definition redact_map :: "(nat \<Rightarrow> nat) \<Rightarrow> jobject \<Rightarrow> jobject" where
  "redact_map lower m = (case redact_value lower (JObj m) of JObj m' \<Rightarrow> m' | _ \<Rightarrow> [])"

definition trigger_headers_key :: string where "trigger_headers_key = ''headers''"

definition redact_trigger_headers :: "host \<Rightarrow> raw \<Rightarrow> raw" where
  "redact_trigger_headers h r =
     (if \<not> raw_valid r then r
      else case unmarshal r of
        Some (JObj decoded) \<Rightarrow>
          (case aget decoded trigger_headers_key of
             Some (JObj headers) \<Rightarrow> 
               RawJson (rewrite_numbers (h_number h)
                 (JObj (aput trigger_headers_key (JObj (redact_map (h_lower h) headers)) decoded)))
           | _ \<Rightarrow> r)
      | _ \<Rightarrow> r)"

text \<open>How a message is stored: a trigger's input as it arrived, everything else redacted.\<close>

definition trigger_payload :: "raw \<Rightarrow> string + raw" where
  "trigger_payload r =
     (case r of RawEmpty \<Rightarrow> Inr (RawJson JNull) | RawInvalid t \<Rightarrow> Inl ''must be valid JSON'' | RawJson v \<Rightarrow> Inr r)"

definition stored_payload :: "host \<Rightarrow> raw \<Rightarrow> string + raw" where
  "stored_payload h r = (case trigger_payload r of Inl e \<Rightarrow> Inl e | Inr v \<Rightarrow> Inr (redact h v))"

subsection \<open>What is withheld\<close>

text \<open>A place in a value: object keys and list positions.\<close>

datatype place = Key string | Index nat

fun value_at :: "place list \<Rightarrow> jval \<Rightarrow> jval option" where
  "value_at [] v = Some v"
| "value_at (Key k # p) (JObj m) = (case aget m k of None \<Rightarrow> None | Some v \<Rightarrow> value_at p v)"
| "value_at (Index i # p) (JArr vs) = (if i < length vs then value_at p (vs ! i) else None)"
| "value_at (s # p) v = None"

definition hides :: "(nat \<Rightarrow> nat) \<Rightarrow> jobject \<Rightarrow> string \<Rightarrow> bool" where
  "hides lower m k \<longleftrightarrow>
     is_sensitive_key lower k \<or> (header_pair_is_sensitive lower m \<and> normalize_key lower k = value_half)"

text \<open>The part of a place up to the first key that hides its value.\<close>

fun withheld :: "(nat \<Rightarrow> nat) \<Rightarrow> place list \<Rightarrow> jval \<Rightarrow> place list option" where
  "withheld lower (Key k # p) (JObj m) =
     (case aget m k of
        None \<Rightarrow> None
      | Some v \<Rightarrow> if hides lower m k then Some [Key k] else map_option ((#) (Key k)) (withheld lower p v))"
| "withheld lower (Index i # p) (JArr vs) =
     (if i < length vs then map_option ((#) (Index i)) (withheld lower p (vs ! i)) else None)"
| "withheld lower p v = None"

lemma redact_object:
  "redact_value lower (JObj m) =
   JObj (map (\<lambda>(k, v). (k, if hides lower m k then JStr redacted_value else redact_value lower v)) m)"
  by (auto simp: Let_def hides_def)

declare redact_value.simps(1) [simp del]

lemma aget_map_keys: "aget (map (\<lambda>(k, v). (k, f k v)) m) k = map_option (f k) (aget m k)"
  by (induction m) auto

lemma redact_map_eq:
  "redact_map lower m = map (\<lambda>(k, v). (k, if hides lower m k then JStr redacted_value else redact_value lower v)) m"
  by (simp add: redact_map_def redact_object)

lemma value_at_scalar [simp]:
  "value_at p (JStr s) = (if p = [] then Some (JStr s) else None)"
  "value_at p (JNum x) = (if p = [] then Some (JNum x) else None)"
  "value_at p (JBool b) = (if p = [] then Some (JBool b) else None)"
  "value_at p JNull = (if p = [] then Some JNull else None)"
  by (cases p; cases "hd p"; simp)+

lemma value_at_redacted:
  "value_at p (redact_value lower v) =
     (case withheld lower p v of
        None \<Rightarrow> map_option (redact_value lower) (value_at p v)
      | Some q \<Rightarrow> if p = q then Some (JStr redacted_value) else None)"
proof (induction lower p v rule: withheld.induct)
  case (1 lower k p m)
  then show ?case by (auto simp: redact_object aget_map_keys split: option.splits)
next
  case (2 lower i p vs)
  then show ?case by (auto split: option.splits)
qed (auto simp: redact_object)

text \<open>A value that shows nothing: every hiding key has the marker.\<close>

fun shows_nothing :: "(nat \<Rightarrow> nat) \<Rightarrow> jval \<Rightarrow> bool" where
  "shows_nothing lower (JObj m) =
     list_all (\<lambda>kv. if hides lower m (fst kv) then snd kv = JStr redacted_value else shows_nothing lower (snd kv)) m"
| "shows_nothing lower (JArr vs) = list_all (shows_nothing lower) vs"
| "shows_nothing lower v = True"

lemma name_not_value [simp]: "name_half \<noteq> value_half" "value_half \<noteq> name_half"
  by (simp_all add: name_half_def value_half_def)

lemma half_not_sensitive: "normalize_key lower k = name_half \<Longrightarrow> \<not> is_sensitive_key lower k"
  by (simp add: is_sensitive_key_def sensitive_keys_def name_half_def is_prefix_def)

lemma redact_string [simp]: "redact_value lower v = JStr s \<longleftrightarrow> v = JStr s"
  by (cases v) (auto simp: redact_object)

lemma pair_kept:
  "header_pair_is_sensitive lower
     (map (\<lambda>(k, v). (k, if hides lower m k then JStr redacted_value else redact_value lower v)) m')
   = header_pair_is_sensitive lower m'"
proof -
  have "(case (if hides lower m k then JStr redacted_value else redact_value lower v) of
           JStr n \<Rightarrow> is_sensitive_key lower n | _ \<Rightarrow> False)
        = (case v of JStr n \<Rightarrow> is_sensitive_key lower n | _ \<Rightarrow> False)"
    if "normalize_key lower k = name_half" for k v
    using that half_not_sensitive [OF that] by (cases v) (auto simp: hides_def redact_object)
  then show ?thesis by (induction m') (auto simp: header_pair_is_sensitive_def)
qed

lemma hides_kept:
  "hides lower (map (\<lambda>(k, v). (k, if hides lower m k then JStr redacted_value else redact_value lower v)) m) k
   = hides lower m k"
  by (simp add: hides_def [of _ "map _ _"] pair_kept) (simp add: hides_def)

lemma redacted_shows_nothing: "shows_nothing lower (redact_value lower v)"
proof (induction v)
  case (JObj m)
  then show ?case by (force simp: redact_object hides_kept list_all_iff)
next
  case (JArr vs)
  then show ?case by (auto simp: list_all_iff)
qed auto

lemma redact_fixed_iff: "redact_value lower v = v \<longleftrightarrow> shows_nothing lower v"
proof (induction v)
  case (JObj m)
  have "map f m = m \<longleftrightarrow> (\<forall>kv \<in> set m. f kv = kv)" for f :: "string \<times> jval \<Rightarrow> string \<times> jval"
    by (induction m) auto
  with JObj show ?case by (force simp: redact_object list_all_iff split: if_splits)
next
  case (JArr vs)
  have "map f vs = vs \<longleftrightarrow> (\<forall>v \<in> set vs. f v = v)" for f :: "jval \<Rightarrow> jval"
    by (induction vs) auto
  with JArr show ?case by (auto simp: list_all_iff)
qed auto

text \<open>Writing the numbers anew changes nothing else.\<close>

lemma value_at_rewritten: "value_at p (rewrite_numbers number v) = map_option (rewrite_numbers number) (value_at p v)"
proof (induction p v rule: value_at.induct)
  case (2 k p m)
  have "aget (map (\<lambda>kv. (fst kv, rewrite_numbers number (snd kv))) m) k = map_option (rewrite_numbers number) (aget m k)"
    by (induction m) auto
  with 2 show ?case by (auto split: option.splits)
qed auto

lemma rewritten_string [simp]: "rewrite_numbers number v = JStr s \<longleftrightarrow> v = JStr s"
  by (cases v) auto

lemma pair_rewritten:
  "header_pair_is_sensitive lower (map (\<lambda>kv. (fst kv, rewrite_numbers number (snd kv))) m) = header_pair_is_sensitive lower m"
proof -
  have "(case rewrite_numbers number v of JStr n \<Rightarrow> is_sensitive_key lower n | _ \<Rightarrow> False)
      = (case v of JStr n \<Rightarrow> is_sensitive_key lower n | _ \<Rightarrow> False)" for v by (cases v) auto
  then show ?thesis by (simp add: header_pair_is_sensitive_def list_ex_iff case_prod_beta)
qed

lemma hides_rewritten:
  "hides lower (map (\<lambda>kv. (fst kv, rewrite_numbers number (snd kv))) m) k = hides lower m k"
  by (simp add: hides_def pair_rewritten)

lemma withheld_rewritten: "withheld lower p (rewrite_numbers number v) = withheld lower p v"
proof (induction lower p v rule: withheld.induct)
  case (1 lower k p m)
  have "aget (map (\<lambda>kv. (fst kv, rewrite_numbers number (snd kv))) m) k = map_option (rewrite_numbers number) (aget m k)"
    by (induction m) auto
  with 1 show ?case by (auto simp: hides_rewritten split: option.splits)
qed auto

lemma redact_rewritten:
  "redact_value lower (rewrite_numbers number v) = rewrite_numbers number (redact_value lower v)"
proof (induction v)
  case (JObj m)
  then show ?case by (auto simp: redact_object hides_rewritten)
qed auto

text \<open>What \<open>encoding/json\<close> writes for a \<open>float64\<close> is read back as the same one.\<close>

definition stable_numbers :: "host \<Rightarrow> bool" where
  "stable_numbers h \<longleftrightarrow>
     (\<forall>x. \<bar>x\<bar> < float_limit \<longrightarrow> \<bar>h_number h x\<bar> < float_limit \<and> h_number h (h_number h x) = h_number h x)"

lemma rewritten_twice:
  assumes "stable_numbers h" "decodable v"
  shows "rewrite_numbers (h_number h) (rewrite_numbers (h_number h) v) = rewrite_numbers (h_number h) v \<and>
    decodable (rewrite_numbers (h_number h) v)"
  using assms(2)
proof (induction v)
  case (JNum x)
  then show ?case using assms(1) by (simp add: stable_numbers_def)
next
  case (JObj m)
  then show ?case by (auto simp: list_all_iff)
next
  case (JArr vs)
  then show ?case by (auto simp: list_all_iff)
qed auto

lemma redacted_decodable: "decodable v \<Longrightarrow> decodable (redact_value lower v)"
proof (induction v)
  case (JObj m)
  then show ?case by (auto simp: redact_object list_all_iff split: if_splits)
qed (auto simp: list_all_iff)

lemma redact_idempotent: "redact_value lower (redact_value lower v) = redact_value lower v"
  by (simp add: redact_fixed_iff redacted_shows_nothing)

end
