(* ===== verification/Store.thy ===== *)
theory Store
  imports Redact Compiler
begin

text \<open>
  The store of executions (\<open>internal/repository/executions.go\<close>, the status names of
  \<open>internal/execution/records.go\<close>): the tables it uses as lists of rows, and one definition per operation,
  from a database to an error or to an answer and the changed database. An operation is one transaction, so
  an error leaves nothing behind; the \<open>WHERE\<close> of an update is a predicate on rows, and the number of rows it
  changes is what the code reads of it. The checks of the tables (primary keys, unique indexes, foreign keys)
  are checks of the operations that insert or delete.

  Times are integers, the zero time 0. New identifiers and the clock's readings are arguments. A failure of
  the database itself, which rolls a transaction back, and the notification of workers are left out. \<open>Cancel\<close>
  reads before it writes outside a transaction, so its two halves are definitions of their own.
\<close>

subsection \<open>Results\<close>

definition need :: "bool \<Rightarrow> 'e \<Rightarrow> 'e + 'b \<Rightarrow> 'e + 'b" where
  "need c e k = (if c then k else Inl e)"

definition attempt :: "'e + 'a \<Rightarrow> ('a \<Rightarrow> 'e + 'b) \<Rightarrow> 'e + 'b" where
  "attempt m k = (case m of Inl e \<Rightarrow> Inl e | Inr x \<Rightarrow> k x)"

definition found :: "'a option \<Rightarrow> 'e \<Rightarrow> ('a \<Rightarrow> 'e + 'b) \<Rightarrow> 'e + 'b" where
  "found m e k = (case m of None \<Rightarrow> Inl e | Some x \<Rightarrow> k x)"

lemma need_Inr [simp]: "need c e k = Inr y \<longleftrightarrow> c \<and> k = Inr y"
  by (simp add: need_def)

lemma attempt_Inr [simp]: "attempt m k = Inr y \<longleftrightarrow> (\<exists>x. m = Inr x \<and> k x = Inr y)"
  by (cases m) (simp_all add: attempt_def)

lemma found_Inr [simp]: "found m e k = Inr y \<longleftrightarrow> (\<exists>x. m = Some x \<and> k x = Inr y)"
  by (cases m) (simp_all add: found_def)

lemma result_steps [simp]:
  "need True e k = k" "need False e k = Inl e"
  "attempt (Inr x) f = f x" "attempt (Inl e) f = Inl e"
  "found (Some x) e f = f x" "found None e f = Inl e"
  by (simp_all add: need_def attempt_def found_def)

subsection \<open>Rows\<close>

datatype status =
    StQueued | StRunning | StCancelling | StWaiting | StSucceeded | StSkipped | StPinned | StFailed | StCancelled
  | StOther string

definition status_terminal :: "status \<Rightarrow> bool" where
  "status_terminal s \<longleftrightarrow> s = StSucceeded \<or> s = StFailed \<or> s = StCancelled"

record exec_row =
  ex_id :: string
  ex_tenant :: string
  ex_workflow :: string
  ex_version :: string
  ex_status :: status
  ex_trigger :: string
  ex_trigger_node :: string
  ex_parent :: string
  ex_input :: raw
  ex_output :: raw
  ex_error :: raw
  ex_started :: int
  ex_finished :: "int option"
  ex_owner :: string
  ex_expires :: "int option"
  ex_cancel_requested :: "int option"
  ex_reclaims :: int

text \<open>\<open>NULL\<close> in the columns \<open>response\<close> and \<open>console\<close> is \<open>None\<close>.\<close>

record trace_row =
  tr_id :: string
  tr_tenant :: string
  tr_execution :: string
  tr_node :: string
  tr_attempt :: int
  tr_run_index :: int
  tr_sequence :: int
  tr_status :: status
  tr_input :: raw
  tr_output :: raw
  tr_error :: raw
  tr_response :: "raw option"
  tr_console :: "raw option"
  tr_started :: int
  tr_finished :: "int option"

datatype wait_outcome = OutcomeNone | OutcomeResumed | OutcomeExpired | OutcomeCancelled

record 'c wait_row =
  wt_id :: nat
  wt_tenant :: string
  wt_execution :: string
  wt_workflow :: string
  wt_node :: string
  wt_mode :: string
  wt_token_hash :: string
  wt_resume_token :: string
  wt_checkpoint :: 'c
  wt_resume_output :: raw
  wt_run_count :: int
  wt_expires :: int
  wt_consumed :: "int option"
  wt_outcome :: wait_outcome
  wt_created :: int

text \<open>A soft-deleted workflow is invisible to every query; a definition may fail to decode.\<close>

record workflow_row =
  wf_id :: string
  wf_tenant :: string
  wf_active :: bool
  wf_latest :: int
  wf_active_version :: "string option"
  wf_deleted :: bool

record version_row =
  vr_id :: string
  vr_tenant :: string
  vr_workflow :: string
  vr_revision :: int
  vr_document :: "document option"

record 'c database =
  db_workflows :: "workflow_row list"
  db_versions :: "version_row list"
  db_executions :: "exec_row list"
  db_runs :: "trace_row list"
  db_waits :: "'c wait_row list"
  db_next_wait :: nat

datatype start_problem = StartDisabled | StartUnknown | StartFed string

datatype store_error =
    ErrNotFound string
  | ErrWaitNotFound
  | ErrWaitConsumed
  | ErrWaitExpired
  | Missing string
  | BadPayload string string
  | BadDocument string
  | NotCompiled compile_error
  | BadStart start_problem
  | KeyTaken string
  | KeyMissing string
  | RowInUse string
  | NotSuspendable status
  | WithoutLease
  | NotExpired nat
  | UnsupportedStatus status
  | MixedBatch
  | BadCursor
  | NotAnObject

definition change_rows :: "('a \<Rightarrow> bool) \<Rightarrow> ('a \<Rightarrow> 'a) \<Rightarrow> 'a list \<Rightarrow> 'a list" where
  "change_rows p f rows = map (\<lambda>r. if p r then f r else r) rows"

definition affected :: "('a \<Rightarrow> bool) \<Rightarrow> 'a list \<Rightarrow> nat" where
  "affected p rows = length (filter p rows)"

text \<open>The first row in the order of a key.\<close>

definition first_by :: "('a \<Rightarrow> 'k :: linorder) \<Rightarrow> 'a list \<Rightarrow> 'a option" where
  "first_by key rows = (case sort_key key rows of [] \<Rightarrow> None | r # _ \<Rightarrow> Some r)"

definition find_execution :: "'c database \<Rightarrow> string \<Rightarrow> string \<Rightarrow> exec_row option" where
  "find_execution db tenant i = find (\<lambda>r. ex_tenant r = tenant \<and> ex_id r = i) (db_executions db)"

definition find_workflow :: "'c database \<Rightarrow> string \<Rightarrow> string \<Rightarrow> workflow_row option" where
  "find_workflow db tenant i =
     find (\<lambda>w. wf_tenant w = tenant \<and> wf_id w = i \<and> \<not> wf_deleted w) (db_workflows db)"

definition find_active_workflow :: "'c database \<Rightarrow> string \<Rightarrow> string \<Rightarrow> workflow_row option" where
  "find_active_workflow db tenant i =
     find (\<lambda>w. wf_tenant w = tenant \<and> wf_id w = i \<and> wf_active w \<and> \<not> wf_deleted w) (db_workflows db)"

definition find_version :: "'c database \<Rightarrow> string \<Rightarrow> string \<Rightarrow> version_row option" where
  "find_version db tenant i = find (\<lambda>v. vr_tenant v = tenant \<and> vr_id v = i) (db_versions db)"

definition find_revision :: "'c database \<Rightarrow> string \<Rightarrow> string \<Rightarrow> int \<Rightarrow> version_row option" where
  "find_revision db tenant flow n =
     find (\<lambda>v. vr_tenant v = tenant \<and> vr_workflow v = flow \<and> vr_revision v = n) (db_versions db)"

definition change_executions ::
  "(exec_row \<Rightarrow> bool) \<Rightarrow> (exec_row \<Rightarrow> exec_row) \<Rightarrow> 'c database \<Rightarrow> 'c database" where
  "change_executions p f db = db\<lparr>db_executions := change_rows p f (db_executions db)\<rparr>"

definition insert_execution :: "exec_row \<Rightarrow> 'c database \<Rightarrow> store_error + exec_row \<times> 'c database" where
  "insert_execution row db =
     need (ex_id row \<notin> ex_id ` set (db_executions db)) (KeyTaken ''executions'')
      (need (ex_workflow row \<in> wf_id ` set (db_workflows db) \<and> ex_version row \<in> vr_id ` set (db_versions db))
         (KeyMissing ''executions'')
         (Inr (row, db\<lparr>db_executions := db_executions db @ [row]\<rparr>)))"

definition null_payload :: raw where "null_payload = RawJson JNull"

definition new_execution ::
  "string \<Rightarrow> string \<Rightarrow> string \<Rightarrow> string \<Rightarrow> status \<Rightarrow> string \<Rightarrow> string \<Rightarrow> string \<Rightarrow> raw \<Rightarrow> int \<Rightarrow> exec_row" where
  "new_execution i tenant flow version st trigger node parent' input started =
     \<lparr>ex_id = i, ex_tenant = tenant, ex_workflow = flow, ex_version = version, ex_status = st,
      ex_trigger = trigger, ex_trigger_node = node, ex_parent = parent', ex_input = input,
      ex_output = null_payload, ex_error = null_payload, ex_started = started, ex_finished = None,
      ex_owner = [], ex_expires = None, ex_cancel_requested = None, ex_reclaims = 0\<rparr>"

definition payload_of :: "string \<Rightarrow> string + raw \<Rightarrow> store_error + raw" where
  "payload_of what r = (case r of Inl e \<Rightarrow> Inl (BadPayload what e) | Inr v \<Rightarrow> Inr v)"

definition zero_time :: int where "zero_time = 0"

subsection \<open>Queueing\<close>

definition manual_start_problem :: "ir \<Rightarrow> string \<Rightarrow> start_problem option" where
  "manual_start_problem plan start =
     (case find (\<lambda>n. in_id n = start) (ir_nodes plan) of
        None \<Rightarrow> Some StartUnknown
      | Some n \<Rightarrow>
          if in_disabled n then Some StartDisabled
          else case find (\<lambda>e. end_node (edge_target e) = start) (ir_edges plan) of
                 None \<Rightarrow> None
               | Some e \<Rightarrow> Some (StartFed (end_node (edge_source e))))"

text \<open>The revision a manual run executes: the named one, or the workflow's latest.\<close>

definition pinned_version ::
  "'c database \<Rightarrow> string \<Rightarrow> workflow_row \<Rightarrow> string \<Rightarrow> store_error + version_row" where
  "pinned_version db tenant w version =
     (if version = [] then found (find_revision db tenant (wf_id w) (wf_latest w)) (ErrNotFound ''workflow version'') Inr
      else found (find_version db tenant version) (ErrNotFound ''workflow version'') (\<lambda>v.
             need (vr_workflow v = wf_id w) (ErrNotFound ''workflow version'') (Inr v)))"

definition compiled :: "host \<Rightarrow> catalog \<Rightarrow> document \<Rightarrow> store_error + ir" where
  "compiled h cat d = (case compile h cat d of Inl e \<Rightarrow> Inl (NotCompiled e) | Inr plan \<Rightarrow> Inr plan)"

definition start_checked :: "ir \<Rightarrow> string \<Rightarrow> store_error + unit" where
  "start_checked plan start =
     (if start = [] then Inr () else case manual_start_problem plan start of None \<Rightarrow> Inr () | Some p \<Rightarrow> Inl (BadStart p))"

definition queue_manual ::
  "host \<Rightarrow> catalog option \<Rightarrow> string \<Rightarrow> string \<Rightarrow> string \<Rightarrow> string \<Rightarrow> string \<Rightarrow> raw \<Rightarrow> string \<Rightarrow> int \<Rightarrow> 'c database
     \<Rightarrow> store_error + exec_row \<times> 'c database" where
  "queue_manual h cat tenant flow version trigger start input i now db =
     need (tenant \<noteq> []) (Missing ''tenant scope'') (need (flow \<noteq> []) (Missing ''workflow ID'')
       (found cat (Missing ''workflow catalog'') (\<lambda>cat.
        attempt (payload_of ''execution input'' (trigger_payload input)) (\<lambda>input'.
        found (find_workflow db tenant flow) (ErrNotFound ''workflow'') (\<lambda>w.
        attempt (pinned_version db tenant w version) (\<lambda>v.
        found (vr_document v) (BadDocument (vr_id v)) (\<lambda>d.
        attempt (compiled h cat d) (\<lambda>plan.
        attempt (start_checked plan start) (\<lambda>_.
        insert_execution
          (new_execution i tenant (wf_id w) (vr_id v) StQueued trigger start [] input' now) db)))))))))"

definition trigger_manual :: string where "trigger_manual = ''manual''"
definition trigger_subworkflow :: string where "trigger_subworkflow = ''subworkflow''"

definition queue_manual_latest ::
  "host \<Rightarrow> catalog option \<Rightarrow> string \<Rightarrow> string \<Rightarrow> string \<Rightarrow> raw \<Rightarrow> string \<Rightarrow> int \<Rightarrow> 'c database
     \<Rightarrow> store_error + exec_row \<times> 'c database" where
  "queue_manual_latest h cat tenant flow start input i now db =
     queue_manual h cat tenant flow [] trigger_manual start input i now db"

definition queue_manual_version ::
  "host \<Rightarrow> catalog option \<Rightarrow> string \<Rightarrow> string \<Rightarrow> string \<Rightarrow> string \<Rightarrow> raw \<Rightarrow> string \<Rightarrow> int \<Rightarrow> 'c database
     \<Rightarrow> store_error + exec_row \<times> 'c database" where
  "queue_manual_version h cat tenant flow version start input i now db =
     need (trim_space version \<noteq> []) (Missing ''workflow version ID'')
       (queue_manual h cat tenant flow version trigger_manual start input i now db)"

definition queue_retry ::
  "host \<Rightarrow> catalog option \<Rightarrow> string \<Rightarrow> exec_row \<Rightarrow> string \<Rightarrow> int \<Rightarrow> 'c database
     \<Rightarrow> store_error + exec_row \<times> 'c database" where
  "queue_retry h cat tenant original i now db =
     need (trim_space (ex_version original) \<noteq> []) (Missing ''workflow version ID'')
       (queue_manual h cat tenant (ex_workflow original) (ex_version original)
          (if ex_trigger original = [] \<or> ex_trigger original = trigger_subworkflow then trigger_manual
           else ex_trigger original)
          (ex_trigger_node original) (ex_input original) i now db)"

definition queue_triggered ::
  "string \<Rightarrow> string \<Rightarrow> string \<Rightarrow> string \<Rightarrow> string \<Rightarrow> raw \<Rightarrow> string \<Rightarrow> int \<Rightarrow> 'c database
     \<Rightarrow> store_error + exec_row \<times> 'c database" where
  "queue_triggered tenant flow version trigger start input i now db =
     need (tenant \<noteq> []) (Missing ''tenant scope'')
      (need (flow \<noteq> [] \<and> version \<noteq> []) (Missing ''workflow ID and version ID'')
      (need (trigger \<noteq> []) (Missing ''execution trigger'')
      (attempt (payload_of ''execution input'' (trigger_payload input)) (\<lambda>input'.
       found (find_active_workflow db tenant flow) (ErrNotFound ''active workflow'') (\<lambda>w.
       need (wf_active_version w = Some version) (ErrNotFound ''workflow version is no longer active'')
         (insert_execution (new_execution i tenant flow version StQueued trigger start [] input' now) db))))))"

definition create_execution ::
  "host \<Rightarrow> string \<Rightarrow> exec_row \<Rightarrow> string \<Rightarrow> int \<Rightarrow> 'c database \<Rightarrow> store_error + exec_row \<times> 'c database" where
  "create_execution h tenant r i now db =
     need (tenant \<noteq> []) (Missing ''tenant scope'')
      (need (ex_workflow r \<noteq> [] \<and> ex_version r \<noteq> []) (Missing ''execution workflow and workflow version'')
      (need (ex_status r \<noteq> StOther [] \<and> ex_trigger r \<noteq> []) (Missing ''execution status and trigger'')
      (attempt (payload_of ''execution input'' (trigger_payload (ex_input r))) (\<lambda>input'.
       attempt (payload_of ''execution output'' (stored_payload h (ex_output r))) (\<lambda>output'.
       attempt (payload_of ''execution error'' (stored_payload h (ex_error r))) (\<lambda>error'.
       found (find_workflow db tenant (ex_workflow r)) (ErrNotFound ''workflow'') (\<lambda>w.
       found (find_version db tenant (ex_version r)) (ErrNotFound ''workflow version'') (\<lambda>v.
       need (vr_workflow v = ex_workflow r) (ErrNotFound ''workflow version'')
         (insert_execution
           ((new_execution (if ex_id r = [] then i else ex_id r) tenant (ex_workflow r) (ex_version r)
               (ex_status r) (ex_trigger r) (ex_trigger_node r) (ex_parent r) input'
               (if ex_started r = zero_time then now else ex_started r))
             \<lparr>ex_output := output', ex_error := error', ex_finished := ex_finished r\<rparr>) db)))))))))"

subsection \<open>Reading\<close>

definition runs_of_execution :: "'c database \<Rightarrow> string \<Rightarrow> string \<Rightarrow> trace_row list" where
  "runs_of_execution db tenant i = filter (\<lambda>t. tr_tenant t = tenant \<and> tr_execution t = i) (db_runs db)"

definition get_execution ::
  "string \<Rightarrow> string \<Rightarrow> 'c database \<Rightarrow> store_error + exec_row \<times> trace_row list" where
  "get_execution tenant i db =
     need (tenant \<noteq> []) (Missing ''tenant scope'')
       (found (find_execution db tenant i) (ErrNotFound ''execution'') (\<lambda>r.
          Inr (r, sort_key (\<lambda>t. (tr_sequence t, tr_attempt t)) (runs_of_execution db tenant i))))"

definition queue_depth :: "'c database \<Rightarrow> nat" where
  "queue_depth db = affected (\<lambda>r. ex_status r = StQueued) (db_executions db)"

definition execution_state :: "string \<Rightarrow> string \<Rightarrow> 'c database \<Rightarrow> store_error + status \<times> bool" where
  "execution_state tenant i db =
     need (tenant \<noteq> []) (Missing ''tenant scope'') (need (i \<noteq> []) (Missing ''execution ID'')
       (found (find_execution db tenant i) (ErrNotFound ''execution'') (\<lambda>r.
          Inr (ex_status r, ex_status r = StCancelling \<or> ex_status r = StCancelled))))"

record execution_filter =
  xf_workflow :: string
  xf_statuses :: "status list"
  xf_trigger :: string
  xf_limit :: int
  xf_cursor :: string

definition default_page_size :: int where "default_page_size = 25"
definition max_page_size :: int where "max_page_size = 100"

definition page_limit :: "execution_filter \<Rightarrow> int" where
  "page_limit f =
     (let l = (if xf_limit f \<le> 0 then default_page_size else xf_limit f)
      in if max_page_size < l then max_page_size else l)"

definition matches_filter :: "string \<Rightarrow> execution_filter \<Rightarrow> exec_row \<Rightarrow> bool" where
  "matches_filter tenant f r \<longleftrightarrow>
     ex_tenant r = tenant \<and>
     (xf_workflow f \<noteq> [] \<longrightarrow> ex_workflow r = xf_workflow f) \<and>
     (xf_statuses f \<noteq> [] \<longrightarrow> ex_status r \<in> set (xf_statuses f)) \<and>
     (xf_trigger f \<noteq> [] \<longrightarrow> ex_trigger r = xf_trigger f)"

definition newest_key :: "exec_row \<Rightarrow> int \<times> string" where
  "newest_key r = (ex_started r, ex_id r)"

text \<open>The encoding of a cursor (base64 over a time and an identifier) is a parameter of the listing.\<close>

definition list_executions ::
  "(int \<Rightarrow> string \<Rightarrow> string) \<Rightarrow> (string \<Rightarrow> (int \<times> string) option) \<Rightarrow> string \<Rightarrow> execution_filter \<Rightarrow> 'c database
     \<Rightarrow> store_error + exec_row list \<times> string" where
  "list_executions encode decode tenant f db =
     need (tenant \<noteq> []) (Missing ''tenant scope'')
       (attempt (if xf_cursor f = [] then Inr (\<lambda>r. True)
                 else found (decode (xf_cursor f)) BadCursor (\<lambda>c. Inr (\<lambda>r. newest_key r < c))) (\<lambda>after.
          (let limit = nat (page_limit f);
               rows = take (limit + 1)
                        (rev (sort_key newest_key
                          (filter (\<lambda>r. matches_filter tenant f r \<and> after r) (db_executions db))))
           in Inr (if limit < length rows
                   then (take limit rows, encode (ex_started (rows ! (limit - 1))) (ex_id (rows ! (limit - 1))))
                   else (rows, [])))))"

subsection \<open>Claiming\<close>

definition max_execution_reclaims :: int where "max_execution_reclaims = 2"
definition claim_scan_limit :: nat where "claim_scan_limit = 8"

definition expired_lease :: "int \<Rightarrow> exec_row \<Rightarrow> bool" where
  "expired_lease now r \<longleftrightarrow> (case ex_expires r of None \<Rightarrow> False | Some t \<Rightarrow> t \<le> now)"

definition claimable :: "int \<Rightarrow> exec_row \<Rightarrow> bool" where
  "claimable now r \<longleftrightarrow>
     ex_status r = StQueued \<or> ((ex_status r = StRunning \<or> ex_status r = StCancelling) \<and> expired_lease now r)"

definition next_candidate :: "int \<Rightarrow> 'c database \<Rightarrow> exec_row option" where
  "next_candidate now db = first_by newest_key (filter (claimable now) (db_executions db))"

definition same_row :: "exec_row \<Rightarrow> exec_row \<Rightarrow> bool" where
  "same_row c r \<longleftrightarrow> ex_id r = ex_id c \<and> ex_tenant r = ex_tenant c"

definition crash_error :: "int \<Rightarrow> raw" where
  "crash_error reclaims =
     RawJson (JObj [(''code'', JStr ''execution.crashed''),
       (''message'', JStr (''execution was abandoned by its worker '' @ itoa reclaims @
          '' times and is not being run again; re-queue it to try once more''))])"

definition settle_crashed_execution :: "exec_row \<Rightarrow> int \<Rightarrow> 'c database \<Rightarrow> exec_row option \<times> 'c database" where
  "settle_crashed_execution c now db =
     (let p = (\<lambda>r. same_row c r \<and> ex_status r = StRunning \<and> expired_lease now r);
          f = (\<lambda>r. r\<lparr>ex_status := StFailed, ex_output := null_payload, ex_error := crash_error (ex_reclaims c),
                 ex_finished := Some now, ex_owner := [], ex_expires := None\<rparr>)
      in if affected p (db_executions db) = 0 then (None, db)
         else (Some (f c), change_executions p f db))"

definition claimed_row :: "string \<Rightarrow> int \<Rightarrow> exec_row \<Rightarrow> exec_row" where
  "claimed_row owner until r =
     r\<lparr>ex_status := (if ex_status r = StCancelling then StCancelling else StRunning),
       ex_owner := owner, ex_expires := Some until,
       ex_reclaims := (if ex_status r = StRunning then ex_reclaims r + 1 else ex_reclaims r)\<rparr>"

definition drop_runs :: "exec_row \<Rightarrow> 'c database \<Rightarrow> 'c database" where
  "drop_runs c db =
     db\<lparr>db_runs := filter (\<lambda>t. \<not> (tr_tenant t = ex_tenant c \<and> tr_execution t = ex_id c)) (db_runs db)\<rparr>"

text \<open>The database after the claim of a candidate; \<open>None\<close> when the update finds no row.\<close>

definition claim_row :: "string \<Rightarrow> int \<Rightarrow> int \<Rightarrow> exec_row \<Rightarrow> 'c database \<Rightarrow> 'c database option" where
  "claim_row owner until now c db =
     (let p = (\<lambda>r. same_row c r \<and> claimable now r);
          next = (if ex_status c = StCancelling then StCancelling else StRunning);
          f = (\<lambda>r. r\<lparr>ex_status := next, ex_owner := owner, ex_expires := Some until,
                 ex_reclaims := (if ex_status c = StRunning then ex_reclaims r + 1 else ex_reclaims r)\<rparr>);
          db' = change_executions p f db
      in if affected p (db_executions db) = 0 then None
         else Some (if ex_status c = StRunning then drop_runs c db' else db'))"

definition past_cap :: "exec_row \<Rightarrow> bool" where
  "past_cap c \<longleftrightarrow> ex_status c = StRunning \<and> max_execution_reclaims < ex_reclaims c + 1"

fun claim_scan ::
  "nat \<Rightarrow> string \<Rightarrow> int \<Rightarrow> int \<Rightarrow> exec_row list \<Rightarrow> 'c database
     \<Rightarrow> store_error + ((exec_row \<times> document) option \<times> exec_row list) \<times> 'c database" where
  "claim_scan 0 owner until now settled db = Inr ((None, settled), db)"
| "claim_scan (Suc n) owner until now settled db =
     (case next_candidate now db of
        None \<Rightarrow> Inr ((None, settled), db)
      | Some c \<Rightarrow>
          if past_cap c
          then (case settle_crashed_execution c now db of
                  (crashed, db') \<Rightarrow>
                    claim_scan n owner until now
                      (settled @ (case crashed of None \<Rightarrow> [] | Some r \<Rightarrow> [r])) db')
          else case claim_row owner until now c db of
                 None \<Rightarrow> claim_scan n owner until now settled db
               | Some db' \<Rightarrow>
                   found (find_version db' (ex_tenant c) (ex_version c)) (ErrNotFound ''workflow version'') (\<lambda>v.
                   found (vr_document v) (BadDocument (vr_id v)) (\<lambda>d.
                     Inr ((Some (claimed_row owner until c, d), settled), db'))))"

definition claim_next ::
  "string \<Rightarrow> string \<Rightarrow> int \<Rightarrow> int \<Rightarrow> 'c database
     \<Rightarrow> store_error + ((exec_row \<times> document) option \<times> exec_row list) \<times> 'c database" where
  "claim_next worker lease until now db =
     need (worker \<noteq> [] \<and> until \<noteq> zero_time) (Missing ''worker ID and lease expiry'')
       (claim_scan claim_scan_limit (worker @ ''/'' @ lease) until now [] db)"

subsection \<open>A run's own writes\<close>

definition held_by :: "string \<Rightarrow> string \<Rightarrow> string \<Rightarrow> exec_row \<Rightarrow> bool" where
  "held_by tenant i owner r \<longleftrightarrow> ex_tenant r = tenant \<and> ex_id r = i \<and> ex_owner r = owner"

definition extend_lease ::
  "string \<Rightarrow> string \<Rightarrow> string \<Rightarrow> int \<Rightarrow> 'c database \<Rightarrow> store_error + bool \<times> 'c database" where
  "extend_lease tenant i owner until db =
     need (tenant \<noteq> []) (Missing ''tenant scope'')
       (need (i \<noteq> [] \<and> owner \<noteq> [] \<and> until \<noteq> zero_time) (Missing ''execution ID, lease owner, and lease expiry'')
         (let p = (\<lambda>r. held_by tenant i owner r \<and> (ex_status r = StRunning \<or> ex_status r = StCancelling))
          in Inr (0 < affected p (db_executions db),
                  change_executions p (\<lambda>r. r\<lparr>ex_expires := Some until\<rparr>) db)))"

definition cancellation_error :: raw where
  "cancellation_error =
     RawJson (JObj [(''code'', JStr ''execution.cancelled''),
       (''message'', JStr ''execution cancellation was accepted before completion'')])"

definition settle_with :: "status \<Rightarrow> raw \<Rightarrow> raw \<Rightarrow> int option \<Rightarrow> exec_row \<Rightarrow> exec_row" where
  "settle_with s output error finished r =
     r\<lparr>ex_status := s, ex_output := output, ex_error := error, ex_finished := finished,
       ex_owner := [], ex_expires := None\<rparr>"

definition settle_running ::
  "exec_row \<Rightarrow> string \<Rightarrow> raw \<Rightarrow> raw \<Rightarrow> 'c database \<Rightarrow> store_error + 'c database" where
  "settle_running r tenant output error db =
     (let cancelled = (\<lambda>x. held_by tenant (ex_id r) (ex_owner r) x \<and> ex_status x = StCancelling);
          finished = (\<lambda>x. held_by tenant (ex_id r) (ex_owner r) x \<and> ex_status x = StRunning)
      in if 0 < affected cancelled (db_executions db)
         then Inr (change_executions cancelled
                     (settle_with StCancelled null_payload cancellation_error (ex_finished r)) db)
         else if 0 < affected finished (db_executions db)
         then Inr (change_executions finished (settle_with (ex_status r) output error (ex_finished r)) db)
         else Inl (ErrNotFound []))"

definition update_runtime ::
  "host \<Rightarrow> string \<Rightarrow> exec_row \<Rightarrow> 'c database
     \<Rightarrow> store_error + (exec_row \<times> trace_row list) \<times> 'c database" where
  "update_runtime h tenant r db =
     need (tenant \<noteq> []) (Missing ''tenant scope'')
      (need (ex_id r \<noteq> [] \<and> ex_status r \<noteq> StOther [] \<and> ex_owner r \<noteq> [])
         (Missing ''execution ID, status, and lease owner'')
      (attempt (payload_of ''execution output'' (stored_payload h (ex_output r))) (\<lambda>output'.
       attempt (payload_of ''execution error'' (stored_payload h (ex_error r))) (\<lambda>error'.
       attempt (settle_running r tenant output' error' db) (\<lambda>db'.
       attempt (get_execution tenant (ex_id r) db') (\<lambda>answer. Inr (answer, db')))))))"

subsection \<open>The trace\<close>

lemma filter_shrinks:
  assumes "x \<in> set xs" "P x" "\<not> Q x" "\<And>y. Q y \<Longrightarrow> P y"
  shows "length (filter Q xs) < length (filter P xs)"
proof -
  have "length (filter Q ys) \<le> length (filter P ys)" for ys
    using assms(4) by (induction ys) auto
  with assms show ?thesis by (induction xs) (auto simp: less_Suc_eq_le)
qed

type_synonym run_key = "string \<times> int \<times> int"

definition run_key :: "trace_row \<Rightarrow> run_key" where
  "run_key t = (tr_node t, tr_attempt t, tr_run_index t)"

text \<open>\<open>map[nodeRunKey]int\<close>, written row by row.\<close>

definition existing_node_runs :: "'c database \<Rightarrow> string \<Rightarrow> string \<Rightarrow> (run_key \<times> int) list" where
  "existing_node_runs db tenant i =
     fold (\<lambda>t. aput (run_key t) (tr_sequence t)) (runs_of_execution db tenant i) []"

text \<open>Walks a row's run index forward to the first free key; \<open>None\<close> when it meets the row itself.\<close>

function free_index :: "(run_key \<times> int) list \<Rightarrow> trace_row \<Rightarrow> trace_row option" where
  "free_index taken t =
     (case aget taken (run_key t) of
        None \<Rightarrow> Some t
      | Some sequence \<Rightarrow>
          if sequence = tr_sequence t then None
          else free_index taken (t\<lparr>tr_run_index := tr_run_index t + 1\<rparr>))"
  by pat_completeness auto
termination
proof (relation "measure (\<lambda>(taken, t). length (filter (\<lambda>((node, a, i), _).
         node = tr_node t \<and> a = tr_attempt t \<and> tr_run_index t \<le> i) taken))", goal_cases)
  case (2 taken t sequence)
  let ?later = "\<lambda>n. \<lambda>((node, a, i), _). node = tr_node t \<and> a = tr_attempt t \<and> n \<le> i"
  let ?here = "(run_key t, sequence)"
  have "?here \<in> set taken" using 2(1) by (rule aget_in)
  then have "length (filter (?later (tr_run_index t + 1)) taken) < length (filter (?later (tr_run_index t)) taken)"
    by (rule filter_shrinks) (auto simp: run_key_def)
  then show ?case by simp
qed simp

declare free_index.simps [simp del]

fun place_runs :: "(run_key \<times> int) list \<Rightarrow> trace_row list \<Rightarrow> trace_row list" where
  "place_runs taken [] = []"
| "place_runs taken (t # ts) =
     (case free_index taken t of
        None \<Rightarrow> place_runs taken ts
      | Some t' \<Rightarrow> t' # place_runs (aput (run_key t') (tr_sequence t') taken) ts)"

text \<open>The table's primary key and its two unique indexes.\<close>

definition runs_keyed :: "trace_row list \<Rightarrow> bool" where
  "runs_keyed ts \<longleftrightarrow>
     distinct (map tr_id ts) \<and>
     distinct (map (\<lambda>t. (tr_execution t, run_key t)) ts) \<and>
     distinct (map (\<lambda>t. (tr_execution t, tr_sequence t)) ts)"

definition insert_runs :: "trace_row list \<Rightarrow> 'c database \<Rightarrow> store_error + 'c database" where
  "insert_runs ts db =
     need (runs_keyed (db_runs db @ ts)) (KeyTaken ''execution_node_runs'') (Inr (db\<lparr>db_runs := db_runs db @ ts\<rparr>))"

definition optional_payload :: "host \<Rightarrow> string \<Rightarrow> raw option \<Rightarrow> store_error + raw option" where
  "optional_payload h what r =
     (case r of
        None \<Rightarrow> Inr None
      | Some RawEmpty \<Rightarrow> Inr None
      | Some v \<Rightarrow> attempt (payload_of what (stored_payload h v)) (\<lambda>x. Inr (Some x)))"

text \<open>A node run on its way into the store carries the lease it was made under.\<close>

definition node_run_model ::
  "host \<Rightarrow> string \<Rightarrow> string \<Rightarrow> string \<Rightarrow> int \<Rightarrow> trace_row \<Rightarrow> store_error + trace_row" where
  "node_run_model h tenant owner i now t =
     need (tr_execution t \<noteq> [] \<and> tr_node t \<noteq> [] \<and> owner \<noteq> []) (Missing ''node run execution, node, and lease owner'')
      (need (1 \<le> tr_attempt t \<and> 1 \<le> tr_sequence t) (Missing ''positive node run attempt and sequence'')
      (need (tr_status t \<noteq> StOther []) (Missing ''node run status'')
      (attempt (payload_of ''node run input'' (stored_payload h (tr_input t))) (\<lambda>input'.
       attempt (payload_of ''node run output'' (stored_payload h (tr_output t))) (\<lambda>output'.
       attempt (payload_of ''node run error'' (stored_payload h (tr_error t))) (\<lambda>error'.
       attempt (optional_payload h ''node run response'' (tr_response t)) (\<lambda>response'.
       attempt (optional_payload h ''node run console'' (tr_console t)) (\<lambda>console'.
       Inr (t\<lparr>tr_id := (if tr_id t = [] then i else tr_id t), tr_tenant := tenant,
              tr_input := input', tr_output := output', tr_error := error',
              tr_response := response', tr_console := console',
              tr_started := (if tr_started t = zero_time then now else tr_started t)\<rparr>)))))))))"

fun node_run_models ::
  "host \<Rightarrow> string \<Rightarrow> string \<Rightarrow> int \<Rightarrow> (string \<times> trace_row) list \<Rightarrow> store_error + trace_row list" where
  "node_run_models h tenant owner now [] = Inr []"
| "node_run_models h tenant owner now ((i, t) # ts) =
     attempt (node_run_model h tenant owner i now t) (\<lambda>m.
     attempt (node_run_models h tenant owner now ts) (\<lambda>ms. Inr (m # ms)))"

text \<open>A batch is given with the identifiers minted for its rows and the owner each row names.\<close>

definition create_node_runs ::
  "host \<Rightarrow> string \<Rightarrow> (string \<times> string \<times> trace_row) list \<Rightarrow> int \<Rightarrow> 'c database
     \<Rightarrow> store_error + trace_row list \<times> 'c database" where
  "create_node_runs h tenant batch now db =
     need (tenant \<noteq> []) (Missing ''tenant scope'')
       (case batch of
          [] \<Rightarrow> Inr ([], db)
        | (_, owner, t) # _ \<Rightarrow>
            need (list_all (\<lambda>(_, o', x). tr_execution x = tr_execution t \<and> o' = owner) batch) MixedBatch
              (attempt (node_run_models h tenant owner now (map (\<lambda>(i, _, x). (i, x)) batch)) (\<lambda>models.
               found (find (\<lambda>r. held_by tenant (tr_execution t) owner r \<and>
                        (ex_status r = StRunning \<or> ex_status r = StCancelling)) (db_executions db))
                 (ErrNotFound ''execution'') (\<lambda>_.
               (let created = place_runs (existing_node_runs db tenant (tr_execution t)) models
                in attempt (insert_runs created db) (\<lambda>db'. Inr (created, db')))))))"

text \<open>One row is a batch of one; a row that is stored already is answered as it was given.\<close>

definition create_node_run ::
  "host \<Rightarrow> string \<Rightarrow> string \<Rightarrow> string \<Rightarrow> trace_row \<Rightarrow> int \<Rightarrow> 'c database
     \<Rightarrow> store_error + trace_row \<times> 'c database" where
  "create_node_run h tenant i owner t now db =
     attempt (create_node_runs h tenant [(i, owner, t)] now db) (\<lambda>(stored, db').
       Inr (case stored of [] \<Rightarrow> t | s # _ \<Rightarrow> s, db'))"

end
