(* ===== verification/Waits.thy ===== *)
theory Waits
  imports Store
begin

text \<open>
  The rest of the execution store: cancelling, the durable waits of \<open>internal/repository/waits.go\<close>, called
  workflows, failure notes and ancestry (\<open>executions.go\<close>), the pruning of old executions
  (\<open>execution_retention.go\<close>), and the service's part of a wait (\<open>internal/engine/wait_service.go\<close>).

  A checkpoint is a value of a type of its own, which the store passes through; the hash of a token is given
  to the store by its caller.
\<close>

subsection \<open>Cancelling\<close>

definition wait_cancelled_error :: raw where
  "wait_cancelled_error =
     RawJson (JObj [(''code'', JStr ''execution.cancelled''),
       (''message'', JStr ''execution was cancelled while this node waited'')])"

definition change_waits :: "('c wait_row \<Rightarrow> bool) \<Rightarrow> ('c wait_row \<Rightarrow> 'c wait_row) \<Rightarrow> 'c database \<Rightarrow> 'c database" where
  "change_waits p f db = db\<lparr>db_waits := change_rows p f (db_waits db)\<rparr>"

definition consume :: "int \<Rightarrow> wait_outcome \<Rightarrow> 'c wait_row \<Rightarrow> 'c wait_row" where
  "consume now outcome w = w\<lparr>wt_consumed := Some now, wt_outcome := outcome, wt_resume_token := []\<rparr>"

definition open_wait :: "string \<Rightarrow> string \<Rightarrow> 'c wait_row \<Rightarrow> bool" where
  "open_wait tenant i w \<longleftrightarrow> wt_tenant w = tenant \<and> wt_execution w = i \<and> wt_consumed w = None"

definition active_wait :: "'c database \<Rightarrow> string \<Rightarrow> string \<Rightarrow> 'c wait_row option" where
  "active_wait db tenant i = first_by (\<lambda>w. - int (wt_id w)) (filter (open_wait tenant i) (db_waits db))"

definition same_execution :: "string \<Rightarrow> string \<Rightarrow> status \<Rightarrow> exec_row \<Rightarrow> bool" where
  "same_execution tenant i s r \<longleftrightarrow> ex_tenant r = tenant \<and> ex_id r = i \<and> ex_status r = s"

definition release_as :: "status \<Rightarrow> exec_row \<Rightarrow> exec_row" where
  "release_as s r = r\<lparr>ex_status := s, ex_owner := [], ex_expires := None\<rparr>"

text \<open>The row of the node that was waiting, after every row already stored.\<close>

definition wait_sequence :: "'c wait_row \<Rightarrow> (run_key \<times> int) list \<Rightarrow> int" where
  "wait_sequence w taken = fold (\<lambda>(_, stored) n. if n < stored then stored else n) taken (wt_run_count w)"

definition wait_run_index :: "'c wait_row \<Rightarrow> (run_key \<times> int) list \<Rightarrow> int" where
  "wait_run_index w taken =
     fold (\<lambda>((node, a, i), _) n. if node = wt_node w \<and> a = 1 \<and> n \<le> i then i + 1 else n) taken 0"

definition cancelled_wait_row :: "string \<Rightarrow> 'c wait_row \<Rightarrow> (run_key \<times> int) list \<Rightarrow> int \<Rightarrow> trace_row" where
  "cancelled_wait_row i w taken now =
     \<lparr>tr_id = i, tr_tenant = wt_tenant w, tr_execution = wt_execution w, tr_node = wt_node w, tr_attempt = 1,
      tr_run_index = wait_run_index w taken, tr_sequence = wait_sequence w taken + 1, tr_status = StCancelled,
      tr_input = null_payload, tr_output = null_payload, tr_error = wait_cancelled_error,
      tr_response = None, tr_console = None, tr_started = wt_created w, tr_finished = Some now\<rparr>"

definition cancel_waiting :: "string \<Rightarrow> string \<Rightarrow> string \<Rightarrow> int \<Rightarrow> 'c database \<Rightarrow> store_error + 'c database" where
  "cancel_waiting tenant i run_id now db =
     (let p = same_execution tenant i StWaiting;
          db1 = change_executions p (\<lambda>r. (release_as StCancelled r)\<lparr>ex_finished := Some now\<rparr>) db
      in if affected p (db_executions db) = 0 then Inr db
         else case active_wait db1 tenant i of
                None \<Rightarrow> Inr db1
              | Some w \<Rightarrow>
                  (let db2 = change_waits (\<lambda>x. wt_id x = wt_id w \<and> wt_consumed x = None)
                               (consume now OutcomeCancelled) db1
                   in insert_runs [cancelled_wait_row run_id w (existing_node_runs db2 tenant i) now] db2))"

text \<open>What \<open>Cancel\<close> writes to a row it read with a given status, whatever the row's status is by then.\<close>

definition cancel_update :: "status \<Rightarrow> int \<Rightarrow> (exec_row \<Rightarrow> exec_row) option" where
  "cancel_update s now =
     (if s = StQueued then Some (\<lambda>r. (release_as StCancelled r)\<lparr>ex_finished := Some now\<rparr>)
      else if s = StRunning then Some (\<lambda>r. r\<lparr>ex_status := StCancelling, ex_cancel_requested := Some now\<rparr>)
      else None)"

definition cancel_write ::
  "string \<Rightarrow> string \<Rightarrow> (exec_row \<Rightarrow> exec_row) \<Rightarrow> 'c database \<Rightarrow> 'c database" where
  "cancel_write tenant i f db = change_executions (\<lambda>r. ex_tenant r = tenant \<and> ex_id r = i) f db"

definition cancel_read :: "string \<Rightarrow> string \<Rightarrow> 'c database \<Rightarrow> store_error + exec_row" where
  "cancel_read tenant i db =
     need (tenant \<noteq> []) (Missing ''tenant scope'') (need (i \<noteq> []) (Missing ''execution ID'')
       (found (find_execution db tenant i) (ErrNotFound ''execution'') Inr))"

definition cancel_rest ::
  "string \<Rightarrow> exec_row \<Rightarrow> string \<Rightarrow> int \<Rightarrow> 'c database \<Rightarrow> store_error + exec_row \<times> 'c database" where
  "cancel_rest tenant seen run_id now db =
     (if ex_status seen = StWaiting
      then attempt (cancel_waiting tenant (ex_id seen) run_id now db) (\<lambda>db'.
             attempt (get_execution tenant (ex_id seen) db') (\<lambda>(r, _). Inr (r, db')))
      else case cancel_update (ex_status seen) now of
             Some f \<Rightarrow>
               (let db' = cancel_write tenant (ex_id seen) f db
                in attempt (get_execution tenant (ex_id seen) db') (\<lambda>(r, _). Inr (r, db')))
           | None \<Rightarrow>
               need (ex_status seen \<in> {StCancelling, StCancelled, StSucceeded, StFailed})
                 (UnsupportedStatus (ex_status seen)) (Inr (seen, db)))"

definition cancel ::
  "string \<Rightarrow> string \<Rightarrow> string \<Rightarrow> int \<Rightarrow> 'c database \<Rightarrow> store_error + exec_row \<times> 'c database" where
  "cancel tenant i run_id now db = attempt (cancel_read tenant i db) (\<lambda>seen. cancel_rest tenant seen run_id now db)"

subsection \<open>Suspending and resuming\<close>

record 'c suspend_params =
  sp_execution :: string
  sp_owner :: string
  sp_node :: string
  sp_mode :: string
  sp_token_hash :: string
  sp_resume_token :: string
  sp_checkpoint :: "'c option"
  sp_run_count :: int
  sp_expires :: int

text \<open>A checkpoint of no bytes is \<open>None\<close>.\<close>

definition new_wait :: "string \<Rightarrow> exec_row \<Rightarrow> 'c suspend_params \<Rightarrow> 'c \<Rightarrow> nat \<Rightarrow> int \<Rightarrow> 'c wait_row" where
  "new_wait tenant r q checkpoint i now =
     \<lparr>wt_id = i, wt_tenant = tenant, wt_execution = sp_execution q, wt_workflow = ex_workflow r, wt_node = sp_node q,
      wt_mode = sp_mode q, wt_token_hash = sp_token_hash q, wt_resume_token = sp_resume_token q,
      wt_checkpoint = checkpoint, wt_resume_output = RawEmpty, wt_run_count = sp_run_count q,
      wt_expires = sp_expires q, wt_consumed = None, wt_outcome = OutcomeNone, wt_created = now\<rparr>"

definition insert_wait :: "'c wait_row \<Rightarrow> 'c database \<Rightarrow> store_error + 'c database" where
  "insert_wait w db =
     need (wt_token_hash w \<notin> wt_token_hash ` set (db_waits db)) (KeyTaken ''execution_waits'')
       (Inr (db\<lparr>db_waits := db_waits db @ [w], db_next_wait := db_next_wait db + 1\<rparr>))"

definition suspend_execution ::
  "string \<Rightarrow> 'c suspend_params \<Rightarrow> int \<Rightarrow> 'c database \<Rightarrow> store_error + ('c wait_row \<times> exec_row) \<times> 'c database" where
  "suspend_execution tenant q now db =
     need (tenant \<noteq> []) (Missing ''tenant scope'')
      (need (sp_execution q \<noteq> [] \<and> sp_owner q \<noteq> []) (Missing ''execution ID and lease owner'')
      (need (sp_node q \<noteq> [] \<and> sp_mode q \<noteq> []) (Missing ''suspending node and wait mode'')
      (need (sp_token_hash q \<noteq> [] \<and> sp_resume_token q \<noteq> []) (Missing ''resume token and its hash'')
      (found (sp_checkpoint q) (Missing ''wait checkpoint'') (\<lambda>checkpoint.
       need (sp_expires q \<noteq> zero_time) (Missing ''wait deadline'')
      (found (find_execution db tenant (sp_execution q)) (ErrNotFound ''execution'') (\<lambda>r.
       need (ex_status r = StRunning) (NotSuspendable (ex_status r))
      (need (ex_owner r \<noteq> [] \<and> ex_owner r = sp_owner q) WithoutLease
      (let w = new_wait tenant r q checkpoint (db_next_wait db) now
       in attempt (insert_wait w db) (\<lambda>db'.
            Inr ((w, release_as StWaiting r),
                 change_executions
                   (\<lambda>x. held_by tenant (sp_execution q) (sp_owner q) x \<and> ex_status x = StRunning)
                   (release_as StWaiting) db')))))))))))"

definition find_wait_by_token :: "string \<Rightarrow> 'c database \<Rightarrow> store_error + 'c wait_row" where
  "find_wait_by_token hash db =
     need (hash \<noteq> []) ErrWaitNotFound
       (found (find (\<lambda>w. wt_token_hash w = hash) (db_waits db)) ErrWaitNotFound Inr)"

definition find_active_wait :: "string \<Rightarrow> string \<Rightarrow> 'c database \<Rightarrow> store_error + 'c wait_row" where
  "find_active_wait tenant i db =
     need (tenant \<noteq> []) (Missing ''tenant scope'') (need (i \<noteq> []) (Missing ''execution ID'')
       (found (active_wait db tenant i) (ErrNotFound ''suspended wait'') Inr))"

text \<open>A wait whose execution is no longer waiting was answered already.\<close>

definition held_execution :: "'c wait_row \<Rightarrow> 'c database \<Rightarrow> store_error + exec_row" where
  "held_execution w db =
     found (find_execution db (wt_tenant w) (wt_execution w)) ErrWaitConsumed (\<lambda>r.
       need (ex_status r = StWaiting) ErrWaitConsumed (Inr r))"

definition answer_wait ::
  "'c wait_row \<Rightarrow> ('c wait_row \<Rightarrow> 'c wait_row) \<Rightarrow> (exec_row \<Rightarrow> exec_row) \<Rightarrow> 'c database \<Rightarrow> 'c database" where
  "answer_wait w f g db =
     change_executions (same_execution (wt_tenant w) (wt_execution w) StWaiting) g
       (change_waits (\<lambda>x. wt_id x = wt_id w \<and> wt_consumed x = None) f db)"

definition resumed_wait :: "int \<Rightarrow> raw \<Rightarrow> 'c wait_row \<Rightarrow> 'c wait_row" where
  "resumed_wait now output w = (consume now OutcomeResumed w)\<lparr>wt_resume_output := output\<rparr>"

definition resume_wait ::
  "string \<Rightarrow> string \<Rightarrow> raw \<Rightarrow> int \<Rightarrow> 'c database \<Rightarrow> store_error + ('c wait_row \<times> exec_row) \<times> 'c database" where
  "resume_wait caller hash output now db =
     need (hash \<noteq> []) ErrWaitNotFound
      (found (find (\<lambda>w. wt_token_hash w = hash) (db_waits db)) ErrWaitNotFound (\<lambda>w.
       need (\<not> (caller \<noteq> [] \<and> wt_tenant w \<noteq> caller)) ErrWaitNotFound
      (need (wt_consumed w = None) ErrWaitConsumed
      (need (now < wt_expires w) ErrWaitExpired
      (attempt (held_execution w db) (\<lambda>r.
       Inr ((resumed_wait now output w, release_as StQueued r),
            answer_wait w (resumed_wait now output) (release_as StQueued) db)))))))"

record expired_resolution =
  er_requeue :: bool
  er_output :: raw
  er_code :: string

definition wait_expired_code :: string where "wait_expired_code = ''wait.expired''"

text \<open>The failure text quotes the node with \<open>%q\<close>.\<close>

definition expiry_error :: "host \<Rightarrow> string \<Rightarrow> string \<Rightarrow> raw" where
  "expiry_error h code node =
     RawJson (JObj [(''code'', JStr code),
       (''message'', JStr (''node '' @ h_quote h node @ '' was still waiting when its deadline passed''))])"

definition settle_expired_wait ::
  "host \<Rightarrow> nat \<Rightarrow> expired_resolution \<Rightarrow> int \<Rightarrow> 'c database \<Rightarrow> store_error + ('c wait_row \<times> exec_row) \<times> 'c database" where
  "settle_expired_wait h i resolution now db =
     need (i \<noteq> 0) (Missing ''wait ID'')
      (found (find (\<lambda>w. wt_id w = i) (db_waits db)) ErrWaitNotFound (\<lambda>w.
       need (wt_consumed w = None) ErrWaitConsumed
      (need (\<not> now < wt_expires w) (NotExpired i)
      (attempt (held_execution w db) (\<lambda>r.
       if er_requeue resolution
       then Inr ((resumed_wait now (er_output resolution) w, release_as StQueued r),
                 answer_wait w (resumed_wait now (er_output resolution)) (release_as StQueued) db)
       else attempt (payload_of ''wait expiry error''
                (stored_payload h
                  (expiry_error h (if er_code resolution = [] then wait_expired_code else er_code resolution) (wt_node w))))
              (\<lambda>failure.
                (let fail = (\<lambda>x. (release_as StFailed x)\<lparr>ex_error := failure, ex_finished := Some now\<rparr>)
                 in Inr ((consume now OutcomeExpired w, fail r),
                         answer_wait w (consume now OutcomeExpired) fail db))))))))"

definition load_resume_state :: "string \<Rightarrow> string \<Rightarrow> 'c database \<Rightarrow> store_error + 'c wait_row" where
  "load_resume_state tenant i db =
     need (tenant \<noteq> []) (Missing ''tenant scope'') (need (i \<noteq> []) (Missing ''execution ID'')
       (found (first_by (\<lambda>w. - int (wt_id w))
                 (filter (\<lambda>w. wt_tenant w = tenant \<and> wt_execution w = i \<and> wt_consumed w \<noteq> None \<and>
                    wt_outcome w = OutcomeResumed) (db_waits db)))
          (ErrNotFound ''suspended wait'') Inr))"

definition default_expired_wait_page :: int where "default_expired_wait_page = 100"

definition wait_due :: "int \<Rightarrow> 'c wait_row \<Rightarrow> bool" where
  "wait_due now w \<longleftrightarrow> wt_consumed w = None \<and> wt_expires w \<le> now"

definition list_expired_waits :: "int \<Rightarrow> int \<Rightarrow> 'c database \<Rightarrow> 'c wait_row list" where
  "list_expired_waits now limit db =
     take (nat (if limit \<le> 0 then default_expired_wait_page else limit))
       (sort_key (\<lambda>w. (wt_expires w, wt_id w)) (filter (wait_due now) (db_waits db)))"

subsection \<open>Called workflows, notes and ancestry\<close>

definition active_callable_version :: "'c database \<Rightarrow> string \<Rightarrow> string \<Rightarrow> store_error + version_row \<times> document" where
  "active_callable_version db tenant flow =
     found (find_active_workflow db tenant flow) (ErrNotFound ''active workflow'') (\<lambda>w.
     found (wf_active_version w) (ErrNotFound ''workflow has no active revision'') (\<lambda>i.
     found (find (\<lambda>v. vr_tenant v = tenant \<and> vr_workflow v = flow \<and> vr_id v = i) (db_versions db))
       (ErrNotFound ''workflow version'') (\<lambda>v.
     found (vr_document v) (BadDocument (vr_id v)) (\<lambda>d. Inr (v, d)))))"

definition latest_callable_version :: "'c database \<Rightarrow> string \<Rightarrow> string \<Rightarrow> store_error + version_row \<times> document" where
  "latest_callable_version db tenant flow =
     found (find_workflow db tenant flow) (ErrNotFound ''workflow'') (\<lambda>w.
     found (find_revision db tenant flow (wf_latest w)) (ErrNotFound ''workflow version'') (\<lambda>v.
     found (vr_document v) (BadDocument (vr_id v)) (\<lambda>d. Inr (v, d))))"

definition active_document :: "string \<Rightarrow> string \<Rightarrow> 'c database \<Rightarrow> store_error + document" where
  "active_document tenant flow db =
     need (tenant \<noteq> []) (Missing ''tenant scope'') (need (flow \<noteq> []) (Missing ''workflow'')
       (attempt (active_callable_version db tenant flow) (\<lambda>(v, d). Inr d)))"

record child_call =
  cc_workflow :: string
  cc_parent :: string
  cc_trigger_node :: string
  cc_input :: raw
  cc_select :: "(document \<Rightarrow> string) option"
  cc_latest :: bool
  cc_owner :: string
  cc_until :: int

definition start_child ::
  "string \<Rightarrow> child_call \<Rightarrow> string \<Rightarrow> int \<Rightarrow> 'c database \<Rightarrow> store_error + (exec_row \<times> document) \<times> 'c database" where
  "start_child tenant call i now db =
     need (tenant \<noteq> []) (Missing ''tenant scope'')
      (need (cc_workflow call \<noteq> [] \<and> cc_parent call \<noteq> [] \<and> cc_owner call \<noteq> [])
         (Missing ''a workflow, a parent execution and a lease owner'')
      (attempt (payload_of ''sub-workflow input'' (trigger_payload (cc_input call))) (\<lambda>input.
       attempt (if cc_latest call then latest_callable_version db tenant (cc_workflow call)
                else active_callable_version db tenant (cc_workflow call)) (\<lambda>(v, d).
       attempt (insert_execution
         ((new_execution i tenant (cc_workflow call) (vr_id v) StRunning trigger_subworkflow
             (case cc_select call of None \<Rightarrow> cc_trigger_node call | Some select \<Rightarrow> select d)
             (cc_parent call) input now)
           \<lparr>ex_owner := cc_owner call, ex_expires := Some (cc_until call)\<rparr>) db) (\<lambda>(r, db').
       Inr ((r, d), db'))))))"

text \<open>The object an error is; a message that is missing or \<open>null\<close> is the empty one.\<close>

definition error_object :: "host \<Rightarrow> raw \<Rightarrow> store_error + jobject" where
  "error_object h e =
     (case e of
        RawEmpty \<Rightarrow> Inr []
      | RawJson JNull \<Rightarrow> Inr []
      | _ \<Rightarrow> (case map_option (rewrite_numbers (h_number h)) (unmarshal e) of Some (JObj m) \<Rightarrow> Inr m | _ \<Rightarrow> Inl NotAnObject))"

definition add_fields :: "jobject \<Rightarrow> jobject \<Rightarrow> jobject" where
  "add_fields added current = fold (\<lambda>(k, v) m. if aget m k = None then aput k v m else m) added current"

definition annotate_failure :: "host \<Rightarrow> string \<Rightarrow> string \<Rightarrow> jobject \<Rightarrow> 'c database \<Rightarrow> store_error + 'c database" where
  "annotate_failure h tenant i added db =
     need (tenant \<noteq> []) (Missing ''tenant scope'')
       (found (find (same_execution tenant i StFailed) (db_executions db)) (ErrNotFound ''failed execution'') (\<lambda>r.
        attempt (error_object h (ex_error r)) (\<lambda>current.
        Inr (change_executions (same_execution tenant i StFailed)
               (\<lambda>x. x\<lparr>ex_error := RawJson (JObj (add_fields added current))\<rparr>) db))))"

definition maximum_ancestry_depth :: nat where "maximum_ancestry_depth = 64"

fun ancestry_walk :: "nat \<Rightarrow> 'c database \<Rightarrow> string \<Rightarrow> string \<Rightarrow> exec_row list" where
  "ancestry_walk 0 db tenant current = []"
| "ancestry_walk (Suc n) db tenant current =
     (if current = [] then []
      else case find_execution db tenant current of
             None \<Rightarrow> []
           | Some r \<Rightarrow>
               if ex_parent r = [] then []
               else case find_execution db tenant (ex_parent r) of
                      None \<Rightarrow> []
                    | Some q \<Rightarrow> q # ancestry_walk n db tenant (ex_id q))"

definition ancestry :: "string \<Rightarrow> string \<Rightarrow> 'c database \<Rightarrow> store_error + exec_row list" where
  "ancestry tenant i db =
     need (tenant \<noteq> []) (Missing ''tenant scope'') (Inr (ancestry_walk maximum_ancestry_depth db tenant i))"

subsection \<open>Pruning\<close>

definition default_prune_batch :: int where "default_prune_batch = 200"

definition prunable :: "int \<Rightarrow> exec_row \<Rightarrow> bool" where
  "prunable cutoff r \<longleftrightarrow>
     (case ex_finished r of None \<Rightarrow> False | Some t \<Rightarrow> t < cutoff) \<and>
     ex_status r \<notin> {StQueued, StRunning, StCancelling}"

definition finished_key :: "exec_row \<Rightarrow> int \<times> string" where
  "finished_key r = (case ex_finished r of None \<Rightarrow> 0 | Some t \<Rightarrow> t, ex_id r)"

definition expired_executions :: "int \<Rightarrow> nat \<Rightarrow> 'c database \<Rightarrow> exec_row list" where
  "expired_executions cutoff batch db =
     take batch (sort_key finished_key (filter (prunable cutoff) (db_executions db)))"

text \<open>Both tables that refer to an execution restrict its deletion.\<close>

definition delete_executions :: "int \<Rightarrow> exec_row list \<Rightarrow> 'c database \<Rightarrow> store_error + nat \<times> 'c database" where
  "delete_executions cutoff candidates db =
     (let ids = map ex_id candidates;
          runs = filter (\<lambda>t. tr_execution t \<notin> set ids) (db_runs db);
          p = (\<lambda>r. ex_id r \<in> set ids \<and> prunable cutoff r);
          gone = ex_id ` set (filter p (db_executions db))
      in need (\<forall>t \<in> set runs. tr_execution t \<notin> gone) (RowInUse ''execution_node_runs'')
          (need (\<forall>w \<in> set (db_waits db). wt_execution w \<notin> gone) (RowInUse ''execution_waits'')
             (Inr (affected p (db_executions db),
                   db\<lparr>db_runs := runs, db_executions := filter (\<lambda>r. \<not> p r) (db_executions db)\<rparr>))))"

lemma delete_executions_count:
  assumes "delete_executions cutoff candidates db = Inr (n, db')"
  shows "n + length (db_executions db') = length (db_executions db)"
proof -
  let ?p = "\<lambda>r. ex_id r \<in> set (map ex_id candidates) \<and> prunable cutoff r"
  have "n = length (filter ?p (db_executions db))" "db_executions db' = filter (\<lambda>r. \<not> ?p r) (db_executions db)"
    using assms by (auto simp: delete_executions_def Let_def affected_def)
  then show ?thesis by (simp only: sum_length_filter_compl)
qed

text \<open>
  The loop of \<open>PruneExpired\<close>: how many rows went, the error that stopped it, and the database as the batches
  committed so far left it. \<open>discard\<close> removes an execution's payloads and may fail.
\<close>

function prune_loop ::
  "(string \<Rightarrow> string \<Rightarrow> bool) \<Rightarrow> int \<Rightarrow> nat \<Rightarrow> nat \<Rightarrow> 'c database \<Rightarrow> nat \<times> store_error option \<times> 'c database" where
  "prune_loop discard cutoff batch gone_before db =
     (let candidates = expired_executions cutoff batch db
      in if candidates = [] then (gone_before, None, db)
         else if \<not> list_all (\<lambda>c. discard (ex_tenant c) (ex_id c)) candidates
         then (gone_before, Some (RowInUse ''payloads''), db)
         else case delete_executions cutoff candidates db of
                Inl e \<Rightarrow> (gone_before, Some e, db)
              | Inr (removed, db') \<Rightarrow>
                  if removed = 0 \<or> length candidates < batch then (gone_before + removed, None, db')
                  else prune_loop discard cutoff batch (gone_before + removed) db')"
  by pat_completeness auto
termination
proof (relation "measure (\<lambda>(discard, cutoff, batch, gone_before, db). length (db_executions db))", goal_cases)
  case (2 discard cutoff batch gone_before db candidates res removed db')
  then have "removed + length (db_executions db') = length (db_executions db)" "removed \<noteq> 0"
    by (auto dest: delete_executions_count)
  then show ?case by simp
qed simp

declare prune_loop.simps [simp del]

definition prune_expired ::
  "int \<Rightarrow> int \<Rightarrow> (string \<Rightarrow> string \<Rightarrow> bool) \<Rightarrow> int \<Rightarrow> 'c database \<Rightarrow> nat \<times> store_error option \<times> 'c database" where
  "prune_expired max_age batch discard now db =
     (if \<not> 0 < max_age then (0, None, db)
      else prune_loop discard (now - max_age) (nat (if batch \<le> 0 then default_prune_batch else batch)) 0 db)"

end
