(* ===== verification/Store_Correct.thy ===== *)
theory Store_Correct
  imports Waits
begin

text \<open>
  What every operation of the execution store does to the rows of its tables. \<open>row_at\<close> reads an execution by
  its identifier; \<open>row_change\<close> is the life cycle of one execution, the contract the operations are held to;
  \<open>store_step\<close> is one operation of any client; the lemmas \<open>\<dots>_rows\<close> say that an operation changes every row
  as the life cycle allows, and \<open>sound\<close> is the invariant of the tables that every step keeps.
\<close>

named_theorems store_ops \<open>the definitions an operation of the store unfolds to\<close>

subsection \<open>Reading rows\<close>

definition row_at :: "'c database \<Rightarrow> string \<Rightarrow> exec_row option" where
  "row_at db = map_of (map (\<lambda>r. (ex_id r, r)) (db_executions db))"

definition ids_distinct :: "'c database \<Rightarrow> bool" where
  "ids_distinct db \<longleftrightarrow> distinct (map ex_id (db_executions db))"

lemma row_at_in: "row_at db i = Some r \<Longrightarrow> r \<in> set (db_executions db) \<and> ex_id r = i"
  by (auto simp: row_at_def dest!: map_of_SomeD)

lemma in_row_at: "ids_distinct db \<Longrightarrow> r \<in> set (db_executions db) \<Longrightarrow> row_at db (ex_id r) = Some r"
  by (auto simp: row_at_def ids_distinct_def comp_def intro!: map_of_is_SomeI)

lemma row_at_None: "row_at db i = None \<longleftrightarrow> i \<notin> ex_id ` set (db_executions db)"
  by (force simp: row_at_def map_of_eq_None_iff)

lemma row_at_change:
  assumes "\<And>r. ex_id (f r) = ex_id r"
  shows "row_at (change_executions p f db) i = map_option (\<lambda>r. if p r then f r else r) (row_at db i)"
proof -
  have "map_of (map (\<lambda>r. (ex_id r, r)) (change_rows p f rs)) i
      = map_option (\<lambda>r. if p r then f r else r) (map_of (map (\<lambda>r. (ex_id r, r)) rs) i)" for rs
    using assms by (induction rs) (auto simp: change_rows_def)
  then show ?thesis by (simp add: row_at_def change_executions_def)
qed

lemma ids_change [simp]:
  assumes "\<And>r. ex_id (f r) = ex_id r"
  shows "ids_distinct (change_executions p f db) = ids_distinct db"
proof -
  have "map ex_id (change_rows p f rs) = map ex_id rs" for rs
    using assms by (induction rs) (auto simp: change_rows_def)
  then show ?thesis by (simp add: ids_distinct_def change_executions_def)
qed

lemma find_execution_row:
  "ids_distinct db \<Longrightarrow> find_execution db tenant i = Some r \<longleftrightarrow> row_at db i = Some r \<and> ex_tenant r = tenant"
proof -
  assume keys: "ids_distinct db"
  have "find (\<lambda>r. ex_tenant r = tenant \<and> ex_id r = i) rs = Some r \<longleftrightarrow>
      map_of (map (\<lambda>r. (ex_id r, r)) rs) i = Some r \<and> ex_tenant r = tenant"
    if "distinct (map ex_id rs)" for rs
    using that
  proof (induction rs)
    case (Cons x rs)
    have "ex_id x \<noteq> i \<or> map_of (map (\<lambda>r. (ex_id r, r)) rs) i = None"
      using Cons.prems by (auto simp: map_of_eq_None_iff image_iff)
    then show ?case using Cons by auto
  qed simp
  with keys show ?thesis by (simp add: find_execution_def row_at_def ids_distinct_def)
qed

lemma affected_row:
  assumes "ids_distinct db" "\<And>r. p r \<Longrightarrow> ex_id r = i"
  shows "0 < affected p (db_executions db) \<longleftrightarrow> (\<exists>r. row_at db i = Some r \<and> p r)"
proof -
  have "0 < affected p (db_executions db) \<longleftrightarrow> (\<exists>r \<in> set (db_executions db). p r)"
    by (auto simp: affected_def filter_empty_conv)
  with assms show ?thesis by (metis in_row_at row_at_in)
qed

lemma map_add_single: "m k = None \<Longrightarrow> [k \<mapsto> v] ++ m = m(k \<mapsto> v)"
  by (auto simp: map_add_def fun_eq_iff split: option.splits)

lemma row_at_insert:
  assumes "insert_execution row db = Inr (r, db')"
  shows "r = row" "row_at db (ex_id row) = None" "row_at db' = (row_at db)(ex_id row \<mapsto> row)"
    "ids_distinct db' = ids_distinct db" "db_runs db' = db_runs db" "db_waits db' = db_waits db"
    "db_versions db' = db_versions db" "db_next_wait db' = db_next_wait db"
  using assms
  by (auto simp: insert_execution_def row_at_None row_at_def ids_distinct_def map_add_single map_of_eq_None_iff image_iff)

text \<open>What the tables hold besides the executions.\<close>

lemma change_executions_tables [simp]:
  "db_runs (change_executions p f db) = db_runs db" "db_waits (change_executions p f db) = db_waits db"
  "db_versions (change_executions p f db) = db_versions db"
  "db_workflows (change_executions p f db) = db_workflows db"
  "db_next_wait (change_executions p f db) = db_next_wait db"
  by (simp_all add: change_executions_def)

lemma change_waits_tables [simp]:
  "db_runs (change_waits p g db) = db_runs db" "db_executions (change_waits p g db) = db_executions db"
  "db_versions (change_waits p g db) = db_versions db" "row_at (change_waits p g db) = row_at db"
  "ids_distinct (change_waits p g db) = ids_distinct db"
  "db_next_wait (change_waits p g db) = db_next_wait db"
  by (simp_all add: change_waits_def row_at_def ids_distinct_def)

lemma row_at_tables [simp]:
  "row_at (db\<lparr>db_runs := ts\<rparr>) = row_at db" "ids_distinct (db\<lparr>db_runs := ts\<rparr>) = ids_distinct db"
  "row_at (drop_runs c db) = row_at db" "ids_distinct (drop_runs c db) = ids_distinct db"
  "db_waits (drop_runs c db) = db_waits db" "db_versions (drop_runs c db) = db_versions db"
  "db_next_wait (drop_runs c db) = db_next_wait db" "db_executions (drop_runs c db) = db_executions db"
  by (simp_all add: row_at_def ids_distinct_def drop_runs_def)

lemma insert_runs_tables:
  assumes "insert_runs ts db = Inr db'"
  shows "db_executions db' = db_executions db" "db_waits db' = db_waits db" "db_versions db' = db_versions db"
    "row_at db' = row_at db" "ids_distinct db' = ids_distinct db" "db_runs db' = db_runs db @ ts"
    "db_next_wait db' = db_next_wait db" "runs_keyed (db_runs db')"
  using assms by (auto simp: insert_runs_def)

text \<open>An update whose rows leave a selection.\<close>

lemma filter_change_rows:
  assumes "\<And>r. r \<in> set rs \<Longrightarrow> p r \<Longrightarrow> \<not> Q (f r)"
  shows "filter Q (change_rows p f rs) = filter (\<lambda>r. \<not> p r) (filter Q rs)"
proof -
  define g where "g r = (if p r then f r else r)" for r
  have keep: "Q (g r) \<longleftrightarrow> Q r \<and> \<not> p r" "Q (g r) \<Longrightarrow> g r = r" if "r \<in> set rs" for r
    using assms [OF that] by (auto simp: g_def split: if_splits)
  have "filter Q (change_rows p f rs) = map g (filter (\<lambda>r. Q (g r)) rs)"
    by (simp add: change_rows_def g_def [abs_def] filter_map comp_def)
  also have "\<dots> = filter (\<lambda>r. Q (g r)) rs" by (rule map_idI) (auto intro: keep(2))
  also have "\<dots> = filter (\<lambda>r. Q r \<and> \<not> p r) rs" by (rule filter_cong) (auto simp: keep(1))
  finally show ?thesis by (simp add: conj_commute)
qed

lemma first_by_single [simp]: "first_by key [r] = Some r"
  by (simp add: first_by_def)

lemma first_by_in: "first_by key rs = Some r \<Longrightarrow> r \<in> set rs \<and> (\<forall>x \<in> set rs. key r \<le> key x)"
proof -
  assume some: "first_by key rs = Some r"
  then obtain xs where xs: "sort_key key rs = r # xs" by (auto simp: first_by_def split: list.splits)
  have "sorted (map key (r # xs))" by (metis sorted_sort_key xs)
  then have "\<forall>x \<in> set (r # xs). key r \<le> key x" by auto
  with xs show ?thesis by (metis list.set_intros(1) set_sort)
qed

lemma first_by_None [simp]: "first_by key rs = None \<longleftrightarrow> rs = []"
proof -
  have "sort_key key rs = [] \<longleftrightarrow> rs = []" by (metis set_empty set_sort)
  then show ?thesis by (auto simp: first_by_def split: list.splits)
qed

subsection \<open>The life cycle of an execution\<close>

inductive row_change :: "exec_row option \<Rightarrow> exec_row option \<Rightarrow> bool" where
  same: "row_change x x"
| queued: "row_change None (Some (new_execution i tenant flow version StQueued trigger start [] input now))"
| called: "row_change None (Some ((new_execution i tenant flow version StRunning trigger start parent' input now)
      \<lparr>ex_owner := owner, ex_expires := Some until\<rparr>))" if "owner \<noteq> []"
| claimed: "row_change (Some r) (Some (claimed_row owner until r))"
    if "ex_status r = StQueued \<or> ex_status r = StRunning \<or> ex_status r = StCancelling" "\<not> past_cap r" "owner \<noteq> []"
| crashed: "row_change (Some r) (Some (settle_with StFailed null_payload (crash_error (ex_reclaims r)) (Some now) r))"
    if "past_cap r"
| renewed: "row_change (Some r) (Some (r\<lparr>ex_expires := Some until\<rparr>))"
    if "ex_status r = StRunning \<or> ex_status r = StCancelling"
| ended: "row_change (Some r) (Some (settle_with s output error (Some now) r))"
    if "ex_status r = StRunning" "status_terminal s"
| stopped: "row_change (Some r) (Some (settle_with StCancelled output error (Some now) r))"
    if "ex_status r = StCancelling"
| requested: "row_change (Some r) (Some (r\<lparr>ex_status := StCancelling, ex_cancel_requested := Some now\<rparr>))"
    if "ex_status r = StRunning"
| withdrawn: "row_change (Some r) (Some ((release_as StCancelled r)\<lparr>ex_finished := Some now\<rparr>))"
    if "ex_status r = StQueued \<or> ex_status r = StWaiting"
| parked: "row_change (Some r) (Some (release_as StWaiting r))" if "ex_status r = StRunning"
| continued: "row_change (Some r) (Some (release_as StQueued r))" if "ex_status r = StWaiting"
| expired: "row_change (Some r) (Some ((release_as StFailed r)\<lparr>ex_error := error, ex_finished := Some now\<rparr>))"
    if "ex_status r = StWaiting"
| noted: "row_change (Some r) (Some (r\<lparr>ex_error := error\<rparr>))" if "ex_status r = StFailed"
| pruned: "row_change (Some r) None" if "prunable cutoff r"

definition at_work :: "exec_row \<Rightarrow> bool" where
  "at_work r \<longleftrightarrow> ex_status r = StRunning \<or> ex_status r = StCancelling"

definition lease_ok :: "exec_row \<Rightarrow> bool" where
  "lease_ok r \<longleftrightarrow> (ex_owner r \<noteq> [] \<longleftrightarrow> at_work r) \<and> (ex_expires r \<noteq> None \<longleftrightarrow> at_work r)"

definition finish_ok :: "exec_row \<Rightarrow> bool" where
  "finish_ok r \<longleftrightarrow> (ex_finished r \<noteq> None \<longleftrightarrow> status_terminal (ex_status r))"

definition reclaims_ok :: "exec_row \<Rightarrow> bool" where
  "reclaims_ok r \<longleftrightarrow> 0 \<le> ex_reclaims r \<and> ex_reclaims r \<le> max_execution_reclaims"

definition status_known :: "status \<Rightarrow> bool" where
  "status_known s \<longleftrightarrow> s \<in> {StQueued, StRunning, StCancelling, StWaiting} \<or> status_terminal s"

definition row_ok :: "exec_row \<Rightarrow> bool" where
  "row_ok r \<longleftrightarrow> lease_ok r \<and> finish_ok r \<and> reclaims_ok r \<and> status_known (ex_status r)"

lemmas row_fields = new_execution_def claimed_row_def settle_with_def release_as_def past_cap_def
  max_execution_reclaims_def at_work_def

lemma row_change_lease: "row_change x y \<Longrightarrow> pred_option lease_ok x \<Longrightarrow> pred_option lease_ok y"
  by (induction rule: row_change.induct)
    (simp_all add: row_fields lease_ok_def status_terminal_def split: if_splits, auto)

lemma row_change_finish: "row_change x y \<Longrightarrow> pred_option finish_ok x \<Longrightarrow> pred_option finish_ok y"
  by (induction rule: row_change.induct) (auto simp: row_fields finish_ok_def status_terminal_def)

lemma row_change_reclaims: "row_change x y \<Longrightarrow> pred_option reclaims_ok x \<Longrightarrow> pred_option reclaims_ok y"
  by (induction rule: row_change.induct) (auto simp: row_fields reclaims_ok_def)

lemma row_change_known:
  "row_change x y \<Longrightarrow> pred_option (\<lambda>r. status_known (ex_status r)) x \<Longrightarrow>
   pred_option (\<lambda>r. status_known (ex_status r)) y"
  by (induction rule: row_change.induct) (auto simp: row_fields status_known_def status_terminal_def)

lemma row_change_ok: "row_change x y \<Longrightarrow> pred_option row_ok x \<Longrightarrow> pred_option row_ok y"
  using row_change_lease [of x y] row_change_finish [of x y] row_change_reclaims [of x y] row_change_known [of x y]
  by (cases x; cases y) (auto simp: row_ok_def)

text \<open>The statuses an execution passes through; an ended one keeps its status until it is pruned.\<close>

inductive status_next :: "status \<Rightarrow> status \<Rightarrow> bool" where
  "status_next s s"
| "status_next StQueued StRunning" | "status_next StQueued StCancelled"
| "status_next StRunning StCancelling" | "status_next StRunning StWaiting"
| "status_next StRunning s" if "status_terminal s"
| "status_next StCancelling StCancelled"
| "status_next StWaiting StQueued" | "status_next StWaiting StCancelled" | "status_next StWaiting StFailed"

inductive_cases status_next_terminal: "status_next StSucceeded s" "status_next StFailed s" "status_next StCancelled s"

lemma row_change_status:
  assumes "row_change (Some r) (Some r')"
  shows "status_next (ex_status r) (ex_status r')"
  using assms by (cases rule: row_change.cases) (auto simp: row_fields status_terminal_def intro: status_next.intros split: if_splits)

text \<open>What a row was made with stays.\<close>

lemma row_change_origin:
  assumes "row_change (Some r) (Some r')"
  shows "ex_id r' = ex_id r \<and> ex_tenant r' = ex_tenant r \<and> ex_workflow r' = ex_workflow r \<and>
    ex_version r' = ex_version r \<and> ex_trigger r' = ex_trigger r \<and> ex_trigger_node r' = ex_trigger_node r \<and>
    ex_parent r' = ex_parent r \<and> ex_input r' = ex_input r \<and> ex_started r' = ex_started r"
  using assms by (cases rule: row_change.cases) (auto simp: row_fields)

lemma row_change_gone:
  assumes "row_change (Some r) None" "row_ok r"
  shows "status_terminal (ex_status r)"
  using assms
  by (cases rule: row_change.cases)
    (auto simp: row_ok_def prunable_def finish_ok_def split: option.splits)

subsection \<open>Updates of one row\<close>

lemma row_at_change_one:
  assumes "row_at db i = Some r" "p r" "\<And>x. p x \<Longrightarrow> ex_id x = i" "\<And>x. ex_id (f x) = ex_id x"
  shows "row_at (change_executions p f db) = (row_at db)(i \<mapsto> f r)"
proof
  fix j
  show "row_at (change_executions p f db) j = ((row_at db)(i \<mapsto> f r)) j"
    using row_at_in [of db j] assms(1,2) assms(3) [of "the (row_at db j)"]
    by (cases "row_at db j") (auto simp: row_at_change [where f = f, OF assms(4)])
qed

lemma row_at_change_none:
  assumes "\<And>r. row_at db i = Some r \<Longrightarrow> \<not> p r" "\<And>x. p x \<Longrightarrow> ex_id x = i" "\<And>x. ex_id (f x) = ex_id x"
  shows "row_at (change_executions p f db) = row_at db"
proof
  fix j
  show "row_at (change_executions p f db) j = row_at db j"
    using row_at_in [of db j] assms(1) [of "the (row_at db j)"] assms(2) [of "the (row_at db j)"]
    by (cases "row_at db j") (auto simp: row_at_change [where f = f, OF assms(3)])
qed

lemma row_fields_id [simp]:
  "ex_id (settle_with s output error finished r) = ex_id r" "ex_id (release_as s r) = ex_id r"
  "ex_id (claimed_row owner until r) = ex_id r"
  by (simp_all add: row_fields)

lemma same_row_id: "same_row c r \<Longrightarrow> ex_id r = ex_id c"
  by (simp add: same_row_def)

lemma claimable_claim:
  assumes keys: "ids_distinct db" and row: "row_at db (ex_id c) = Some c" and due: "claimable now c"
  shows "\<exists>db'. claim_row owner until now c db = Some db' \<and>
    row_at db' = (row_at db)(ex_id c \<mapsto> claimed_row owner until c) \<and> ids_distinct db' \<and>
    db_waits db' = db_waits db \<and> db_versions db' = db_versions db \<and> db_next_wait db' = db_next_wait db \<and>
    db_runs db' = (if ex_status c = StRunning then db_runs (drop_runs c db) else db_runs db)"
proof -
  let ?p = "\<lambda>r. same_row c r \<and> claimable now r"
  let ?f = "\<lambda>r. r\<lparr>ex_status := (if ex_status c = StCancelling then StCancelling else StRunning), ex_owner := owner,
    ex_expires := Some until, ex_reclaims := (if ex_status c = StRunning then ex_reclaims r + 1 else ex_reclaims r)\<rparr>"
  have "0 < affected ?p (db_executions db)"
    using affected_row [OF keys, of ?p "ex_id c"] row due by (auto simp: same_row_def)
  moreover have "row_at (change_executions ?p ?f db) = (row_at db)(ex_id c \<mapsto> ?f c)"
    using row due by (intro row_at_change_one) (auto simp: same_row_def)
  moreover have "?f c = claimed_row owner until c" by (simp add: claimed_row_def)
  moreover have "ids_distinct (change_executions ?p ?f db)" using keys by simp
  ultimately show ?thesis by (auto simp: claim_row_def Let_def drop_runs_def)
qed

definition crashed_row :: "int \<Rightarrow> exec_row \<Rightarrow> exec_row" where
  "crashed_row now c = settle_with StFailed null_payload (crash_error (ex_reclaims c)) (Some now) c"

lemma crash_settles:
  assumes keys: "ids_distinct db" and row: "row_at db (ex_id c) = Some c" and due: "claimable now c" "past_cap c"
  shows "\<exists>db'. settle_crashed_execution c now db = (Some (crashed_row now c), db') \<and>
    row_at db' = (row_at db)(ex_id c \<mapsto> crashed_row now c) \<and> ids_distinct db' \<and>
    db_waits db' = db_waits db \<and> db_versions db' = db_versions db \<and> db_runs db' = db_runs db \<and>
    db_next_wait db' = db_next_wait db"
proof -
  let ?p = "\<lambda>r. same_row c r \<and> ex_status r = StRunning \<and> expired_lease now r"
  let ?f = "\<lambda>r. r\<lparr>ex_status := StFailed, ex_output := null_payload, ex_error := crash_error (ex_reclaims c),
    ex_finished := Some now, ex_owner := [], ex_expires := None\<rparr>"
  have "?p c" using due by (auto simp: same_row_def past_cap_def claimable_def)
  then have "0 < affected ?p (db_executions db)"
    using affected_row [OF keys, of ?p "ex_id c"] row by (auto simp: same_row_def)
  moreover have "row_at (change_executions ?p ?f db) = (row_at db)(ex_id c \<mapsto> ?f c)"
    using row \<open>?p c\<close> by (intro row_at_change_one) (auto simp: same_row_def)
  moreover have "?f c = crashed_row now c" by (simp add: crashed_row_def settle_with_def)
  moreover have "ids_distinct (change_executions ?p ?f db)" using keys by simp
  ultimately show ?thesis by (auto simp: settle_crashed_execution_def Let_def)
qed

end
