(* ===== verification/Claims.thy ===== *)
theory Claims
  imports Store_Correct
begin

text \<open>
  What \<open>ClaimNext\<close> does: it walks the rows it may claim, oldest first, settles those past the cap and claims
  the first that is not; every other row stays as it is.
\<close>

definition claim_queue :: "int \<Rightarrow> 'c database \<Rightarrow> exec_row list" where
  "claim_queue now db = sort_key newest_key (filter (claimable now) (db_executions db))"

definition settled_by_claim :: "nat \<Rightarrow> int \<Rightarrow> 'c database \<Rightarrow> exec_row list" where
  "settled_by_claim n now db = take n (takeWhile past_cap (claim_queue now db))"

definition cleared_runs :: "exec_row \<Rightarrow> 'c database \<Rightarrow> trace_row list" where
  "cleared_runs c db = (if ex_status c = StRunning then db_runs (drop_runs c db) else db_runs db)"

lemma next_candidate_queue:
  "next_candidate now db = (case claim_queue now db of [] \<Rightarrow> None | c # _ \<Rightarrow> Some c)"
  by (simp add: next_candidate_def claim_queue_def first_by_def)

lemma in_claim_queue:
  assumes "ids_distinct db"
  shows "c \<in> set (claim_queue now db) \<longleftrightarrow> row_at db (ex_id c) = Some c \<and> claimable now c"
  using in_row_at [OF assms] row_at_in [of db "ex_id c" c] by (auto simp: claim_queue_def)

lemma claim_queue_ids: "ids_distinct db \<Longrightarrow> distinct (map ex_id (claim_queue now db))"
  unfolding claim_queue_def ids_distinct_def distinct_map
  by (metis (no_types, lifting) distinct_filter distinct_sort filter_is_subset inj_on_subset set_sort)

lemma filter_other_id: "distinct (map ex_id (c # cs)) \<Longrightarrow> filter (\<lambda>r. ex_id r \<noteq> ex_id c) (c # cs) = cs"
  by (induction cs) auto

lemma crash_shortens:
  assumes keys: "ids_distinct db" and queue: "claim_queue now db = c # cs" and dead: "past_cap c"
  shows "claim_queue now (snd (settle_crashed_execution c now db)) = cs"
proof -
  have c: "row_at db (ex_id c) = Some c" "claimable now c"
    using in_claim_queue [OF keys, of c now] queue by simp_all
  let ?p = "\<lambda>r. same_row c r \<and> ex_status r = StRunning \<and> expired_lease now r"
  let ?f = "\<lambda>r. r\<lparr>ex_status := StFailed, ex_output := null_payload, ex_error := crash_error (ex_reclaims c),
    ex_finished := Some now, ex_owner := [], ex_expires := None\<rparr>"
  obtain db' where db': "settle_crashed_execution c now db = (Some (crashed_row now c), db')"
    using crash_settles [OF keys c dead] by blast
  then have rows: "db_executions db' = change_rows ?p ?f (db_executions db)"
    by (auto simp: settle_crashed_execution_def Let_def change_executions_def split: if_splits)
  have same: "r = c" if "r \<in> set (db_executions db)" "ex_id r = ex_id c" for r
    using in_row_at [OF keys that(1)] that(2) c(1) by simp
  have "filter (claimable now) (db_executions db') = filter (\<lambda>r. \<not> ?p r) (filter (claimable now) (db_executions db))"
    unfolding rows by (rule filter_change_rows) (simp add: claimable_def)
  also have "\<dots> = filter (\<lambda>r. ex_id r \<noteq> ex_id c) (filter (claimable now) (db_executions db))"
    using same c(2) dead by (intro filter_cong refl) (auto simp: same_row_def claimable_def past_cap_def)
  finally have "claim_queue now db' = filter (\<lambda>r. ex_id r \<noteq> ex_id c) (claim_queue now db)"
    by (simp add: claim_queue_def filter_sort)
  also have "\<dots> = cs"
    using claim_queue_ids [OF keys, of now] unfolding queue by (rule filter_other_id)
  finally show ?thesis by (simp add: db')
qed

text \<open>One pass of the scan over a queue that is not empty.\<close>

lemma scan_dead:
  assumes "ids_distinct db" "claim_queue now db = c # cs" "past_cap c"
  shows "\<exists>db'. claim_scan (Suc n) owner until now settled db
      = claim_scan n owner until now (settled @ [crashed_row now c]) db' \<and> claim_queue now db' = cs \<and>
    row_at db' = (row_at db)(ex_id c \<mapsto> crashed_row now c) \<and> ids_distinct db' \<and> db_waits db' = db_waits db \<and>
    db_versions db' = db_versions db \<and> db_runs db' = db_runs db \<and> db_next_wait db' = db_next_wait db"
proof -
  have c: "row_at db (ex_id c) = Some c" "claimable now c"
    using in_claim_queue [OF assms(1), of c now] assms(2) by simp_all
  from crash_settles [OF assms(1) c assms(3)] crash_shortens [OF assms] obtain db'
    where "settle_crashed_execution c now db = (Some (crashed_row now c), db')" "claim_queue now db' = cs"
      "row_at db' = (row_at db)(ex_id c \<mapsto> crashed_row now c)" "ids_distinct db'" "db_waits db' = db_waits db"
      "db_versions db' = db_versions db" "db_runs db' = db_runs db" "db_next_wait db' = db_next_wait db"
    by fastforce
  with assms show ?thesis by (auto simp: next_candidate_queue intro!: exI [of _ db'])
qed

lemma scan_live:
  assumes keys: "ids_distinct db" and queue: "claim_queue now db = c # cs" and live: "\<not> past_cap c"
    and scan: "claim_scan (Suc n) owner until now settled db = Inr ((res, settled'), db')"
  shows "settled' = settled \<and> (\<exists>v d. res = Some (claimed_row owner until c, d) \<and>
      find_version db (ex_tenant c) (ex_version c) = Some v \<and> vr_document v = Some d) \<and>
    row_at db' = (row_at db)(ex_id c \<mapsto> claimed_row owner until c) \<and> ids_distinct db' \<and>
    db_waits db' = db_waits db \<and> db_versions db' = db_versions db \<and> db_next_wait db' = db_next_wait db \<and>
    db_runs db' = cleared_runs c db"
proof -
  have c: "row_at db (ex_id c) = Some c" "claimable now c"
    using in_claim_queue [OF keys, of c now] queue by simp_all
  from claimable_claim [OF keys c, folded cleared_runs_def] obtain db1 where
    db1: "claim_row owner until now c db = Some db1" "row_at db1 = (row_at db)(ex_id c \<mapsto> claimed_row owner until c)"
      "ids_distinct db1" "db_waits db1 = db_waits db" "db_versions db1 = db_versions db"
      "db_next_wait db1 = db_next_wait db"
      "db_runs db1 = cleared_runs c db"
    by blast
  with queue live scan show ?thesis
    by (auto simp: next_candidate_queue find_version_def)
qed

lemma crashed_row_simps [simp]:
  "ex_id (crashed_row now c) = ex_id c" "ex_status (crashed_row now c) = StFailed"
  by (simp_all add: crashed_row_def settle_with_def)

lemma row_change_crashed: "past_cap c \<Longrightarrow> row_change (Some c) (Some (crashed_row now c))"
  unfolding crashed_row_def by (rule row_change.crashed)

lemma claimable_status: "claimable now c \<Longrightarrow> ex_status c = StQueued \<or> ex_status c = StRunning \<or> ex_status c = StCancelling"
  by (auto simp: claimable_def)

lemma claimed_row_status: "ex_status (claimed_row owner until c) \<noteq> StWaiting"
  by (simp add: claimed_row_def)

text \<open>The result of a scan: what it settles, what it claims, and that nothing else changes.\<close>

lemma claim_scan_result:
  assumes "claim_scan n owner until now settled db = Inr ((res, settled'), db')" "ids_distinct db"
  shows "settled' = settled @ map (crashed_row now) (settled_by_claim n now db) \<and> ids_distinct db' \<and>
    db_waits db' = db_waits db \<and> db_versions db' = db_versions db \<and> db_next_wait db' = db_next_wait db \<and>
    (\<forall>c \<in> set (settled_by_claim n now db). row_at db' (ex_id c) = Some (crashed_row now c)) \<and>
    (case res of
       None \<Rightarrow> (length (settled_by_claim n now db) = n \<or> dropWhile past_cap (claim_queue now db) = []) \<and>
         db_runs db' = db_runs db
     | Some (r, d) \<Rightarrow>
         \<exists>c cs v. length (settled_by_claim n now db) < n \<and> dropWhile past_cap (claim_queue now db) = c # cs \<and>
           r = claimed_row owner until c \<and> row_at db' (ex_id c) = Some r \<and>
           db_runs db' = cleared_runs c db \<and>
           find_version db (ex_tenant c) (ex_version c) = Some v \<and> vr_document v = Some d) \<and>
    (\<forall>i. i \<notin> ex_id ` set (settled_by_claim n now db) \<and> (\<forall>r d. res = Some (r, d) \<longrightarrow> ex_id r \<noteq> i) \<longrightarrow>
       row_at db' i = row_at db i)"
  using assms
proof (induction n arbitrary: settled db)
  case 0
  then show ?case by (simp add: settled_by_claim_def)
next
  case (Suc n)
  show ?case
  proof (cases "claim_queue now db")
    case Nil
    with Suc.prems show ?thesis by (simp add: next_candidate_queue settled_by_claim_def)
  next
    case (Cons c cs)
    show ?thesis
    proof (cases "past_cap c")
      case True
      from scan_dead [OF Suc.prems(2) Cons True] Suc.prems(1) obtain db1 where
        scan: "claim_scan n owner until now (settled @ [crashed_row now c]) db1 = Inr ((res, settled'), db')" and
        db1: "claim_queue now db1 = cs" "row_at db1 = (row_at db)(ex_id c \<mapsto> crashed_row now c)" "ids_distinct db1"
          "db_waits db1 = db_waits db" "db_versions db1 = db_versions db" "db_runs db1 = db_runs db"
          "db_next_wait db1 = db_next_wait db"
        by metis
      note ih = Suc.IH [OF scan db1(3)]
      have drop: "cleared_runs x db1 = cleared_runs x db" for x
        by (simp add: cleared_runs_def drop_runs_def db1)
      have dead: "settled_by_claim (Suc n) now db = c # settled_by_claim n now db1"
        using True by (simp add: settled_by_claim_def Cons db1(1))
      have apart: "ex_id x \<noteq> ex_id c" if "x \<in> set cs" for x
        using claim_queue_ids [OF Suc.prems(2), of now] that by (auto simp: Cons image_iff)
      have sub: "set (settled_by_claim n now db1) \<subseteq> set cs" "set (dropWhile past_cap cs) \<subseteq> set cs"
        by (auto simp: settled_by_claim_def db1(1) dest!: in_set_takeD set_takeWhileD set_dropWhileD)
      have "row_at db' (ex_id c) = Some (crashed_row now c)"
      proof -
        have "ex_id c \<notin> ex_id ` set (settled_by_claim n now db1)" using sub(1) apart by force
        moreover have "\<forall>r d. res = Some (r, d) \<longrightarrow> ex_id r \<noteq> ex_id c"
          using ih sub(2) apart by (force simp: db1(1) split: option.splits)
        ultimately show ?thesis using ih db1(2) by auto
      qed
      then show ?thesis
        using ih by (simp add: dead Cons True db1 drop find_version_def split: option.splits prod.splits)
    next
      case False
      have none: "settled_by_claim (Suc n) now db = []" using False by (simp add: settled_by_claim_def Cons)
      from scan_live [OF Suc.prems(2) Cons False Suc.prems(1)] none False show ?thesis
        by (auto simp: Cons)
    qed
  qed
qed

end
