(* ===== verification/Store_Steps.thy ===== *)
theory Store_Steps
  imports Claims
begin

text \<open>
  The store as a transition system: \<open>store_step\<close> is one operation of some client that succeeds, in one
  transaction; \<open>sound\<close> is the invariant of the tables, and \<open>step_sound\<close> says that a step of a sound database
  changes every execution as its life cycle allows and leaves the database sound.

  \<open>UpdateRuntime\<close> is called with a terminal status and the time of the end, as every caller of the service
  does. Workflows and versions are written by other parts of the program, which never remove a version.
\<close>

inductive store_step :: "'c database \<Rightarrow> 'c database \<Rightarrow> bool" where
  manual: "store_step db db'" if "queue_manual h cat tenant flow version trigger start input i now db = Inr (r, db')"
| triggered: "store_step db db'" if "queue_triggered tenant flow version trigger start input i now db = Inr (r, db')"
| child: "store_step db db'" if "start_child tenant call i now db = Inr (r, db')"
| claim: "store_step db db'" if "claim_next worker lease until now db = Inr (res, db')"
| extends: "store_step db db'" if "extend_lease tenant i owner until db = Inr (b, db')"
| update: "store_step db db'"
    if "update_runtime h tenant r db = Inr (res, db')" "status_terminal (ex_status r)" "ex_finished r \<noteq> None"
| traces: "store_step db db'" if "create_node_runs h tenant batch now db = Inr (ts, db')"
| cancels: "store_step db db'" if "cancel tenant i run_id now db = Inr (r, db')"
| suspends: "store_step db db'" if "suspend_execution tenant q now db = Inr (res, db')"
| resumes: "store_step db db'" if "resume_wait caller hash output now db = Inr (res, db')"
| expires: "store_step db db'" if "settle_expired_wait h w resolution now db = Inr (res, db')"
| annotates: "store_step db db'" if "annotate_failure h tenant i notes db = Inr db'"
| prunes: "store_step db db'" if "delete_executions cutoff candidates db = Inr (n, db')"
| edits: "store_step db (db\<lparr>db_workflows := ws, db_versions := vs\<rparr>)" if "set (db_versions db) \<subseteq> set vs"

subsection \<open>The invariant\<close>

definition waiting :: "exec_row option \<Rightarrow> bool" where
  "waiting x \<longleftrightarrow> (case x of None \<Rightarrow> False | Some r \<Rightarrow> ex_status r = StWaiting)"

definition held_waits :: "'c database \<Rightarrow> string \<Rightarrow> 'c wait_row list" where
  "held_waits db i = filter (\<lambda>w. wt_execution w = i \<and> wt_consumed w = None) (db_waits db)"

text \<open>A waiting execution is held by exactly one wait, of its tenant, and no other by any.\<close>

definition wait_fits :: "exec_row option \<Rightarrow> 'c wait_row list \<Rightarrow> bool" where
  "wait_fits x ws \<longleftrightarrow>
     (if waiting x then \<exists>w r. ws = [w] \<and> x = Some r \<and> wt_tenant w = ex_tenant r else ws = [])"

definition waits_held :: "'c database \<Rightarrow> bool" where
  "waits_held db \<longleftrightarrow> (\<forall>i. wait_fits (row_at db i) (held_waits db i))"

definition waits_keyed :: "'c database \<Rightarrow> bool" where
  "waits_keyed db \<longleftrightarrow>
     distinct (map wt_id (db_waits db)) \<and> distinct (map wt_token_hash (db_waits db)) \<and>
     (\<forall>w \<in> set (db_waits db). 0 < wt_id w \<and> wt_id w < db_next_wait db) \<and> 0 < db_next_wait db"

text \<open>The wait that holds an execution is its newest.\<close>

definition holds_newest :: "'c wait_row list \<Rightarrow> bool" where
  "holds_newest ws \<longleftrightarrow>
     (\<forall>w \<in> set ws. \<forall>w' \<in> set ws. wt_consumed w = None \<and> wt_execution w' = wt_execution w \<longrightarrow> wt_id w' \<le> wt_id w)"

definition sound :: "'c database \<Rightarrow> bool" where
  "sound db \<longleftrightarrow>
     ids_distinct db \<and> (\<forall>i. pred_option row_ok (row_at db i)) \<and> waits_held db \<and> waits_keyed db \<and>
     runs_keyed (db_runs db) \<and> holds_newest (db_waits db)"

definition rows_follow :: "'c database \<Rightarrow> 'c database \<Rightarrow> bool" where
  "rows_follow db db' \<longleftrightarrow> (\<forall>i. row_change (row_at db i) (row_at db' i))"

text \<open>Waits are added at the end and otherwise only consumed; a consumed wait never changes.\<close>

definition wait_kept :: "'c wait_row \<Rightarrow> 'c wait_row \<Rightarrow> bool" where
  "wait_kept w w' \<longleftrightarrow>
     wt_id w' = wt_id w \<and> wt_token_hash w' = wt_token_hash w \<and> wt_tenant w' = wt_tenant w \<and>
     wt_execution w' = wt_execution w \<and> wt_checkpoint w' = wt_checkpoint w \<and> wt_run_count w' = wt_run_count w \<and>
     (wt_consumed w \<noteq> None \<longrightarrow> w' = w)"

definition waits_follow :: "'c wait_row list \<Rightarrow> 'c wait_row list \<Rightarrow> bool" where
  "waits_follow ws ws' \<longleftrightarrow> (\<exists>f new. ws' = map f ws @ new \<and> (\<forall>w. wait_kept w (f w)))"

definition follows :: "'c database \<Rightarrow> 'c database \<Rightarrow> bool" where
  "follows db db' \<longleftrightarrow> rows_follow db db' \<and> waits_follow (db_waits db) (db_waits db')"

lemma waiting_simps [simp]: "\<not> waiting None" "waiting (Some r) \<longleftrightarrow> ex_status r = StWaiting"
  by (simp_all add: waiting_def)

lemma waits_follow_refl [simp]: "waits_follow ws ws"
  unfolding waits_follow_def by (rule exI [of _ "\<lambda>w. w"]) (simp add: wait_kept_def)

lemma waits_follow_new [simp]: "waits_follow ws (ws @ new)"
  unfolding waits_follow_def by (rule exI [of _ "\<lambda>w. w"]) (simp add: wait_kept_def)

lemma waits_follow_change:
  "(\<And>w. p w \<Longrightarrow> wait_kept w (f w)) \<Longrightarrow> waits_follow ws (change_rows p f ws)"
  unfolding waits_follow_def change_rows_def
  by (rule exI [of _ "\<lambda>w. if p w then f w else w"]) (simp add: wait_kept_def)

lemma holds_newest_change:
  assumes "holds_newest ws" "\<And>w. p w \<Longrightarrow> wt_id (f w) = wt_id w \<and> wt_execution (f w) = wt_execution w \<and> wt_consumed (f w) \<noteq> None"
  shows "holds_newest (change_rows p f ws)"
proof -
  define g where "g w = (if p w then f w else w)" for w
  have keep: "wt_id (g w) = wt_id w" "wt_execution (g w) = wt_execution w" "wt_consumed (g w) = None \<Longrightarrow> wt_consumed w = None" for w
    using assms(2) [of w] by (auto simp: g_def split: if_splits)
  have "change_rows p f ws = map g ws" by (simp add: change_rows_def g_def [abs_def])
  then show ?thesis using assms(1) keep by (simp add: holds_newest_def)
qed

lemma follows_refl [simp]: "follows db db"
  by (simp add: follows_def rows_follow_def row_change.same)

lemma follows_rows_ok:
  "rows_follow db db' \<Longrightarrow> \<forall>i. pred_option row_ok (row_at db i) \<Longrightarrow> \<forall>i. pred_option row_ok (row_at db' i)"
  using row_change_ok unfolding rows_follow_def by blast

lemma runs_keyed_filter [simp]: "runs_keyed ts \<Longrightarrow> runs_keyed (filter P ts)"
  by (simp add: runs_keyed_def distinct_map_filter)

lemma runs_keyed_drop [simp]: "runs_keyed (db_runs db) \<Longrightarrow> runs_keyed (db_runs (drop_runs c db))"
  by (simp add: drop_runs_def)

text \<open>A step that leaves the waits alone and starts and ends no waiting.\<close>

lemma sound_kept:
  assumes "sound db" "rows_follow db db'" "ids_distinct db'" "runs_keyed (db_runs db')"
    and "db_waits db' = db_waits db" "db_next_wait db' = db_next_wait db"
    and "\<And>i. waiting (row_at db' i) = waiting (row_at db i)"
  shows "sound db' \<and> follows db db'"
proof -
  have "waits_held db'"
    unfolding waits_held_def
  proof
    fix i
    have held: "held_waits db' i = held_waits db i" using assms(5) by (simp add: held_waits_def)
    have here: "wait_fits (row_at db i) (held_waits db i)" using assms(1) unfolding sound_def waits_held_def by blast
    show "wait_fits (row_at db' i) (held_waits db' i)"
    proof (cases "waiting (row_at db i)")
      case True
      with here obtain w r where w: "held_waits db i = [w]" "row_at db i = Some r" "wt_tenant w = ex_tenant r"
        by (auto simp: wait_fits_def)
      from True assms(7) [of i] obtain r' where r': "row_at db' i = Some r'" by (auto simp: waiting_def split: option.splits)
      with w(2) assms(2) have "row_change (Some r) (Some r')" by (metis rows_follow_def)
      with w r' True held assms(7) [of i] show ?thesis using row_change_origin by (simp add: wait_fits_def)
    next
      case False
      with here held assms(7) [of i] show ?thesis by (simp add: wait_fits_def)
    qed
  qed
  with assms follows_rows_ok [OF assms(2)] show ?thesis by (simp add: sound_def waits_keyed_def follows_def)
qed

lemma sound_one:
  assumes "sound db" "row_at db' = (row_at db)(i \<mapsto> r')" "row_change (row_at db i) (Some r')"
    and "waiting (row_at db i) = (ex_status r' = StWaiting)"
    and "ids_distinct db'" "runs_keyed (db_runs db')" "db_waits db' = db_waits db" "db_next_wait db' = db_next_wait db"
  shows "sound db' \<and> follows db db'"
  using assms by (intro sound_kept) (auto simp: rows_follow_def intro: row_change.same)

lemma sound_same:
  assumes "sound db" "row_at db' = row_at db"
    and "ids_distinct db'" "runs_keyed (db_runs db')" "db_waits db' = db_waits db" "db_next_wait db' = db_next_wait db"
  shows "sound db' \<and> follows db db'"
  using assms by (intro sound_kept) (auto simp: rows_follow_def intro: row_change.same)

lemma sound_ids [simp]: "sound db \<Longrightarrow> ids_distinct db"
  and sound_runs [simp]: "sound db \<Longrightarrow> runs_keyed (db_runs db)"
  by (simp_all add: sound_def)

lemma sound_keyed: "sound db \<Longrightarrow> waits_keyed db"
  and sound_newest: "sound db \<Longrightarrow> holds_newest (db_waits db)"
  unfolding sound_def by blast+

lemma sound_row: "sound db \<Longrightarrow> row_at db i = Some r \<Longrightarrow> row_ok r"
  by (metis option.pred_inject(2) sound_def)

subsection \<open>Operations that leave the waits alone\<close>

lemma sound_insert:
  assumes "sound db" "insert_execution row db = Inr (r, db')" "row_change None (Some row)" "ex_status row \<noteq> StWaiting"
  shows "sound db' \<and> follows db db'"
  using row_at_insert [OF assms(2)] assms by (intro sound_one [where i = "ex_id row" and r' = row]) simp_all

lemma sound_claim:
  assumes "sound db" "claim_next worker lease until now db = Inr (res, db')"
  shows "sound db' \<and> follows db db'"
proof -
  obtain claimed settled where res: "res = (claimed, settled)" by (cases res)
  define owner where "owner = worker @ ''/'' @ lease"
  have scan: "claim_scan claim_scan_limit owner until now [] db = Inr ((claimed, settled), db')" and owner: "owner \<noteq> []"
    using assms(2) by (simp_all add: claim_next_def res owner_def)
  note result = claim_scan_result [OF scan sound_ids [OF assms(1)]]
  let ?dead = "settled_by_claim claim_scan_limit now db"
  have queue: "row_at db (ex_id c) = Some c \<and> claimable now c" if "c \<in> set (claim_queue now db)" for c
    using that in_claim_queue [OF sound_ids [OF assms(1)]] by blast
  have dead: "row_at db (ex_id c) = Some c \<and> claimable now c \<and> past_cap c \<and> row_at db' (ex_id c) = Some (crashed_row now c)"
    if "c \<in> set ?dead" for c
    using that result queue [of c] by (auto simp: settled_by_claim_def dest!: in_set_takeD set_takeWhileD)
  have change: "row_change (row_at db i) (row_at db' i) \<and> waiting (row_at db' i) = waiting (row_at db i)" for i
  proof (cases "i \<in> ex_id ` set ?dead")
    case True
    then obtain c where c: "i = ex_id c" "c \<in> set ?dead" by blast
    from dead [OF c(2)] show ?thesis
      using claimable_status [of now c] by (auto simp: c(1) row_change_crashed)
  next
    case other: False
    show ?thesis
    proof (cases "\<exists>r d. claimed = Some (r, d) \<and> ex_id r = i")
      case True
      then obtain r d where r: "claimed = Some (r, d)" "ex_id r = i" by blast
      with result obtain c cs where c: "dropWhile past_cap (claim_queue now db) = c # cs"
        "r = claimed_row owner until c" "row_at db' i = Some r" by auto
      have "c \<in> set (claim_queue now db)" by (metis c(1) list.set_intros(1) set_dropWhileD)
      moreover have "\<not> past_cap c" by (metis c(1) hd_dropWhile list.distinct(1) list.sel(1))
      ultimately show ?thesis
        using queue [of c] claimable_status [of now c] c r owner row_change.claimed [of c owner until]
          claimed_row_status [of owner until c]
        by auto
    next
      case False
      with result other have "row_at db' i = row_at db i" by blast
      then show ?thesis by (simp add: row_change.same)
    qed
  qed
  have "runs_keyed (db_runs db')"
    using result sound_runs [OF assms(1)] by (auto simp: cleared_runs_def split: option.splits)
  with change show ?thesis using result assms(1) by (intro sound_kept) (simp_all add: rows_follow_def)
qed

lemma sound_update:
  assumes "sound db" and "\<And>x. p x \<Longrightarrow> ex_id x = i" and "\<And>x. ex_id (f x) = ex_id x"
    and "\<And>r. row_at db i = Some r \<Longrightarrow> p r \<Longrightarrow>
      row_change (Some r) (Some (f r)) \<and> (ex_status r = StWaiting \<longleftrightarrow> ex_status (f r) = StWaiting)"
  shows "sound (change_executions p f db) \<and> follows db (change_executions p f db)"
proof (cases "\<exists>r. row_at db i = Some r \<and> p r")
  case True
  then obtain r where r: "row_at db i = Some r" "p r" by blast
  have rows: "row_at (change_executions p f db) = (row_at db)(i \<mapsto> f r)"
    by (rule row_at_change_one [where p = p and f = f, OF r assms(2,3)])
  have "ids_distinct (change_executions p f db)" using assms(1) by (simp add: ids_change assms(3))
  with assms(1) assms(4) [OF r] rows r show ?thesis by (intro sound_one [where i = i and r' = "f r"]) simp_all
next
  case False
  then have "row_at (change_executions p f db) = row_at db"
    using assms(2,3) by (intro row_at_change_none [where i = i]) blast+
  then show ?thesis using assms(1) by (intro sound_same) (simp_all add: ids_change assms(3))
qed

lemma sound_manual:
  "sound db \<Longrightarrow> queue_manual h cat tenant flow version trigger start input i now db = Inr (r, db') \<Longrightarrow>
   sound db' \<and> follows db db'"
  by (auto simp: queue_manual_def intro: row_change.queued dest!: sound_insert [rotated])
     (simp_all add: new_execution_def)

lemma sound_triggered:
  "sound db \<Longrightarrow> queue_triggered tenant flow version trigger start input i now db = Inr (r, db') \<Longrightarrow>
   sound db' \<and> follows db db'"
  by (auto simp: queue_triggered_def intro: row_change.queued dest!: sound_insert [rotated])
     (simp_all add: new_execution_def)

lemma sound_child:
  assumes "sound db" "start_child tenant call i now db = Inr (r, db')"
  shows "sound db' \<and> follows db db'"
proof -
  obtain row r' where "insert_execution row db = Inr (r', db')" and
    row: "\<exists>flow version start parent' input. row = (new_execution i tenant flow version StRunning trigger_subworkflow
      start parent' input now)\<lparr>ex_owner := cc_owner call, ex_expires := Some (cc_until call)\<rparr>" "cc_owner call \<noteq> []"
    using assms(2) by (fastforce simp: start_child_def split: prod.splits)
  moreover have "row_change None (Some row)" using row by (auto intro: row_change.called)
  moreover have "ex_status row \<noteq> StWaiting" using row by (auto simp: new_execution_def)
  ultimately show ?thesis using sound_insert [OF assms(1)] by blast
qed

lemma sound_extend:
  assumes "sound db" "extend_lease tenant i owner until db = Inr (b, db')"
  shows "sound db' \<and> follows db db'"
proof -
  have db': "db' = change_executions (\<lambda>r. held_by tenant i owner r \<and> (ex_status r = StRunning \<or> ex_status r = StCancelling))
      (\<lambda>r. r\<lparr>ex_expires := Some until\<rparr>) db"
    using assms(2) by (auto simp: extend_lease_def Let_def)
  show ?thesis unfolding db'
    by (rule sound_update [OF assms(1), where i = i]) (auto simp: held_by_def intro: row_change.renewed)
qed

lemma sound_settle:
  assumes "sound db" "settle_running r tenant output error db = Inr db'"
    and "status_terminal (ex_status r)" "ex_finished r \<noteq> None"
  shows "sound db' \<and> follows db db'"
proof -
  obtain t where t: "ex_finished r = Some t" using assms(4) by blast
  let ?f = "settle_with StCancelled null_payload cancellation_error (Some t)"
  let ?g = "settle_with (ex_status r) output error (Some t)"
  consider "db' = change_executions (\<lambda>x. held_by tenant (ex_id r) (ex_owner r) x \<and> ex_status x = StCancelling) ?f db"
    | "db' = change_executions (\<lambda>x. held_by tenant (ex_id r) (ex_owner r) x \<and> ex_status x = StRunning) ?g db"
    using assms(2) by (auto simp: settle_running_def Let_def t split: if_splits)
  then show ?thesis
  proof cases
    case 1
    show ?thesis unfolding 1
      by (rule sound_update [OF assms(1), where i = "ex_id r"])
         (auto simp: held_by_def row_change.stopped, simp_all add: settle_with_def)
  next
    case 2
    show ?thesis unfolding 2
      by (rule sound_update [OF assms(1), where i = "ex_id r"])
         (use assms(3) in \<open>auto simp: held_by_def row_change.ended\<close>, simp_all add: settle_with_def status_terminal_def)
  qed
qed

lemma sound_runtime:
  "sound db \<Longrightarrow> update_runtime h tenant r db = Inr (res, db') \<Longrightarrow> status_terminal (ex_status r) \<Longrightarrow>
   ex_finished r \<noteq> None \<Longrightarrow> sound db' \<and> follows db db'"
  unfolding update_runtime_def by (auto dest: sound_settle)

lemma sound_traces:
  assumes "sound db" "create_node_runs h tenant batch now db = Inr (ts, db')"
  shows "sound db' \<and> follows db db'"
proof -
  have "db' = db \<or> (\<exists>ts'. insert_runs ts' db = Inr db')"
    using assms(2) by (auto simp: create_node_runs_def Let_def split: list.splits)
  then show ?thesis
  proof (elim disjE exE)
    assume "db' = db"
    then show ?thesis using assms(1) by (simp add: follows_refl)
  next
    fix ts' assume "insert_runs ts' db = Inr db'"
    from insert_runs_tables [OF this] show ?thesis using assms(1) by (intro sound_same) simp_all
  qed
qed

lemma sound_annotate:
  assumes "sound db" "annotate_failure h tenant i notes db = Inr db'"
  shows "sound db' \<and> follows db db'"
proof -
  obtain e where "db' = change_executions (same_execution tenant i StFailed) (\<lambda>x. x\<lparr>ex_error := e\<rparr>) db"
    using assms(2) by (auto simp: annotate_failure_def)
  then show ?thesis
    by (simp only:) (rule sound_update [OF assms(1), where i = i], auto simp: same_execution_def intro: row_change.noted)
qed

lemma map_of_filter_keys:
  "map_of (map (\<lambda>r. (k r, r)) (filter Q rs)) i = (case map_of (map (\<lambda>r. (k r, r)) rs) i of
     Some r \<Rightarrow> if Q r then Some r else None | None \<Rightarrow> None)" if "distinct (map k rs)"
  using that
proof (induction rs)
  case (Cons r rs)
  have "map_of (map (\<lambda>r. (k r, r)) rs) (k r) = None" using Cons.prems by (auto simp: map_of_eq_None_iff)
  with Cons show ?case by (auto split: option.splits)
qed simp

text \<open>What a batch of pruning removes.\<close>

lemma delete_executions_result:
  assumes "ids_distinct db" "delete_executions cutoff candidates db = Inr (n, db')"
  defines "p \<equiv> \<lambda>r. ex_id r \<in> ex_id ` set candidates \<and> prunable cutoff r"
  shows "ids_distinct db'" "db_waits db' = db_waits db" "db_next_wait db' = db_next_wait db"
    "runs_keyed (db_runs db) \<Longrightarrow> runs_keyed (db_runs db')" "db_versions db' = db_versions db"
    "row_at db' i = (case row_at db i of Some r \<Rightarrow> if p r then None else Some r | None \<Rightarrow> None)"
    "\<forall>w \<in> set (db_waits db). \<forall>r. row_at db (wt_execution w) = Some r \<longrightarrow> \<not> p r"
proof -
  have db': "db' = db\<lparr>db_runs := filter (\<lambda>t. tr_execution t \<notin> ex_id ` set candidates) (db_runs db),
      db_executions := filter (\<lambda>r. \<not> p r) (db_executions db)\<rparr>"
    and waits: "\<forall>w \<in> set (db_waits db). wt_execution w \<notin> ex_id ` set (filter p (db_executions db))"
    using assms(2) by (auto simp: delete_executions_def Let_def p_def)
  show "ids_distinct db'" using assms(1) by (simp add: db' ids_distinct_def distinct_map_filter)
  show "db_waits db' = db_waits db" "db_next_wait db' = db_next_wait db"
    "runs_keyed (db_runs db) \<Longrightarrow> runs_keyed (db_runs db')" "db_versions db' = db_versions db" by (simp_all add: db')
  show "row_at db' i = (case row_at db i of Some r \<Rightarrow> if p r then None else Some r | None \<Rightarrow> None)"
    using map_of_filter_keys [where k = ex_id and Q = "\<lambda>r. \<not> p r" and rs = "db_executions db"] assms(1)
    by (simp add: db' row_at_def ids_distinct_def split: option.splits)
  show "\<forall>w \<in> set (db_waits db). \<forall>r. row_at db (wt_execution w) = Some r \<longrightarrow> \<not> p r"
  proof (intro ballI allI impI notI)
    fix w r assume w: "w \<in> set (db_waits db)" "row_at db (wt_execution w) = Some r" and "p r"
    then have "r \<in> set (filter p (db_executions db))" "ex_id r = wt_execution w" using row_at_in [OF w(2)] by auto
    then have "wt_execution w \<in> ex_id ` set (filter p (db_executions db))" by (metis imageI)
    with waits w(1) show False by blast
  qed
qed

lemma sound_prune:
  assumes "sound db" "delete_executions cutoff candidates db = Inr (n, db')"
  shows "sound db' \<and> follows db db'"
proof -
  note result = delete_executions_result [OF sound_ids [OF assms(1)] assms(2)]
  have "rows_follow db db'"
    using result(6) by (auto simp: rows_follow_def intro: row_change.same row_change.pruned split: option.splits)
  moreover have "waiting (row_at db' i) = waiting (row_at db i)" for i
  proof -
    have "\<not> prunable cutoff r" if "row_at db i = Some r" "ex_status r = StWaiting" for r
      using sound_row [OF assms(1) that(1)] that(2)
      by (auto simp: row_ok_def finish_ok_def prunable_def status_terminal_def split: option.splits)
    then show ?thesis using result(6) [of i] by (auto simp: waiting_def split: option.splits)
  qed
  ultimately show ?thesis using result assms(1) by (intro sound_kept) simp_all
qed

subsection \<open>Operations on waits\<close>

lemma sound_waits:
  assumes "sound db" "row_at db i = Some r" "row_at db' = (row_at db)(i \<mapsto> r')" "row_change (Some r) (Some r')"
    and "ids_distinct db'" "runs_keyed (db_runs db')" "waits_keyed db'"
    and "\<And>j. j \<noteq> i \<Longrightarrow> held_waits db' j = held_waits db j"
    and "if ex_status r' = StWaiting then \<exists>w. held_waits db' i = [w] \<and> wt_tenant w = ex_tenant r' else held_waits db' i = []"
    and "waits_follow (db_waits db) (db_waits db')" "holds_newest (db_waits db')"
  shows "sound db' \<and> follows db db'"
proof -
  have rows: "rows_follow db db'" using assms(2-4) by (auto simp: rows_follow_def intro: row_change.same)
  moreover have "waits_held db'"
    unfolding waits_held_def
  proof
    fix j
    have here: "wait_fits (row_at db j) (held_waits db j)" using assms(1) unfolding sound_def waits_held_def by blast
    show "wait_fits (row_at db' j) (held_waits db' j)"
    proof (cases "j = i")
      case True
      with assms(3,9) show ?thesis by (cases "ex_status r' = StWaiting") (simp_all add: wait_fits_def)
    next
      case False
      with here assms(3) assms(8) [OF False] show ?thesis by simp
    qed
  qed
  moreover have "\<forall>i. pred_option row_ok (row_at db' i)"
    using assms(1) follows_rows_ok [OF rows] unfolding sound_def by blast
  ultimately show ?thesis using assms(5-7,10,11) rows unfolding sound_def follows_def by blast
qed

lemma held_wait:
  assumes "sound db" "row_at db i = Some r" "ex_status r = StWaiting"
  shows "\<exists>w. held_waits db i = [w] \<and> wt_tenant w = ex_tenant r"
  using assms unfolding sound_def waits_held_def wait_fits_def by (metis option.inject waiting_simps(2))

lemma no_held_wait: "sound db \<Longrightarrow> \<not> waiting (row_at db i) \<Longrightarrow> held_waits db i = []"
  unfolding sound_def waits_held_def wait_fits_def by metis

lemma consumed_waits:
  assumes w: "w \<in> set (held_waits db i)" and keys: "waits_keyed db"
    and f: "\<And>x. wt_execution (f x) = wt_execution x" "\<And>x. wt_consumed (f x) \<noteq> None"
  shows "held_waits (change_waits (\<lambda>x. wt_id x = wt_id w \<and> wt_consumed x = None) f db) j
    = filter (\<lambda>x. x \<noteq> w) (held_waits db j)"
proof -
  have only: "x = w" if "x \<in> set (db_waits db)" "wt_id x = wt_id w" for x
    using that w keys by (auto simp: waits_keyed_def distinct_map held_waits_def dest: inj_onD)
  have "held_waits (change_waits (\<lambda>x. wt_id x = wt_id w \<and> wt_consumed x = None) f db) j
      = filter (\<lambda>x. \<not> (wt_id x = wt_id w \<and> wt_consumed x = None)) (held_waits db j)"
    unfolding held_waits_def change_waits_def using f by (simp add: filter_change_rows del: filter_filter)
  also have "\<dots> = filter (\<lambda>x. x \<noteq> w) (held_waits db j)"
    using only by (intro filter_cong refl) (auto simp: held_waits_def)
  finally show ?thesis .
qed

lemma waits_keyed_change:
  assumes "\<And>x. wt_id (f x) = wt_id x" "\<And>x. wt_token_hash (f x) = wt_token_hash x"
  shows "waits_keyed (change_waits p f db) = waits_keyed db"
proof -
  have "map wt_id (change_rows p f ws) = map wt_id ws" "map wt_token_hash (change_rows p f ws) = map wt_token_hash ws"
    for ws using assms by (auto simp: change_rows_def)
  moreover from this(1) have "wt_id ` set (change_rows p f ws) = wt_id ` set ws" for ws
    by (metis list.set_map)
  ultimately show ?thesis
    unfolding waits_keyed_def change_waits_def
    by simp (metis (no_types, lifting) imageE imageI)
qed

lemma sound_suspend:
  assumes "sound db" "suspend_execution tenant q now db = Inr (res, db')"
  shows "sound db' \<and> follows db db'"
proof -
  let ?i = "sp_execution q"
  let ?p = "\<lambda>x. held_by tenant ?i (sp_owner q) x \<and> ex_status x = StRunning"
  from assms obtain r checkpoint db1 where r: "row_at db ?i = Some r" "ex_tenant r = tenant" "ex_status r = StRunning"
      "ex_owner r = sp_owner q"
    and ins: "insert_wait (new_wait tenant r q checkpoint (db_next_wait db) now) db = Inr db1"
    and db': "db' = change_executions ?p (release_as StWaiting) db1"
    by (auto simp: suspend_execution_def Let_def find_execution_row)
  define w where "w = new_wait tenant r q checkpoint (db_next_wait db) now"
  have w: "wt_execution w = ?i" "wt_consumed w = None" "wt_tenant w = tenant" "wt_id w = db_next_wait db"
    by (simp_all add: w_def new_wait_def)
  have db1: "db1 = db\<lparr>db_waits := db_waits db @ [w], db_next_wait := db_next_wait db + 1\<rparr>"
    and hash: "wt_token_hash w \<notin> wt_token_hash ` set (db_waits db)"
    using ins by (auto simp: insert_wait_def w_def)
  have row1: "row_at db1 = row_at db" "ids_distinct db1 = ids_distinct db" by (simp_all add: db1 row_at_def ids_distinct_def)
  have "ex_id r = ?i" using row_at_in [OF r(1)] by simp
  then have "row_at db' = (row_at db)(?i \<mapsto> release_as StWaiting r)"
    unfolding db' using r row1 by (subst row_at_change_one [where i = ?i and r = r]) (auto simp: held_by_def)
  moreover have "held_waits db' j = held_waits db j @ (if j = ?i then [w] else [])" for j
    by (simp add: db' db1 held_waits_def w)
  moreover have "held_waits db ?i = []"
    using no_held_wait [OF assms(1)] r by simp
  moreover have "waits_keyed db'"
  proof -
    note keyed = sound_keyed [OF assms(1)]
    have "wt_id w \<notin> wt_id ` set (db_waits db)" using keyed unfolding waits_keyed_def w(4) by (metis imageE less_irrefl)
    moreover have "db_waits db' = db_waits db @ [w]" "db_next_wait db' = db_next_wait db + 1" by (simp_all add: db' db1)
    moreover have "\<forall>x \<in> set (db_waits db). 0 < wt_id x \<and> wt_id x < db_next_wait db + 1" "0 < db_next_wait db"
      using keyed unfolding waits_keyed_def by (meson less_SucI Suc_eq_plus1 trans_less_add1)+
    ultimately show ?thesis using keyed hash w(4) unfolding waits_keyed_def by simp
  qed
  moreover have "ids_distinct db'" "runs_keyed (db_runs db')" using assms(1) row1 by (simp_all add: db' db1)
  moreover have "waits_follow (db_waits db) (db_waits db')" by (simp add: db' db1)
  moreover have "holds_newest (db_waits db')"
  proof -
    have "wt_execution x \<noteq> ?i" if "x \<in> set (db_waits db)" "wt_consumed x = None" for x
      using that \<open>held_waits db ?i = []\<close> by (auto simp: held_waits_def filter_empty_conv)
    moreover have "wt_id x \<le> wt_id w" if "x \<in> set (db_waits db)" for x
      using that sound_keyed [OF assms(1)] w(4) unfolding waits_keyed_def by (metis less_imp_le)
    ultimately show ?thesis using sound_newest [OF assms(1)] w(1) by (force simp: db' db1 holds_newest_def)
  qed
  ultimately show ?thesis using r w assms(1)
    by (intro sound_waits [where i = ?i and r = r and r' = "release_as StWaiting r"])
      (auto intro: row_change.parked, auto simp: release_as_def)
qed

lemma find_SomeD: "find P xs = Some x \<Longrightarrow> x \<in> set xs \<and> P x"
  by (auto simp: find_Some_iff)

lemma held_execution_row:
  assumes "sound db" "held_execution w db = Inr r" "w \<in> set (db_waits db)" "wt_consumed w = None"
  shows "row_at db (wt_execution w) = Some r" "ex_status r = StWaiting" "held_waits db (wt_execution w) = [w]"
    "ex_tenant r = wt_tenant w"
proof -
  show r: "row_at db (wt_execution w) = Some r" "ex_status r = StWaiting" "ex_tenant r = wt_tenant w"
    using assms(1,2) by (auto simp: held_execution_def find_execution_row)
  obtain w' where "held_waits db (wt_execution w) = [w']" using held_wait [OF assms(1) r(1,2)] by blast
  moreover have "w \<in> set (held_waits db (wt_execution w))" using assms(3,4) by (simp add: held_waits_def)
  ultimately show "held_waits db (wt_execution w) = [w]" by simp
qed

text \<open>Answering a wait consumes it and moves its execution out of waiting.\<close>

lemma sound_answer:
  assumes db: "sound db" and w: "w \<in> set (db_waits db)" "wt_consumed w = None" and r: "held_execution w db = Inr r"
    and f: "\<And>x. wt_execution (f x) = wt_execution x" "\<And>x. wt_consumed (f x) \<noteq> None"
      "\<And>x. wt_id (f x) = wt_id x" "\<And>x. wt_token_hash (f x) = wt_token_hash x"
      "\<And>x. wt_consumed x = None \<Longrightarrow> wait_kept x (f x)"
    and g: "\<And>x. ex_id (g x) = ex_id x" "row_change (Some r) (Some (g r))" "ex_status (g r) \<noteq> StWaiting"
  shows "sound (answer_wait w f g db) \<and> follows db (answer_wait w f g db)"
    and "row_at (answer_wait w f g db) = (row_at db)(wt_execution w \<mapsto> g r)"
proof -
  let ?i = "wt_execution w"
  note held = held_execution_row [OF db r w]
  let ?db1 = "change_waits (\<lambda>x. wt_id x = wt_id w \<and> wt_consumed x = None) f db"
  have waits: "held_waits (answer_wait w f g db) j = filter (\<lambda>x. x \<noteq> w) (held_waits db j)" for j
  proof -
    have "w \<in> set (held_waits db ?i)" using held(3) by simp
    from consumed_waits [OF this sound_keyed [OF db] f(1,2)] show ?thesis by (simp add: answer_wait_def held_waits_def)
  qed
  have "ex_id r = ?i" using row_at_in [OF held(1)] by simp
  then show rows: "row_at (answer_wait w f g db) = (row_at db)(?i \<mapsto> g r)"
    unfolding answer_wait_def using held g(1)
    by (subst row_at_change_one [where i = ?i and r = r]) (auto simp: same_execution_def)
  have "held_waits (answer_wait w f g db) j = held_waits db j" if "j \<noteq> ?i" for j
    unfolding waits using that by (intro filter_True) (auto simp: held_waits_def)
  moreover have "held_waits (answer_wait w f g db) ?i = []" unfolding waits held(3) by simp
  moreover have "waits_keyed (answer_wait w f g db)"
  proof -
    have "waits_keyed ?db1" using sound_keyed [OF db] waits_keyed_change [of f, OF f(3,4)] by blast
    then show ?thesis by (simp add: answer_wait_def waits_keyed_def)
  qed
  moreover have "waits_follow (db_waits db) (db_waits (answer_wait w f g db))"
    using f(5) by (auto simp: answer_wait_def change_waits_def intro!: waits_follow_change)
  moreover have "holds_newest (db_waits (answer_wait w f g db))"
    using f(1-3) sound_newest [OF db] by (simp add: answer_wait_def change_waits_def holds_newest_change)
  ultimately show "sound (answer_wait w f g db) \<and> follows db (answer_wait w f g db)"
    using db g(1,3)
    by (intro sound_waits [OF db held(1) rows g(2)]) (simp_all add: answer_wait_def ids_change)
qed

lemma sound_resume:
  assumes "sound db" "resume_wait caller hash output now db = Inr (res, db')"
  shows "sound db' \<and> follows db db'"
proof -
  from assms(2) obtain w r where w: "w \<in> set (db_waits db)" "wt_consumed w = None" "held_execution w db = Inr r"
    and db': "db' = answer_wait w (resumed_wait now output) (release_as StQueued) db"
    by (auto simp: resume_wait_def dest: find_SomeD)
  have "ex_status r = StWaiting" using held_execution_row [OF assms(1) w(3,1,2)] by simp
  then show ?thesis unfolding db'
    by (intro sound_answer [OF assms(1) w])
      (auto simp: resumed_wait_def consume_def wait_kept_def row_change.continued, simp_all add: release_as_def)
qed

lemma sound_expire:
  assumes "sound db" "settle_expired_wait h i resolution now db = Inr (res, db')"
  shows "sound db' \<and> follows db db'"
proof -
  from assms(2) obtain w r f g where w: "w \<in> set (db_waits db)" "wt_consumed w = None" "held_execution w db = Inr r"
    and db': "db' = answer_wait w f g db"
    and fg: "f = resumed_wait now (er_output resolution) \<and> g = release_as StQueued \<or>
      f = consume now OutcomeExpired \<and> (\<exists>e. g = (\<lambda>x. (release_as StFailed x)\<lparr>ex_error := e, ex_finished := Some now\<rparr>))"
    by (fastforce simp: settle_expired_wait_def Let_def dest: find_SomeD split: if_splits)
  have "ex_status r = StWaiting" using held_execution_row [OF assms(1) w(3,1,2)] by simp
  with fg show ?thesis unfolding db'
    by (intro sound_answer [OF assms(1) w])
      (auto simp: resumed_wait_def consume_def wait_kept_def row_change.continued row_change.expired,
       auto simp: release_as_def)
qed

text \<open>Cancelling finds the one wait that holds a waiting execution.\<close>

lemma active_wait_held:
  assumes "held_waits db i = [w]" "wt_tenant w = tenant"
  shows "active_wait db tenant i = Some w"
proof -
  have "filter (open_wait tenant i) (db_waits db) = filter (\<lambda>w. wt_tenant w = tenant) (held_waits db i)"
    by (simp add: held_waits_def open_wait_def [abs_def]) (meson conj_commute)
  then show ?thesis using assms by (simp add: active_wait_def)
qed

lemma cancel_waiting_result:
  assumes "sound db" "row_at db i = Some r" "ex_tenant r = tenant" "ex_status r = StWaiting"
    and "cancel_waiting tenant i run_id now db = Inr db'"
  shows "row_at db' = (row_at db)(i \<mapsto> (release_as StCancelled r)\<lparr>ex_finished := Some now\<rparr>)"
    "held_waits db' i = []" "\<And>j. j \<noteq> i \<Longrightarrow> held_waits db' j = held_waits db j" "waits_keyed db'"
    "ids_distinct db'" "runs_keyed (db_runs db')"
    "\<exists>w taken. held_waits db i = [w] \<and> db_runs db' = db_runs db @ [cancelled_wait_row run_id w taken now] \<and>
       db_waits db' = change_rows (\<lambda>x. wt_id x = wt_id w \<and> wt_consumed x = None) (consume now OutcomeCancelled) (db_waits db)"
proof -
  let ?p = "same_execution tenant i StWaiting"
  let ?f = "\<lambda>r. (release_as StCancelled r)\<lparr>ex_finished := Some now\<rparr>"
  let ?db1 = "change_executions ?p ?f db"
  have i: "ex_id r = i" using row_at_in [OF assms(2)] by simp
  then have p: "?p r" using assms(3,4) by (simp add: same_execution_def)
  have f: "ex_id (?f x) = ex_id x" for x by simp
  have "0 < affected ?p (db_executions db)"
    using affected_row [OF sound_ids [OF assms(1)], of ?p i] assms(2) p by (auto simp: same_execution_def)
  then have hit: "affected ?p (db_executions db) \<noteq> 0" by simp
  obtain w where w: "held_waits db i = [w]" "wt_tenant w = tenant" using held_wait [OF assms(1,2,4)] assms(3) by blast
  then have "active_wait ?db1 tenant i = Some w" by (intro active_wait_held) (simp_all add: held_waits_def)
  then obtain taken where ins: "insert_runs [cancelled_wait_row run_id w taken now]
      (change_waits (\<lambda>x. wt_id x = wt_id w \<and> wt_consumed x = None) (consume now OutcomeCancelled) ?db1) = Inr db'"
    using assms(5) hit by (auto simp: cancel_waiting_def Let_def)
  note tables = insert_runs_tables [OF ins]
  have "row_at ?db1 = (row_at db)(i \<mapsto> ?f r)"
    by (rule row_at_change_one [where p = ?p and f = ?f, OF assms(2) p]) (simp_all add: same_execution_def)
  with tables(4) show "row_at db' = (row_at db)(i \<mapsto> ?f r)" by simp
  have "w \<in> set (held_waits ?db1 i)" "waits_keyed ?db1"
    using w sound_keyed [OF assms(1)] by (simp_all add: held_waits_def waits_keyed_def)
  from consumed_waits [OF this, of "consume now OutcomeCancelled"]
  have waits: "held_waits db' j = filter (\<lambda>x. x \<noteq> w) (held_waits db j)" for j
    by (simp add: held_waits_def tables(2) consume_def [abs_def])
  show "held_waits db' i = []" unfolding waits w(1) by simp
  have "w \<in> set (held_waits db i)" using w(1) by simp
  then have "wt_execution w = i" by (simp add: held_waits_def)
  then show "held_waits db' j = held_waits db j" if "j \<noteq> i" for j
    unfolding waits using that by (intro filter_True) (auto simp: held_waits_def)
  show "waits_keyed db'"
  proof -
    have "waits_keyed (change_waits (\<lambda>x. wt_id x = wt_id w \<and> wt_consumed x = None) (consume now OutcomeCancelled) ?db1)"
      using \<open>waits_keyed ?db1\<close> by (subst waits_keyed_change) (simp_all add: consume_def)
    then show ?thesis unfolding waits_keyed_def tables(2,7) .
  qed
  show "ids_distinct db'" "runs_keyed (db_runs db')"
    using assms(1) tables(5,8) by (simp_all add: ids_change f)
  show "\<exists>w taken. held_waits db i = [w] \<and> db_runs db' = db_runs db @ [cancelled_wait_row run_id w taken now] \<and>
       db_waits db' = change_rows (\<lambda>x. wt_id x = wt_id w \<and> wt_consumed x = None) (consume now OutcomeCancelled) (db_waits db)"
    using w tables(2,6) by (auto simp: change_waits_def)
qed

lemma sound_cancel:
  assumes "sound db" "cancel tenant i run_id now db = Inr (r, db')"
  shows "sound db' \<and> follows db db'"
proof -
  from assms obtain x where x: "row_at db i = Some x" "ex_tenant x = tenant" and
    rest: "cancel_rest tenant x run_id now db = Inr (r, db')"
    by (auto simp: cancel_def cancel_read_def find_execution_row)
  have i: "ex_id x = i" using row_at_in [OF x(1)] by simp
  show ?thesis
  proof (cases "ex_status x = StWaiting")
    case True
    with rest i have "cancel_waiting tenant i run_id now db = Inr db'" by (auto simp: cancel_rest_def)
    note result = cancel_waiting_result [OF assms(1) x True this]
    have "waits_follow (db_waits db) (db_waits db')" "holds_newest (db_waits db')"
      using result(7) sound_newest [OF assms(1)]
      by (auto simp: consume_def wait_kept_def intro!: waits_follow_change holds_newest_change)
    then show ?thesis using True result(5,6)
      by (intro sound_waits [OF assms(1) x(1) result(1) _ _ _ result(4,3)])
        (auto intro: row_change.withdrawn simp: result(2), auto simp: release_as_def)
  next
    case False
    consider "db' = db" | f where "cancel_update (ex_status x) now = Some f" "db' = cancel_write tenant i f db"
      using rest False i by (auto simp: cancel_rest_def Let_def split: option.splits)
    then show ?thesis
    proof cases
      case 1
      with assms(1) show ?thesis by simp
    next
      case 2
      then show ?thesis unfolding 2(2) cancel_write_def
        by (intro sound_update [OF assms(1), where i = i])
          (use x(1) in \<open>auto simp: cancel_update_def row_change.withdrawn row_change.requested split: if_splits\<close>,
           auto simp: release_as_def)
    qed
  qed
qed

lemma sound_edit: "sound db \<Longrightarrow> sound (db\<lparr>db_workflows := ws, db_versions := vs\<rparr>) \<and>
    follows db (db\<lparr>db_workflows := ws, db_versions := vs\<rparr>)"
  by (rule sound_same) (simp_all add: row_at_def ids_distinct_def, simp add: ids_distinct_def [symmetric])

lemma step_sound: "store_step db db' \<Longrightarrow> sound db \<Longrightarrow> sound db' \<and> follows db db'"
proof (induction rule: store_step.induct)
  case (update h tenant r db res db')
  then show ?case using sound_runtime by blast
qed (blast dest: sound_manual sound_triggered sound_child sound_claim sound_extend sound_traces sound_cancel
      sound_suspend sound_resume sound_expire sound_annotate sound_prune sound_edit)+

definition empty_database :: "workflow_row list \<Rightarrow> version_row list \<Rightarrow> 'c database" where
  "empty_database ws vs =
     \<lparr>db_workflows = ws, db_versions = vs, db_executions = [], db_runs = [], db_waits = [], db_next_wait = 1\<rparr>"

definition reachable :: "'c database \<Rightarrow> bool" where
  "reachable db \<longleftrightarrow> (\<exists>ws vs. store_step\<^sup>*\<^sup>* (empty_database ws vs) db)"

lemma sound_empty: "sound (empty_database ws vs)"
  by (simp add: sound_def empty_database_def ids_distinct_def row_at_def waits_held_def wait_fits_def held_waits_def
      waits_keyed_def runs_keyed_def holds_newest_def)

lemma steps_sound: "store_step\<^sup>*\<^sup>* db db' \<Longrightarrow> sound db \<Longrightarrow> sound db'"
  by (induction rule: rtranclp_induct) (auto dest: step_sound)

lemma reachable_sound: "reachable db \<Longrightarrow> sound db"
  by (auto simp: reachable_def intro: steps_sound sound_empty)

subsection \<open>Invariants of one execution\<close>

text \<open>A property of rows that the life cycle keeps is true of every execution of a database in use.\<close>

locale execution_invariant =
  fixes keeps :: "exec_row \<Rightarrow> bool"
  assumes change: "row_change x y \<Longrightarrow> pred_option keeps x \<Longrightarrow> pred_option keeps y"
begin

lemma step:
  assumes "store_step db db'" "sound db" "\<forall>i. pred_option keeps (row_at db i)"
  shows "\<forall>i. pred_option keeps (row_at db' i)"
  using step_sound [OF assms(1,2)] assms(3) change unfolding follows_def rows_follow_def by blast

lemma steps:
  assumes "store_step\<^sup>*\<^sup>* db db'" "sound db" "\<forall>i. pred_option keeps (row_at db i)"
  shows "\<forall>i. pred_option keeps (row_at db' i)"
  using assms
  by (induction rule: rtranclp_induct) (use step steps_sound in blast)+

lemma holds:
  assumes "reachable db" "r \<in> set (db_executions db)"
  shows "keeps r"
proof -
  obtain ws vs where "store_step\<^sup>*\<^sup>* (empty_database ws vs) db" using assms(1) by (auto simp: reachable_def)
  then have "\<forall>i. pred_option keeps (row_at db i)"
    by (rule steps [OF _ sound_empty]) (simp add: empty_database_def row_at_def)
  then show ?thesis
    using in_row_at [OF sound_ids [OF reachable_sound [OF assms(1)]] assms(2)] by (metis option.pred_inject(2))
qed

end

interpretation leases: execution_invariant lease_ok
  by unfold_locales (rule row_change_lease)

interpretation ends: execution_invariant finish_ok
  by unfold_locales (rule row_change_finish)

interpretation reclaims: execution_invariant reclaims_ok
  by unfold_locales (rule row_change_reclaims)

interpretation statuses: execution_invariant "\<lambda>r. status_known (ex_status r)"
  by unfold_locales (rule row_change_known)

subsection \<open>What the waits of a database become\<close>

lemma waits_follow_trans:
  assumes "waits_follow ws ws'" "waits_follow ws' ws''"
  shows "waits_follow ws ws''"
proof -
  obtain f new g new' where "ws' = map f ws @ new" "\<forall>w. wait_kept w (f w)" "ws'' = map g ws' @ new'" "\<forall>w. wait_kept w (g w)"
    using assms unfolding waits_follow_def by metis
  then have "ws'' = map (g \<circ> f) ws @ (map g new @ new') \<and> (\<forall>w. wait_kept w ((g \<circ> f) w))"
    by (auto simp: wait_kept_def)
  then show ?thesis unfolding waits_follow_def by blast
qed

lemma steps_waits: "store_step\<^sup>*\<^sup>* db db' \<Longrightarrow> sound db \<Longrightarrow> waits_follow (db_waits db) (db_waits db')"
proof (induction rule: rtranclp_induct)
  case (step db1 db2)
  then have "waits_follow (db_waits db1) (db_waits db2)"
    using step_sound [OF step.hyps(2)] steps_sound [OF step.hyps(1)] by (simp add: follows_def)
  with step show ?case by (blast intro: waits_follow_trans)
qed simp

lemma waits_follow_member:
  assumes "waits_follow ws ws'" "w \<in> set ws"
  shows "\<exists>w' \<in> set ws'. wait_kept w w'"
  using assms unfolding waits_follow_def by fastforce

end
