(* ===== verification/Wait_Service.thy ===== *)
theory Wait_Service
  imports Waits Runner
begin

text \<open>
  The service's part of a durable wait (\<open>internal/engine/wait_service.go\<close>): checking and parking a suspension,
  answering a token, sweeping the waits whose deadline passed, the links of a waiting execution, and the
  output a resumed node completes with. \<open>approval.go\<close>'s registry of tokens in memory, whose refusals the
  durable waits are to mirror, is modelled as the contract.

  The JSON forms of checkpoints and outputs, the rendering of a decision and SHA-256 are the fields of
  \<open>wait_codec\<close>. Events, timers, metrics and the trace rows written before a run is parked are left out.
\<close>

record ('c, 'm) wait_codec =
  wc_checkpoint :: "'c \<Rightarrow> (nat \<times> 'm checkpoint) option"
  wc_parse :: "raw \<Rightarrow> node_output option"
  wc_encode :: "node_output \<Rightarrow> raw"
  wc_time :: "int \<Rightarrow> string"
  wc_hash :: "string \<Rightarrow> string"

subsection \<open>Parking\<close>

definition mode_approval :: string where "mode_approval = ''approval''"
definition mode_interval :: string where "mode_interval = ''interval''"
definition mode_until :: string where "mode_until = ''until''"
definition mode_webhook :: string where "mode_webhook = ''webhook''"

text \<open>Durations are nanoseconds.\<close>

definition default_approval_ttl :: int where "default_approval_ttl = 24 * 3600 * 10 ^ 9"
definition max_wait_ttl :: int where "max_wait_ttl = 7 * 24 * 3600 * 10 ^ 9"

text \<open>A ticket carries a mode and a token.\<close>

record 'c suspension =
  su_mode :: string
  su_ticket :: "(string \<times> string) option"
  su_expires :: int
  su_node :: string
  su_checkpoint :: "'c option"

datatype suspend_refusal =
    NoWaitMode | DeadlinePassed | WaitTooLong | NoCheckpoint | NoToken

definition suspension_mode :: "'c suspension \<Rightarrow> string" where
  "suspension_mode s =
     (if su_mode s = [] then case su_ticket s of None \<Rightarrow> [] | Some (mode, _) \<Rightarrow> mode else su_mode s)"

definition validate_suspend :: "'c suspension \<Rightarrow> int \<Rightarrow> suspend_refusal + int" where
  "validate_suspend s now =
     (let expires = (if su_expires s = zero_time then now + default_approval_ttl else su_expires s)
      in need (suspension_mode s \<in> {mode_approval, mode_interval, mode_until, mode_webhook}) NoWaitMode
          (need (now < expires) DeadlinePassed
          (need (expires - now \<le> max_wait_ttl) WaitTooLong
          (need (su_checkpoint s \<noteq> None) NoCheckpoint (Inr expires)))))"

text \<open>
  A run is parked in two steps, with its rows written in between: the suspension is admitted, or fails the run;
  then the store parks it. The run's own token is replaced by the ticket's.
\<close>

definition suspend_token :: "'c suspension \<Rightarrow> string \<Rightarrow> string" where
  "suspend_token s token =
     (case su_ticket s of None \<Rightarrow> token | Some (_, t) \<Rightarrow> if trim_space t \<noteq> [] then t else token)"

definition admit_suspension :: "'c suspension \<Rightarrow> string \<Rightarrow> int \<Rightarrow> suspend_refusal + int" where
  "admit_suspension s token now =
     attempt (validate_suspend s now) (\<lambda>expires. need (trim_space (suspend_token s token) \<noteq> []) NoToken (Inr expires))"

definition park_run ::
  "('c, 'm) wait_codec \<Rightarrow> string \<Rightarrow> exec_row \<Rightarrow> 'c suspension \<Rightarrow> string \<Rightarrow> int \<Rightarrow> int \<Rightarrow> int \<Rightarrow> 'c database
     \<Rightarrow> store_error + ('c wait_row \<times> exec_row) \<times> 'c database" where
  "park_run codec tenant r s token run_count expires now db =
     suspend_execution tenant
       \<lparr>sp_execution = ex_id r, sp_owner = ex_owner r, sp_node = su_node s, sp_mode = suspension_mode s,
        sp_token_hash = wc_hash codec (suspend_token s token), sp_resume_token = suspend_token s token,
        sp_checkpoint = su_checkpoint s, sp_run_count = run_count, sp_expires = expires\<rparr> now db"

subsection \<open>Answering a token\<close>

datatype answer_error = EmbedDenied | BadOutput | Refused_By store_error

definition from_store :: "store_error + 'a \<Rightarrow> answer_error + 'a" where
  "from_store r = (case r of Inl e \<Rightarrow> Inl (Refused_By e) | Inr x \<Rightarrow> Inr x)"

record decision =
  de_approved :: bool
  de_by :: string
  de_at :: int
  de_note :: string

definition decision_output :: "('c, 'm) wait_codec \<Rightarrow> decision \<Rightarrow> int \<Rightarrow> jobject" where
  "decision_output codec d now =
     [(''approved'', JBool (de_approved d)),
      (''respondedAt'', JStr (wc_time codec (if de_at d = zero_time then now else de_at d))),
      (''decidedBy'', JStr (de_by d)), (''note'', JStr (de_note d))]"

definition json_item :: "jobject \<Rightarrow> item" where
  "json_item m = \<lparr>item_json = m, item_binary = [], item_paired = None\<rparr>"

definition approval_resume_output :: "('c, 'm) wait_codec \<Rightarrow> decision \<Rightarrow> int \<Rightarrow> raw" where
  "approval_resume_output codec d now = wc_encode codec [[json_item (decision_output codec d now)]]"

definition resume_with_output ::
  "('c, 'm) wait_codec \<Rightarrow> string \<Rightarrow> string \<Rightarrow> raw \<Rightarrow> int \<Rightarrow> 'c database
     \<Rightarrow> answer_error + ('c wait_row \<times> exec_row) \<times> 'c database" where
  "resume_with_output codec caller token output now db =
     need (trim_space token \<noteq> []) (Refused_By ErrWaitNotFound)
       (from_store (resume_wait caller (wc_hash codec token) output now db))"

definition resume_approval ::
  "('c, 'm) wait_codec \<Rightarrow> string \<Rightarrow> string \<Rightarrow> decision \<Rightarrow> bool \<Rightarrow> int \<Rightarrow> 'c database
     \<Rightarrow> answer_error + ('c wait_row \<times> exec_row) \<times> 'c database" where
  "resume_approval codec caller token d via_embed now db =
     need (\<not> via_embed) EmbedDenied
       (resume_with_output codec caller token (approval_resume_output codec d now) now db)"

definition resume_call ::
  "('c, 'm) wait_codec \<Rightarrow> string \<Rightarrow> string \<Rightarrow> raw \<Rightarrow> bool \<Rightarrow> int \<Rightarrow> 'c database
     \<Rightarrow> answer_error + ('c wait_row \<times> exec_row) \<times> 'c database" where
  "resume_call codec caller token output via_embed now db =
     need (\<not> via_embed) EmbedDenied
       (found (if output = RawEmpty then Some [[json_item []]] else wc_parse codec output) BadOutput (\<lambda>decoded.
          resume_with_output codec caller token (wc_encode codec decoded) now db))"

definition wait_info ::
  "('c, 'm) wait_codec \<Rightarrow> string \<Rightarrow> string \<Rightarrow> 'c database \<Rightarrow> store_error + 'c wait_row" where
  "wait_info codec caller token db =
     need (trim_space token \<noteq> []) ErrWaitNotFound
       (attempt (find_wait_by_token (wc_hash codec token) db) (\<lambda>w.
        need (\<not> (caller \<noteq> [] \<and> wt_tenant w \<noteq> caller)) ErrWaitNotFound (Inr w)))"

subsection \<open>Sweeping\<close>

text \<open>A timer's wait passes its node's input on.\<close>

definition timer_resume_output :: "('c, 'm) wait_codec \<Rightarrow> 'c \<Rightarrow> raw option" where
  "timer_resume_output codec stored =
     (case wc_checkpoint codec stored of
        None \<Rightarrow> None
      | Some (version, cp) \<Rightarrow>
          if checkpoint_readable version cp then Some (wc_encode codec [cp_input cp ''main'']) else None)"

definition resolution_of :: "('c, 'm) wait_codec \<Rightarrow> 'c wait_row \<Rightarrow> expired_resolution" where
  "resolution_of codec w =
     (let failing = \<lparr>er_requeue = False, er_output = RawEmpty, er_code = wait_expired_code\<rparr>
      in if wt_mode w = mode_interval \<or> wt_mode w = mode_until
         then case timer_resume_output codec (wt_checkpoint w) of
                None \<Rightarrow> failing
              | Some output \<Rightarrow> \<lparr>er_requeue = True, er_output = output, er_code = []\<rparr>
         else failing)"

fun sweep_each ::
  "host \<Rightarrow> ('c, 'm) wait_codec \<Rightarrow> int \<Rightarrow> 'c wait_row list \<Rightarrow> nat \<Rightarrow> 'c database
     \<Rightarrow> nat \<times> store_error option \<times> 'c database" where
  "sweep_each h codec now [] settled db = (settled, None, db)"
| "sweep_each h codec now (w # ws) settled db =
     (case settle_expired_wait h (wt_id w) (resolution_of codec w) now db of
        Inl e \<Rightarrow>
          if e = ErrWaitConsumed \<or> e = ErrWaitNotFound then sweep_each h codec now ws settled db
          else (settled, Some e, db)
      | Inr (_, db') \<Rightarrow> sweep_each h codec now ws (settled + 1) db')"

definition sweep_waits ::
  "host \<Rightarrow> ('c, 'm) wait_codec \<Rightarrow> int \<Rightarrow> 'c database \<Rightarrow> nat \<times> store_error option \<times> 'c database" where
  "sweep_waits h codec now db = sweep_each h codec now (list_expired_waits now 0 db) 0 db"

subsection \<open>Links and the resumed output\<close>

record resume_links =
  rl_resume :: string
  rl_approval :: string
  rl_at :: "int option"

definition waiting_links :: "string \<Rightarrow> string \<Rightarrow> string \<Rightarrow> 'c database \<Rightarrow> resume_links option" where
  "waiting_links base tenant i db =
     (case find_active_wait tenant i db of
        Inl _ \<Rightarrow> None
      | Inr w \<Rightarrow>
          if trim_space (wt_resume_token w) = [] then None
          else Some
            \<lparr>rl_resume = base @ ''/resume/'' @ wt_resume_token w,
             rl_approval = (if wt_mode w = mode_approval \<or> wt_mode w = []
                            then base @ ''/approve/'' @ wt_resume_token w else []),
             rl_at = (if wt_mode w = mode_interval \<or> wt_mode w = mode_until
                      then Some (wt_expires w) else None)\<rparr>)"

text \<open>A stored output is padded to the ports its node's executor returns; a longer one is refused.\<close>

definition adapt_stored_resume_output ::
  "('c, 'm) wait_codec \<Rightarrow> ir \<Rightarrow> string \<Rightarrow> raw \<Rightarrow> string + node_output" where
  "adapt_stored_resume_output codec plan k stored =
     found (wc_parse codec stored) ''decode resume output'' (\<lambda>output.
       (let want = max 1 (case find (\<lambda>n. in_id n = k) (ir_nodes plan) of None \<Rightarrow> 1 | Some n \<Rightarrow> expected_ports n)
        in need (length output \<le> want) ''more streams than the node returns''
             (Inr (output @ replicate (want - length output) []))))"

subsection \<open>The registry of tokens in memory\<close>

record ticket =
  tk_tenant :: string
  tk_execution :: string
  tk_node :: string
  tk_mode :: string
  tk_expires :: int
  tk_consumed :: bool

type_synonym registry = "string \<rightharpoonup> ticket"

datatype registry_refusal = TokenUnknown | TokenEmbedDenied | TokenConsumed | TokenExpired

definition issue_ticket ::
  "string \<Rightarrow> ticket \<Rightarrow> int \<Rightarrow> registry \<Rightarrow> suspend_refusal option + registry" where
  "issue_ticket token t now reg =
     (let expires = (if tk_expires t = zero_time then now + default_approval_ttl else tk_expires t)
      in need (trim_space (tk_tenant t) \<noteq> [] \<and> trim_space (tk_execution t) \<noteq> [] \<and> trim_space (tk_node t) \<noteq> []) None
          (need (now < expires) (Some DeadlinePassed)
          (need (expires - now \<le> max_wait_ttl) (Some WaitTooLong)
             (Inr (reg(token \<mapsto> t\<lparr>tk_expires := expires, tk_consumed := False\<rparr>))))))"

definition redeem_ticket ::
  "string \<Rightarrow> string \<Rightarrow> bool \<Rightarrow> int \<Rightarrow> registry \<Rightarrow> registry_refusal + ticket \<times> registry" where
  "redeem_ticket tenant token via_embed now reg =
     found (reg token) TokenUnknown (\<lambda>t.
       need (tk_tenant t = tenant) TokenUnknown
      (need (\<not> via_embed) TokenEmbedDenied
      (need (\<not> tk_consumed t) TokenConsumed
      (need (now < tk_expires t) TokenExpired
         (Inr (t\<lparr>tk_consumed := True\<rparr>, reg(token \<mapsto> t\<lparr>tk_consumed := True\<rparr>)))))))"

definition sweep_registry :: "int \<Rightarrow> registry \<Rightarrow> registry" where
  "sweep_registry now reg = (\<lambda>token.
     case reg token of
       None \<Rightarrow> None
     | Some t \<Rightarrow> if \<not> tk_consumed t \<and> tk_expires t \<le> now then None else Some t)"

end
