(* ===== verification/Store_Properties.thy ===== *)
theory Store_Properties
  imports Store_Steps Wait_Service
begin

text \<open>
  The properties of the execution store and of its waits, each with an input on which its hypotheses hold.
\<close>

subsection \<open>An example database\<close>

definition plain_host :: host where
  "plain_host = \<lparr>h_quote = (\<lambda>t. t), h_float = (\<lambda>x. []), h_zone = (\<lambda>z. True), h_lower = (\<lambda>c. c), h_number = (\<lambda>x. x)\<rparr>"

definition example_version :: version_row where
  "example_version =
     \<lparr>vr_id = ''v1'', vr_tenant = ''t'', vr_workflow = ''wf'', vr_revision = 1,
      vr_document = Some
        \<lparr>schema_version = 1, doc_id = ''wf'', doc_name = ''n'', doc_nodes = None, doc_connections = None,
         doc_settings = None, doc_tags = [], pin_data = []\<rparr>\<rparr>"

definition example_workflow_row :: workflow_row where
  "example_workflow_row =
     \<lparr>wf_id = ''wf'', wf_tenant = ''t'', wf_active = True, wf_latest = 1, wf_active_version = Some ''v1'',
      wf_deleted = False\<rparr>"

definition example_empty :: "nat database" where
  "example_empty = empty_database [example_workflow_row] [example_version]"

definition taken :: "'e + 'r \<times> 'd \<Rightarrow> 'd" where
  "taken res = snd (projr res)"

definition example_queued :: "nat database" where
  "example_queued = taken (queue_triggered ''t'' ''wf'' ''v1'' ''manual'' [] RawEmpty ''e1'' 10 example_empty)"

definition example_running :: "nat database" where
  "example_running = taken (claim_next ''w'' ''l1'' 100 20 example_queued)"

definition example_reclaimed :: "nat database" where
  "example_reclaimed = taken (claim_next ''w2'' ''l2'' 900 100 example_running)"

definition example_params :: "nat suspend_params" where
  "example_params =
     \<lparr>sp_execution = ''e1'', sp_owner = ''w/l1'', sp_node = ''n1'', sp_mode = ''approval'', sp_token_hash = ''h1'',
      sp_resume_token = ''k1'', sp_checkpoint = Some 7, sp_run_count = 3, sp_expires = 500\<rparr>"

definition example_waiting :: "nat database" where
  "example_waiting = taken (suspend_execution ''t'' example_params 30 example_running)"

definition example_answered :: "nat database" where
  "example_answered = taken (resume_wait [] ''h1'' (RawJson JNull) 40 example_waiting)"

lemma taken_result: "\<not> isl res \<Longrightarrow> \<exists>r. res = Inr (r, taken res)"
  by (cases res) (auto simp: taken_def)

lemma example_queues:
  "\<exists>r. queue_triggered ''t'' ''wf'' ''v1'' ''manual'' [] RawEmpty ''e1'' 10 example_empty = Inr (r, example_queued)"
  unfolding example_queued_def by (rule taken_result) code_simp

lemma example_claims: "\<exists>r. claim_next ''w'' ''l1'' 100 20 example_queued = Inr (r, example_running)"
  unfolding example_running_def by (rule taken_result) code_simp

lemma example_reclaims: "\<exists>r. claim_next ''w2'' ''l2'' 900 100 example_running = Inr (r, example_reclaimed)"
  unfolding example_reclaimed_def by (rule taken_result) code_simp

lemma example_parks: "\<exists>r. suspend_execution ''t'' example_params 30 example_running = Inr (r, example_waiting)"
  unfolding example_waiting_def by (rule taken_result) code_simp

lemma example_resumes: "\<exists>r. resume_wait [] ''h1'' (RawJson JNull) 40 example_waiting = Inr (r, example_answered)"
  unfolding example_answered_def by (rule taken_result) code_simp

lemma example_reachable:
  "reachable example_empty" "reachable example_queued" "reachable example_running" "reachable example_waiting"
  "reachable example_answered"
proof -
  show empty: "reachable example_empty" by (auto simp: reachable_def example_empty_def)
  have next_step: "reachable db \<Longrightarrow> store_step db db' \<Longrightarrow> reachable db'" for db db' :: "nat database"
    unfolding reachable_def by (meson rtranclp.rtrancl_into_rtrancl)
  show queued: "reachable example_queued" using example_queues by (auto intro: next_step [OF empty] store_step.triggered)
  show running: "reachable example_running" using example_claims by (auto intro: next_step [OF queued] store_step.claim)
  show waiting: "reachable example_waiting"
    using example_parks by (auto intro: next_step [OF running] store_step.suspends)
  show "reachable example_answered" using example_resumes by (auto intro: next_step [OF waiting] store_step.resumes)
qed

subsection \<open>The life cycle\<close>





subsection \<open>Claiming\<close>

text \<open>C21: \<open>ClaimNext\<close> walks the executions it may claim (queued, or at work under an expired lease) from the
  oldest: those that would be handed on a third time are settled as crashed, at most eight, and the first
  other one is claimed for the worker, with the document of the version it is pinned to.\<close>

theorem claim_oldest:
  assumes "reachable db" "claim_next worker lease until now db = Inr ((claimed, settled), db')"
  shows "sorted (map newest_key (claim_queue now db)) \<and>
    set (claim_queue now db) = {r \<in> set (db_executions db). claimable now r} \<and>
    settled = map (crashed_row now) (take claim_scan_limit (takeWhile past_cap (claim_queue now db))) \<and>
    (case claimed of
       None \<Rightarrow> length settled = claim_scan_limit \<or> list_all past_cap (claim_queue now db)
     | Some (r, d) \<Rightarrow>
         \<exists>c cs v. dropWhile past_cap (claim_queue now db) = c # cs \<and>
           r = claimed_row (worker @ ''/'' @ lease) until c \<and> row_at db' (ex_id c) = Some r \<and>
           find_version db (ex_tenant c) (ex_version c) = Some v \<and> vr_document v = Some d)"
proof -
  have scan: "claim_scan claim_scan_limit (worker @ ''/'' @ lease) until now [] db = Inr ((claimed, settled), db')"
    using assms(2) by (simp add: claim_next_def)
  note result = claim_scan_result [OF scan sound_ids [OF reachable_sound [OF assms(1)]]]
  have "list_all past_cap xs" if "dropWhile past_cap xs = []" for xs
    using that by (simp add: list_all_iff)
  with result show ?thesis
    by (auto simp: settled_by_claim_def claim_queue_def split: option.splits)
qed

theorem claim_oldest_example:
  "\<exists>r d settled. claim_next ''w'' ''l1'' 100 20 example_queued = Inr ((Some (r, d), settled), example_running) \<and>
     settled = [] \<and> ex_id r = ''e1''"
proof -
  obtain claimed settled where step: "claim_next ''w'' ''l1'' 100 20 example_queued = Inr ((claimed, settled), example_running)"
    using example_claims by auto
  have queue: "map ex_id (claim_queue 20 example_queued) = [''e1'']" "map past_cap (claim_queue 20 example_queued) = [False]"
    by code_simp+
  then obtain c where c: "claim_queue 20 example_queued = [c]" "ex_id c = ''e1''" "\<not> past_cap c" by auto
  from claim_oldest [OF example_reachable(2) step] c step show ?thesis
    by (cases claimed) (auto simp: claim_scan_limit_def claimed_row_def)
qed

text \<open>a claim leaves every execution alone that is waiting or has ended, and every one at work whose lease
  has not expired, with its trace.\<close>

theorem live_lease_respected:
  assumes "reachable db" "row_at db i = Some r" "ex_status r \<noteq> StQueued"
    and "at_work r \<Longrightarrow> \<exists>t. ex_expires r = Some t \<and> now < t"
    and "claim_next worker lease until now db = Inr ((claimed, settled), db')"
  shows "row_at db' i = Some r \<and> runs_of_execution db' (ex_tenant r) i = runs_of_execution db (ex_tenant r) i \<and>
    (\<forall>c d. claimed = Some (c, d) \<longrightarrow> ex_id c \<noteq> i)"
proof -
  have ids: "ids_distinct db" using assms(1) by (simp add: reachable_sound)
  have live: "\<not> claimable now r" using assms(3,4) by (auto simp: claimable_def expired_lease_def at_work_def)
  have other: "ex_id c \<noteq> i" if "c \<in> set (claim_queue now db)" for c
    using that in_claim_queue [OF ids, of c now] assms(2) live by auto
  have scan: "claim_scan claim_scan_limit (worker @ ''/'' @ lease) until now [] db = Inr ((claimed, settled), db')"
    using assms(5) by (simp add: claim_next_def)
  note result = claim_scan_result [OF scan ids]
  have dead: "i \<notin> ex_id ` set (settled_by_claim claim_scan_limit now db)"
    using other by (force simp: settled_by_claim_def dest!: in_set_takeD set_takeWhileD)
  have claimed: "ex_id c \<noteq> i \<and> (\<exists>x \<in> set (claim_queue now db). db_runs db' = cleared_runs x db)"
    if some: "claimed = Some (c, d)" for c d
  proof -
    from result some obtain x xs where x: "dropWhile past_cap (claim_queue now db) = x # xs"
      "c = claimed_row (worker @ ''/'' @ lease) until x" "db_runs db' = cleared_runs x db" by auto
    have "x \<in> set (claim_queue now db)" by (metis x(1) list.set_intros(1) set_dropWhileD)
    with x other show ?thesis by auto
  qed
  have "runs_of_execution db' (ex_tenant r) i = runs_of_execution db (ex_tenant r) i"
  proof (cases claimed)
    case None
    with result show ?thesis by (simp add: runs_of_execution_def)
  next
    case (Some cd)
    then obtain x where "x \<in> set (claim_queue now db)" "db_runs db' = cleared_runs x db"
      using claimed [of "fst cd" "snd cd"] by auto
    then show ?thesis using other [of x]
      by (auto simp: runs_of_execution_def cleared_runs_def drop_runs_def intro!: filter_cong)
  qed
  then show ?thesis using result dead claimed assms(2) by auto
qed

theorem live_lease_respected_example:
  "\<exists>r. row_at example_running ''e1'' = Some r \<and> at_work r \<and>
     (\<forall>db'. claim_next ''w2'' ''l2'' 200 50 example_running = Inr ((None, []), db') \<longrightarrow> row_at db' ''e1'' = Some r)"
proof -
  have "map_option (\<lambda>r. (ex_status r, ex_expires r)) (row_at example_running ''e1'') = Some (StRunning, Some 100)"
    by code_simp
  then obtain r where r: "row_at example_running ''e1'' = Some r" "ex_status r = StRunning" "ex_expires r = Some 100" by auto
  then show ?thesis
    using live_lease_respected [OF example_reachable(3) r(1), of 50 "''w2''" "''l2''" 200 None "[]"]
    by (auto simp: at_work_def)
qed

text \<open>An execution is handed on after an expired lease at most twice: the count of a row is between 0 and 2
  at all times, and a claim that takes over a running execution counts one more.\<close>

theorem reclaims_bounded:
  assumes "reachable db" "claim_next worker lease until now db = Inr ((Some (c, d), settled), db')"
  shows "(\<forall>r \<in> set (db_executions db). 0 \<le> ex_reclaims r \<and> ex_reclaims r \<le> max_execution_reclaims) \<and>
    ex_reclaims c \<le> max_execution_reclaims \<and>
    (\<exists>r. row_at db (ex_id c) = Some r \<and>
       ex_reclaims c = (if ex_status r = StRunning then ex_reclaims r + 1 else ex_reclaims r))"
proof -
  have ids: "ids_distinct db" using assms(1) by (simp add: reachable_sound)
  from claim_oldest [OF assms] obtain r rs where r: "dropWhile past_cap (claim_queue now db) = r # rs"
    "c = claimed_row (worker @ ''/'' @ lease) until r" by auto
  have queue: "r \<in> set (claim_queue now db)" by (metis r(1) list.set_intros(1) set_dropWhileD)
  have cap: "\<not> past_cap r" by (metis r(1) hd_dropWhile list.distinct(1) list.sel(1))
  have row: "row_at db (ex_id r) = Some r" using in_claim_queue [OF ids] queue by blast
  have bounds: "\<forall>r \<in> set (db_executions db). 0 \<le> ex_reclaims r \<and> ex_reclaims r \<le> max_execution_reclaims"
    using reclaims.holds [OF assms(1)] by (simp add: reclaims_ok_def)
  then have "ex_reclaims r \<le> max_execution_reclaims" using row_at_in [OF row] by blast
  then have "ex_reclaims c \<le> max_execution_reclaims" using cap by (auto simp: r(2) claimed_row_def past_cap_def)
  with bounds row show ?thesis by (simp add: r(2)) (simp add: claimed_row_def)
qed

theorem reclaims_bounded_example:
  "\<exists>c d settled. claim_next ''w2'' ''l2'' 900 100 example_running = Inr ((Some (c, d), settled), example_reclaimed) \<and>
     ex_reclaims c = 1"
proof -
  obtain claimed settled where step: "claim_next ''w2'' ''l2'' 900 100 example_running = Inr ((claimed, settled), example_reclaimed)"
    using example_reclaims by auto
  have "map_option (\<lambda>(c, d). ex_id c) (fst (fst (projr (claim_next ''w2'' ''l2'' 900 100 example_running)))) = Some ''e1''"
    "map_option (\<lambda>r. (ex_status r, ex_reclaims r)) (row_at example_running ''e1'') = Some (StRunning, 0)"
    by code_simp+
  with step obtain c d r where "claimed = Some (c, d)" "ex_id c = ''e1''" "row_at example_running ''e1'' = Some r"
    "ex_status r = StRunning" "ex_reclaims r = 0" by auto
  with step reclaims_bounded [OF example_reachable(3), of "''w2''" "''l2''" 900 100 c d settled example_reclaimed]
  show ?thesis by auto
qed

subsection \<open>Fencing\<close>

lemma change_rows_none: "(\<And>r. r \<in> set rs \<Longrightarrow> \<not> p r) \<Longrightarrow> change_rows p f rs = rs"
  by (simp add: change_rows_def map_idI)

lemma affected_none [simp]: "affected p rs = 0 \<longleftrightarrow> (\<forall>r \<in> set rs. \<not> p r)"
  by (auto simp: affected_def filter_empty_conv)

text \<open>An execution nobody holds under that lease: what the fenced operations then answer.\<close>

definition unheld :: "string \<Rightarrow> string \<Rightarrow> string \<Rightarrow> 'c database \<Rightarrow> bool" where
  "unheld tenant i owner db \<longleftrightarrow> (\<forall>x \<in> set (db_executions db). \<not> held_by tenant i owner x)"

lemma unheld_lost:
  "ids_distinct db \<Longrightarrow> (\<And>r. row_at db i = Some r \<Longrightarrow> ex_owner r \<noteq> owner) \<Longrightarrow> unheld tenant i owner db"
  by (metis held_by_def in_row_at unheld_def)

lemma unheld_result: "unheld tenant (ex_id x) (ex_owner x) db \<Longrightarrow> isl (update_runtime h tenant x db)"
proof -
  assume none: "unheld tenant (ex_id x) (ex_owner x) db"
  have "settle_running x tenant out err db = Inl (ErrNotFound [])" for out err
    using none by (auto simp: settle_running_def Let_def unheld_def affected_def filter_empty_conv)
  then show ?thesis by (cases "update_runtime h tenant x db") (auto simp: update_runtime_def)
qed

lemma unheld_trace: "unheld tenant (tr_execution t) owner db \<Longrightarrow> isl (create_node_runs h tenant ((k, owner, t) # batch) now db)"
proof -
  assume "unheld tenant (tr_execution t) owner db"
  then have "find (\<lambda>r. held_by tenant (tr_execution t) owner r \<and> (ex_status r = StRunning \<or> ex_status r = StCancelling))
      (db_executions db) = None"
    by (auto simp: find_None_iff unheld_def)
  then show ?thesis by (auto simp: create_node_runs_def need_def attempt_def split: sum.splits)
qed

lemma unheld_suspension:
  assumes "unheld tenant (sp_execution q) (sp_owner q) db"
  shows "isl (suspend_execution tenant q now db)"
proof (rule ccontr)
  assume "\<not> isl (suspend_execution tenant q now db)"
  then obtain res where "suspend_execution tenant q now db = Inr res" by (cases "suspend_execution tenant q now db") auto
  then obtain r where "find_execution db tenant (sp_execution q) = Some r" "ex_owner r = sp_owner q"
    by (auto simp: suspend_execution_def Let_def)
  then show False using assms by (auto simp: find_execution_def unheld_def held_by_def dest: find_SomeD)
qed

text \<open>A worker that is not the owner of an execution's lease cannot change it: its renewal finds nothing to
  renew, and its result, its trace rows and its suspension are refused, so that nothing is written.\<close>

theorem stale_owner_fenced:
  assumes "reachable db" "row_at db i = Some r" "ex_owner r \<noteq> owner"
  shows "(\<forall>until b db'. extend_lease tenant i owner until db = Inr (b, db') \<longrightarrow> \<not> b \<and> db' = db) \<and>
    (\<forall>x. ex_id x = i \<and> ex_owner x = owner \<longrightarrow> isl (update_runtime h tenant x db)) \<and>
    (\<forall>k t batch now. tr_execution t = i \<longrightarrow> isl (create_node_runs h tenant ((k, owner, t) # batch) now db)) \<and>
    (\<forall>q now. sp_execution q = i \<and> sp_owner q = owner \<longrightarrow> isl (suspend_execution tenant q now db))"
proof -
  have none: "unheld tenant i owner db"
    using assms by (intro unheld_lost) (auto simp: reachable_sound)
  then have "\<not> b \<and> db' = db" if "extend_lease tenant i owner until db = Inr (b, db')" for until b db'
    using that by (auto simp: extend_lease_def Let_def change_executions_def change_rows_none affected_def filter_empty_conv unheld_def)
  with none show ?thesis using unheld_result unheld_trace unheld_suspension by blast
qed

theorem stale_owner_fenced_example:
  "isl (suspend_execution ''t'' example_params 130 example_reclaimed)"
proof -
  obtain r' where "claim_next ''w2'' ''l2'' 900 100 example_running = Inr (r', example_reclaimed)" using example_reclaims by blast
  then have reach: "reachable example_reclaimed"
    using example_reachable(3) unfolding reachable_def by (meson rtranclp.rtrancl_into_rtrancl store_step.claim)
  have "map_option ex_owner (row_at example_reclaimed ''e1'') = Some ''w2/l2''" by code_simp
  then obtain r where r: "row_at example_reclaimed ''e1'' = Some r" "ex_owner r = ''w2/l2''" by auto
  show ?thesis using stale_owner_fenced [OF reach r(1), of "''w/l1''" "''t''" plain_host] r(2)
    by (simp add: example_params_def)
qed

subsection \<open>Waits\<close>

lemma first_by_newest:
  assumes "w \<in> set ws" "\<And>v. v \<in> set ws \<Longrightarrow> wt_id v \<le> wt_id w" "\<And>v. v \<in> set ws \<Longrightarrow> wt_id v = wt_id w \<Longrightarrow> v = w"
  shows "first_by (\<lambda>v. - int (wt_id v)) ws = Some w"
proof (cases "first_by (\<lambda>v. - int (wt_id v)) ws")
  case None
  then show ?thesis using assms(1) by simp
next
  case (Some v)
  from first_by_in [OF this] have "v \<in> set ws" "wt_id w \<le> wt_id v" using assms(1) by auto
  with assms(2,3) [OF this(1)] Some show ?thesis by simp
qed

lemma same_token:
  assumes "sound db" "v \<in> set (db_waits db)" "w \<in> set (db_waits db)" "wt_token_hash v = wt_token_hash w"
  shows "v = w"
  using sound_keyed [OF assms(1)] assms(2-4) unfolding waits_keyed_def distinct_map by (meson inj_onD)

lemma same_wait:
  assumes "sound db" "v \<in> set (db_waits db)" "w \<in> set (db_waits db)" "wt_id v = wt_id w"
  shows "v = w"
  using sound_keyed [OF assms(1)] assms(2-4) unfolding waits_keyed_def distinct_map by (meson inj_onD)



text \<open>What a run is suspended with is what it is resumed from: whatever other operations come between, once
  the wait is answered \<open>LoadResumeState\<close> gives the checkpoint of the suspension, its count of trace rows and
  the answer.\<close>

theorem resume_restores:
  assumes "reachable db" "suspend_execution tenant q now db = Inr ((w, r), db1)" "store_step\<^sup>*\<^sup>* db1 db2"
    and "resume_wait caller (sp_token_hash q) output now2 db2 = Inr (res, db3)"
  shows "\<exists>w'. load_resume_state tenant (sp_execution q) db3 = Inr w' \<and>
    sp_checkpoint q = Some (wt_checkpoint w') \<and> wt_run_count w' = sp_run_count q \<and> wt_resume_output w' = output \<and>
    map_option ex_status (row_at db3 (sp_execution q)) = Some StQueued"
proof -
  have sound: "sound db" using assms(1) by (rule reachable_sound)
  have sound1: "sound db1" using step_sound [OF store_step.suspends [OF assms(2)] sound] by simp
  have sound2: "sound db2" using steps_sound [OF assms(3) sound1] .
  from assms(2) obtain c where w: "w \<in> set (db_waits db1)" "wt_execution w = sp_execution q" "wt_token_hash w = sp_token_hash q"
    "sp_checkpoint q = Some c" "wt_checkpoint w = c" "wt_run_count w = sp_run_count q" "wt_tenant w = tenant"
    "tenant \<noteq> []" "sp_execution q \<noteq> []"
    by (auto simp: suspend_execution_def Let_def insert_wait_def new_wait_def)
  from assms(4) obtain x y where x: "x \<in> set (db_waits db2)" "wt_token_hash x = sp_token_hash q" "wt_consumed x = None"
    "held_execution x db2 = Inr y" "db3 = answer_wait x (resumed_wait now2 output) (release_as StQueued) db2"
    by (auto simp: resume_wait_def dest: find_SomeD)
  from waits_follow_member [OF steps_waits [OF assms(3) sound1] w(1)] obtain w2 where
    w2: "w2 \<in> set (db_waits db2)" "wait_kept w w2" by blast
  have "wt_token_hash w2 = sp_token_hash q" using w2(2) w(3) by (simp add: wait_kept_def)
  with x(1,2) w2(1) have "x = w2" using same_token [OF sound2] by metis
  with w2 w have xw: "wt_execution x = sp_execution q" "wt_checkpoint x = c" "wt_run_count x = sp_run_count q" "wt_tenant x = tenant"
    by (auto simp: wait_kept_def)
  define w3 where "w3 = resumed_wait now2 output x"
  define others where "others = filter (\<lambda>v. wt_tenant v = tenant \<and> wt_execution v = sp_execution q \<and>
      wt_consumed v \<noteq> None \<and> wt_outcome v = OutcomeResumed) (db_waits db3)"
  have waits: "db_waits db3 = change_rows (\<lambda>v. wt_id v = wt_id x \<and> wt_consumed v = None) (resumed_wait now2 output) (db_waits db2)"
    by (simp add: x(5) answer_wait_def change_waits_def)
  have "w3 \<in> set others"
    using x(1,3) xw by (auto simp: others_def waits change_rows_def w3_def resumed_wait_def consume_def)
  moreover have newest: "wt_id v \<le> wt_id w3" if v: "v \<in> set others" for v
  proof -
    obtain v2 where "v2 \<in> set (db_waits db2)" "wt_id v2 = wt_id v" "wt_execution v2 = sp_execution q"
      using v by (auto simp: others_def waits change_rows_def resumed_wait_def consume_def split: if_splits)
    then have "wt_id v \<le> wt_id x"
      using sound_newest [OF sound2] x(1,3) xw(1) unfolding holds_newest_def by metis
    then show ?thesis by (simp add: w3_def resumed_wait_def consume_def)
  qed
  moreover have "v = w3" if "v \<in> set others" "wt_id v = wt_id w3" for v
  proof -
    have "sound db3" using step_sound [OF store_step.resumes [OF assms(4)] sound2] by simp
    moreover have "set others \<subseteq> set (db_waits db3)" by (simp add: others_def)
    ultimately show ?thesis using same_wait [OF _ _ _ that(2)] that(1) \<open>w3 \<in> set others\<close> by blast
  qed
  ultimately have "first_by (\<lambda>v. - int (wt_id v)) others = Some w3" by (intro first_by_newest)
  then have "load_resume_state tenant (sp_execution q) db3 = Inr w3"
    using w(8,9) by (simp add: load_resume_state_def others_def)
  moreover have "row_at db3 (sp_execution q) = Some (release_as StQueued y)"
  proof -
    have "row_change (Some y) (Some (release_as StQueued y))"
      using held_execution_row(2) [OF sound2 x(4,1,3)] by (rule row_change.continued)
    then have "row_at db3 = (row_at db2)(wt_execution x \<mapsto> release_as StQueued y)"
      unfolding x(5) by (intro sound_answer(2) [OF sound2 x(1,3,4)]) (simp_all add: resumed_wait_def consume_def wait_kept_def release_as_def)
    then show ?thesis using xw(1) by simp
  qed
  ultimately show ?thesis using w(4) xw
    by (auto simp: w3_def resumed_wait_def consume_def release_as_def)
qed

theorem resume_restores_example:
  "\<exists>w. load_resume_state ''t'' ''e1'' example_answered = Inr w \<and> wt_checkpoint w = 7 \<and> wt_run_count w = 3"
proof -
  obtain w r res where "suspend_execution ''t'' example_params 30 example_running = Inr ((w, r), example_waiting)"
    "resume_wait [] (sp_token_hash example_params) (RawJson JNull) 40 example_waiting = Inr (res, example_answered)"
    using example_parks example_resumes by (auto simp: example_params_def)
  from resume_restores [OF example_reachable(3) this(1) rtranclp.rtrancl_refl this(2)] show ?thesis
    by (auto simp: example_params_def)
qed

end
