(* ===== verification/Wait_Properties.thy ===== *)
theory Wait_Properties
  imports Store_Properties
begin

text \<open>
  The sweep of overdue waits and the agreement of durable waits with the registry of tokens in memory.
\<close>

subsection \<open>The sweep\<close>









subsection \<open>The registry in memory\<close>









end
