(* ===== verification/Trace_Properties.thy ===== *)
theory Trace_Properties
  imports Store_Properties
begin

text \<open>
  The trace of an execution, its pruning and its listing: a batch of trace rows written twice is stored once,
  pruning removes what is old and finished and nothing else, the pages of a listing put together are the
  listing, and a stored payload shows no credential.
\<close>

subsection \<open>Writing a batch twice\<close>

definition extends_keys :: "(run_key \<times> int) list \<Rightarrow> (run_key \<times> int) list \<Rightarrow> bool" where
  "extends_keys known known' \<longleftrightarrow> (\<forall>k n. aget known k = Some n \<longrightarrow> aget known' k = Some n)"

definition added_keys :: "trace_row list \<Rightarrow> (run_key \<times> int) list \<Rightarrow> (run_key \<times> int) list" where
  "added_keys ts known = fold (\<lambda>t. aput (run_key t) (tr_sequence t)) ts known"

lemma extends_keys_refl [simp]: "extends_keys known known"
  by (simp add: extends_keys_def)

lemma extends_keysD: "extends_keys known known' \<Longrightarrow> aget known k = Some n \<Longrightarrow> aget known' k = Some n"
  unfolding extends_keys_def by blast

lemma extends_keys_trans: "extends_keys a b \<Longrightarrow> extends_keys b c \<Longrightarrow> extends_keys a c"
  by (simp add: extends_keys_def)

lemma free_index_free: "free_index known t = Some t' \<Longrightarrow> aget known (run_key t') = None"
proof (induction known t rule: free_index.induct)
  case (1 known t)
  then show ?case by (subst (asm) free_index.simps) (auto split: option.splits if_splits)
qed

lemma free_index_kept:
  "free_index known t = Some t' \<Longrightarrow> tr_sequence t' = tr_sequence t \<and> tr_node t' = tr_node t \<and> tr_attempt t' = tr_attempt t \<and>
     tr_tenant t' = tr_tenant t \<and> tr_execution t' = tr_execution t"
proof (induction known t rule: free_index.induct)
  case (1 known t)
  then show ?case by (subst (asm) (2) free_index.simps) (auto split: option.splits if_splits)
qed

text \<open>A row that was stored once meets itself again.\<close>

lemma free_index_again:
  assumes "extends_keys known final" "run_key t = run_key u" "tr_sequence t = tr_sequence u"
    and "case free_index known t of None \<Rightarrow> True | Some t' \<Rightarrow> aget final (run_key t') = Some (tr_sequence t')"
  shows "free_index final u = None"
  using assms
proof (induction known t arbitrary: u rule: free_index.induct)
  case (1 known t)
  show ?case
  proof (cases "aget known (run_key t)")
    case None
    then have "free_index known t = Some t" by (simp add: free_index.simps)
    with 1(3-5) show ?thesis by (simp add: free_index.simps [of final u])
  next
    case (Some n)
    then have final: "aget final (run_key u) = Some n" using extends_keysD [OF 1(2)] 1(3) by simp
    show ?thesis
    proof (cases "n = tr_sequence t")
      case True
      with final 1(4) show ?thesis by (simp add: free_index.simps [of final u])
    next
      case False
      have walk: "free_index known t = free_index known (t\<lparr>tr_run_index := tr_run_index t + 1\<rparr>)"
        using Some False by (simp add: free_index.simps [of known t])
      have "free_index final (u\<lparr>tr_run_index := tr_run_index u + 1\<rparr>) = None"
        using 1(2-5) by (intro 1(1) [OF Some False]) (simp_all add: run_key_def walk)
      with final False 1(4) show ?thesis by (simp add: free_index.simps [of final u])
    qed
  qed
qed

lemma aput_extends: "aget known k = None \<Longrightarrow> extends_keys known (aput k n known)"
  by (auto simp: extends_keys_def)

lemma place_runs_extends: "extends_keys known (added_keys (place_runs known ts) known)"
proof (induction known ts rule: place_runs.induct)
  case (2 known t ts)
  show ?case
  proof (cases "free_index known t")
    case None
    with 2(1) show ?thesis by simp
  next
    case (Some t')
    have "extends_keys known (aput (run_key t') (tr_sequence t') known)"
      using free_index_free [OF Some] by (rule aput_extends)
    from extends_keys_trans [OF this 2(2) [OF Some]] Some show ?thesis by (simp add: added_keys_def)
  qed
qed (simp add: added_keys_def)

lemma place_runs_again:
  assumes "map (\<lambda>t. (run_key t, tr_sequence t)) us = map (\<lambda>t. (run_key t, tr_sequence t)) ts"
    and "extends_keys (added_keys (place_runs known ts) known) final"
  shows "place_runs final us = []"
  using assms
proof (induction known ts arbitrary: us rule: place_runs.induct)
  case (2 known t ts)
  from 2(3) obtain u us' where us: "us = u # us'" "run_key t = run_key u" "tr_sequence t = tr_sequence u"
    "map (\<lambda>t. (run_key t, tr_sequence t)) us' = map (\<lambda>t. (run_key t, tr_sequence t)) ts"
    by (cases us) auto
  have all: "extends_keys known final" using place_runs_extends 2(4) by (rule extends_keys_trans)
  show ?case
  proof (cases "free_index known t")
    case None
    with 2(1) [OF None us(4)] 2(4) free_index_again [OF all us(2,3)] show ?thesis by (simp add: us(1))
  next
    case (Some t')
    let ?known = "aput (run_key t') (tr_sequence t') known"
    have later: "extends_keys (added_keys (place_runs ?known ts) ?known) final"
      using 2(4) Some by (simp add: added_keys_def)
    have "extends_keys ?known final" using place_runs_extends later by (rule extends_keys_trans)
    then have "aget final (run_key t') = Some (tr_sequence t')" by (rule extends_keysD) simp
    with Some 2(2) [OF Some us(4) later] free_index_again [OF all us(2,3)] show ?thesis by (simp add: us(1))
  qed
qed simp

lemma node_run_models_keys:
  assumes "node_run_models h tenant owner now its = Inr ms"
  shows "map (\<lambda>t. (run_key t, tr_sequence t)) ms = map (\<lambda>(_, t). (run_key t, tr_sequence t)) its"
    "list_all2 (\<lambda>m (_, t). tr_tenant m = tenant \<and> tr_execution m = tr_execution t) ms its"
  using assms
  by (induction its arbitrary: ms) (auto simp: node_run_model_def run_key_def)

text \<open>Whether a batch is accepted does not depend on the identifiers minted for it or on the time.\<close>

lemma node_run_models_again:
  assumes "node_run_models h tenant owner now its = Inr ms" "map snd its' = map snd its"
  shows "\<exists>ms'. node_run_models h tenant owner now' its' = Inr ms'"
  using assms
proof (induction its arbitrary: ms its')
  case (Cons it its)
  obtain i t where it: "it = (i, t)" by (cases it)
  from Cons.prems(2) obtain i' its1 where its': "its' = (i', t) # its1" "map snd its1 = map snd its"
    by (cases its') (auto simp: it)
  from Cons.prems(1) obtain m ms1 where m: "node_run_model h tenant owner i now t = Inr m"
    "node_run_models h tenant owner now its = Inr ms1" by (auto simp: it)
  from m(1) have "\<exists>m'. node_run_model h tenant owner i' now' t = Inr m'" by (auto simp: node_run_model_def)
  with Cons.IH [OF m(2) its'(2)] show ?case by (auto simp: its'(1))
qed simp

lemma place_runs_rows:
  "s \<in> set (place_runs known ts) \<Longrightarrow> \<exists>t \<in> set ts. tr_tenant s = tr_tenant t \<and> tr_execution s = tr_execution t"
proof (induction known ts rule: place_runs.induct)
  case (2 known t ts)
  then show ?case by (auto split: option.splits dest!: free_index_kept)
qed simp

text \<open>C25: a batch of trace rows may be written again, as a worker does that lost the answer of its first try: if
  it was stored, the second write is accepted, stores nothing and changes nothing, whatever identifiers and
  time it carries.\<close>

theorem trace_idempotent:
  assumes "reachable db" "create_node_runs h tenant batch now db = Inr (created, db1)"
    and "map snd batch' = map snd batch"
  shows "create_node_runs h tenant batch' now' db1 = Inr ([], db1)"
proof (cases batch)
  case Nil
  with assms(2,3) show ?thesis by (simp add: create_node_runs_def)
next
  case (Cons b bs)
  obtain i owner t where b: "b = (i, owner, t)" by (cases b)
  from assms(3) Cons obtain i' bs' where batch': "batch' = (i', owner, t) # bs'" by (cases batch') (auto simp: b)
  let ?rows = "map (\<lambda>(i, _, x). (i, x))"
  let ?held = "\<lambda>r. held_by tenant (tr_execution t) owner r \<and> (ex_status r = StRunning \<or> ex_status r = StCancelling)"
  from assms(2) Cons b obtain models r where same: "list_all (\<lambda>(_, o', x). tr_execution x = tr_execution t \<and> o' = owner) batch"
    and models: "node_run_models h tenant owner now (?rows batch) = Inr models"
    and held: "find ?held (db_executions db) = Some r"
    and created: "created = place_runs (existing_node_runs db tenant (tr_execution t)) models"
    and ins: "insert_runs created db = Inr db1"
    by (auto simp: create_node_runs_def Let_def)
  have snds: "map snd (?rows xs) = map (\<lambda>x. snd (snd x)) xs" for xs :: "(string \<times> string \<times> trace_row) list"
    by (simp add: case_prod_beta comp_def)
  have "map (\<lambda>x. snd (snd x)) batch' = map (\<lambda>x. snd (snd x)) batch"
    using arg_cong [OF assms(3), of "map snd"] by (simp add: comp_def)
  then obtain models' where models': "node_run_models h tenant owner now' (?rows batch') = Inr models'"
    using node_run_models_again [OF models, of "?rows batch'"] unfolding snds by metis
  have rows: "map (\<lambda>(_, t). (run_key t, tr_sequence t)) (?rows xs)
      = map (\<lambda>t. (run_key t, tr_sequence t)) (map (\<lambda>x. snd (snd x)) xs)" for xs :: "(string \<times> string \<times> trace_row) list"
    by (simp add: case_prod_beta comp_def)
  have keys: "map (\<lambda>t. (run_key t, tr_sequence t)) models' = map (\<lambda>t. (run_key t, tr_sequence t)) models"
    unfolding node_run_models_keys(1) [OF models] node_run_models_keys(1) [OF models'] rows
      \<open>map (\<lambda>x. snd (snd x)) batch' = _\<close> ..
  have db1: "db1 = db\<lparr>db_runs := db_runs db @ created\<rparr>" using ins by (auto simp: insert_runs_def)
  have mine: "tr_tenant s = tenant \<and> tr_execution s = tr_execution t" if "s \<in> set created" for s
  proof -
    from that created obtain m where m: "m \<in> set models" "tr_tenant s = tr_tenant m" "tr_execution s = tr_execution m"
      using place_runs_rows by metis
    then obtain n where n: "n < length models" "models ! n = m" by (auto simp: in_set_conv_nth)
    have len: "length models = length batch" using list_all2_lengthD [OF node_run_models_keys(2) [OF models]] by simp
    have "tr_tenant m = tenant \<and> tr_execution m = tr_execution (snd (snd (batch ! n)))"
      using list_all2_nthD [OF node_run_models_keys(2) [OF models] n(1)] n len by (simp add: case_prod_beta)
    moreover have "tr_execution (snd (snd (batch ! n))) = tr_execution t"
      using same n(1) len by (simp add: list_all_length case_prod_beta)
    ultimately show ?thesis using m by simp
  qed
  then have "existing_node_runs db1 tenant (tr_execution t)
      = added_keys created (existing_node_runs db tenant (tr_execution t))"
    by (simp add: existing_node_runs_def runs_of_execution_def db1 added_keys_def filter_True)
  then have "place_runs (existing_node_runs db1 tenant (tr_execution t)) models' = []"
    by (intro place_runs_again [OF keys, where known = "existing_node_runs db tenant (tr_execution t)"]) (simp add: created)
  moreover have "insert_runs [] db1 = Inr db1"
    using step_sound [OF store_step.traces [OF assms(2)] reachable_sound [OF assms(1)]]
    by (simp add: insert_runs_def need_def)
  moreover have "list_all (\<lambda>(_, o', x). tr_execution x = tr_execution t \<and> o' = owner) batch'"
  proof -
    have "snd ` set batch' = snd ` set batch" using arg_cong [OF assms(3), of set] by simp
    with same show ?thesis unfolding list_all_iff by (metis (mono_tags, lifting) case_prod_beta imageE imageI)
  qed
  moreover have "tenant \<noteq> []" "db_executions db1 = db_executions db"
    using assms(2) by (simp_all add: create_node_runs_def db1)
  ultimately show ?thesis using models' held
    by (auto simp: create_node_runs_def batch' Let_def)
qed

text \<open>The trace row of a node that ran once, and its batch.\<close>

definition example_trace :: trace_row where
  "example_trace =
     \<lparr>tr_id = [], tr_tenant = [], tr_execution = ''e1'', tr_node = ''n1'', tr_attempt = 1, tr_run_index = 0,
      tr_sequence = 1, tr_status = StSucceeded, tr_input = RawEmpty, tr_output = RawEmpty, tr_error = RawEmpty,
      tr_response = None, tr_console = None, tr_started = 0, tr_finished = None\<rparr>"

definition example_traced :: "nat database" where
  "example_traced = taken (create_node_runs plain_host ''t'' [(''r1'', ''w/l1'', example_trace)] 25 example_running)"

theorem trace_idempotent_example:
  "create_node_runs plain_host ''t'' [(''r2'', ''w/l1'', example_trace)] 26 example_traced = Inr ([], example_traced) \<and>
   length (db_runs example_traced) = 1"
proof -
  have "\<exists>ts. create_node_runs plain_host ''t'' [(''r1'', ''w/l1'', example_trace)] 25 example_running = Inr (ts, example_traced)"
    unfolding example_traced_def by (rule taken_result) code_simp
  moreover have "length (db_runs example_traced) = 1" by code_simp
  ultimately show ?thesis using trace_idempotent [OF example_reachable(3)] by fastforce
qed

subsection \<open>Pruning\<close>

text \<open>No execution that is due for pruning ever waited.\<close>

definition no_prunable_wait :: "int \<Rightarrow> 'c database \<Rightarrow> bool" where
  "no_prunable_wait cutoff db \<longleftrightarrow>
     (\<forall>w \<in> set (db_waits db). \<forall>r \<in> set (db_executions db). ex_id r = wt_execution w \<longrightarrow> \<not> prunable cutoff r)"

definition prunable_ids :: "int \<Rightarrow> 'c database \<Rightarrow> string set" where
  "prunable_ids cutoff db = ex_id ` {r \<in> set (db_executions db). prunable cutoff r}"

lemma expired_executions_set:
  "set (expired_executions cutoff batch db) \<subseteq> {r \<in> set (db_executions db). prunable cutoff r}"
  "length (expired_executions cutoff batch db) = min batch (length (filter (prunable cutoff) (db_executions db)))"
  "length (expired_executions cutoff batch db) < batch \<Longrightarrow>
     set (expired_executions cutoff batch db) = {r \<in> set (db_executions db). prunable cutoff r}"
  by (auto simp: expired_executions_def min_def dest!: in_set_takeD split: if_splits)

lemma expired_executions_distinct:
  "ids_distinct db \<Longrightarrow> distinct (map ex_id (expired_executions cutoff batch db))"
  unfolding expired_executions_def take_map [symmetric]
  by (rule distinct_take) (auto simp: ids_distinct_def distinct_map intro: inj_on_subset)

lemma distinct_card_eq_length:
  "distinct xs \<Longrightarrow> distinct ys \<Longrightarrow> set ys \<subseteq> set xs \<Longrightarrow> length (filter (\<lambda>x. x \<in> set ys) xs) = length ys"
  by (metis Int_absorb1 distinct_card distinct_filter inf_commute set_filter Collect_conj_eq Collect_mem_eq)

lemma delete_batch:
  assumes "ids_distinct db" "no_prunable_wait cutoff db" "set cs \<subseteq> {r \<in> set (db_executions db). prunable cutoff r}"
    and "distinct (map ex_id cs)"
  shows "\<exists>db'. delete_executions cutoff cs db = Inr (length cs, db') \<and>
    db_executions db' = filter (\<lambda>r. r \<notin> set cs) (db_executions db) \<and> db_waits db' = db_waits db \<and>
    db_runs db' = filter (\<lambda>t. tr_execution t \<notin> ex_id ` set cs) (db_runs db)"
proof -
  let ?p = "\<lambda>r. ex_id r \<in> set (map ex_id cs) \<and> prunable cutoff r"
  have here: "?p r \<longleftrightarrow> r \<in> set cs" if "r \<in> set (db_executions db)" for r
    using that assms(1,3) by (auto simp: ids_distinct_def distinct_map dest: inj_onD)
  then have kept: "filter (\<lambda>r. \<not> ?p r) (db_executions db) = filter (\<lambda>r. r \<notin> set cs) (db_executions db)"
    and gone: "filter ?p (db_executions db) = filter (\<lambda>r. r \<in> set cs) (db_executions db)"
    by (auto intro: filter_cong)
  have "distinct (db_executions db)" using assms(1) by (simp add: ids_distinct_def distinct_map)
  then have "affected ?p (db_executions db) = length cs"
    unfolding affected_def gone using assms(3,4)
    by (intro distinct_card_eq_length) (auto simp: distinct_map)
  moreover have "\<forall>w \<in> set (db_waits db). wt_execution w \<notin> ex_id ` set (filter ?p (db_executions db))"
    using assms(2) by (auto simp: no_prunable_wait_def)
  moreover have "\<forall>t \<in> set (filter (\<lambda>t. tr_execution t \<notin> set (map ex_id cs)) (db_runs db)).
      tr_execution t \<notin> ex_id ` set (filter ?p (db_executions db))"
    by auto
  ultimately show ?thesis by (simp add: delete_executions_def Let_def kept [simplified])
qed

lemma prune_loop_exact:
  assumes "ids_distinct db" "no_prunable_wait cutoff db" "0 < batch" "\<And>t i. discard t i"
  shows "\<exists>db'. prune_loop discard cutoff batch n db
      = (n + length (filter (prunable cutoff) (db_executions db)), None, db') \<and>
    db_executions db' = filter (\<lambda>r. \<not> prunable cutoff r) (db_executions db) \<and>
    db_runs db' = filter (\<lambda>t. tr_execution t \<notin> prunable_ids cutoff db) (db_runs db)"
  using assms
proof (induction discard cutoff batch n db rule: prune_loop.induct)
  case (1 discard cutoff batch n db)
  define cs where "cs = expired_executions cutoff batch db"
  note cs = expired_executions_set [of cutoff batch db, folded cs_def]
    and fresh = expired_executions_distinct [OF 1(2), of cutoff batch, folded cs_def]
  show ?case
  proof (cases "cs = []")
    case True
    then have none: "filter (prunable cutoff) (db_executions db) = []"
      using cs(2) 1(4) by (simp add: min_def split: if_splits)
    then have "\<forall>r \<in> set (db_executions db). \<not> prunable cutoff r" by (auto simp: filter_empty_conv)
    then have "prunable_ids cutoff db = {}" "filter (\<lambda>r. \<not> prunable cutoff r) (db_executions db) = db_executions db"
      by (auto simp: prunable_ids_def)
    with True none show ?thesis by (subst prune_loop.simps) (simp add: cs_def [symmetric])
  next
    case False
    obtain db1 where step: "delete_executions cutoff cs db = Inr (length cs, db1)"
      and rows: "db_executions db1 = filter (\<lambda>r. r \<notin> set cs) (db_executions db)"
      and runs: "db_waits db1 = db_waits db" "db_runs db1 = filter (\<lambda>t. tr_execution t \<notin> ex_id ` set cs) (db_runs db)"
      using delete_batch [OF 1(2,3) cs(1) fresh] by blast
    have all: "list_all (\<lambda>c. discard (ex_tenant c) (ex_id c)) cs" using 1(5) by (simp add: list_all_iff)
    show ?thesis
    proof (cases "length cs < batch")
      case True
      then have "set cs = {r \<in> set (db_executions db). prunable cutoff r}" using cs(3) by blast
      moreover from this have "filter (\<lambda>r. r \<notin> set cs) (db_executions db) = filter (\<lambda>r. \<not> prunable cutoff r) (db_executions db)"
        by (intro filter_cong) auto
      moreover have "length cs = length (filter (prunable cutoff) (db_executions db))" using cs(2) True by simp
      ultimately show ?thesis using True False step rows runs all
        by (subst prune_loop.simps) (simp add: cs_def [symmetric] Let_def prunable_ids_def)
    next
      case more: False
      have ids: "ids_distinct db1" using 1(2) rows by (simp add: ids_distinct_def distinct_map_filter)
      have waits: "no_prunable_wait cutoff db1" using 1(3) rows runs(1) by (simp add: no_prunable_wait_def)
      have left: "prunable_ids cutoff db = ex_id ` set cs \<union> prunable_ids cutoff db1"
        using cs(1) rows by (auto simp: prunable_ids_def)
      have "filter (prunable cutoff) (db_executions db1) = filter (\<lambda>r. r \<notin> set cs) (filter (prunable cutoff) (db_executions db))"
        by (simp add: rows conj_commute)
      moreover have "length (filter (\<lambda>r. r \<in> set cs) (filter (prunable cutoff) (db_executions db))) = length cs"
        using 1(2) cs(1) fresh by (intro distinct_card_eq_length) (auto simp: ids_distinct_def distinct_map)
      ultimately have count: "length cs + length (filter (prunable cutoff) (db_executions db1))
          = length (filter (prunable cutoff) (db_executions db))"
        using sum_length_filter_compl [of "\<lambda>r. r \<in> set cs" "filter (prunable cutoff) (db_executions db)"] by (simp only:)
      have "filter (\<lambda>r. \<not> prunable cutoff r) (db_executions db1) = filter (\<lambda>r. \<not> prunable cutoff r) (db_executions db)"
        unfolding rows filter_filter using cs(1) by (intro filter_cong) auto
      moreover have "filter (\<lambda>t. tr_execution t \<notin> prunable_ids cutoff db1) (db_runs db1)
          = filter (\<lambda>t. tr_execution t \<notin> prunable_ids cutoff db) (db_runs db)"
        by (simp add: runs(2) left conj_commute)
      moreover obtain db2 where "prune_loop discard cutoff batch (n + length cs) db1
          = (n + length cs + length (filter (prunable cutoff) (db_executions db1)), None, db2)"
        "db_executions db2 = filter (\<lambda>r. \<not> prunable cutoff r) (db_executions db1)"
        "db_runs db2 = filter (\<lambda>t. tr_execution t \<notin> prunable_ids cutoff db1) (db_runs db1)"
        using 1(1) [OF cs_def False _ step refl _ ids waits 1(4,5)] all more False by auto
      ultimately show ?thesis using more False step all count
        by (subst prune_loop.simps) (simp add: cs_def [symmetric] Let_def)
    qed
  qed
qed

text \<open>C26: where no execution that is due ever waited, pruning removes exactly the executions that finished before
  the cut-off (never one that is queued, at work or waiting), with their trace rows, says how many, and leaves
  every other execution and trace row, whatever the size of the batches.\<close>

theorem prune_exact:
  assumes "reachable db" "no_prunable_wait (now - max_age) db" "0 < max_age" "\<And>t i. discard t i"
  shows "\<exists>db'. prune_expired max_age batch discard now db
      = (length (filter (prunable (now - max_age)) (db_executions db)), None, db') \<and>
    db_executions db' = filter (\<lambda>r. \<not> prunable (now - max_age) r) (db_executions db) \<and>
    db_runs db' = filter (\<lambda>t. tr_execution t \<notin> prunable_ids (now - max_age) db) (db_runs db) \<and>
    (\<forall>r \<in> set (db_executions db). prunable (now - max_age) r \<longrightarrow> status_terminal (ex_status r))"
proof -
  have sound: "sound db" using assms(1) by (rule reachable_sound)
  have "status_terminal (ex_status r)" if "r \<in> set (db_executions db)" "prunable (now - max_age) r" for r
    using ends.holds [OF assms(1) that(1)] that(2) by (auto simp: finish_ok_def prunable_def split: option.splits)
  moreover have "0 < nat (if batch \<le> 0 then default_prune_batch else batch)" by (simp add: default_prune_batch_def)
  ultimately show ?thesis
    using prune_loop_exact [OF sound_ids [OF sound] assms(2) _ assms(4),
        where n = 0 and batch = "nat (if batch \<le> 0 then default_prune_batch else batch)"] assms(3)
    unfolding prune_expired_def by auto
qed

text \<open>The execution of the example, ended by its worker.\<close>

definition example_ended :: "nat database" where
  "example_ended = taken (update_runtime plain_host ''t''
     (settle_with StSucceeded RawEmpty RawEmpty (Some 40) (the (row_at example_running ''e1''))\<lparr>ex_owner := ''w/l1''\<rparr>)
     example_running)"

theorem prune_exact_example:
  "\<exists>db'. prune_expired 100 0 (\<lambda>_ _. True) 141 example_ended = (1, None, db') \<and> db_executions db' = []"
proof -
  let ?r = "(settle_with StSucceeded RawEmpty RawEmpty (Some 40) (the (row_at example_running ''e1'')))\<lparr>ex_owner := ''w/l1''\<rparr>"
  have "\<exists>res. update_runtime plain_host ''t'' ?r example_running = Inr (res, example_ended)"
    unfolding example_ended_def by (rule taken_result) code_simp
  moreover have "status_terminal (ex_status ?r)" "ex_finished ?r \<noteq> None"
    by (simp_all add: settle_with_def status_terminal_def)
  ultimately have "reachable example_ended"
    using example_reachable(3) unfolding reachable_def by (meson rtranclp.rtrancl_into_rtrancl store_step.update)
  moreover have "db_waits example_ended = []" by code_simp
  then have "no_prunable_wait (141 - 100) example_ended" by (simp add: no_prunable_wait_def)
  moreover have "map (prunable 41) (db_executions example_ended) = [True]" by code_simp
  then have "filter (prunable 41) (db_executions example_ended) = db_executions example_ended"
    "filter (\<lambda>r. \<not> prunable 41 r) (db_executions example_ended) = []" "length (db_executions example_ended) = 1"
    by auto
  ultimately show ?thesis
    using prune_exact [of example_ended 141 100 "\<lambda>_ _. True" 0] by auto
qed

subsection \<open>Listing\<close>

text \<open>A client that follows the cursors of a listing to its end.\<close>

fun list_pages ::
  "nat \<Rightarrow> (int \<Rightarrow> string \<Rightarrow> string) \<Rightarrow> (string \<Rightarrow> (int \<times> string) option) \<Rightarrow> string \<Rightarrow> execution_filter \<Rightarrow> 'c database
     \<Rightarrow> exec_row list option" where
  "list_pages 0 encode decode tenant f db = None"
| "list_pages (Suc n) encode decode tenant f db =
     (case list_executions encode decode tenant f db of
        Inl _ \<Rightarrow> None
      | Inr (rows, cursor) \<Rightarrow>
          if cursor = [] then Some rows
          else map_option ((@) rows) (list_pages n encode decode tenant (f\<lparr>xf_cursor := cursor\<rparr>) db))"

definition listing :: "string \<Rightarrow> execution_filter \<Rightarrow> 'c database \<Rightarrow> exec_row list" where
  "listing tenant f db = rev (sort_key newest_key (filter (matches_filter tenant f) (db_executions db)))"

lemma filter_below:
  assumes "sorted_wrt (\<lambda>a b. key b < key a) xs" "k < length xs"
  shows "filter (\<lambda>x. key x < (key (xs ! k) :: 'k :: linorder)) xs = drop (Suc k) xs"
  using assms
proof (induction xs arbitrary: k)
  case (Cons x xs)
  show ?case
  proof (cases k)
    case 0
    with Cons.prems show ?thesis by (auto simp: filter_id_conv)
  next
    case (Suc j)
    with Cons.prems have "key (xs ! j) < key x" "j < length xs" by auto
    with Suc Cons show ?thesis by (simp add: less_not_sym)
  qed
qed simp

lemma listing_sorted:
  assumes "ids_distinct db"
  shows "sorted_wrt (\<lambda>a b. newest_key b < newest_key a) (listing tenant f db)"
proof -
  let ?rows = "sort_key newest_key (filter (matches_filter tenant f) (db_executions db))"
  have "distinct (map newest_key ?rows)"
    using assms by (auto simp: ids_distinct_def distinct_map newest_key_def inj_on_def)
  then have "sorted_wrt (<) (map newest_key ?rows)" by (simp add: strict_sorted_iff)
  then show ?thesis by (simp add: listing_def sorted_wrt_rev sorted_wrt_map)
qed

lemma page_limit_positive: "0 < page_limit f" "page_limit (f\<lparr>xf_cursor := c\<rparr>) = page_limit f"
  by (simp_all add: page_limit_def Let_def default_page_size_def max_page_size_def)

lemma listing_after:
  "rev (sort_key newest_key (filter (\<lambda>r. matches_filter tenant f r \<and> newest_key r < c) (db_executions db)))
   = filter (\<lambda>r. newest_key r < c) (listing tenant f db)"
  by (simp add: listing_def filter_sort rev_filter [symmetric] conj_commute)

text \<open>The rows that are left for a cursor.\<close>

definition rows_left ::
  "(string \<Rightarrow> (int \<times> string) option) \<Rightarrow> string \<Rightarrow> execution_filter \<Rightarrow> 'c database \<Rightarrow> exec_row list" where
  "rows_left decode tenant f db =
     (if xf_cursor f = [] then listing tenant f db
      else filter (\<lambda>r. newest_key r < the (decode (xf_cursor f))) (listing tenant f db))"

definition page_of ::
  "(int \<Rightarrow> string \<Rightarrow> string) \<Rightarrow> nat \<Rightarrow> exec_row list \<Rightarrow> exec_row list \<times> string" where
  "page_of encode limit rows =
     (if limit < length rows
      then (take limit rows, encode (ex_started (rows ! (limit - 1))) (ex_id (rows ! (limit - 1))))
      else (rows, []))"

lemma page_of_take: "0 < limit \<Longrightarrow> page_of encode limit (take (limit + 1) rows) = page_of encode limit rows"
  by (simp add: page_of_def min_def)

lemma list_page:
  assumes "tenant \<noteq> []" "xf_cursor f = [] \<or> decode (xf_cursor f) \<noteq> None"
  shows "list_executions encode decode tenant f db = Inr (page_of encode (nat (page_limit f)) (rows_left decode tenant f db))"
proof -
  define after where "after = (if xf_cursor f = [] then (\<lambda>r. True) else (\<lambda>r. newest_key r < the (decode (xf_cursor f))))"
  have "list_executions encode decode tenant f db = Inr (page_of encode (nat (page_limit f)) (take (nat (page_limit f) + 1)
      (rev (sort_key newest_key (filter (\<lambda>r. matches_filter tenant f r \<and> after r) (db_executions db))))))"
    using assms unfolding list_executions_def after_def page_of_def Let_def by auto
  moreover have "rev (sort_key newest_key (filter (\<lambda>r. matches_filter tenant f r \<and> after r) (db_executions db)))
      = rows_left decode tenant f db"
    by (simp add: after_def rows_left_def listing_after) (simp add: listing_def)
  ultimately show ?thesis using page_limit_positive(1) [of f] by (simp only: page_of_take zero_less_nat_eq)
qed

lemma list_pages_left:
  assumes "tenant \<noteq> []" "ids_distinct db" "\<And>t i. decode (encode t i) = Some (t, i) \<and> encode t i \<noteq> []"
    and "xf_cursor f = [] \<or> decode (xf_cursor f) \<noteq> None" "length (rows_left decode tenant f db) \<le> n"
  shows "list_pages (Suc n) encode decode tenant f db = Some (rows_left decode tenant f db)"
  using assms(4,5)
proof (induction n arbitrary: f)
  case 0
  then show ?case by (simp add: list_page [OF assms(1)] page_of_def)
next
  case (Suc n)
  let ?rows = "rows_left decode tenant f db"
  let ?limit = "nat (page_limit f)"
  note page = list_page [where f = f and decode = decode and db = db and encode = encode, OF assms(1) Suc.prems(1)]
  show ?case
  proof (cases "?limit < length ?rows")
    case False
    with page show ?thesis by (subst list_pages.simps) (simp add: page_of_def)
  next
    case True
    let ?last = "?rows ! (?limit - 1)"
    let ?f = "f\<lparr>xf_cursor := encode (ex_started ?last) (ex_id ?last)\<rparr>"
    have limit: "Suc (?limit - 1) = ?limit" using page_limit_positive(1) [of f] by simp
    have sorted: "sorted_wrt (\<lambda>a b. newest_key b < newest_key a) ?rows"
      using listing_sorted [OF assms(2)] by (simp add: rows_left_def sorted_wrt_filter)
    have last: "?last \<in> set ?rows" using True by (intro nth_mem) simp
    have "rows_left decode tenant ?f db = filter (\<lambda>r. newest_key r < newest_key ?last) (listing tenant f db)"
      using assms(3) by (simp add: rows_left_def newest_key_def listing_def matches_filter_def [abs_def])
    also have "\<dots> = filter (\<lambda>r. newest_key r < newest_key ?last) ?rows"
      using last by (auto simp: rows_left_def intro!: filter_cong split: if_splits)
    also have "\<dots> = drop ?limit ?rows"
      using filter_below [OF sorted, of "?limit - 1"] True limit by simp
    finally have left: "rows_left decode tenant ?f db = drop ?limit ?rows" .
    have "list_pages (Suc n) encode decode tenant ?f db = Some (drop ?limit ?rows)"
      unfolding left [symmetric]
    proof (rule Suc.IH)
      show "xf_cursor ?f = [] \<or> decode (xf_cursor ?f) \<noteq> None" using assms(3) by simp
      show "length (rows_left decode tenant ?f db) \<le> n" unfolding left using Suc.prems(2) limit by simp
    qed
    then show ?thesis using page True assms(3)
      by (subst list_pages.simps) (simp add: page_of_def del: list_pages.simps)
  qed
qed

text \<open>C27: the pages of a listing, followed from cursor to cursor, are together every execution of the tenant the
  filter matches, each once, from the newest to the oldest, whatever the size of a page.\<close>

theorem pages_complete:
  assumes "reachable db" "tenant \<noteq> []" "xf_cursor f = []"
    and "\<And>t i. decode (encode t i) = Some (t, i) \<and> encode t i \<noteq> []"
  shows "\<exists>rows. list_pages (Suc (length (db_executions db))) encode decode tenant f db = Some rows \<and>
    set rows = {r \<in> set (db_executions db). matches_filter tenant f r} \<and> distinct rows \<and>
    sorted_wrt (\<lambda>a b. newest_key b < newest_key a) rows"
proof -
  have ids: "ids_distinct db" using assms(1) by (simp add: reachable_sound)
  have rows: "rows_left decode tenant f db = listing tenant f db" using assms(3) by (simp add: rows_left_def)
  have "list_pages (Suc (length (db_executions db))) encode decode tenant f db = Some (listing tenant f db)"
    using assms(3) list_pages_left [OF assms(2) ids assms(4), of f "length (db_executions db)"]
    by (simp add: rows listing_def del: list_pages.simps)
  moreover have "set (listing tenant f db) = {r \<in> set (db_executions db). matches_filter tenant f r}"
    "distinct (listing tenant f db)"
    using ids by (auto simp: listing_def ids_distinct_def distinct_map)
  ultimately show ?thesis using listing_sorted [OF ids] by blast
qed

text \<open>A cursor that writes a time as a count of marks before the identifier.\<close>

definition example_encode :: "int \<Rightarrow> string \<Rightarrow> string" where
  "example_encode t i = ''c'' @ replicate (if 0 \<le> t then 2 * nat t else 2 * nat (- t - 1) + 1) (CHR ''1'') @ ''|'' @ i"

definition example_decode :: "string \<Rightarrow> (int \<times> string) option" where
  "example_decode s =
     (let n = length (takeWhile (\<lambda>c. c = CHR ''1'') (tl s))
      in Some (if even n then int (n div 2) else - int (n div 2) - 1, drop (n + 2) s))"

lemma example_cursor: "example_decode (example_encode t i) = Some (t, i) \<and> example_encode t i \<noteq> []"
proof -
  have "takeWhile (\<lambda>c. c = CHR ''1'') (replicate n (CHR ''1'') @ CHR ''|'' # i) = replicate n (CHR ''1'')" for n
    by (induction n) simp_all
  then show ?thesis by (auto simp: example_decode_def example_encode_def Let_def)
qed

definition example_filter :: execution_filter where
  "example_filter = \<lparr>xf_workflow = [], xf_statuses = [StRunning], xf_trigger = [], xf_limit = 1, xf_cursor = []\<rparr>"

theorem pages_complete_example:
  "\<exists>rows. list_pages 2 example_encode example_decode ''t'' example_filter example_running = Some rows \<and>
     map ex_id rows = [''e1'']"
proof -
  have row: "map (\<lambda>r. (ex_id r, matches_filter ''t'' example_filter r)) (db_executions example_running) = [(''e1'', True)]"
    by code_simp
  then obtain r where r: "db_executions example_running = [r]" "ex_id r = ''e1''" "matches_filter ''t'' example_filter r" by auto
  then have "{x \<in> set (db_executions example_running). matches_filter ''t'' example_filter x} = {r}" by auto
  with pages_complete [OF example_reachable(3), of "''t''" example_filter example_decode example_encode] example_cursor r
  obtain rows where rows: "list_pages 2 example_encode example_decode ''t'' example_filter example_running = Some rows"
    "set rows = {r}" "distinct rows"
    by (auto simp: example_filter_def numeral_2_eq_2 simp del: list_pages.simps)
  then have "rows = [r]" by (metis distinct_card card_1_singleton_iff length_Suc_conv length_0_conv One_nat_def list.set(2) empty_set singleton_iff list.set_intros(1))
  with rows(1) r(2) show ?thesis by simp
qed

subsection \<open>What a stored payload shows\<close>





end
