(* ===== verification/Trace_Rows.thy ===== *)
theory Trace_Rows
  imports Wait_Service
begin

text \<open>
  How a run's rows become the stored trace (\<open>traceRows\<close>, the live writer, \<open>persistChild\<close> of
  \<open>internal/engine/service.go\<close> and the suspended segment of \<open>wait_service.go\<close>), with the projection of a
  datastore node's output to counts and identifiers (\<open>internal/datastore/trace.go\<close>).

  The record \<open>rendering\<close> holds what is outside: \<open>json.Marshal\<close> of inputs and outputs (\<open>None\<close> when a value has no
  JSON form), the JSON of a response and of console lines, which errors wrap \<open>context.Canceled\<close>, the times the
  runner stamped on a row, and the conversion of a float outside \<open>int64\<close>, which Go leaves open.
\<close>

record rendering =
  rn_input :: "node_input \<Rightarrow> jval option"
  rn_output :: "node_output \<Rightarrow> jval option"
  rn_response :: "string \<Rightarrow> raw"
  rn_console :: "console \<Rightarrow> raw"
  rn_cancels :: "go_error \<Rightarrow> bool"
  rn_times :: "node_run \<Rightarrow> int \<times> int"
  rn_int64 :: "rat \<Rightarrow> int"

subsection \<open>Projecting a datastore node's output\<close>

definition datastore_type :: string where "datastore_type = ''kilasflow.datastore''"
definition max_trace_ids :: nat where "max_trace_ids = 100"

definition float_to_int64 :: "(rat \<Rightarrow> int) \<Rightarrow> rat \<Rightarrow> int" where
  "float_to_int64 outside x =
     (let n = (if x < 0 then - \<lfloor>- x\<rfloor> else \<lfloor>x\<rfloor>) in if - (2 ^ 63) \<le> n \<and> n < 2 ^ 63 then n else outside x)"

definition row_id_of :: "(rat \<Rightarrow> int) \<Rightarrow> jobject \<Rightarrow> int option" where
  "row_id_of outside m =
     (case aget m ''id'' of
        Some (JNum x) \<Rightarrow> if of_int \<lfloor>x\<rfloor> = x then Some (float_to_int64 outside x) else None
      | _ \<Rightarrow> None)"

definition count_row :: "int option \<Rightarrow> int list \<times> nat \<Rightarrow> int list \<times> nat" where
  "count_row i acc =
     (case i of
        None \<Rightarrow> acc
      | Some n \<Rightarrow> (if length (fst acc) < max_trace_ids then fst acc @ [n] else fst acc, snd acc + 1))"

fun collect_row_ids :: "(rat \<Rightarrow> int) \<Rightarrow> jval \<Rightarrow> int list \<times> nat \<Rightarrow> int list \<times> nat" where
  "collect_row_ids outside (JArr vs) acc = fold (collect_row_ids outside) vs acc"
| "collect_row_ids outside (JObj m) acc =
     fold (\<lambda>kv. collect_row_ids outside (snd kv)) m (count_row (row_id_of outside m) acc)"
| "collect_row_ids outside v acc = acc"

definition trace_envelope :: "int list \<Rightarrow> nat \<Rightarrow> jval" where
  "trace_envelope ids total_rows =
     JObj [(''datastore'', JObj
       ([(''ids'', JArr (map (\<lambda>i. JNum (of_int i)) ids)), (''rows'', JNum (of_nat total_rows))] @
        (if length ids < total_rows then [(''truncated'', JBool True)] else [])))]"

definition project_trace :: "host \<Rightarrow> (rat \<Rightarrow> int) \<Rightarrow> string \<Rightarrow> raw \<Rightarrow> raw" where
  "project_trace h outside kind r =
     (if kind \<noteq> datastore_type \<or> \<not> raw_valid r then r
      else case unmarshal r of
             None \<Rightarrow> r
           | Some v \<Rightarrow>
               (case collect_row_ids outside (rewrite_numbers (h_number h) v) ([], 0) of (ids, total_rows) \<Rightarrow>
                  if total_rows = 0 then r else RawJson (trace_envelope ids total_rows)))"

subsection \<open>A row and its event\<close>

record event =
  ev_type :: string
  ev_tenant :: string
  ev_execution :: string
  ev_workflow :: string
  ev_node :: string
  ev_status :: status
  ev_sequence :: int
  ev_data :: raw

definition structured_error :: "string \<Rightarrow> string \<Rightarrow> raw" where
  "structured_error code message = RawJson (JObj [(''code'', JStr code), (''message'', JStr message)])"

definition attempt_of :: "node_run \<Rightarrow> int" where
  "attempt_of nr = (if nr_attempt nr < 1 then 1 else int (nr_attempt nr))"

text \<open>The start and the end of a row, from what the runner stamped and the clock.\<close>

definition run_times :: "int \<times> int \<Rightarrow> int \<Rightarrow> int \<times> int" where
  "run_times stamps now =
     (let finished = (if snd stamps = zero_time then now else snd stamps)
      in (if fst stamps = zero_time \<or> finished < fst stamps then finished else fst stamps, finished))"

definition run_status :: "rendering \<Rightarrow> node_run \<Rightarrow> status" where
  "run_status rn nr =
     (case nr_error nr of
        Some e \<Rightarrow> if rn_cancels rn e then StCancelled else StFailed
      | None \<Rightarrow> if nr_pinned nr then StPinned else if nr_skipped nr then StSkipped else StSucceeded)"

definition run_error :: "rendering \<Rightarrow> node_run \<Rightarrow> raw" where
  "run_error rn nr =
     (case nr_error nr of
        None \<Rightarrow> RawEmpty
      | Some e \<Rightarrow>
          structured_error
            (if rn_cancels rn e \<and> (nr_code nr = [] \<or> nr_code nr = ''node.failed'') then ''execution.cancelled''
             else nr_code nr) (err_text e))"

definition ran_well :: "status \<Rightarrow> bool" where
  "ran_well s \<longleftrightarrow> s = StSucceeded \<or> s = StSkipped \<or> s = StPinned"

definition node_event_of :: "exec_row \<Rightarrow> string \<Rightarrow> status \<Rightarrow> int \<Rightarrow> raw \<Rightarrow> event" where
  "node_event_of r node s sequence data =
     \<lparr>ev_type = (if ran_well s then ''node.completed'' else ''node.failed''),
      ev_tenant = ex_tenant r, ev_execution = ex_id r, ev_workflow = ex_workflow r, ev_node = node,
      ev_status = s, ev_sequence = sequence, ev_data = data\<rparr>"

definition trace_row_with ::
  "rendering \<Rightarrow> exec_row \<Rightarrow> int \<Rightarrow> int \<Rightarrow> node_run \<Rightarrow> jval \<Rightarrow> raw \<Rightarrow> status \<Rightarrow> raw \<Rightarrow> trace_row" where
  "trace_row_with rn r sequence now nr input output s error =
     \<lparr>tr_id = [], tr_tenant = ex_tenant r, tr_execution = ex_id r, tr_node = nr_node nr,
      tr_attempt = attempt_of nr, tr_run_index = int (nr_run_index nr), tr_sequence = sequence,
      tr_status = s, tr_input = RawJson input, tr_output = output, tr_error = error,
      tr_response = map_option (rn_response rn) (nr_response nr),
      tr_console = map_option (rn_console rn) (nr_console nr),
      tr_started = fst (run_times (rn_times rn nr) now), tr_finished = Some (snd (run_times (rn_times rn nr) now))\<rparr>"

datatype trace_failure =
    InputNotMarshalled string
  | OutputNotMarshalled string
  | RowRefused store_error

definition trace_row_of ::
  "host \<Rightarrow> rendering \<Rightarrow> exec_row \<Rightarrow> (string \<Rightarrow> string) \<Rightarrow> int \<Rightarrow> int \<Rightarrow> node_run \<Rightarrow> trace_failure + trace_row \<times> event" where
  "trace_row_of h rn r kinds sequence now nr =
     found (rn_input rn (nr_input nr)) (InputNotMarshalled (nr_node nr)) (\<lambda>input.
     found (rn_output rn (nr_output nr)) (OutputNotMarshalled (nr_node nr)) (\<lambda>output.
       (let shown = project_trace h (rn_int64 rn) (kinds (nr_node nr)) (RawJson output)
        in Inr (trace_row_with rn r sequence now nr input shown (run_status rn nr) (run_error rn nr),
                node_event_of r (nr_node nr) (run_status rn nr) sequence shown))))"

text \<open>The rows are numbered from the one after \<open>seq_base\<close>.\<close>

fun trace_rows ::
  "host \<Rightarrow> rendering \<Rightarrow> exec_row \<Rightarrow> (string \<Rightarrow> string) \<Rightarrow> int \<Rightarrow> int \<Rightarrow> node_run list
     \<Rightarrow> trace_failure + (trace_row \<times> event) list" where
  "trace_rows h rn r kinds seq_base now [] = Inr []"
| "trace_rows h rn r kinds seq_base now (nr # runs) =
     attempt (trace_row_of h rn r kinds (seq_base + 1) now nr) (\<lambda>x.
     attempt (trace_rows h rn r kinds (seq_base + 1) now runs) (\<lambda>xs. Inr (x # xs)))"

definition kinds_of :: "document \<Rightarrow> string \<Rightarrow> string" where
  "kinds_of d i = (case find (\<lambda>n. node_id n = i) (rev (nodes_of d)) of None \<Rightarrow> [] | Some n \<Rightarrow> node_type n)"

subsection \<open>The live writer\<close>

text \<open>
  \<open>sink\<close> writes one row the runner has just appended and publishes its event; when it fails nothing happened.
  \<open>written\<close> holds the sequences it wrote.
\<close>

definition sink ::
  "host \<Rightarrow> rendering \<Rightarrow> exec_row \<Rightarrow> (string \<Rightarrow> string) \<Rightarrow> int \<Rightarrow> int \<Rightarrow> string \<Rightarrow> nat \<Rightarrow> node_run
     \<Rightarrow> int list \<times> event list \<times> 'c database \<Rightarrow> int list \<times> event list \<times> 'c database" where
  "sink h rn r kinds seq_base now row_id index nr s =
     (case s of (written, published, db) \<Rightarrow>
        (case trace_rows h rn r kinds (seq_base + int index) now [nr] of
           Inr [(row, event)] \<Rightarrow>
             (case create_node_run h (ex_tenant r) row_id (ex_owner r) row now db of
                Inl e \<Rightarrow> s
              | Inr (stored, db') \<Rightarrow> (written @ [tr_sequence row], published @ [event], db'))
         | _ \<Rightarrow> s))"

definition node_started :: "exec_row \<Rightarrow> string \<Rightarrow> event list" where
  "node_started r node =
     (if node = [] then []
      else [\<lparr>ev_type = ''node.started'', ev_tenant = ex_tenant r, ev_execution = ex_id r, ev_workflow = ex_workflow r,
             ev_node = node, ev_status = StRunning, ev_sequence = 0, ev_data = RawEmpty\<rparr>])"

subsection \<open>The segment before a wait\<close>

text \<open>The event of a row written as its run is parked: its status knows no cancellation, its output no projection.\<close>

definition suspend_event :: "rendering \<Rightarrow> exec_row \<Rightarrow> int \<Rightarrow> node_run \<Rightarrow> event" where
  "suspend_event rn r sequence nr =
     node_event_of r (nr_node nr)
       (if nr_error nr \<noteq> None then StFailed
        else if nr_pinned nr then StPinned else if nr_skipped nr then StSkipped else StSucceeded)
       sequence (case rn_output rn (nr_output nr) of None \<Rightarrow> RawEmpty | Some v \<Rightarrow> RawJson v)"

definition persist_trace_row ::
  "host \<Rightarrow> rendering \<Rightarrow> exec_row \<Rightarrow> (string \<Rightarrow> string) \<Rightarrow> int \<Rightarrow> int \<Rightarrow> string \<Rightarrow> node_run \<Rightarrow> 'c database
     \<Rightarrow> trace_failure + 'c database" where
  "persist_trace_row h rn r kinds sequence now row_id nr db =
     attempt (trace_row_of h rn r kinds sequence now nr) (\<lambda>(row, event).
       (case create_node_run h (ex_tenant r) row_id (ex_owner r) row now db of
          Inl e \<Rightarrow> Inl (RowRefused e)
        | Inr (stored, db') \<Rightarrow> Inr db'))"

text \<open>The rows the live writer has not written, one transaction each; a failure leaves those before it.\<close>

fun persist_segment ::
  "host \<Rightarrow> rendering \<Rightarrow> exec_row \<Rightarrow> (string \<Rightarrow> string) \<Rightarrow> int list \<Rightarrow> int \<Rightarrow> int \<Rightarrow> (int \<Rightarrow> string) \<Rightarrow> node_run list
     \<Rightarrow> 'c database \<Rightarrow> trace_failure option \<times> event list \<times> 'c database" where
  "persist_segment h rn r kinds written sequence now ids [] db = (None, [], db)"
| "persist_segment h rn r kinds written sequence now ids (nr # runs) db =
     (if sequence \<in> set written then persist_segment h rn r kinds written (sequence + 1) now ids runs db
      else case persist_trace_row h rn r kinds sequence now (ids sequence) nr db of
             Inl e \<Rightarrow> (Some e, [], db)
           | Inr db' \<Rightarrow>
               (case persist_segment h rn r kinds written (sequence + 1) now ids runs db' of
                  (e, events, db'') \<Rightarrow> (e, suspend_event rn r sequence nr # events, db'')))"

subsection \<open>A called workflow's rows\<close>

definition child_row_of :: "rendering \<Rightarrow> exec_row \<Rightarrow> int \<Rightarrow> int \<Rightarrow> node_run \<Rightarrow> trace_failure + trace_row" where
  "child_row_of rn r sequence now nr =
     found (rn_input rn (nr_input nr)) (InputNotMarshalled (nr_node nr)) (\<lambda>input.
     found (rn_output rn (nr_output nr)) (OutputNotMarshalled (nr_node nr)) (\<lambda>output.
       Inr (trace_row_with rn r sequence now nr input (RawJson output)
              (if nr_error nr \<noteq> None then StFailed
               else if nr_pinned nr then StPinned else if nr_skipped nr then StSkipped else StSucceeded)
              (case nr_error nr of None \<Rightarrow> RawEmpty | Some e \<Rightarrow> structured_error (nr_code nr) (err_text e)))))"

fun child_rows :: "rendering \<Rightarrow> exec_row \<Rightarrow> int \<Rightarrow> int \<Rightarrow> node_run list \<Rightarrow> trace_failure + trace_row list" where
  "child_rows rn r sequence now [] = Inr []"
| "child_rows rn r sequence now (nr # runs) =
     attempt (child_row_of rn r sequence now nr) (\<lambda>x.
     attempt (child_rows rn r (sequence + 1) now runs) (\<lambda>xs. Inr (x # xs)))"

text \<open>A batch for the store, each row with its owner and the identifier minted for it.\<close>

definition batch_of :: "exec_row \<Rightarrow> (int \<Rightarrow> string) \<Rightarrow> trace_row list \<Rightarrow> (string \<times> string \<times> trace_row) list" where
  "batch_of r ids rows = map (\<lambda>t. (ids (tr_sequence t), ex_owner r, t)) rows"

end
