(* ===== verification/Terminal_Log.thy ===== *)
theory Terminal_Log
  imports Trace_Rows
begin

text \<open>
  What the service reports of an execution that has ended (\<open>internal/engine/terminal_log.go\<close>): the line of the
  server's log, and the event. A line is a record of its attributes; one the source leaves out is empty or \<open>None\<close>.
\<close>

datatype log_level = LogInfo | LogWarn | LogOff

definition normalize_log_level :: "host \<Rightarrow> string \<Rightarrow> log_level" where
  "normalize_log_level h level =
     (let l = tag_key (h_lower h) (trim_space level)
      in if l = ''warn'' then LogWarn else if l = ''off'' then LogOff else LogInfo)"

definition max_logged_error_runes :: nat where "max_logged_error_runes = 1024"

definition truncate_runes :: "string \<Rightarrow> nat \<Rightarrow> string" where
  "truncate_runes text limit =
     (if rune_count text \<le> limit then text else encode_runes (take limit (runes text)) @ ''...'')"

text \<open>The code and the message of a stored error; a field that is not a string fails the decoding.\<close>

definition text_field :: "jobject \<Rightarrow> string \<Rightarrow> string option" where
  "text_field m k = (case jget m k of JStr s \<Rightarrow> Some s | JNull \<Rightarrow> Some [] | _ \<Rightarrow> None)"

definition recorded_error :: "raw \<Rightarrow> string \<times> string" where
  "recorded_error r =
     (case unmarshal r of
        Some (JObj m) \<Rightarrow>
          (case (text_field m ''code'', text_field m ''message'') of
             (Some code, Some message) \<Rightarrow> (code, truncate_runes message max_logged_error_runes)
           | _ \<Rightarrow> ([], []))
      | _ \<Rightarrow> ([], []))"

text \<open>The node and the sequence of the last failed row, in the order of the record.\<close>

fun failing_node_from :: "trace_row list \<Rightarrow> string \<Rightarrow> int \<Rightarrow> string" where
  "failing_node_from [] node last_seen = node"
| "failing_node_from (t # ts) node last_seen =
     (if tr_status t = StFailed \<and> last_seen \<le> tr_sequence t then failing_node_from ts (tr_node t) (tr_sequence t)
      else failing_node_from ts node last_seen)"

definition failing_node :: "trace_row list \<Rightarrow> string" where
  "failing_node ts = failing_node_from ts [] (- 1)"

record log_line =
  ll_warns :: bool
  ll_status :: status
  ll_execution :: string
  ll_workflow :: string
  ll_name :: string
  ll_tenant :: string
  ll_trigger :: string
  ll_parent :: string
  ll_duration_ms :: "int option"
  ll_node :: string
  ll_code :: string
  ll_error :: string

definition duration_ms :: "exec_row \<Rightarrow> int option" where
  "duration_ms r =
     (case ex_finished r of
        None \<Rightarrow> None
      | Some t \<Rightarrow>
          if ex_started r = zero_time then None
          else Some (if t < ex_started r then - ((ex_started r - t) div 10 ^ 6) else (t - ex_started r) div 10 ^ 6))"

definition workflow_name :: "exec_row \<Rightarrow> 'c database \<Rightarrow> string" where
  "workflow_name r db =
     (case active_document (ex_tenant r) (ex_workflow r) db of Inl e \<Rightarrow> [] | Inr d \<Rightarrow> doc_name d)"

text \<open>The line of a record with its trace, if the level lets it appear.\<close>

definition log_terminal :: "log_level \<Rightarrow> string \<Rightarrow> exec_row \<times> trace_row list \<Rightarrow> 'c database \<Rightarrow> log_line list" where
  "log_terminal level name record_read db =
     (case record_read of (r, ts) \<Rightarrow>
        if level = LogOff \<or> (level = LogWarn \<and> ex_status r \<noteq> StFailed) then []
        else [\<lparr>ll_warns = (ex_status r = StFailed), ll_status = ex_status r, ll_execution = ex_id r,
               ll_workflow = ex_workflow r, ll_name = (if name = [] then workflow_name r db else name),
               ll_tenant = ex_tenant r, ll_trigger = ex_trigger r, ll_parent = ex_parent r,
               ll_duration_ms = duration_ms r, ll_node = (if ex_status r = StFailed then failing_node ts else []),
               ll_code = fst (recorded_error (ex_error r)), ll_error = snd (recorded_error (ex_error r))\<rparr>])"

definition execution_event :: "string \<Rightarrow> exec_row \<Rightarrow> raw \<Rightarrow> event" where
  "execution_event kind r data =
     \<lparr>ev_type = kind, ev_tenant = ex_tenant r, ev_execution = ex_id r, ev_workflow = ex_workflow r, ev_node = [],
      ev_status = ex_status r, ev_sequence = 0, ev_data = data\<rparr>"

definition publish_terminal :: "exec_row \<Rightarrow> raw \<Rightarrow> event" where
  "publish_terminal r data =
     execution_event
       (if ex_status r = StFailed then ''execution.failed''
        else if ex_status r = StCancelled then ''execution.cancelled'' else ''execution.completed'') r data"

text \<open>What an operation of the service reports, in order.\<close>

datatype notice = Published event | Logged log_line

definition announce ::
  "log_level \<Rightarrow> string \<Rightarrow> exec_row \<times> trace_row list \<Rightarrow> raw \<Rightarrow> bool \<Rightarrow> 'c database \<Rightarrow> notice list" where
  "announce level name record_read data write_line db =
     (if write_line then map Logged (log_terminal level name record_read db) else []) @
     [Published (publish_terminal (fst record_read) data)]"

definition settled_notices ::
  "log_level \<Rightarrow> string \<Rightarrow> exec_row \<times> trace_row list \<Rightarrow> raw \<Rightarrow> 'c database \<Rightarrow> notice list" where
  "settled_notices level name record_read data db = announce level name record_read data True db"

end
