(* ===== verification/Static_Data.thy ===== *)
theory Static_Data
  imports Store
begin

text \<open>
  A workflow's static data during one execution (\<open>internal/engine/static_data.go\<close>): the document is loaded at
  the first use, \<open>Set\<close> replaces entries or refuses, and \<open>Changed\<close> is what the service saves.

  Entries are JSON texts. Decoding a stored document, compacting a text and writing a document are the fields of
  \<open>static_codec\<close>; what \<open>load\<close> answers is an argument of each call. The order of the entries of a Go map is
  left open in the source and is the list's here.
\<close>

record static_codec =
  sc_decode :: "string \<Rightarrow> (string \<times> string) list option"
  sc_compact :: "string \<Rightarrow> string option"
  sc_encode :: "(string \<times> string) list \<Rightarrow> string"

record static_data =
  sd_loaded :: bool
  sd_entries :: "(string \<times> string) list"
  sd_changed :: bool

definition new_static_data :: static_data where
  "new_static_data = \<lparr>sd_loaded = False, sd_entries = [], sd_changed = False\<rparr>"

datatype static_error =
    LoadFailed string
  | NotDecodable
  | NotJson string
  | TooLarge nat nat

text \<open>\<open>None\<close> is a handle without a store; a store answers an error or a text, empty for no document.\<close>

definition ensure_loaded ::
  "static_codec \<Rightarrow> (string + string) option \<Rightarrow> static_data \<Rightarrow> static_error + static_data" where
  "ensure_loaded codec load data =
     (if sd_loaded data then Inr data
      else case load of
             None \<Rightarrow> Inr (data\<lparr>sd_loaded := True, sd_entries := []\<rparr>)
           | Some (Inl e) \<Rightarrow> Inl (LoadFailed e)
           | Some (Inr stored) \<Rightarrow>
               if stored = [] \<or> stored = ''null'' then Inr (data\<lparr>sd_loaded := True, sd_entries := []\<rparr>)
               else found (sc_decode codec stored) NotDecodable (\<lambda>entries.
                      Inr (data\<lparr>sd_loaded := True, sd_entries := entries\<rparr>)))"

definition no_entry :: string where "no_entry = ''{}''"

definition static_entry :: "(string \<times> string) list \<Rightarrow> string \<Rightarrow> string" where
  "static_entry entries k = (case aget entries k of Some e \<Rightarrow> e | None \<Rightarrow> no_entry)"

definition static_get ::
  "static_codec \<Rightarrow> (string + string) option \<Rightarrow> string \<Rightarrow> static_data \<Rightarrow> static_error + string \<times> static_data" where
  "static_get codec load k data =
     attempt (ensure_loaded codec load data) (\<lambda>data. Inr (static_entry (sd_entries data) k, data))"

text \<open>The loop of \<open>Set\<close> over the changes; an emptied entry is no entry.\<close>

fun apply_changes ::
  "static_codec \<Rightarrow> (string \<times> string) list \<Rightarrow> (string \<times> string) list \<Rightarrow> bool
     \<Rightarrow> static_error + (string \<times> string) list \<times> bool" where
  "apply_changes codec [] entries changed = Inr (entries, changed)"
| "apply_changes codec ((k, entry) # changes) entries changed =
     found (sc_compact codec entry) (NotJson k) (\<lambda>compact.
       if static_entry entries k = compact then apply_changes codec changes entries changed
       else if compact = no_entry
       then apply_changes codec changes (filter (\<lambda>e. fst e \<noteq> k) entries) True
       else apply_changes codec changes (aput k compact entries) True)"

text \<open>The error, if any, and the handle: a refused \<open>Set\<close> may have loaded the document, and keeps nothing else.\<close>

definition static_set ::
  "static_codec \<Rightarrow> (string + string) option \<Rightarrow> (string \<times> string) list \<Rightarrow> nat \<Rightarrow> static_data
     \<Rightarrow> static_error option \<times> static_data" where
  "static_set codec load changes limit data =
     (case ensure_loaded codec load data of
        Inl e \<Rightarrow> (Some e, data)
      | Inr data \<Rightarrow>
          (case apply_changes codec changes (sd_entries data) False of
             Inl e \<Rightarrow> (Some e, data)
           | Inr (entries, changed) \<Rightarrow>
               if \<not> changed then (None, data)
               else if limit < length (sc_encode codec entries)
               then (Some (TooLarge (length (sc_encode codec entries)) limit), data)
               else (None, data\<lparr>sd_entries := entries, sd_changed := True\<rparr>)))"

definition static_changed :: "static_codec \<Rightarrow> static_data \<Rightarrow> string option" where
  "static_changed codec data = (if sd_changed data then Some (sc_encode codec (sd_entries data)) else None)"

text \<open>When the service saves the document of an execution it has just settled (\<open>saveStaticData\<close>).\<close>

definition saved_static_data :: "static_codec \<Rightarrow> exec_row \<Rightarrow> static_data \<Rightarrow> string option" where
  "saved_static_data codec r data =
     (if ex_trigger r = trigger_manual then None
      else if ex_status r \<notin> {StSucceeded, StFailed, StWaiting} then None
      else static_changed codec data)"

subsection \<open>What \<open>Set\<close> does\<close>

lemma static_entry_aput [simp]: "static_entry (aput k v es) k' = (if k' = k then v else static_entry es k')"
  by (simp add: static_entry_def)

lemma static_entry_filter [simp]:
  "static_entry (filter (\<lambda>e. fst e \<noteq> k) es) k' = (if k' = k then no_entry else static_entry es k')"
  by (induction es) (auto simp: static_entry_def)

text \<open>The entries after the changes, key by key, and whether any of them changed.\<close>

lemma apply_changes_entries:
  assumes "apply_changes codec changes entries changed = Inr (entries', changed')" "distinct (map fst changes)"
  shows "static_entry entries' k =
      (case map_of changes k of Some entry \<Rightarrow> the (sc_compact codec entry) | None \<Rightarrow> static_entry entries k) \<and>
    (changed' \<longleftrightarrow> changed \<or> (\<exists>k. static_entry entries' k \<noteq> static_entry entries k)) \<and>
    (\<forall>entry \<in> snd ` set changes. sc_compact codec entry \<noteq> None) \<and> (changed' \<or> entries' = entries)"
  using assms
proof (induction changes arbitrary: entries changed k)
  case (Cons change changes)
  obtain key entry where change: "change = (key, entry)" by (cases change)
  note prems = Cons.prems [unfolded change]
  from prems obtain compact where c: "sc_compact codec entry = Some compact" by auto
  have fresh: "map_of changes key = None" using prems(2) by (simp add: map_of_eq_None_iff)
  define mid where "mid = (if static_entry entries key = compact then entries
    else if compact = no_entry then filter (\<lambda>e. fst e \<noteq> key) entries else aput key compact entries)"
  have step: "apply_changes codec changes mid (changed \<or> static_entry entries key \<noteq> compact) = Inr (entries', changed')"
    using prems(1) c by (auto simp: mid_def split: if_splits)
  have mid: "static_entry mid k = (if k = key then compact else static_entry entries k)" for k
    by (simp add: mid_def)
  have ih: "static_entry entries' k =
      (case map_of changes k of Some entry \<Rightarrow> the (sc_compact codec entry) | None \<Rightarrow> static_entry mid k) \<and>
    (changed' \<longleftrightarrow> (changed \<or> static_entry entries key \<noteq> compact) \<or> (\<exists>k. static_entry entries' k \<noteq> static_entry mid k)) \<and>
    (\<forall>entry \<in> snd ` set changes. sc_compact codec entry \<noteq> None) \<and> (changed' \<or> entries' = mid)" for k
    using Cons.IH [OF step, of k] prems(2) by auto
  have at_key: "static_entry entries' key = compact" using ih [of key] fresh mid by simp
  have others: "static_entry entries' k \<noteq> static_entry mid k \<longleftrightarrow> static_entry entries' k \<noteq> static_entry entries k \<and> k \<noteq> key" for k
    using at_key mid [of k] by (cases "k = key") auto
  show ?case unfolding change using ih [of k] at_key others mid c fresh by (auto simp: mid_def split: option.splits)
qed auto

lemma ensure_loaded_kept:
  "ensure_loaded codec load data = Inr data' \<Longrightarrow> sd_loaded data' \<and> sd_changed data' = sd_changed data \<and>
    ensure_loaded codec load' data' = Inr data'"
  by (auto simp: ensure_loaded_def split: if_splits option.splits sum.splits)

end
