(* ===== verification/Service_Run.thy ===== *)
theory Service_Run
  imports Terminal_Log Static_Data
begin

text \<open>
  How the execution service runs one execution (\<open>run\<close>, \<open>runWithStack\<close>, \<open>runBudget\<close> and \<open>compile\<close> of
  \<open>internal/engine/service.go\<close>; \<open>resumeRun\<close>, \<open>newRequest\<close> and \<open>workflowContext\<close> of \<open>wait_service.go\<close>): the
  document is compiled in the tenant's catalogue, and the compiled plan is handed to the runner, from its start or
  from a checkpoint.

  The record \<open>service\<close> holds the service's configuration and what is outside: the executors as a function of the
  request, the JSON forms and the texts of errors. A run that panics takes its process down and a run may never
  end, so a report is optional.
\<close>

subsection \<open>The service\<close>

datatype work_failure =
    NotCompilable compile_error
  | InputNotObject
  | CheckpointUnreadable
  | OutputUnfit string
  | RunFailed run_failure
  | SuspensionRefused suspend_refusal
  | ChildCannotWait string string
  | CancellationRecovered
  | TraceNotPersisted trace_failure
  | OutputUnmarshalled

record links =
  lk_token :: string
  lk_resume :: string
  lk_approval :: string

record request =
  rq_record :: exec_row
  rq_document :: document
  rq_stack :: "string list"
  rq_links :: links
  rq_zone :: string
  rq_live :: bool
  rq_input :: jobject
  rq_binaries :: bool

record ('c, 'w, 'm) service =
  sv_host :: host
  sv_catalog :: scoped_catalog
  sv_codec :: "('c, 'm) wait_codec"
  sv_rendering :: rendering
  sv_static :: static_codec
  sv_encode_checkpoint :: "'m checkpoint \<Rightarrow> 'c"
  sv_encode_result :: "(string \<rightharpoonup> node_output) \<Rightarrow> jval option"
  sv_text :: "work_failure \<Rightarrow> string"
  sv_cancelled :: "run_failure \<Rightarrow> bool"
  sv_env :: "request \<Rightarrow> ('w, 'm) env"
  sv_memory :: "string \<Rightarrow> 'm"
  sv_worker :: string
  sv_base_url :: string
  sv_timezone :: string
  sv_default_timeout :: int
  sv_max_timeout :: int
  sv_lease :: int
  sv_subworkflow_type :: string
  sv_error_type :: string
  sv_level :: log_level
  sv_binaries :: bool

text \<open>A failure that wraps \<open>context.Canceled\<close>.\<close>

definition cancels :: "('c, 'w, 'm) service \<Rightarrow> work_failure \<Rightarrow> bool" where
  "cancels sv f = (case f of RunFailed g \<Rightarrow> sv_cancelled sv g | _ \<Rightarrow> False)"

subsection \<open>Links, leases and budgets\<close>

definition resume_path :: "string \<Rightarrow> string" where "resume_path token = ''/resume/'' @ token"
definition approval_path :: "string \<Rightarrow> string" where "approval_path token = ''/approve/'' @ token"

definition minted_links :: "('c, 'w, 'm) service \<Rightarrow> string \<Rightarrow> links" where
  "minted_links sv token =
     \<lparr>lk_token = token, lk_resume = sv_base_url sv @ resume_path token, lk_approval = sv_base_url sv @ approval_path token\<rparr>"

definition no_links :: links where
  "no_links = \<lparr>lk_token = [], lk_resume = [], lk_approval = []\<rparr>"

definition second :: int where "second = 10 ^ 9"

definition default_lease_duration :: int where "default_lease_duration = 30 * second"

definition lease_duration :: "('c, 'w, 'm) service \<Rightarrow> int" where
  "lease_duration sv = (if 0 < sv_lease sv then sv_lease sv else max (2 * sv_default_timeout sv) default_lease_duration)"

definition heartbeat_interval :: "('c, 'w, 'm) service \<Rightarrow> int" where
  "heartbeat_interval sv = max (lease_duration sv div 3) (10 * 10 ^ 6)"

text \<open>\<open>None\<close> is a run without a time limit.\<close>

definition run_budget :: "('c, 'w, 'm) service \<Rightarrow> document \<Rightarrow> int option" where
  "run_budget sv d =
     (case setting_number (jget (settings_of d) ''executionTimeout'') of
        None \<Rightarrow> Some (sv_default_timeout sv)
      | Some seconds \<Rightarrow>
          if seconds = 0 then Some (sv_default_timeout sv)
          else if seconds < 0 then None
          else (let budget = float_to_int64 (rn_int64 (sv_rendering sv)) (h_number (sv_host sv) (seconds * of_int second))
                in if 0 < sv_max_timeout sv \<and> sv_max_timeout sv < budget then Some (sv_max_timeout sv)
                   else Some budget))"

subsection \<open>Requests\<close>

definition input_item :: "host \<Rightarrow> raw \<Rightarrow> work_failure + jobject" where
  "input_item h r =
     (case r of
        RawEmpty \<Rightarrow> Inr []
      | RawJson JNull \<Rightarrow> Inr []
      | _ \<Rightarrow> (case map_option (rewrite_numbers (h_number h)) (unmarshal r) of
                Some (JObj m) \<Rightarrow> Inr m
              | _ \<Rightarrow> Inl InputNotObject))"

text \<open>The zone of the instance, where the document names none.\<close>

definition workflow_zone :: "('c, 'w, 'm) service \<Rightarrow> document \<Rightarrow> string" where
  "workflow_zone sv d =
     (let declared = (case jget (settings_of d) ''timezone'' of JStr s \<Rightarrow> trim_space s | _ \<Rightarrow> [])
      in if declared \<noteq> [] \<and> tag_key (h_lower (sv_host sv)) declared \<noteq> ''default'' then [] else sv_timezone sv)"

definition new_request ::
  "('c, 'w, 'm) service \<Rightarrow> exec_row \<Rightarrow> document \<Rightarrow> string list \<Rightarrow> links \<Rightarrow> bool \<Rightarrow> jobject \<Rightarrow> request" where
  "new_request sv r d stack links live input =
     \<lparr>rq_record = r, rq_document = d, rq_stack = stack, rq_links = links, rq_zone = workflow_zone sv d,
      rq_live = live, rq_input = input, rq_binaries = False\<rparr>"

subsection \<open>Running\<close>

datatype 'm report_end = ReportDone | ReportWaits "'m checkpoint" | ReportFails work_failure

record 'm report =
  rt_rows :: "node_run list"
  rt_output :: "string \<rightharpoonup> node_output"
  rt_end :: "'m report_end"

definition refused :: "node_run list \<Rightarrow> work_failure \<Rightarrow> 'm report" where
  "refused rows f = \<lparr>rt_rows = rows, rt_output = Map.empty, rt_end = ReportFails f\<rparr>"

definition report_of :: "('m run_end \<times> 'm run_state \<times> 'w) \<Rightarrow> ('m report \<times> 'w) option" where
  "report_of x =
     (case x of (ended, st, w) \<Rightarrow>
        (let report = (\<lambda>e. Some (\<lparr>rt_rows = rs_rows st, rt_output = rs_output st, rt_end = e\<rparr>, w))
         in case ended of
              Finished \<Rightarrow> report ReportDone
            | Suspended cp \<Rightarrow> report (ReportWaits cp)
            | Failed f \<Rightarrow> report (ReportFails (RunFailed f))
            | Crashed \<Rightarrow> None))"

definition compile_for :: "('c, 'w, 'm) service \<Rightarrow> exec_row \<Rightarrow> document \<Rightarrow> compile_error + ir" where
  "compile_for sv r d = compile (sv_host sv) (catalog_for (sv_catalog sv) (ex_tenant r)) d"

definition run_with_stack ::
  "('c, 'w, 'm) service \<Rightarrow> exec_row \<Rightarrow> document \<Rightarrow> string list \<Rightarrow> links \<Rightarrow> bool \<Rightarrow> 'w \<Rightarrow> ('m report \<times> 'w) option" where
  "run_with_stack sv r d stack links live w =
     (case compile_for sv r d of
        Inl e \<Rightarrow> Some (refused [] (NotCompilable e), w)
      | Inr plan \<Rightarrow>
          (case input_item (sv_host sv) (ex_input r) of
             Inl f \<Rightarrow> Some (refused [] f, w)
           | Inr input \<Rightarrow>
               (let request = (new_request sv r d stack links live input)\<lparr>rq_binaries := sv_binaries sv\<rparr>
                in Option.bind (run (sv_env sv request) plan (ex_trigger_node r) (sv_memory sv) w) report_of)))"

text \<open>What can be said of a checkpoint that cannot be read: its node.\<close>

definition blank_checkpoint :: "('c, 'w, 'm) service \<Rightarrow> string \<Rightarrow> 'm checkpoint" where
  "blank_checkpoint sv node =
     \<lparr>cp_node = node, cp_attempt = 0, cp_run = 0, cp_mode = [], cp_trigger = [], cp_input = no_input,
      cp_completed = Map.empty, cp_runs = (\<lambda>_. []), cp_executions = None, cp_node_outputs = Map.empty,
      cp_node_items = Map.empty, cp_memory = sv_memory sv, cp_output = Map.empty, cp_pending = [], cp_partial = None\<rparr>"

definition refused_resume :: "('c, 'w, 'm) service \<Rightarrow> 'm checkpoint \<Rightarrow> work_failure \<Rightarrow> 'm report" where
  "refused_resume sv cp f = refused (refused_rows cp (plain_error (sv_text sv f))) f"

definition read_checkpoint :: "('c, 'w, 'm) service \<Rightarrow> 'c \<Rightarrow> 'm checkpoint option" where
  "read_checkpoint sv stored =
     (case wc_checkpoint (sv_codec sv) stored of
        None \<Rightarrow> None
      | Some (version, cp) \<Rightarrow> if checkpoint_readable version cp then Some cp else None)"

definition resume_run ::
  "('c, 'w, 'm) service \<Rightarrow> exec_row \<Rightarrow> document \<Rightarrow> string list \<Rightarrow> 'c wait_row \<Rightarrow> links \<Rightarrow> bool \<Rightarrow> 'w
     \<Rightarrow> ('m report \<times> 'w) option" where
  "resume_run sv r d stack wait links live w =
     (case read_checkpoint sv (wt_checkpoint wait) of
        None \<Rightarrow> Some (refused_resume sv (blank_checkpoint sv (wt_node wait)) CheckpointUnreadable, w)
      | Some cp \<Rightarrow>
          (case compile_for sv r d of
             Inl e \<Rightarrow> Some (refused_resume sv cp (NotCompilable e), w)
           | Inr plan \<Rightarrow>
               (case adapt_stored_resume_output (sv_codec sv) plan (cp_node cp) (wt_resume_output wait) of
                  Inl e \<Rightarrow> Some (refused_resume sv cp (OutputUnfit e), w)
                | Inr answer \<Rightarrow>
                    (case input_item (sv_host sv) (ex_input r) of
                       Inl f \<Rightarrow> Some (refused_resume sv cp f, w)
                     | Inr input \<Rightarrow>
                         Option.bind
                           (resume (sv_env sv (new_request sv r d stack links live input)) plan (ex_trigger_node r)
                              (sv_memory sv) cp answer (\<lambda>f. plain_error (sv_text sv (RunFailed f))) w)
                           report_of))))"

end
