(* ===== verification/Service.thy ===== *)
theory Service
  imports Service_Run
begin

text \<open>
  One iteration of a worker (\<open>runOnce\<close> and its helpers in \<open>internal/engine/service.go\<close>, \<open>suspend\<close> in
  \<open>wait_service.go\<close>): \<open>begin_work\<close> claims an execution, \<open>run_job\<close> runs it, and \<open>end_work\<close> writes what the run
  left: the trace and a terminal status, or the wait that parks it. Between the two, the executors, the live
  writer, the lease's renewals and other workers change the database too.

  The outcome of an operation is the error it returns, what it reports, the static data it saves and the database.
  The queue's wake-ups, timers and metrics are left out.
\<close>

subsection \<open>Claiming\<close>

record 'c job =
  jb_record :: exec_row
  jb_document :: document
  jb_wait :: "'c wait_row option"

datatype 'c begun =
    NothingToDo
  | ClaimFailed store_error
  | ClaimLost exec_row store_error
  | Recovered exec_row
  | Begun "'c job"

definition cancelled_code :: string where "cancelled_code = ''execution.cancelled''"

definition recovered_row :: "('c, 'w, 'm) service \<Rightarrow> exec_row \<Rightarrow> int \<Rightarrow> exec_row" where
  "recovered_row sv r now =
     r\<lparr>ex_status := StCancelled, ex_output := null_payload,
       ex_error := structured_error cancelled_code (sv_text sv CancellationRecovered), ex_finished := Some now\<rparr>"

definition loaded_wait :: "string \<Rightarrow> string \<Rightarrow> 'c database \<Rightarrow> store_error + 'c wait_row option" where
  "loaded_wait tenant i db =
     (case load_resume_state tenant i db of
        Inr wait \<Rightarrow> Inr (Some wait)
      | Inl (ErrNotFound what) \<Rightarrow> Inr None
      | Inl e \<Rightarrow> Inl e)"

definition crash_lines :: "('c, 'w, 'm) service \<Rightarrow> exec_row list \<Rightarrow> 'c database \<Rightarrow> notice list" where
  "crash_lines sv rs db = concat (map (\<lambda>r. map Logged (log_terminal (sv_level sv) [] (r, []) db)) rs)"

definition begin_work ::
  "('c, 'w, 'm) service \<Rightarrow> string \<Rightarrow> string \<Rightarrow> int \<Rightarrow> 'c database \<Rightarrow> 'c begun \<times> notice list \<times> 'c database" where
  "begin_work sv worker lease now db =
     (case claim_next worker lease (now + lease_duration sv) now db of
        Inl e \<Rightarrow> (ClaimFailed e, [], db)
      | Inr ((None, crashed), db1) \<Rightarrow> (NothingToDo, crash_lines sv crashed db1, db1)
      | Inr ((Some (r, d), crashed), db1) \<Rightarrow>
          (let lines = crash_lines sv crashed db1
           in if ex_status r = StCancelling
              then case update_runtime (sv_host sv) (ex_tenant r) (recovered_row sv r now) db1 of
                     Inl e \<Rightarrow> (ClaimLost r e, lines, db1)
                   | Inr ((r', ts), db2) \<Rightarrow>
                       (Recovered r', lines @ map Logged (log_terminal (sv_level sv) (doc_name d) (r', ts) db2), db2)
              else case loaded_wait (ex_tenant r) (ex_id r) db1 of
                     Inl e \<Rightarrow> (ClaimLost r e, lines, db1)
                   | Inr wait \<Rightarrow>
                       (Begun \<lparr>jb_record = r, jb_document = d, jb_wait = wait\<rparr>,
                        lines @ [Published (execution_event ''execution.started'' (r\<lparr>ex_status := StRunning\<rparr>) RawEmpty)],
                        db1)))"

definition seq_base :: "'c job \<Rightarrow> int" where
  "seq_base job = (case jb_wait job of None \<Rightarrow> 0 | Some wait \<Rightarrow> wt_run_count wait)"

definition run_job :: "('c, 'w, 'm) service \<Rightarrow> 'c job \<Rightarrow> string \<Rightarrow> 'w \<Rightarrow> ('m report \<times> 'w) option" where
  "run_job sv job token w =
     (let r = jb_record job; d = jb_document job; links = minted_links sv token
      in case jb_wait job of
           None \<Rightarrow> run_with_stack sv r d [ex_workflow r] links True w
         | Some wait \<Rightarrow> resume_run sv r d [ex_workflow r] wait links True w)"

subsection \<open>Ending\<close>

datatype work_error = StoreFailed store_error | NotPersisted work_failure

record 'c ended =
  en_error :: "work_error option"
  en_notices :: "notice list"
  en_static :: "string option"
  en_failure :: "(string \<times> work_failure) option"
  en_db :: "'c database"

definition gave_up :: "work_error \<Rightarrow> notice list \<Rightarrow> 'c database \<Rightarrow> 'c ended" where
  "gave_up e notices db =
     \<lparr>en_error = Some e, en_notices = notices, en_static = None, en_failure = None, en_db = db\<rparr>"

definition fail_persist ::
  "('c, 'w, 'm) service \<Rightarrow> exec_row \<Rightarrow> string \<Rightarrow> work_failure \<Rightarrow> notice list \<Rightarrow> int \<Rightarrow> 'c database \<Rightarrow> 'c ended" where
  "fail_persist sv r name cause notices now db =
     (case update_runtime (sv_host sv) (ex_tenant r)
             (r\<lparr>ex_status := StFailed, ex_output := null_payload,
                ex_error := structured_error ''execution.persist_failed'' (sv_text sv cause), ex_finished := Some now\<rparr>) db of
        Inl e \<Rightarrow> gave_up (NotPersisted cause) notices db
      | Inr ((u, ts), db') \<Rightarrow>
          gave_up (NotPersisted cause) (notices @ settled_notices (sv_level sv) name (u, ts) (ex_error u) db') db')"

definition failure_status :: "('c, 'w, 'm) service \<Rightarrow> work_failure \<Rightarrow> status" where
  "failure_status sv f = (if cancels sv f then StCancelled else StFailed)"

definition failure_of_rows :: "('c, 'w, 'm) service \<Rightarrow> work_failure \<Rightarrow> node_run list \<Rightarrow> string" where
  "failure_of_rows sv f rows =
     (if list_ex (\<lambda>nr. nr_code nr = ''execution.timeout'') rows then ''execution.timeout''
      else if cancels sv f then cancelled_code else ''execution.failed'')"

text \<open>The events of the rows a write added, by their sequence.\<close>

definition announced :: "(trace_row \<times> event) list \<Rightarrow> trace_row list \<Rightarrow> notice list" where
  "announced pairs created =
     concat (map (\<lambda>t. case find (\<lambda>p. tr_sequence (fst p) = tr_sequence t) pairs of
       None \<Rightarrow> [] | Some p \<Rightarrow> [Published (snd p)]) created)"

definition static_of :: "('c, 'w, 'm) service \<Rightarrow> exec_row \<Rightarrow> static_data option \<Rightarrow> string option" where
  "static_of sv r data = Option.bind data (saved_static_data (sv_static sv) r)"

definition settle_failed ::
  "('c, 'w, 'm) service \<Rightarrow> exec_row \<Rightarrow> document \<Rightarrow> 'm report \<Rightarrow> work_failure \<Rightarrow> static_data option \<Rightarrow> notice list \<Rightarrow> int
     \<Rightarrow> 'c database \<Rightarrow> 'c ended" where
  "settle_failed sv r d report f data notices now db =
     (let code = failure_of_rows sv f (rt_rows report)
      in case update_runtime (sv_host sv) (ex_tenant r)
                (r\<lparr>ex_status := failure_status sv f, ex_error := structured_error code (sv_text sv f),
                   ex_finished := Some now\<rparr>) db of
           Inl e \<Rightarrow> gave_up (StoreFailed e) notices db
         | Inr ((u, ts), db') \<Rightarrow>
             \<lparr>en_error = None,
              en_notices = notices @ settled_notices (sv_level sv) (doc_name d) (u, ts) (ex_error u) db',
              en_static = static_of sv u data,
              en_failure = (if ex_status u = StFailed then Some (code, f) else None), en_db = db'\<rparr>)"

definition settle_done ::
  "('c, 'w, 'm) service \<Rightarrow> exec_row \<Rightarrow> document \<Rightarrow> 'm report \<Rightarrow> static_data option \<Rightarrow> notice list \<Rightarrow> int
     \<Rightarrow> 'c database \<Rightarrow> 'c ended" where
  "settle_done sv r d report data notices now db =
     (case sv_encode_result sv (rt_output report) of
        None \<Rightarrow> fail_persist sv r (doc_name d) OutputUnmarshalled notices now db
      | Some v \<Rightarrow>
          (case update_runtime (sv_host sv) (ex_tenant r)
                  (r\<lparr>ex_status := StSucceeded, ex_output := RawJson v, ex_error := null_payload,
                     ex_finished := Some now\<rparr>) db of
             Inl e \<Rightarrow> gave_up (StoreFailed e) notices db
           | Inr ((u, ts), db') \<Rightarrow>
               \<lparr>en_error = None,
                en_notices = notices @ settled_notices (sv_level sv) (doc_name d) (u, ts) (ex_output u) db',
                en_static = static_of sv u data, en_failure = None, en_db = db'\<rparr>))"

definition finish_work ::
  "('c, 'w, 'm) service \<Rightarrow> 'c job \<Rightarrow> 'm report \<Rightarrow> static_data option \<Rightarrow> (int \<Rightarrow> string) \<Rightarrow> int \<Rightarrow> 'c database
     \<Rightarrow> 'c ended" where
  "finish_work sv job report data ids now db =
     (let r = jb_record job; d = jb_document job
      in case trace_rows (sv_host sv) (sv_rendering sv) r (kinds_of d) (seq_base job) now (rt_rows report) of
           Inl e \<Rightarrow> fail_persist sv r (doc_name d) (TraceNotPersisted e) [] now db
         | Inr pairs \<Rightarrow>
             (case create_node_runs (sv_host sv) (ex_tenant r) (batch_of r ids (map fst pairs)) now db of
                Inl e \<Rightarrow> fail_persist sv r (doc_name d) (TraceNotPersisted (RowRefused e)) [] now db
              | Inr (created, db1) \<Rightarrow>
                  (case rt_end report of
                     ReportFails f \<Rightarrow> settle_failed sv r d report f data (announced pairs created) now db1
                   | _ \<Rightarrow> settle_done sv r d report data (announced pairs created) now db1)))"

text \<open>What the executor asked for when it suspended: a ticket's mode and token, if it issued one, and a deadline.\<close>

type_synonym asked = "(string \<times> string) option \<times> int"

definition suspension_of :: "('c, 'w, 'm) service \<Rightarrow> 'm checkpoint \<Rightarrow> asked \<Rightarrow> 'c suspension" where
  "suspension_of sv cp asked =
     \<lparr>su_mode = cp_mode cp, su_ticket = fst asked, su_expires = snd asked, su_node = cp_node cp,
      su_checkpoint = Some (sv_encode_checkpoint sv cp)\<rparr>"

definition waiting_event :: "('c, 'w, 'm) service \<Rightarrow> exec_row \<Rightarrow> 'c wait_row \<Rightarrow> event" where
  "waiting_event sv r wait =
     (execution_event ''execution.waiting'' (r\<lparr>ex_status := StWaiting\<rparr>)
        (RawJson (JObj [(''nodeId'', JStr (wt_node wait)), (''mode'', JStr (wt_mode wait)),
           (''expiresAt'', JStr (wc_time (sv_codec sv) (wt_expires wait)))])))\<lparr>ev_node := wt_node wait\<rparr>"

definition park_work ::
  "('c, 'w, 'm) service \<Rightarrow> 'c job \<Rightarrow> 'm report \<Rightarrow> 'c suspension \<Rightarrow> string \<Rightarrow> int \<Rightarrow> int list \<Rightarrow> static_data option
     \<Rightarrow> (int \<Rightarrow> string) \<Rightarrow> int \<Rightarrow> 'c database \<Rightarrow> 'c ended" where
  "park_work sv job report s token expires written data ids now db =
     (let r = jb_record job; d = jb_document job
      in case persist_segment (sv_host sv) (sv_rendering sv) r (kinds_of d) written (seq_base job + 1) now ids
                (rt_rows report) db of
           (Some e, events, db1) \<Rightarrow> gave_up (NotPersisted (TraceNotPersisted e)) (map Published events) db1
         | (None, events, db1) \<Rightarrow>
             (case park_run (sv_codec sv) (ex_tenant r) r s token (seq_base job + int (length (rt_rows report)))
                     expires now db1 of
                Inl e \<Rightarrow> gave_up (StoreFailed e) (map Published events) db1
              | Inr ((wait, u), db2) \<Rightarrow>
                  \<lparr>en_error = None,
                   en_notices = map Published events @ [Published (waiting_event sv r wait)],
                   en_static = static_of sv u data, en_failure = None, en_db = db2\<rparr>))"

definition end_work ::
  "('c, 'w, 'm) service \<Rightarrow> 'c job \<Rightarrow> 'm report \<Rightarrow> string \<Rightarrow> asked \<Rightarrow> int list \<Rightarrow> static_data option
     \<Rightarrow> (int \<Rightarrow> string) \<Rightarrow> int \<Rightarrow> 'c database \<Rightarrow> 'c ended" where
  "end_work sv job report token asked written data ids now db =
     (case rt_end report of
        ReportWaits cp \<Rightarrow>
          (let s = suspension_of sv cp asked
           in case admit_suspension s token now of
                Inl e \<Rightarrow> finish_work sv job (report\<lparr>rt_end := ReportFails (SuspensionRefused e)\<rparr>) data ids now db
              | Inr expires \<Rightarrow> park_work sv job report s token expires written data ids now db)
      | _ \<Rightarrow> finish_work sv job report data ids now db)"

subsection \<open>The whole iteration\<close>

text \<open>
  A worker's iteration over a world that holds the database. What the run leaves beside its report (the rows the
  live writer wrote, the static data, what a suspending executor asked) is a function of it. The result is whether
  the worker had something to do, what it reports, the run's end and the world; no result is a run that never
  returns.
\<close>

record leavings =
  lv_written :: "int list"
  lv_static :: "static_data option"
  lv_asked :: asked
  lv_ids :: "int \<Rightarrow> string"
  lv_now :: int

definition run_once ::
  "('c, 'c database \<times> 'x, 'm) service \<Rightarrow> string \<Rightarrow> string \<Rightarrow> string \<Rightarrow> int \<Rightarrow> ('m report \<Rightarrow> 'x \<Rightarrow> leavings)
     \<Rightarrow> 'c database \<times> 'x \<Rightarrow> (bool \<times> notice list \<times> ('c job \<times> 'm report \<times> 'c ended) option \<times> 'c database \<times> 'x) option" where
  "run_once sv worker lease token now leave w =
     (case begin_work sv worker lease now (fst w) of
        (Begun job, notices, db1) \<Rightarrow>
          Option.bind (run_job sv job token (db1, snd w)) (\<lambda>(report, db2, x).
            (let l = leave report x;
                 ended = end_work sv job report token (lv_asked l) (lv_written l) (lv_static l) (lv_ids l) (lv_now l) db2
             in Some (True, notices @ en_notices ended, Some (job, report, ended), en_db ended, x)))
      | (NothingToDo, notices, db1) \<Rightarrow> Some (False, notices, None, db1, snd w)
      | (ClaimFailed e, notices, db1) \<Rightarrow> Some (False, notices, None, db1, snd w)
      | (ClaimLost r e, notices, db1) \<Rightarrow> Some (True, notices, None, db1, snd w)
      | (Recovered r, notices, db1) \<Rightarrow> Some (True, notices, None, db1, snd w))"

end
