(* ===== verification/Service_Calls.thy ===== *)
theory Service_Calls
  imports Service
begin

text \<open>
  Workflows that call workflows (\<open>InvokeWorkflow\<close>, \<open>persistChild\<close>, \<open>runErrorWorkflow\<close> and their helpers in
  \<open>internal/engine/service.go\<close>, \<open>refuseSuspendInChild\<close> in \<open>wait_service.go\<close>): a call runs inline in its caller's
  worker as an execution of its own; a failed execution starts the workflow its settings name.

  Running the child is an argument, which \<open>run_with_stack\<close> instantiates: the child's executors may call again.
\<close>

subsection \<open>The call stack\<close>

datatype stack_refusal = Repeats "string list" | TooDeep "string list"

definition max_workflow_call_depth :: nat where "max_workflow_call_depth = 16"

definition check_call_stack :: "string list \<Rightarrow> string \<Rightarrow> stack_refusal + unit" where
  "check_call_stack stack target =
     (if target \<in> set stack then Inl (Repeats (dropWhile (\<lambda>w. w \<noteq> target) stack @ [target]))
      else if max_workflow_call_depth \<le> length stack then Inl (TooDeep (stack @ [target]))
      else Inr ())"

subsection \<open>A call\<close>

definition items_json :: "item list \<Rightarrow> jval list" where
  "items_json items = map (\<lambda>it. JObj (item_json it)) items"

text \<open>The items of every terminal node's ports, in the order of the nodes' names, without their lineage.\<close>

definition terminal_items :: "document \<Rightarrow> (string \<rightharpoonup> node_output) \<Rightarrow> item list" where
  "terminal_items d output =
     (let names = sort (remdups (filter (\<lambda>k. output k \<noteq> None) (map node_id (nodes_of d))))
      in map (\<lambda>it. it\<lparr>item_paired := None\<rparr>) (concat (concat (map (\<lambda>k. the (output k)) names))))"

definition first_of_type :: "string \<Rightarrow> document \<Rightarrow> string" where
  "first_of_type kind d =
     (if kind = [] then []
      else case find (\<lambda>n. node_type n = kind) (nodes_of d) of None \<Rightarrow> [] | Some n \<Rightarrow> node_id n)"

definition subworkflow_trigger :: "('c, 'w, 'm) service \<Rightarrow> document \<Rightarrow> string" where
  "subworkflow_trigger sv = first_of_type (sv_subworkflow_type sv)"

definition error_trigger_selector :: "('c, 'w, 'm) service \<Rightarrow> document \<Rightarrow> string" where
  "error_trigger_selector sv = first_of_type (sv_error_type sv)"

text \<open>The trigger a call would start from, for a caller that only asks.\<close>

definition read_subworkflow_trigger ::
  "('c, 'w, 'm) service \<Rightarrow> string \<Rightarrow> string \<Rightarrow> 'c database \<Rightarrow> store_error + node option" where
  "read_subworkflow_trigger sv tenant flow db =
     attempt (active_document tenant (trim_space flow) db) (\<lambda>d.
       Inr (if subworkflow_trigger sv d = [] then None
            else find (\<lambda>n. node_id n = subworkflow_trigger sv d) (nodes_of d)))"

record caller =
  ca_id :: string
  ca_tenant :: string
  ca_stack :: "string list"

record call =
  cl_workflow :: string
  cl_items :: "item list"
  cl_wait :: bool

datatype call_error =
    NoWorkflowNamed
  | StackRefused stack_refusal
  | NotStarted store_error
  | ChildNotPersisted trace_failure
  | ChildOutputUnmarshalled
  | ChildNotSettled store_error
  | SubworkflowFailed string work_failure

text \<open>The child is created at work under a lease of the calling process.\<close>

definition start_call ::
  "('c, 'w, 'm) service \<Rightarrow> caller \<Rightarrow> call \<Rightarrow> (document \<Rightarrow> string) \<Rightarrow> bool \<Rightarrow> string \<Rightarrow> int \<Rightarrow> 'c database
     \<Rightarrow> call_error + (exec_row \<times> document) \<times> 'c database" where
  "start_call sv caller call select latest i now db =
     (let target = trim_space (cl_workflow call)
      in need (target \<noteq> []) NoWorkflowNamed
        (case check_call_stack (ca_stack caller) target of
           Inl e \<Rightarrow> Inl (StackRefused e)
         | Inr _ \<Rightarrow>
             (case start_child (ca_tenant caller)
                \<lparr>cc_workflow = target, cc_parent = ca_id caller, cc_trigger_node = [],
                 cc_input = RawJson (JObj [(''items'', JArr (items_json (cl_items call)))]),
                 cc_select = Some select, cc_latest = latest, cc_owner = sv_worker sv,
                 cc_until = now + lease_duration sv\<rparr> i now db of
                Inl e \<Rightarrow> Inl (NotStarted e)
              | Inr x \<Rightarrow> Inr x)))"

text \<open>A child cannot wait: its suspension is a failure.\<close>

definition refuse_suspend_in_child :: "string \<Rightarrow> 'm report \<Rightarrow> 'm report" where
  "refuse_suspend_in_child target report =
     (case rt_end report of
        ReportWaits cp \<Rightarrow> report\<lparr>rt_end := ReportFails (ChildCannotWait target (cp_node cp))\<rparr>
      | _ \<Rightarrow> report)"

text \<open>The child's terminal row; \<open>None\<close> when its output has no JSON form.\<close>

definition child_settled_row :: "('c, 'w, 'm) service \<Rightarrow> exec_row \<Rightarrow> 'm report \<Rightarrow> int \<Rightarrow> exec_row option" where
  "child_settled_row sv r report now =
     (case rt_end report of
        ReportFails f \<Rightarrow>
          Some (r\<lparr>ex_status := failure_status sv f,
                  ex_error := structured_error (if cancels sv f then cancelled_code else ''execution.failed'') (sv_text sv f),
                  ex_finished := Some now\<rparr>)
      | _ \<Rightarrow>
          map_option (\<lambda>v. r\<lparr>ex_status := StSucceeded, ex_output := RawJson v, ex_error := null_payload,
                            ex_finished := Some now\<rparr>) (sv_encode_result sv (rt_output report)))"

record 'c child_end =
  ce_error :: "call_error option"
  ce_notices :: "notice list"
  ce_static :: "string option"
  ce_db :: "'c database"

definition child_gave_up :: "call_error \<Rightarrow> notice list \<Rightarrow> 'c database \<Rightarrow> 'c child_end" where
  "child_gave_up e notices db = \<lparr>ce_error = Some e, ce_notices = notices, ce_static = None, ce_db = db\<rparr>"

definition persist_child ::
  "('c, 'w, 'm) service \<Rightarrow> exec_row \<Rightarrow> string \<Rightarrow> 'm report \<Rightarrow> static_data option \<Rightarrow> (int \<Rightarrow> string) \<Rightarrow> int \<Rightarrow> 'c database
     \<Rightarrow> 'c child_end" where
  "persist_child sv r name report data ids now db =
     (case child_rows (sv_rendering sv) r 1 now (rt_rows report) of
        Inl e \<Rightarrow> child_gave_up (ChildNotPersisted e) [] db
      | Inr rows \<Rightarrow>
          (case create_node_runs (sv_host sv) (ex_tenant r) (batch_of r ids rows) now db of
             Inl e \<Rightarrow>
               (let failed = fail_persist sv r name (TraceNotPersisted (RowRefused e)) [] now db
                in child_gave_up (ChildNotPersisted (RowRefused e)) (en_notices failed) (en_db failed))
           | Inr (created, db1) \<Rightarrow>
               (case child_settled_row sv r report now of
                  None \<Rightarrow> child_gave_up ChildOutputUnmarshalled [] db1
                | Some settled \<Rightarrow>
                    (case update_runtime (sv_host sv) (ex_tenant r) settled db1 of
                       Inl e \<Rightarrow> child_gave_up (ChildNotSettled e) [] db1
                     | Inr ((u, ts), db2) \<Rightarrow>
                         \<lparr>ce_error = None,
                          ce_notices = settled_notices (sv_level sv) name (u, ts) (ex_output u) db2,
                          ce_static = static_of sv u data, ce_db = db2\<rparr>))))"

text \<open>
  What an invocation answers: the child's identifier, empty where the source leaves it so, the items for the
  caller, and the error. \<open>run_child\<close> runs the child on the database; without a result the call never returns.
  The child is created at \<open>now\<close> and settled \<open>later\<close>.
\<close>

record invocation =
  iv_id :: string
  iv_items :: "item list"
  iv_error :: "call_error option"
  iv_notices :: "notice list"

definition call_failed :: "string \<Rightarrow> call_error \<Rightarrow> notice list \<Rightarrow> invocation" where
  "call_failed i e notices = \<lparr>iv_id = i, iv_items = [], iv_error = Some e, iv_notices = notices\<rparr>"

definition answer_of :: "string \<Rightarrow> call \<Rightarrow> exec_row \<Rightarrow> document \<Rightarrow> 'm report \<Rightarrow> 'c child_end \<Rightarrow> notice list \<Rightarrow> invocation" where
  "answer_of target call r d report ce notices =
     (case ce_error ce of
        Some e \<Rightarrow> call_failed [] e notices
      | None \<Rightarrow>
          (case rt_end report of
             ReportFails f \<Rightarrow> call_failed (ex_id r) (SubworkflowFailed target f) notices
           | _ \<Rightarrow> \<lparr>iv_id = ex_id r, iv_items = (if cl_wait call then terminal_items d (rt_output report) else []),
                  iv_error = None, iv_notices = notices\<rparr>))"

type_synonym ('c, 'm) child_runner =
  "exec_row \<Rightarrow> document \<Rightarrow> string list \<Rightarrow> 'c database \<Rightarrow> ('m report \<times> 'c database) option"

definition invoke_workflow ::
  "('c, 'w, 'm) service \<Rightarrow> ('c, 'm) child_runner \<Rightarrow> caller \<Rightarrow> call \<Rightarrow> (document \<Rightarrow> string) \<Rightarrow> bool \<Rightarrow> string \<Rightarrow>
   ('m report \<Rightarrow> static_data option) \<Rightarrow> (int \<Rightarrow> string) \<Rightarrow> int \<Rightarrow> int \<Rightarrow> 'c database \<Rightarrow> (invocation \<times> 'c database) option" where
  "invoke_workflow sv run_child caller call select latest i data ids now later db =
     (let target = trim_space (cl_workflow call)
      in case start_call sv caller call select latest i now db of
           Inl e \<Rightarrow> Some (call_failed [] e [], db)
         | Inr ((r, d), db1) \<Rightarrow>
             Option.bind (run_child r d (ca_stack caller @ [target]) db1) (\<lambda>(report0, db2).
               (let report = refuse_suspend_in_child target report0;
                    ce = persist_child sv r (doc_name d) report (data report) ids later db2;
                    notices = Published (execution_event ''execution.started'' (r\<lparr>ex_status := StRunning\<rparr>) RawEmpty)
                      # ce_notices ce
                in Some (answer_of target call r d report ce notices, ce_db ce))))"

subsection \<open>Error workflows\<close>

definition error_workflow_id :: "document \<Rightarrow> string" where
  "error_workflow_id d =
     (case jget (settings_of d) ''errorWorkflow'' of JStr s \<Rightarrow> trim_space s | _ \<Rightarrow> [])"

definition execution_path :: "string \<Rightarrow> string" where "execution_path i = ''/executions/'' @ i"

text \<open>What the item says of the failure: its message, and the node whose row failed last.\<close>

definition failed_node_name :: "document \<Rightarrow> node_run list \<Rightarrow> string" where
  "failed_node_name d rows =
     fold (\<lambda>nr name. if nr_error nr = None then name
             else case find (\<lambda>n. node_id n = nr_node nr) (nodes_of d) of None \<Rightarrow> nr_node nr | Some n \<Rightarrow> node_name n)
       rows []"

definition failed_node :: "document \<Rightarrow> node_run list \<Rightarrow> node option" where
  "failed_node d rows =
     fold (\<lambda>nr found. if nr_error nr = None then found
             else case find (\<lambda>n. node_id n = nr_node nr) (nodes_of d) of None \<Rightarrow> found | Some n \<Rightarrow> Some n)
       rows None"

definition error_detail ::
  "('c, 'w, 'm) service \<Rightarrow> document \<Rightarrow> node_run list \<Rightarrow> string \<Rightarrow> string \<Rightarrow> int \<Rightarrow> jobject" where
  "error_detail sv d rows code message now =
     [(''code'', JStr code), (''message'', JStr message)] @
     (case failed_node d rows of
        None \<Rightarrow> [(''stack'', JStr message)]
      | Some n \<Rightarrow>
          [(''node'', JObj [(''id'', JStr (node_id n)), (''name'', JStr (node_name n)), (''type'', JStr (node_type n))]),
           (''stack'', JStr (message @ CHR 0x0A # ''    at '' @ node_name n @ '' ('' @ node_type n @ '')''))]) @
     [(''timestamp'', JStr (wc_time (sv_codec sv) now))]"

definition error_workflow_item ::
  "('c, 'w, 'm) service \<Rightarrow> exec_row \<Rightarrow> document \<Rightarrow> node_run list \<Rightarrow> string \<Rightarrow> string \<Rightarrow> int \<Rightarrow> item" where
  "error_workflow_item sv r d rows code message now =
     json_item
       [(''execution'', JObj
          [(''id'', JStr (ex_id r)), (''url'', JStr (sv_base_url sv @ execution_path (ex_id r))),
           (''mode'', JStr (ex_trigger r)), (''lastNodeExecuted'', JStr (failed_node_name d rows)),
           (''error'', JObj (error_detail sv d rows code message now))]),
        (''workflow'', JObj [(''id'', JStr (ex_workflow r)), (''name'', JStr (doc_name d))]),
        (''trigger'', JObj [(''mode'', JStr (ex_trigger r))])]"

definition note_error_workflow ::
  "('c, 'w, 'm) service \<Rightarrow> exec_row \<Rightarrow> jobject \<Rightarrow> 'c database \<Rightarrow> 'c database" where
  "note_error_workflow sv r notes db =
     (case annotate_failure (sv_host sv) (ex_tenant r) (ex_id r) notes db of Inl e \<Rightarrow> db | Inr db' \<Rightarrow> db')"

definition error_note :: "(call_error \<Rightarrow> string) \<Rightarrow> string \<Rightarrow> invocation \<Rightarrow> jobject" where
  "error_note describe target invoked =
     [(''errorWorkflowId'', JStr target)] @
     (if iv_id invoked = [] then [] else [(''errorExecutionId'', JStr (iv_id invoked))]) @
     (case iv_error invoked of None \<Rightarrow> [] | Some e \<Rightarrow> [(''errorWorkflowError'', JStr (describe e))])"

definition self_named :: string where
  "self_named = ''the error workflow names its own workflow, so it was not started''"

text \<open>Starts the workflow a failed execution names: \<open>start\<close> is \<open>invoke_workflow\<close> for the caller and the call.\<close>

definition run_error_workflow ::
  "('c, 'w, 'm) service \<Rightarrow> (call_error \<Rightarrow> string) \<Rightarrow> (caller \<Rightarrow> call \<Rightarrow> 'c database \<Rightarrow> (invocation \<times> 'c database) option)
     \<Rightarrow> exec_row \<Rightarrow> document \<Rightarrow> 'm report \<Rightarrow> string \<Rightarrow> work_failure \<Rightarrow> int \<Rightarrow> 'c database \<Rightarrow> (notice list \<times> 'c database) option" where
  "run_error_workflow sv describe start r d report code f now db =
     (let target = error_workflow_id d
      in if target = [] then Some ([], db)
         else if target = ex_workflow r
         then Some ([], note_error_workflow sv r
                (add_fields [(''errorWorkflowId'', JStr target), (''errorWorkflowError'', JStr self_named)] []) db)
         else map_option (\<lambda>(invoked, db1).
                (iv_notices invoked, note_error_workflow sv r (error_note describe target invoked) db1))
              (start \<lparr>ca_id = ex_id r, ca_tenant = ex_tenant r, ca_stack = [ex_workflow r]\<rparr>
                 \<lparr>cl_workflow = target, cl_items = [error_workflow_item sv r d (rt_rows report) code (sv_text sv f) now],
                  cl_wait = False\<rparr> db))"

subsection \<open>Cancelling and queueing\<close>

text \<open>
  The store cancels; the service announces what is already final: the rows of the wait, and the end, with a line
  unless the execution was cancelled before.
\<close>

definition cancelled_notices ::
  "('c, 'w, 'm) service \<Rightarrow> store_error + status \<times> bool \<Rightarrow> exec_row \<Rightarrow> trace_row list \<Rightarrow> 'c database \<Rightarrow> notice list" where
  "cancelled_notices sv before r ts db =
     (if ex_status r \<noteq> StCancelled then []
      else map (\<lambda>t. Published (node_event_of r (tr_node t) (tr_status t) (tr_sequence t) RawEmpty)) (filter (\<lambda>t. tr_status t = StCancelled) ts) @
           announce (sv_level sv) [] (r, ts) RawEmpty
             (case before of Inl e \<Rightarrow> True | Inr (s, _) \<Rightarrow> s \<noteq> StCancelled) db)"

definition trigger_webhook :: string where "trigger_webhook = ''webhook''"
definition trigger_schedule :: string where "trigger_schedule = ''schedule''"
definition trigger_poll :: string where "trigger_poll = ''poll''"
definition trigger_host_event :: string where "trigger_host_event = ''hostEvent''"

definition queue_scheduled ::
  "string \<Rightarrow> string \<Rightarrow> string \<Rightarrow> string \<Rightarrow> raw \<Rightarrow> string \<Rightarrow> int \<Rightarrow> 'c database \<Rightarrow> store_error + exec_row \<times> 'c database" where
  "queue_scheduled tenant flow version start payload i now db =
     queue_triggered tenant flow version trigger_schedule start payload i now db"

definition queue_webhook ::
  "string \<Rightarrow> string \<Rightarrow> string \<Rightarrow> string \<Rightarrow> raw \<Rightarrow> string \<Rightarrow> int \<Rightarrow> 'c database \<Rightarrow> store_error + exec_row \<times> 'c database" where
  "queue_webhook tenant flow version start payload i now db =
     queue_triggered tenant flow version trigger_webhook start payload i now db"

definition queue_polled ::
  "string \<Rightarrow> string \<Rightarrow> string \<Rightarrow> string \<Rightarrow> raw \<Rightarrow> string \<Rightarrow> int \<Rightarrow> 'c database \<Rightarrow> store_error + exec_row \<times> 'c database" where
  "queue_polled tenant flow version start payload i now db =
     queue_triggered tenant flow version trigger_poll start payload i now db"

definition queue_host_event ::
  "string \<Rightarrow> string \<Rightarrow> string \<Rightarrow> string \<Rightarrow> raw \<Rightarrow> string \<Rightarrow> int \<Rightarrow> 'c database \<Rightarrow> store_error + exec_row \<times> 'c database" where
  "queue_host_event tenant flow version start payload i now db =
     queue_triggered tenant flow version trigger_host_event start payload i now db"

end
