(* ===== verification/Service_Correct.thy ===== *)
theory Service_Correct
  imports Service_Calls Store_Properties
begin

text \<open>
  The lemmas behind the service's properties: what a claim begins with, that every write of a worker is a step of
  the store, and what each write does to an execution that is held under the worker's lease or not.
\<close>

subsection \<open>Idle executions have no output\<close>

definition output_ok :: "exec_row \<Rightarrow> bool" where
  "output_ok r \<longleftrightarrow> (at_work r \<or> ex_status r = StQueued \<or> ex_status r = StWaiting \<longrightarrow> ex_output r = null_payload)"

lemma row_change_output: "row_change x y \<Longrightarrow> pred_option output_ok x \<Longrightarrow> pred_option output_ok y"
  by (induction rule: row_change.induct)
    (auto simp: row_fields output_ok_def status_terminal_def split: if_splits)

interpretation outputs: execution_invariant output_ok
  by unfold_locales (rule row_change_output)

lemma stored_payload_json: "\<exists>v'. stored_payload h (RawJson v) = Inr v'"
  by (auto simp: stored_payload_def trigger_payload_def redact_def raw_valid_def unmarshal_def split: option.splits)

subsection \<open>Steps\<close>

lemma reachable_steps: "reachable db \<Longrightarrow> store_step\<^sup>*\<^sup>* db db' \<Longrightarrow> reachable db'"
  unfolding reachable_def by (meson rtranclp_trans)

lemma steps_one: "store_step db db' \<Longrightarrow> store_step\<^sup>*\<^sup>* db db'"
  by blast

lemma created_runs:
  assumes "create_node_runs h tenant batch now db = Inr (created, db')"
  shows "db_executions db' = db_executions db" "row_at db' = row_at db" "db_runs db' = db_runs db @ created"
    "db_waits db' = db_waits db" "ids_distinct db' = ids_distinct db" "store_step db db'"
proof -
  have "db' = db \<and> created = [] \<or> insert_runs created db = Inr db'"
    using assms by (auto simp: create_node_runs_def Let_def split: list.splits)
  then show "db_executions db' = db_executions db" "row_at db' = row_at db" "db_runs db' = db_runs db @ created"
    "db_waits db' = db_waits db" "ids_distinct db' = ids_distinct db"
    using insert_runs_tables [of created db db'] by auto
  show "store_step db db'" using assms by (rule store_step.traces)
qed

lemma created_run:
  assumes "create_node_run h tenant k owner t now db = Inr (stored, db')"
  shows "\<exists>created. create_node_runs h tenant [(k, owner, t)] now db = Inr (created, db')"
proof (cases "create_node_runs h tenant [(k, owner, t)] now db")
  case (Inl e)
  with assms show ?thesis by (simp add: create_node_run_def)
next
  case (Inr res)
  with assms show ?thesis by (cases res) (simp add: create_node_run_def)
qed

text \<open>An update under the lease succeeds, and settles the row as cancelled where that was asked for.\<close>

definition settled_as :: "exec_row \<Rightarrow> exec_row \<Rightarrow> raw \<Rightarrow> raw \<Rightarrow> exec_row" where
  "settled_as x r output error =
     (if ex_status x = StCancelling then settle_with StCancelled null_payload cancellation_error (ex_finished r) x
      else settle_with (ex_status r) output error (ex_finished r) x)"

lemma update_held:
  assumes "ids_distinct db" "row_at db (ex_id r) = Some x" "at_work x" "held_by tenant (ex_id r) (ex_owner r) x"
    and "tenant \<noteq> []" "ex_id r \<noteq> []" "ex_owner r \<noteq> []" "ex_status r \<noteq> StOther []"
    and "stored_payload h (ex_output r) = Inr out" "stored_payload h (ex_error r) = Inr err"
  shows "\<exists>ts db'. update_runtime h tenant r db = Inr ((settled_as x r out err, ts), db') \<and>
    row_at db' (ex_id r) = Some (settled_as x r out err) \<and> db_runs db' = db_runs db"
proof -
  let ?cancelled = "\<lambda>x. held_by tenant (ex_id r) (ex_owner r) x \<and> ex_status x = StCancelling"
  let ?finished = "\<lambda>x. held_by tenant (ex_id r) (ex_owner r) x \<and> ex_status x = StRunning"
  define db' where "db' = (if ex_status x = StCancelling
    then change_executions ?cancelled (settle_with StCancelled null_payload cancellation_error (ex_finished r)) db
    else change_executions ?finished (settle_with (ex_status r) out err (ex_finished r)) db)"
  have counts: "0 < affected ?cancelled (db_executions db) \<longleftrightarrow> ex_status x = StCancelling"
    "0 < affected ?finished (db_executions db) \<longleftrightarrow> ex_status x = StRunning"
    using affected_row [OF assms(1), of ?cancelled "ex_id r"] affected_row [OF assms(1), of ?finished "ex_id r"] assms(2,4)
    by (auto simp: held_by_def)
  then have settles: "settle_running r tenant out err db = Inr db'"
    using assms(3) by (auto simp: settle_running_def Let_def db'_def at_work_def)
  have row: "row_at db' = (row_at db)(ex_id r \<mapsto> settled_as x r out err)"
    using assms(2-4)
    by (auto simp: db'_def settled_as_def at_work_def intro!: row_at_change_one) (auto simp: held_by_def)
  have "ex_tenant (settled_as x r out err) = tenant" using assms(4) by (simp add: settled_as_def held_by_def settle_with_def)
  moreover have ids: "ids_distinct db'" using assms(1) by (simp add: db'_def ids_change)
  ultimately have "find_execution db' tenant (ex_id r) = Some (settled_as x r out err)"
    using row by (simp add: find_execution_row)
  moreover have "db_runs db' = db_runs db" by (simp add: db'_def)
  ultimately show ?thesis using assms(5-10) settles row by (auto simp: update_runtime_def get_execution_def payload_of_def)
qed

subsection \<open>What a worker begins with\<close>

lemma begun_facts:
  assumes "reachable db" "begin_work sv worker lease now db = (Begun job, notices, db1)"
  defines "r \<equiv> jb_record job"
  shows "store_step db db1" "reachable db1" "row_at db1 (ex_id r) = Some r" "ex_status r = StRunning"
    "ex_owner r \<noteq> []" "ex_tenant r \<noteq> []" "ex_id r \<noteq> []" "ex_output r = null_payload"
    "loaded_wait (ex_tenant r) (ex_id r) db1 = Inr (jb_wait job)"
proof -
  obtain crashed where claim: "claim_next worker lease (now + lease_duration sv) now db
      = Inr ((Some (r, jb_document job), crashed), db1)"
    and status: "ex_status r \<noteq> StCancelling" and wait: "loaded_wait (ex_tenant r) (ex_id r) db1 = Inr (jb_wait job)"
    using assms(2) unfolding r_def
    by (auto simp: begin_work_def Let_def split: sum.splits prod.splits option.splits if_splits)
  show step: "store_step db db1" using claim by (rule store_step.claim)
  show reach: "reachable db1" using reachable_steps [OF assms(1) steps_one [OF step]] .
  show "loaded_wait (ex_tenant r) (ex_id r) db1 = Inr (jb_wait job)" by (rule wait)
  then show "ex_tenant r \<noteq> []" "ex_id r \<noteq> []"
    by (cases "ex_tenant r = []"; cases "ex_id r = []"; simp add: loaded_wait_def load_resume_state_def)+
  have scan: "claim_scan claim_scan_limit (worker @ ''/'' @ lease) (now + lease_duration sv) now [] db
      = Inr ((Some (r, jb_document job), crashed), db1)"
    using claim by (simp add: claim_next_def)
  obtain c where c: "r = claimed_row (worker @ ''/'' @ lease) (now + lease_duration sv) c" "row_at db1 (ex_id c) = Some r"
    using claim_scan_result [OF scan sound_ids [OF reachable_sound [OF assms(1)]]] by auto
  then show "row_at db1 (ex_id r) = Some r" "ex_owner r \<noteq> []" by (simp_all add: claimed_row_def)
  show running: "ex_status r = StRunning" using c(1) status by (auto simp: claimed_row_def split: if_splits)
  have "r \<in> set (db_executions db1)" using row_at_in [OF c(2)] by simp
  then show "ex_output r = null_payload" using outputs.holds [OF reach] running by (auto simp: output_ok_def at_work_def)
qed

subsection \<open>The service's writes under a lease\<close>

lemma held_at_work: "reachable db \<Longrightarrow> row_at db i = Some x \<Longrightarrow> ex_owner x \<noteq> [] \<Longrightarrow> at_work x"
  using leases.holds [of db x] row_at_in [of db i x] by (auto simp: lease_ok_def)

text \<open>An execution held by the worker that wants to settle it.\<close>

definition holds_row :: "exec_row \<Rightarrow> exec_row \<Rightarrow> 'c database \<Rightarrow> bool" where
  "holds_row r x db \<longleftrightarrow>
     ids_distinct db \<and> row_at db (ex_id r) = Some x \<and> at_work x \<and> held_by (ex_tenant r) (ex_id r) (ex_owner r) x \<and>
     ex_tenant r \<noteq> [] \<and> ex_id r \<noteq> [] \<and> ex_owner r \<noteq> []"

lemma holds_row_kept:
  "holds_row r x db \<Longrightarrow> row_at db' = row_at db \<Longrightarrow> ids_distinct db' = ids_distinct db \<Longrightarrow> holds_row r x db'"
  by (simp add: holds_row_def)

lemma settles_held:
  assumes "holds_row r x db" "ex_id r' = ex_id r" "ex_tenant r' = ex_tenant r" "ex_owner r' = ex_owner r"
    and "ex_status r' \<noteq> StOther []" "ex_output r' = RawJson v" "ex_error r' = RawJson e"
  shows "\<exists>out err ts db'. update_runtime h (ex_tenant r) r' db = Inr ((settled_as x r' out err, ts), db') \<and>
    row_at db' (ex_id r) = Some (settled_as x r' out err) \<and> db_runs db' = db_runs db"
proof -
  obtain out err where "stored_payload h (ex_output r') = Inr out" "stored_payload h (ex_error r') = Inr err"
    unfolding assms(6,7) using stored_payload_json by blast
  with assms(1-5) show ?thesis
    using update_held [of db r' x "ex_tenant r" h out err] by (auto simp: holds_row_def)
qed

lemma settled_as_status:
  "ex_status (settled_as x r out err) = (if ex_status x = StCancelling then StCancelled else ex_status r)"
  by (simp add: settled_as_def settle_with_def)

text \<open>What an ended worker leaves of its execution: a row with the given status, or the status of a failure to persist.\<close>

definition leaves :: "exec_row \<Rightarrow> exec_row \<Rightarrow> status \<Rightarrow> 'c ended \<Rightarrow> bool" where
  "leaves r x s ended \<longleftrightarrow>
     (\<exists>y. row_at (en_db ended) (ex_id r) = Some y \<and>
        ex_status y = (if ex_status x = StCancelling then StCancelled else if en_error ended = None then s else StFailed) \<and>
        (en_failure ended \<noteq> None \<longrightarrow> ex_status y = StFailed))"

lemma fail_persist_leaves: "holds_row r x db \<Longrightarrow> leaves r x s (fail_persist sv r name cause notices now db)"
  using settles_held [of r x db "r\<lparr>ex_status := StFailed, ex_output := null_payload,
      ex_error := structured_error ''execution.persist_failed'' (sv_text sv cause), ex_finished := Some now\<rparr>"
      JNull _ "sv_host sv"]
  by (fastforce simp: fail_persist_def leaves_def gave_up_def null_payload_def structured_error_def settled_as_status)

lemma settle_failed_leaves:
  assumes "holds_row r x db" "ex_output r = null_payload"
  shows "leaves r x (failure_status sv f) (settle_failed sv r d report f data notices now db)"
  using settles_held [OF assms(1), of "r\<lparr>ex_status := failure_status sv f,
      ex_error := structured_error (failure_of_rows sv f (rt_rows report)) (sv_text sv f), ex_finished := Some now\<rparr>"
      JNull _ "sv_host sv"] assms(2)
  by (fastforce simp: settle_failed_def Let_def leaves_def null_payload_def structured_error_def settled_as_status
      failure_status_def)

lemma settle_done_leaves:
  assumes "holds_row r x db"
  shows "leaves r x StSucceeded (settle_done sv r d report data notices now db)"
proof (cases "sv_encode_result sv (rt_output report)")
  case None
  then show ?thesis using fail_persist_leaves [OF assms] by (simp add: settle_done_def)
next
  case (Some v)
  then show ?thesis
    using settles_held [OF assms, of "r\<lparr>ex_status := StSucceeded, ex_output := RawJson v, ex_error := null_payload,
      ex_finished := Some now\<rparr>" v JNull "sv_host sv"]
    by (fastforce simp: settle_done_def leaves_def null_payload_def settled_as_status)
qed

definition report_status :: "('c, 'w, 'm) service \<Rightarrow> 'm report \<Rightarrow> status" where
  "report_status sv report = (case rt_end report of ReportFails f \<Rightarrow> failure_status sv f | _ \<Rightarrow> StSucceeded)"

lemma finish_work_leaves:
  assumes "holds_row (jb_record job) x db" "ex_output (jb_record job) = null_payload"
  shows "leaves (jb_record job) x (report_status sv report) (finish_work sv job report data ids now db)"
proof (cases "trace_rows (sv_host sv) (sv_rendering sv) (jb_record job) (kinds_of (jb_document job)) (seq_base job) now
    (rt_rows report)")
  case (Inl e)
  then show ?thesis using fail_persist_leaves [OF assms(1)] by (simp add: finish_work_def Let_def)
next
  case (Inr pairs)
  note rendered = this
  show ?thesis
  proof (cases "create_node_runs (sv_host sv) (ex_tenant (jb_record job)) (batch_of (jb_record job) ids (map fst pairs)) now db")
    case (Inl e)
    then show ?thesis using fail_persist_leaves [OF assms(1)] rendered by (simp add: finish_work_def Let_def)
  next
    case (Inr res)
    obtain created db1 where res: "res = (created, db1)" by (cases res)
    have held: "holds_row (jb_record job) x db1"
      using holds_row_kept [OF assms(1)] created_runs [OF Inr [unfolded res]] by blast
    show ?thesis
      using rendered Inr res settle_failed_leaves [OF held assms(2)] settle_done_leaves [OF held]
      by (cases "rt_end report") (simp_all add: finish_work_def Let_def report_status_def)
  qed
qed

subsection \<open>Parking\<close>

lemma persisted_row:
  assumes "persist_trace_row h rn r kinds sequence now k nr db = Inr db'"
  shows "\<exists>t created. create_node_runs h (ex_tenant r) [(k, ex_owner r, t)] now db = Inr (created, db')"
proof -
  obtain t e where row: "trace_row_of h rn r kinds sequence now nr = Inr (t, e)"
    using assms by (auto simp: persist_trace_row_def)
  then obtain stored where "create_node_run h (ex_tenant r) k (ex_owner r) t now db = Inr (stored, db')"
    using assms by (cases "create_node_run h (ex_tenant r) k (ex_owner r) t now db") (auto simp: persist_trace_row_def)
  then show ?thesis using created_run by blast
qed

lemma persist_segment_tables:
  assumes "persist_segment h rn r kinds written sequence now ids rows db = (e, events, db')"
  shows "db_executions db' = db_executions db \<and> row_at db' = row_at db \<and> ids_distinct db' = ids_distinct db \<and>
    db_waits db' = db_waits db \<and> store_step\<^sup>*\<^sup>* db db'"
  using assms
proof (induction rows arbitrary: sequence e events db)
  case (Cons nr rows)
  show ?case
  proof (cases "sequence \<in> set written")
    case True
    with Cons show ?thesis by simp
  next
    case False
    show ?thesis
    proof (cases "persist_trace_row h rn r kinds sequence now (ids sequence) nr db")
      case (Inl e')
      with Cons.prems False show ?thesis by auto
    next
      case (Inr db1)
      then obtain t created where "create_node_runs h (ex_tenant r) [(ids sequence, ex_owner r, t)] now db = Inr (created, db1)"
        using persisted_row by blast
      note created = created_runs [OF this]
      obtain e1 events1 where rest: "persist_segment h rn r kinds written (sequence + 1) now ids rows db1 = (e1, events1, db')"
        using Cons.prems False Inr by (auto split: prod.splits)
      show ?thesis using Cons.IH [OF rest] created by (auto intro: converse_rtranclp_into_rtranclp)
    qed
  qed
qed simp

lemma parked_row:
  assumes "park_run codec tenant r s token n expires now db = Inr ((wait, u), db')" "ids_distinct db"
  shows "\<exists>x. row_at db (ex_id r) = Some x \<and> ex_status x = StRunning \<and> u = release_as StWaiting x \<and>
    row_at db' (ex_id r) = Some u \<and> wt_execution wait = ex_id r \<and> wt_run_count wait = n \<and>
    Some (wt_checkpoint wait) = su_checkpoint s \<and> store_step db db'"
proof -
  from assms(1) obtain x c db1 where x: "find_execution db tenant (ex_id r) = Some x" "ex_status x = StRunning"
      "ex_owner x = ex_owner r" "u = release_as StWaiting x" "su_checkpoint s = Some c"
    and wait: "wt_execution wait = ex_id r" "wt_run_count wait = n" "wt_checkpoint wait = c"
    and db1: "insert_wait wait db = Inr db1" and db1': "db' = change_executions
      (\<lambda>x. held_by tenant (ex_id r) (ex_owner r) x \<and> ex_status x = StRunning) (release_as StWaiting) db1"
    unfolding park_run_def suspend_execution_def Let_def by (auto simp: new_wait_def)
  have row: "row_at db (ex_id r) = Some x" "ex_tenant x = tenant" using x(1) assms(2) by (simp_all add: find_execution_row)
  have same: "row_at db1 = row_at db" using db1 by (auto simp: insert_wait_def row_at_def)
  have "row_at db' = (row_at db1)(ex_id r \<mapsto> release_as StWaiting x)"
    unfolding db1' using x row row_at_in [OF row(1)] same
    by (intro row_at_change_one) (auto simp: held_by_def)
  moreover have "store_step db db'"
    using assms(1) unfolding park_run_def by (rule store_step.suspends)
  ultimately show ?thesis using x wait row by simp
qed

lemma park_work_leaves:
  assumes "holds_row (jb_record job) x db" and ended: "ended = park_work sv job report s token expires written data ids now db"
  shows "\<exists>y. row_at (en_db ended) (ex_id (jb_record job)) = Some y \<and>
    (if en_error ended = None then ex_status y = StWaiting else y = x) \<and> en_failure ended = None"
proof -
  obtain e events db1 where segment: "persist_segment (sv_host sv) (sv_rendering sv) (jb_record job)
      (kinds_of (jb_document job)) written (seq_base job + 1) now ids (rt_rows report) db = (e, events, db1)"
    by (metis prod_cases3)
  note tables = persist_segment_tables [OF segment]
  have ids: "ids_distinct db1" and x: "row_at db1 (ex_id (jb_record job)) = Some x"
    using assms(1) tables by (simp_all add: holds_row_def)
  show ?thesis
  proof (cases "park_run (sv_codec sv) (ex_tenant (jb_record job)) (jb_record job) s token
      (seq_base job + int (length (rt_rows report))) expires now db1")
    case (Inl f)
    with segment x show ?thesis by (cases e) (simp_all add: ended park_work_def Let_def gave_up_def)
  next
    case (Inr res)
    obtain wait u db2 where res: "res = ((wait, u), db2)" by (metis prod.collapse)
    from parked_row [OF Inr [unfolded res] ids] segment x Inr res show ?thesis
      by (cases e) (auto simp: ended park_work_def Let_def gave_up_def release_as_def)
  qed
qed

end
