(* ===== verification/Service_Properties.thy ===== *)
theory Service_Properties
  imports Service_Correct
begin

text \<open>
  The properties of a worker's iteration and of called workflows, each with an input on which its hypotheses hold.
\<close>

subsection \<open>What a worker leaves\<close>

definition parks :: "('c, 'w, 'm) service \<Rightarrow> 'm report \<Rightarrow> string \<Rightarrow> asked \<Rightarrow> int \<Rightarrow> bool" where
  "parks sv report token asked now \<longleftrightarrow>
     (case rt_end report of
        ReportWaits cp \<Rightarrow> \<not> isl (admit_suspension (suspension_of sv cp asked) token now)
      | _ \<Rightarrow> False)"


lemma end_work_cases:
  "end_work sv job report token asked written data ids now db =
     (if parks sv report token asked now
      then case rt_end report of ReportWaits cp \<Rightarrow>
             park_work sv job report (suspension_of sv cp asked) token
               (projr (admit_suspension (suspension_of sv cp asked) token now)) written data ids now db
      else finish_work sv job
             (case rt_end report of
                ReportWaits cp \<Rightarrow>
                  report\<lparr>rt_end := ReportFails (SuspensionRefused (projl (admit_suspension (suspension_of sv cp asked) token now)))\<rparr>
              | _ \<Rightarrow> report) data ids now db)"
  by (auto simp: end_work_def parks_def Let_def split: report_end.splits sum.splits)


subsection \<open>Fenced workers\<close>

lemma trace_row_of_facts:
  assumes "trace_row_of h rn r kinds sequence now nr = Inr (t, e)"
  shows "tr_execution t = ex_id r \<and> tr_sequence t = sequence \<and> ev_sequence e = sequence \<and>
    ev_status e = tr_status t \<and> ev_node e = tr_node t \<and> ev_data e = tr_output t"
  using assms by (auto simp: trace_row_of_def Let_def trace_row_with_def node_event_of_def)

lemma trace_rows_facts:
  assumes "trace_rows h rn r kinds base now rows = Inr pairs" "p \<in> set pairs"
  shows "tr_execution (fst p) = ex_id r \<and> ev_sequence (snd p) = tr_sequence (fst p) \<and>
    ev_status (snd p) = tr_status (fst p) \<and> ev_node (snd p) = tr_node (fst p) \<and> base < tr_sequence (fst p)"
  using assms
proof (induction rows arbitrary: base pairs)
  case (Cons nr rows)
  then obtain t e ps where "trace_row_of h rn r kinds (base + 1) now nr = Inr (t, e)"
    "trace_rows h rn r kinds (base + 1) now rows = Inr ps" "pairs = (t, e) # ps" by auto
  with Cons trace_row_of_facts [of h rn r kinds "base + 1" now nr t e] show ?case by fastforce
qed simp

lemma unheld_batch:
  assumes "unheld (ex_tenant r) (ex_id r) (ex_owner r) db" "\<And>t. t \<in> set rows \<Longrightarrow> tr_execution t = ex_id r"
    and "create_node_runs h (ex_tenant r) (batch_of r ids rows) now db = Inr (created, db')"
  shows "rows = [] \<and> created = [] \<and> db' = db"
proof (cases rows)
  case Nil
  with assms(3) show ?thesis by (simp add: batch_of_def create_node_runs_def)
next
  case (Cons t ts)
  have "unheld (ex_tenant r) (tr_execution t) (ex_owner r) db" using assms(1,2) Cons by simp
  then have "isl (create_node_runs h (ex_tenant r) (batch_of r ids rows) now db)"
    unfolding Cons batch_of_def list.map by (rule unheld_trace)
  with assms(3) show ?thesis by simp
qed

lemma unheld_update:
  assumes "unheld (ex_tenant r) (ex_id r) (ex_owner r) db" "ex_id r' = ex_id r" "ex_owner r' = ex_owner r"
  shows "\<exists>e. update_runtime h (ex_tenant r) r' db = Inl e"
  using unheld_result [of "ex_tenant r" r' db h] assms by (auto simp: isl_def)

lemma unheld_persist:
  assumes "unheld (ex_tenant r) (ex_id r) (ex_owner r) db"
  shows "fail_persist sv r name cause [] now db = gave_up (NotPersisted cause) [] db"
  using unheld_update [OF assms, of "r\<lparr>ex_status := StFailed, ex_output := null_payload,
      ex_error := structured_error ''execution.persist_failed'' (sv_text sv cause), ex_finished := Some now\<rparr>" "sv_host sv"]
  by (auto simp: fail_persist_def)

lemma unheld_finish:
  assumes "unheld (ex_tenant (jb_record job)) (ex_id (jb_record job)) (ex_owner (jb_record job)) db"
  shows "\<exists>e. finish_work sv job report data ids now db = gave_up e [] db"
proof -
  let ?r = "jb_record job"
  have failed: "\<exists>e. settle_failed sv ?r d report f data [] now db = gave_up e [] db" for d f
  proof -
    obtain e where "update_runtime (sv_host sv) (ex_tenant ?r) (?r\<lparr>ex_status := failure_status sv f,
        ex_error := structured_error (failure_of_rows sv f (rt_rows report)) (sv_text sv f), ex_finished := Some now\<rparr>) db = Inl e"
      using unheld_update [OF assms, of "?r\<lparr>ex_status := failure_status sv f,
        ex_error := structured_error (failure_of_rows sv f (rt_rows report)) (sv_text sv f), ex_finished := Some now\<rparr>"] by auto
    then show ?thesis by (auto simp: settle_failed_def)
  qed
  have succeeded: "\<exists>e. settle_done sv ?r d report data [] now db = gave_up e [] db" for d
  proof (cases "sv_encode_result sv (rt_output report)")
    case None
    then show ?thesis by (auto simp: settle_done_def unheld_persist [OF assms])
  next
    case (Some v)
    obtain e where "update_runtime (sv_host sv) (ex_tenant ?r) (?r\<lparr>ex_status := StSucceeded, ex_output := RawJson v,
        ex_error := null_payload, ex_finished := Some now\<rparr>) db = Inl e"
      using unheld_update [OF assms, of "?r\<lparr>ex_status := StSucceeded, ex_output := RawJson v,
        ex_error := null_payload, ex_finished := Some now\<rparr>"] by auto
    with Some show ?thesis by (auto simp: settle_done_def)
  qed
  show ?thesis
  proof (cases "trace_rows (sv_host sv) (sv_rendering sv) ?r (kinds_of (jb_document job)) (seq_base job) now (rt_rows report)")
    case (Inl e)
    then show ?thesis by (auto simp: finish_work_def Let_def unheld_persist [OF assms])
  next
    case (Inr pairs)
    have "\<And>t. t \<in> set (map fst pairs) \<Longrightarrow> tr_execution t = ex_id ?r"
      using trace_rows_facts [OF Inr] by auto
    note batch = unheld_batch [OF assms this]
    show ?thesis
    proof (cases "create_node_runs (sv_host sv) (ex_tenant ?r) (batch_of ?r ids (map fst pairs)) now db")
      case (Inl e)
      with Inr show ?thesis by (auto simp: finish_work_def Let_def unheld_persist [OF assms])
    next
      case created: (Inr res)
      then have "res = ([], db)" using batch by (metis prod.collapse)
      with Inr created failed succeeded show ?thesis
        by (cases "rt_end report") (simp_all add: finish_work_def Let_def announced_def)
    qed
  qed
qed

lemma unheld_segment:
  assumes "unheld (ex_tenant r) (ex_id r) (ex_owner r) db"
  shows "\<exists>e. persist_segment h rn r kinds written sequence now ids rows db = (e, [], db)"
proof (induction rows arbitrary: sequence)
  case (Cons nr rows)
  have "isl (persist_trace_row h rn r kinds sequence now (ids sequence) nr db)"
  proof (rule ccontr)
    assume "\<not> ?thesis"
    then obtain db' where stored: "persist_trace_row h rn r kinds sequence now (ids sequence) nr db = Inr db'"
      by (cases "persist_trace_row h rn r kinds sequence now (ids sequence) nr db") auto
    then obtain t e where row: "trace_row_of h rn r kinds sequence now nr = Inr (t, e)"
      by (auto simp: persist_trace_row_def)
    then have "isl (create_node_runs h (ex_tenant r) [(ids sequence, ex_owner r, t)] now db)"
      using trace_row_of_facts [OF row] assms by (intro unheld_trace) simp
    with stored row show False by (auto simp: persist_trace_row_def create_node_run_def isl_def)
  qed
  with Cons show ?case by (auto simp: isl_def)
qed simp

text \<open>C9: a worker that lost the lease of its execution, to another worker or to the end of the execution, leaves
  nothing of its run: it returns an error, the database is as it was, no event is published, no line written, no
  static data saved and no error workflow started.\<close>

theorem worker_fenced:
  assumes "reachable db"
    and "\<And>x. row_at db (ex_id (jb_record job)) = Some x \<Longrightarrow> ex_owner x \<noteq> ex_owner (jb_record job)"
  shows "\<exists>e. end_work sv job report token asked written data ids now db =
    \<lparr>en_error = Some e, en_notices = [], en_static = None, en_failure = None, en_db = db\<rparr>"
proof -
  let ?r = "jb_record job"
  have lost: "unheld (ex_tenant ?r) (ex_id ?r) (ex_owner ?r) db"
    using assms by (intro unheld_lost) (auto simp: reachable_sound)
  have parking: "\<exists>e. park_work sv job report s token expires written data ids now db = gave_up e [] db" for s expires
  proof -
    obtain e where "persist_segment (sv_host sv) (sv_rendering sv) ?r (kinds_of (jb_document job)) written
        (seq_base job + 1) now ids (rt_rows report) db = (e, [], db)"
      using unheld_segment [OF lost] by blast
    moreover have "isl (park_run (sv_codec sv) (ex_tenant ?r) ?r s token (seq_base job + int (length (rt_rows report))) expires now db)"
      using lost by (simp add: park_run_def unheld_suspension)
    then obtain f where "park_run (sv_codec sv) (ex_tenant ?r) ?r s token (seq_base job + int (length (rt_rows report))) expires now db = Inl f"
      by (auto simp: isl_def)
    ultimately show ?thesis by (cases e) (auto simp: park_work_def Let_def)
  qed
  show ?thesis
    using unheld_finish [OF lost] parking
    by (auto simp: end_work_cases gave_up_def parks_def split: report_end.splits)
qed

subsection \<open>From one segment of a run to the next\<close>

lemma parked_work:
  assumes "parks sv report token asked now" "rt_end report = ReportWaits cp"
    and "ended = end_work sv job report token asked written data ids now db" "en_error ended = None"
  shows "\<exists>db' q res. store_step\<^sup>*\<^sup>* db db' \<and> suspend_execution (ex_tenant (jb_record job)) q now db' = Inr (res, en_db ended) \<and>
    sp_execution q = ex_id (jb_record job) \<and> sp_checkpoint q = Some (sv_encode_checkpoint sv cp) \<and>
    sp_token_hash q = wc_hash (sv_codec sv) (suspend_token (suspension_of sv cp asked) token) \<and>
    sp_run_count q = seq_base job + int (length (rt_rows report)) \<and> sp_node q = cp_node cp"
proof -
  let ?r = "jb_record job"
  let ?s = "suspension_of sv cp asked"
  let ?expires = "projr (admit_suspension ?s token now)"
  have ended: "ended = park_work sv job report ?s token ?expires written data ids now db"
    using assms(1-3) by (simp add: end_work_cases)
  obtain e events db' where segment: "persist_segment (sv_host sv) (sv_rendering sv) ?r (kinds_of (jb_document job)) written
      (seq_base job + 1) now ids (rt_rows report) db = (e, events, db')"
    by (metis prod_cases3)
  have e: "e = None" using ended segment assms(4) by (cases e) (simp_all add: park_work_def Let_def gave_up_def)
  let ?park = "park_run (sv_codec sv) (ex_tenant ?r) ?r ?s token (seq_base job + int (length (rt_rows report))) ?expires now db'"
  obtain res where "?park = Inr res"
    using ended segment e assms(4) by (cases ?park) (simp_all add: park_work_def Let_def gave_up_def)
  moreover from this have "snd res = en_db ended" using ended segment e by (cases res) (auto simp: park_work_def Let_def)
  ultimately have "?park = Inr (fst res, en_db ended)" by (metis prod.collapse)
  then show ?thesis using persist_segment_tables [OF segment] unfolding park_run_def
    by (intro exI [of _ db']) (fastforce simp: suspension_of_def)
qed

text \<open>What \<open>LoadResumeState\<close> reads are the waits of its execution.\<close>

definition waits_of :: "string \<Rightarrow> 'c database \<Rightarrow> 'c wait_row list" where
  "waits_of i db = filter (\<lambda>w. wt_execution w = i) (db_waits db)"

lemma loads_from_waits:
  assumes "waits_of i db = waits_of i db'"
  shows "load_resume_state tenant i db = load_resume_state tenant i db'"
proof -
  have "filter (\<lambda>w. wt_tenant w = tenant \<and> wt_execution w = i \<and> wt_consumed w \<noteq> None \<and> wt_outcome w = OutcomeResumed) (db_waits x) =
      filter (\<lambda>w. wt_tenant w = tenant \<and> wt_consumed w \<noteq> None \<and> wt_outcome w = OutcomeResumed) (waits_of i x)" for x :: "'a database"
    by (auto simp: waits_of_def intro!: filter_cong)
  then show ?thesis by (simp add: load_resume_state_def assms)
qed

lemma begun_waits:
  assumes "reachable db" "begin_work sv worker lease now db = (Begun job, notices, db1)"
  shows "db_waits db1 = db_waits db"
proof -
  obtain res where "claim_next worker lease (now + lease_duration sv) now db = Inr (res, db1)"
    using assms(2)
    by (auto simp: begin_work_def Let_def split: sum.splits prod.splits option.splits if_splits)
  then obtain res where "claim_scan claim_scan_limit (worker @ ''/'' @ lease) (now + lease_duration sv) now [] db = Inr (res, db1)"
    by (auto simp: claim_next_def)
  then show ?thesis
    using claim_scan_result [where res = "fst res" and settled' = "snd res"] sound_ids [OF reachable_sound [OF assms(1)]]
    by (metis prod.collapse)
qed

text \<open>C8: a run goes on where it stopped: when a worker has parked a run, its token was answered, and no other wait
  of the execution came in between, the worker that claims the execution next is handed the checkpoint the run
  stopped at and the answer; it resumes the runner from them on the plan of the document, and numbers its rows
  after those of the run before.\<close>

theorem run_goes_on:
  assumes "reachable db"
    and "rt_end report = ReportWaits cp" "parks sv report token asked now"
    and "ended = end_work sv job report token asked written data ids now db" "en_error ended = None"
    and "wc_checkpoint (sv_codec sv) (sv_encode_checkpoint sv cp) = Some (checkpoint_version cp, cp)"
    and "store_step\<^sup>*\<^sup>* (en_db ended) db2"
    and "resume_wait caller (wc_hash (sv_codec sv) (suspend_token (suspension_of sv cp asked) token)) output now2 db2
      = Inr (res, db3)"
    and "store_step\<^sup>*\<^sup>* db3 db4" "waits_of (ex_id (jb_record job)) db4 = waits_of (ex_id (jb_record job)) db3"
    and "begin_work sv worker lease now4 db4 = (Begun job', notices, db5)"
    and "ex_id (jb_record job') = ex_id (jb_record job)" "ex_tenant (jb_record job') = ex_tenant (jb_record job)"
  shows "(\<exists>wait. jb_wait job' = Some wait \<and> read_checkpoint sv (wt_checkpoint wait) = Some cp \<and> wt_resume_output wait = output) \<and>
    seq_base job' = seq_base job + int (length (rt_rows report)) \<and>
    (\<forall>plan answer input.
       compile_for sv (jb_record job') (jb_document job') = Inr plan \<and>
       adapt_stored_resume_output (sv_codec sv) plan (cp_node cp) output = Inr answer \<and>
       input_item (sv_host sv) (ex_input (jb_record job')) = Inr input \<longrightarrow>
       run_job sv job' token' w =
         Option.bind
           (resume
              (sv_env sv (new_request sv (jb_record job') (jb_document job') [ex_workflow (jb_record job')]
                 (minted_links sv token') True input))
              plan (ex_trigger_node (jb_record job')) (sv_memory sv) cp answer
              (\<lambda>f. plain_error (sv_text sv (RunFailed f))) w)
           report_of)"
proof -
  let ?i = "ex_id (jb_record job)" and ?tenant = "ex_tenant (jb_record job)"
  obtain db1 q parked where q: "store_step\<^sup>*\<^sup>* db db1" "suspend_execution ?tenant q now db1 = Inr (parked, en_db ended)"
    "sp_execution q = ?i" "sp_checkpoint q = Some (sv_encode_checkpoint sv cp)"
    "sp_token_hash q = wc_hash (sv_codec sv) (suspend_token (suspension_of sv cp asked) token)"
    "sp_run_count q = seq_base job + int (length (rt_rows report))" "sp_node q = cp_node cp"
    using parked_work [OF assms(3,2,4,5)] by blast
  have suspended: "suspend_execution ?tenant q now db1 = Inr ((fst parked, snd parked), en_db ended)" using q(2) by simp
  have answered: "resume_wait caller (sp_token_hash q) output now2 db2 = Inr (res, db3)" using assms(8) q(5) by simp
  from resume_restores [OF reachable_steps [OF assms(1) q(1)] suspended assms(7) answered] q(3,4,6)
  obtain wait where wait: "load_resume_state ?tenant ?i db3 = Inr wait" "wt_checkpoint wait = sv_encode_checkpoint sv cp"
    "wt_run_count wait = seq_base job + int (length (rt_rows report))" "wt_resume_output wait = output" by auto
  have reach3: "reachable db3"
    by (rule reachable_steps [OF reachable_steps [OF reachable_steps [OF assms(1) q(1)]]])
       (rule rtranclp_trans [OF steps_one [OF store_step.suspends [OF q(2)]] assms(7)],
        rule steps_one [OF store_step.resumes [OF assms(8)]])
  note reach4 = reachable_steps [OF reach3 assms(9)]
  have "waits_of ?i db5 = waits_of ?i db3"
    using begun_waits [OF reach4 assms(11)] assms(10) by (simp add: waits_of_def)
  then have "loaded_wait ?tenant ?i db5 = Inr (Some wait)"
    using loads_from_waits [of ?i db5 db3 ?tenant] wait(1) by (simp add: loaded_wait_def)
  then have job': "jb_wait job' = Some wait" using begun_facts(9) [OF reach4 assms(11)] assms(12,13) by simp
  have "cp_node cp \<noteq> []" using q(2,7) by (auto simp: suspend_execution_def)
  then have "read_checkpoint sv (wt_checkpoint wait) = Some cp"
    using assms(6) by (simp add: read_checkpoint_def wait(2) checkpoint_readable_def checkpoint_version_def)
  with job' wait show ?thesis by (simp add: seq_base_def run_job_def Let_def resume_run_def)
qed

end
