(* ===== verification/Service_Examples.thy ===== *)
theory Service_Examples
  imports Service_Properties
begin

text \<open>
  A small service, and the inputs on which the hypotheses of the properties of a worker's iteration hold.
\<close>

definition example_rendering :: rendering where
  "example_rendering =
     \<lparr>rn_input = (\<lambda>_. Some JNull), rn_output = (\<lambda>_. Some (JArr [])), rn_response = (\<lambda>t. RawJson (JStr t)),
      rn_console = (\<lambda>_. RawEmpty), rn_cancels = (\<lambda>_. False), rn_times = (\<lambda>_. (0, 0)), rn_int64 = (\<lambda>_. 0)\<rparr>"

definition example_checkpoint :: "unit checkpoint" where
  "example_checkpoint =
     \<lparr>cp_node = ''n1'', cp_attempt = 1, cp_run = 0, cp_mode = ''approval'', cp_trigger = [], cp_input = no_input,
      cp_completed = Map.empty, cp_runs = (\<lambda>_. []), cp_executions = None, cp_node_outputs = Map.empty,
      cp_node_items = Map.empty, cp_memory = (\<lambda>_. ()), cp_output = Map.empty, cp_pending = [], cp_partial = None\<rparr>"

definition example_codec :: "(nat, unit) wait_codec" where
  "example_codec =
     \<lparr>wc_checkpoint = (\<lambda>_. Some (1, example_checkpoint)), wc_parse = (\<lambda>_. Some [[]]), wc_encode = (\<lambda>_. RawJson JNull),
      wc_time = (\<lambda>_. []), wc_hash = (\<lambda>t. ''h'' @ t)\<rparr>"

definition idle_env :: "(unit, unit) env" where
  "idle_env =
     \<lparr>ex_quote = (\<lambda>t. t), ex_registered = (\<lambda>_. False),
      ex_execute = (\<lambda>_ _ m w. (\<lparr>rp_result = Inr [], rp_memory = m, rp_events = [], rp_secrets = [], rp_deadline = False\<rparr>, w)),
      ex_ctx = (\<lambda>_. None), ex_ctx_deadline = (\<lambda>_. False), ex_sleep = (\<lambda>_ w. (True, w))\<rparr>"

definition example_service :: "(nat, unit, unit) service" where
  "example_service =
     \<lparr>sv_host = plain_host,
      sv_catalog = \<lparr>cat_lookup = (\<lambda>_ _. None), cat_has_type = None, cat_restricted = None, cat_for_tenant = None\<rparr>,
      sv_codec = example_codec, sv_rendering = example_rendering,
      sv_static = \<lparr>sc_decode = (\<lambda>_. None), sc_compact = Some, sc_encode = (\<lambda>_. [])\<rparr>,
      sv_encode_checkpoint = (\<lambda>_. 7), sv_encode_result = (\<lambda>_. Some (JObj [])), sv_text = (\<lambda>_. ''failed''),
      sv_cancelled = (\<lambda>_. False), sv_env = (\<lambda>_. idle_env), sv_memory = (\<lambda>_. ()), sv_worker = ''s'', sv_base_url = [],
      sv_timezone = [], sv_default_timeout = 10, sv_max_timeout = 0, sv_lease = 500, sv_subworkflow_type = [],
      sv_error_type = [], sv_level = LogInfo, sv_binaries = False\<rparr>"

definition begun_job :: "'c begun \<Rightarrow> 'c job option" where
  "begun_job b = (case b of Begun job \<Rightarrow> Some job | _ \<Rightarrow> None)"

definition example_begun :: "nat begun \<times> notice list \<times> nat database" where
  "example_begun = begin_work example_service ''w'' ''l1'' 20 example_queued"

definition example_job :: "nat job" where "example_job = the (begun_job (fst example_begun))"

definition example_claimed :: "nat database" where "example_claimed = snd (snd example_begun)"

lemma begun_result: "begun_job (fst b) \<noteq> None \<Longrightarrow> \<exists>notices. b = (Begun (the (begun_job (fst b))), notices, snd (snd b))"
  by (cases b) (auto simp: begun_job_def split: begun.splits)

lemma example_begins:
  "\<exists>notices. begin_work example_service ''w'' ''l1'' 20 example_queued = (Begun example_job, notices, example_claimed)"
proof -
  have "begun_job (fst example_begun) \<noteq> None" by code_simp
  from begun_result [OF this] show ?thesis
    unfolding example_job_def example_claimed_def by (simp only: example_begun_def [symmetric])
qed

definition example_failed :: "unit report" where
  "example_failed = refused [] OutputUnmarshalled"

definition example_finished :: "unit report" where
  "example_finished = \<lparr>rt_rows = [node_run0 ''n1'' no_input], rt_output = Map.empty, rt_end = ReportDone\<rparr>"

definition example_waits :: "unit report" where
  "example_waits = \<lparr>rt_rows = [], rt_output = Map.empty, rt_end = ReportWaits example_checkpoint\<rparr>"

definition example_asked :: asked where "example_asked = (None, 500)"

lemma example_claimed_row:
  "row_at example_claimed ''e1'' = Some (jb_record example_job)" "ex_id (jb_record example_job) = ''e1''"
  "ex_owner (jb_record example_job) = ''w/l1''" "ex_tenant (jb_record example_job) = ''t''"
  "ex_status (jb_record example_job) = StRunning"
proof -
  obtain notices where begins: "begin_work example_service ''w'' ''l1'' 20 example_queued = (Begun example_job, notices, example_claimed)"
    using example_begins by blast
  show "ex_id (jb_record example_job) = ''e1''" "ex_owner (jb_record example_job) = ''w/l1''"
    "ex_tenant (jb_record example_job) = ''t''" "ex_status (jb_record example_job) = StRunning" by code_simp+
  then show "row_at example_claimed ''e1'' = Some (jb_record example_job)"
    using begun_facts(3) [OF example_reachable(2) begins] by simp
qed


theorem worker_fenced_example:
  "\<exists>e. end_work example_service example_job example_failed [] example_asked [] None (\<lambda>_. []) 30 example_reclaimed = gave_up e [] example_reclaimed"
proof -
  obtain r' where "claim_next ''w2'' ''l2'' 900 100 example_running = Inr (r', example_reclaimed)" using example_reclaims by blast
  then have reach: "reachable example_reclaimed"
    using reachable_steps [OF example_reachable(3)] store_step.claim by blast
  have "map_option ex_owner (row_at example_reclaimed ''e1'') = Some ''w2/l2''" by code_simp
  then have "ex_owner x \<noteq> ex_owner (jb_record example_job)" if "row_at example_reclaimed (ex_id (jb_record example_job)) = Some x" for x
    using that by (auto simp: example_claimed_row)
  from worker_fenced [OF reach this] show ?thesis by (simp add: gave_up_def)
qed

subsection \<open>A run that waits and goes on\<close>

lemma example_token: "trim_space ''k1'' = ''k1''"
proof -
  have "no_space_ends ''k1''" by code_simp
  then show ?thesis by (rule trim_space_id)
qed

lemma example_admitted: "admit_suspension (suspension_of example_service example_checkpoint example_asked) ''k1'' 30 = Inr 500"
  by (simp add: admit_suspension_def validate_suspend_def suspend_token_def suspension_of_def suspension_mode_def
      example_asked_def example_checkpoint_def example_token zero_time_def mode_approval_def max_wait_ttl_def Let_def)

definition example_parked :: "nat ended" where
  "example_parked = park_work example_service example_job example_waits
     (suspension_of example_service example_checkpoint example_asked) ''k1'' 500 [] None (\<lambda>_. []) 30 example_claimed"

lemma example_parks_work:
  "example_parked = end_work example_service example_job example_waits ''k1'' example_asked [] None (\<lambda>_. []) 30 example_claimed"
  by (simp add: end_work_def example_waits_def example_admitted example_parked_def)

lemma example_token_hash: "suspend_token (suspension_of example_service example_checkpoint example_asked) ''k1'' = ''k1''"
  by (simp add: suspend_token_def suspension_of_def example_asked_def)

definition example_back :: "nat database" where
  "example_back = taken (resume_wait [] ''hk1'' (RawJson JNull) 40 (en_db example_parked))"

definition example_again :: "nat begun \<times> notice list \<times> nat database" where
  "example_again = begin_work example_service ''w'' ''l2'' 50 example_back"

definition example_next :: "nat job" where "example_next = the (begun_job (fst example_again))"

lemma example_job_goes_on:
  "ex_id (jb_record example_next) = ''e1''" "ex_tenant (jb_record example_next) = ''t''"
  "begun_job (fst example_again) \<noteq> None" "map_option wt_run_count (jb_wait example_next) = Some 0"
  by code_simp+

theorem run_goes_on_example:
  "\<exists>wait. jb_wait example_next = Some wait \<and> read_checkpoint example_service (wt_checkpoint wait) = Some example_checkpoint"
proof -
  obtain notices where begun: "begin_work example_service ''w'' ''l2'' 50 example_back
      = (Begun example_next, notices, snd (snd example_again))"
    using begun_result [OF example_job_goes_on(3)] unfolding example_next_def by (auto simp only: example_again_def [symmetric])
  have parks: "parks example_service example_waits ''k1'' example_asked 30"
    by (simp add: parks_def example_waits_def example_admitted)
  have fine: "en_error example_parked = None" by code_simp
  have "\<not> isl (resume_wait [] ''hk1'' (RawJson JNull) 40 (en_db example_parked))" by code_simp
  then obtain res where answered: "resume_wait [] ''hk1'' (RawJson JNull) 40 (en_db example_parked) = Inr (res, example_back)"
    unfolding example_back_def using taken_result by blast
  have hash: "wc_hash (sv_codec example_service) (suspend_token (suspension_of example_service example_checkpoint example_asked) ''k1'') = ''hk1''"
    unfolding example_token_hash by (simp add: example_service_def example_codec_def)
  have reach: "reachable example_claimed"
    using example_begins begun_facts(2) [OF example_reachable(2)] by blast
  have decodes: "wc_checkpoint (sv_codec example_service) (sv_encode_checkpoint example_service example_checkpoint)
      = Some (checkpoint_version example_checkpoint, example_checkpoint)"
    by (simp add: example_service_def example_codec_def checkpoint_version_def example_checkpoint_def)
  have "rt_end example_waits = ReportWaits example_checkpoint" by (simp add: example_waits_def)
  from run_goes_on [where token' = "[]", OF reach this parks example_parks_work fine decodes rtranclp.rtrancl_refl answered [folded hash]
      rtranclp.rtrancl_refl refl begun] example_job_goes_on(1,2) example_claimed_row(2,4)
  show ?thesis by auto
qed

end
