(* ===== verification/Trace_Row_Properties.thy ===== *)
theory Trace_Row_Properties
  imports Service_Examples Trace_Properties
begin

text \<open>
  The properties of the stored trace of a run and of a workflow's static data: what is shown of a datastore node's
  output, which rows are announced, and what \<open>Set\<close> keeps.
\<close>

subsection \<open>The projection of a datastore node's output\<close>

fun row_ids :: "(rat \<Rightarrow> int) \<Rightarrow> jval \<Rightarrow> int list" where
  "row_ids outside (JArr vs) = concat (map (row_ids outside) vs)"
| "row_ids outside (JObj m) =
     (case row_id_of outside m of None \<Rightarrow> [] | Some n \<Rightarrow> [n]) @ concat (map (\<lambda>kv. row_ids outside (snd kv)) m)"
| "row_ids outside v = []"

definition bounded_ids :: "int list \<Rightarrow> int list \<times> nat" where
  "bounded_ids ids = (take max_trace_ids ids, length ids)"

lemma count_row_bounded:
  "count_row i (bounded_ids ids) = bounded_ids (ids @ (case i of None \<Rightarrow> [] | Some n \<Rightarrow> [n]))"
  by (auto simp: count_row_def bounded_ids_def split: option.splits)

lemma fold_bounded:
  assumes "\<And>x ids. x \<in> set xs \<Longrightarrow> f x (bounded_ids ids) = bounded_ids (ids @ g x)"
  shows "fold f xs (bounded_ids ids) = bounded_ids (ids @ concat (map g xs))"
  using assms by (induction xs arbitrary: ids) auto

lemma collect_bounded: "collect_row_ids outside v (bounded_ids ids) = bounded_ids (ids @ row_ids outside v)"
proof (induction outside v arbitrary: ids rule: row_ids.induct)
  case (1 outside vs)
  then show ?case by (simp add: fold_bounded)
next
  case (2 outside m)
  then show ?case by (simp add: count_row_bounded fold_bounded)
qed simp_all

definition keeps_letters :: "host \<Rightarrow> bool" where
  "keeps_letters h \<longleftrightarrow> (\<forall>c. 97 \<le> c \<and> c \<le> 122 \<longrightarrow> h_lower h c = c)"

text \<open>A conversion to \<open>int64\<close>, and the integers that survive \<open>float64\<close>.\<close>

definition keeps_integers :: "host \<Rightarrow> (rat \<Rightarrow> int) \<Rightarrow> bool" where
  "keeps_integers h outside \<longleftrightarrow>
     (\<forall>n. n < 2 ^ 53 \<longrightarrow> h_number h (of_nat n) = of_nat n) \<and>
     (\<forall>x. - (2 ^ 63) \<le> outside x \<and> outside x < 2 ^ 63 \<and> h_number h (of_int (outside x)) = of_int (outside x))"

lemma letters_normalized:
  assumes "keeps_letters h" "list_all (\<lambda>c. (97 :: nat) \<le> of_char c \<and> of_char c \<le> (122 :: nat)) s"
  shows "normalize_key (h_lower h) s = s"
proof -
  have ascii: "list_all (\<lambda>c. of_char c < (128 :: nat)) s" using assms(2) by (auto simp: list_all_iff)
  have letters: "filter (\<lambda>r. \<not> is_separator r) (map of_char s) = map of_char s"
    using assms(2) by (auto simp: filter_id_conv list_all_iff is_separator_def)
  have mapped: "map (h_lower h) (map of_char s) = map of_char s"
    using assms by (auto simp: keeps_letters_def list_all_iff)
  have spelled: "encode_runes (map of_char s) = s" using ascii by (simp add: encode_ascii list.pred_map comp_def)
  show ?thesis
    by (simp only: normalize_key_def tag_key_def runes_ascii [OF ascii] letters spelled mapped)
qed

lemma envelope_keys:
  assumes "keeps_letters h" "k \<in> {''datastore'', ''ids'', ''rows'', ''truncated''}"
  shows "\<not> is_sensitive_key (h_lower h) k \<and> normalize_key (h_lower h) k \<noteq> name_half"
proof -
  have "normalize_key (h_lower h) k = k" using assms by (intro letters_normalized) auto
  then show ?thesis using assms(2) by (auto simp: is_sensitive_key_def sensitive_keys_def is_prefix_def name_half_def)
qed

lemma envelope_unredacted:
  assumes "keeps_letters h"
  shows "redact_value (h_lower h) (trace_envelope ids n) = trace_envelope ids n"
proof -
  note keys = envelope_keys [OF assms]
  have "\<not> header_pair_is_sensitive (h_lower h) m" if "fst ` set m \<subseteq> {''datastore'', ''ids'', ''rows'', ''truncated''}" for m
  proof -
    have "normalize_key (h_lower h) (fst kv) \<noteq> name_half" if "kv \<in> set m" for kv
      using keys(1) [of "fst kv"] \<open>fst ` set m \<subseteq> _\<close> that by blast
    then show ?thesis by (auto simp: header_pair_is_sensitive_def list_ex_iff)
  qed
  then have hidden: "\<not> hides (h_lower h) m k"
    if "fst ` set m \<subseteq> {''datastore'', ''ids'', ''rows'', ''truncated''}" "k \<in> {''datastore'', ''ids'', ''rows'', ''truncated''}" for m k
    using that keys(1) [of k] by (simp add: hides_def)
  show ?thesis by (auto simp: trace_envelope_def redact_object hidden)
qed

lemma row_id_Some:
  "row_id_of outside m = Some n \<longleftrightarrow> (\<exists>k. aget m ''id'' = Some (JNum (of_int k)) \<and> n = float_to_int64 outside (of_int k))"
  by (auto simp: row_id_of_def split: option.splits jval.splits if_splits)

lemma row_ids_kept:
  assumes "stable_numbers h" "keeps_integers h outside" "decodable v"
    and "i \<in> set (row_ids outside (rewrite_numbers (h_number h) v))"
  shows "h_number h (of_int i) = of_int i \<and> - (2 ^ 63) \<le> i \<and> i < 2 ^ 63"
proof -
  have one: "h_number h (of_int n) = of_int n \<and> - (2 ^ 63) \<le> n \<and> n < 2 ^ 63"
    if "row_id_of outside (map (\<lambda>kv. (fst kv, rewrite_numbers (h_number h) (snd kv))) m) = Some n" "decodable (JObj m)" for m n
  proof -
    from that(1) [unfolded row_id_Some] obtain k where k: "aget (map (\<lambda>kv. (fst kv, rewrite_numbers (h_number h) (snd kv))) m) ''id'' = Some (JNum (of_int k))"
      "n = float_to_int64 outside (of_int k)"
      by blast
    obtain z where "of_int k = h_number h z" "\<bar>z\<bar> < float_limit"
    proof -
      from k(1) have "(''id'', JNum (of_int k)) \<in> set (map (\<lambda>kv. (fst kv, rewrite_numbers (h_number h) (snd kv))) m)" by (rule aget_in)
      then obtain w where "rewrite_numbers (h_number h) w = JNum (of_int k)" "decodable w"
        using \<open>decodable (JObj m)\<close> by (fastforce simp: list_all_iff)
      then show thesis by (cases w) (auto intro: that [OF sym])
    qed
    then have "h_number h (of_int k) = of_int k" using assms(1) by (simp add: stable_numbers_def)
    moreover have "float_to_int64 outside (of_int k) = (if - (2 ^ 63) \<le> k \<and> k < 2 ^ 63 then k else outside (of_int k))"
      by (simp add: float_to_int64_def Let_def flip: of_int_minus)
    ultimately show ?thesis using k(2) assms(2) by (auto simp: keeps_integers_def)
  qed
  show ?thesis using assms(3,4)
  proof (induction "h_number h" v arbitrary: i rule: rewrite_numbers.induct)
    case (3 m)
    then consider "row_id_of outside (map (\<lambda>kv. (fst kv, rewrite_numbers (h_number h) (snd kv))) m) = Some i"
      | kv where "kv \<in> set m" "i \<in> set (row_ids outside (rewrite_numbers (h_number h) (snd kv)))"
      by (auto split: option.splits)
    then show ?case
    proof cases
      case 1
      then show ?thesis using one "3.prems"(1) by blast
    next
      case 2
      then show ?thesis using "3.hyps" [of kv i] "3.prems"(1) by (simp add: list_all_iff)
    qed
  qed (auto simp: list_all_iff)
qed

text \<open>of a datastore node's output the trace holds, and the live feed shows, the number of its rows and the
  identifiers of the first hundred, marked when there are more, and nothing of a cell; redaction leaves that as it
  is. Outputs of other nodes, and outputs without rows, are kept.\<close>

theorem projection_exact:
  fixes v :: jval
  assumes "decodable v" "stable_numbers h" "keeps_letters h" "keeps_integers h outside"
    and "ids = row_ids outside (rewrite_numbers (h_number h) v)" "length ids < 2 ^ 53"
  shows "(if kind \<noteq> datastore_type \<or> ids = [] then project_trace h outside kind (RawJson v) = RawJson v
    else project_trace h outside kind (RawJson v) = RawJson (trace_envelope (take 100 ids) (length ids)) \<and>
      redact h (project_trace h outside kind (RawJson v)) = project_trace h outside kind (RawJson v))"
proof -
  have collected: "collect_row_ids outside (rewrite_numbers (h_number h) v) ([], 0) = (take 100 ids, length ids)"
    using collect_bounded [of outside "rewrite_numbers (h_number h) v" "[]"]
    by (simp add: bounded_ids_def assms(5) max_trace_ids_def)
  have shown: "project_trace h outside kind (RawJson v) =
      (if kind \<noteq> datastore_type \<or> ids = [] then RawJson v else RawJson (trace_envelope (take 100 ids) (length ids)))"
    using assms(1) by (simp add: project_trace_def raw_valid_def unmarshal_def collected)
  let ?e = "trace_envelope (take 100 ids) (length ids)"
  have kept: "h_number h (of_int i) = of_int i \<and> - (2 ^ 63) \<le> i \<and> i < 2 ^ 63" if "i \<in> set (take 100 ids)" for i
    using row_ids_kept [OF assms(2,4,1)] in_set_takeD [OF that] assms(5) by simp
  have count: "h_number h (of_nat (length ids)) = of_nat (length ids)"
    using assms(4,6) by (simp add: keeps_integers_def)
  have "rewrite_numbers (h_number h) ?e = ?e"
    using kept count by (simp add: trace_envelope_def)
  moreover have "decodable ?e"
  proof -
    have "\<bar>of_int i :: rat\<bar> < float_limit" if "i \<in> set (take 100 ids)" for i
    proof -
      have "\<bar>i\<bar> \<le> 2 ^ 63" using kept [OF that] by auto
      then have "\<bar>of_int i :: rat\<bar> \<le> 2 ^ 63" by (metis of_int_abs of_int_le_iff of_int_numeral of_int_power)
      then show ?thesis by (simp add: float_limit_def)
    qed
    moreover have "(of_nat (length ids) :: rat) < float_limit"
    proof -
      have "(of_nat (length ids) :: rat) < of_nat (2 ^ 53)" using assms(6) by (simp only: of_nat_less_iff)
      then show ?thesis by (simp add: float_limit_def)
    qed
    ultimately show ?thesis by (simp add: trace_envelope_def list_all_iff)
  qed
  ultimately have "redact h (RawJson ?e) = RawJson ?e"
    by (simp add: redact_def raw_valid_def unmarshal_def envelope_unredacted [OF assms(3)])
  then show ?thesis unfolding shown by auto
qed

theorem projection_exact_example:
  "project_trace plain_host (\<lambda>_. 0) datastore_type
     (RawJson (JArr [JObj [(''id'', JNum 1), (''name'', JStr ''secret'')], JObj [(''id'', JNum 7)]])) =
   RawJson (JObj [(''datastore'', JObj [(''ids'', JArr [JNum 1, JNum 7]), (''rows'', JNum 2)])])"
proof -
  let ?v = "JArr [JObj [(''id'', JNum 1), (''name'', JStr ''secret'')], JObj [(''id'', JNum 7)]]"
  have "decodable ?v" by (simp add: float_limit_def)
  moreover have "stable_numbers plain_host" "keeps_letters plain_host" "keeps_integers plain_host (\<lambda>_. 0)"
    by (simp_all add: stable_numbers_def keeps_letters_def keeps_integers_def plain_host_def)
  moreover have ids: "row_ids (\<lambda>_. 0) (rewrite_numbers (h_number plain_host) ?v) = [1, 7]" by code_simp
  moreover have "length [1 :: int, 7] < 2 ^ 53" by simp
  moreover have "trace_envelope [1, 7] (Suc (Suc 0)) = JObj [(''datastore'', JObj [(''ids'', JArr [JNum 1, JNum 7]), (''rows'', JNum 2)])]"
    by (simp add: trace_envelope_def)
  ultimately show ?thesis
    using projection_exact [where v = ?v and h = plain_host and outside = "\<lambda>_. 0" and ids = "[1, 7]" and kind = datastore_type]
    by simp
qed

subsection \<open>Static data\<close>

text \<open>C18: \<open>Set\<close> keeps or refuses a whole batch: a refused one changes no entry and nothing that would be saved; an
  accepted one gives every key it names its compacted text and leaves the others, marks the document as changed
  exactly when some entry changed, and never leaves a changed document above the limit.\<close>

theorem static_set_exact:
  assumes "ensure_loaded codec load data = Inr loaded" "distinct (map fst changes)"
    and "static_set codec load changes limit data = (e, data')"
  shows "(if e \<noteq> None then data' = loaded
    else (\<forall>k. static_entry (sd_entries data') k =
            (case map_of changes k of
               Some entry \<Rightarrow> the (sc_compact codec entry) | None \<Rightarrow> static_entry (sd_entries loaded) k)) \<and>
         (\<forall>entry \<in> snd ` set changes. sc_compact codec entry \<noteq> None) \<and>
         (sd_changed data' \<longleftrightarrow> sd_changed data \<or> (\<exists>k. static_entry (sd_entries data') k \<noteq> static_entry (sd_entries loaded) k)) \<and>
         (data' = loaded \<or> length (sc_encode codec (sd_entries data')) \<le> limit))"
proof (cases "apply_changes codec changes (sd_entries loaded) False")
  case (Inl f)
  with assms(1,3) show ?thesis by (auto simp: static_set_def)
next
  case (Inr res)
  obtain entries changed where res: "res = (entries, changed)" by (cases res)
  note applied = apply_changes_entries [OF Inr [unfolded res] assms(2)]
  have flag: "sd_changed loaded = sd_changed data" using ensure_loaded_kept [OF assms(1)] by simp
  from assms(1,3) Inr res have data': "(e, data') =
      (if \<not> changed then (None, loaded)
       else if limit < length (sc_encode codec entries) then (Some (TooLarge (length (sc_encode codec entries)) limit), loaded)
       else (None, loaded\<lparr>sd_entries := entries, sd_changed := True\<rparr>))"
    by (simp add: static_set_def)
  show ?thesis
  proof (cases "e = None")
    case True
    with data' applied have "sd_entries data' = entries" "sd_changed data' \<longleftrightarrow> sd_changed loaded \<or> changed"
      "data' = loaded \<or> length (sc_encode codec entries) \<le> limit" by (auto split: if_splits)
    with True applied flag show ?thesis by simp
  next
    case False
    with data' show ?thesis by (auto split: if_splits)
  qed
qed

definition example_static :: static_codec where
  "example_static = \<lparr>sc_decode = (\<lambda>_. Some [(''a'', ''1'')]), sc_compact = (\<lambda>t. if t = ''!'' then None else Some t),
     sc_encode = (\<lambda>entries. concat (map (\<lambda>(k, v). k @ v) entries))\<rparr>"

theorem static_set_exact_example:
  "static_entry (sd_entries (snd (static_set example_static (Some (Inr ''d'')) [(''a'', ''{}''), (''b'', ''2'')] 9 new_static_data))) ''a'' = ''{}'' \<and>
   sd_changed (snd (static_set example_static (Some (Inr ''d'')) [(''a'', ''{}''), (''b'', ''2'')] 9 new_static_data))"
proof -
  let ?loaded = "\<lparr>sd_loaded = True, sd_entries = [(''a'', ''1'')], sd_changed = False\<rparr>"
  let ?set = "static_set example_static (Some (Inr ''d'')) [(''a'', ''{}''), (''b'', ''2'')] 9 new_static_data"
  have loaded: "ensure_loaded example_static (Some (Inr ''d'')) new_static_data = Inr ?loaded" by code_simp
  have keys: "distinct (map fst [(''a'', ''{}''), (''b'', ''2'')])" by simp
  have accepted: "?set = (None, snd ?set)" by code_simp
  have kept: "(\<forall>k. static_entry (sd_entries (snd ?set)) k =
        (case map_of [(''a'', ''{}''), (''b'', ''2'')] k of
           Some entry \<Rightarrow> the (sc_compact example_static entry) | None \<Rightarrow> static_entry (sd_entries ?loaded) k))"
    "(sd_changed (snd ?set) \<longleftrightarrow> sd_changed new_static_data \<or>
        (\<exists>k. static_entry (sd_entries (snd ?set)) k \<noteq> static_entry (sd_entries ?loaded) k))"
    using static_set_exact [OF loaded keys accepted] by (simp_all only: simp_thms if_False)
  from kept(1) have "static_entry (sd_entries (snd ?set)) ''a'' = ''{}''" by (simp add: example_static_def)
  moreover from this have "static_entry (sd_entries (snd ?set)) ''a'' \<noteq> static_entry (sd_entries ?loaded) ''a''"
    by (simp add: static_entry_def)
  ultimately show ?thesis using kept by blast
qed

subsection \<open>The rows and their events\<close>

definition node_events :: "notice list \<Rightarrow> event list" where
  "node_events notices =
     filter (\<lambda>e. ev_node e \<noteq> []) (concat (map (\<lambda>n. case n of Published e \<Rightarrow> [e] | Logged l \<Rightarrow> []) notices))"

lemma node_events_append [simp]: "node_events (xs @ ys) = node_events xs @ node_events ys"
  by (simp add: node_events_def)

lemma node_events_settled [simp]: "node_events (settled_notices level name x data db) = []"
  by (auto simp: node_events_def settled_notices_def announce_def publish_terminal_def execution_event_def filter_empty_conv)

lemma update_runtime_runs: "update_runtime h tenant r db = Inr (res, db') \<Longrightarrow> db_runs db' = db_runs db"
  by (auto simp: update_runtime_def settle_running_def Let_def split: if_splits)

lemma trace_rows_sequences:
  "trace_rows h rn r kinds base now rows = Inr pairs \<Longrightarrow> distinct (map (\<lambda>p. tr_sequence (fst p)) pairs)"
proof (induction rows arbitrary: base pairs)
  case (Cons nr rows)
  then obtain t e ps where row: "trace_row_of h rn r kinds (base + 1) now nr = Inr (t, e)"
    and rest: "trace_rows h rn r kinds (base + 1) now rows = Inr ps" "pairs = (t, e) # ps" by auto
  have "tr_sequence t \<noteq> tr_sequence (fst p)" if "p \<in> set ps" for p
    using trace_rows_facts [OF rest(1) that] trace_row_of_facts [OF row] by simp
  with Cons.IH [OF rest(1)] rest(2) show ?case by auto
qed simp

lemma placed_from: "s \<in> set (place_runs known ts) \<Longrightarrow>
    \<exists>t \<in> set ts. tr_sequence s = tr_sequence t \<and> tr_node s = tr_node t \<and> tr_status s = tr_status t"
proof (induction known ts rule: place_runs.induct)
  case (2 known t ts)
  have "tr_status t' = tr_status t" if "free_index known t = Some t'" for t'
    using that
  proof (induction known t rule: free_index.induct)
    case (1 known t)
    then show ?case by (subst (asm) (2) free_index.simps) (auto split: option.splits if_splits)
  qed
  with 2 show ?case by (auto split: option.splits dest!: free_index_kept)
qed simp

lemma models_from: "node_run_models h tenant owner now its = Inr ms \<Longrightarrow> m \<in> set ms \<Longrightarrow>
    \<exists>t \<in> snd ` set its. tr_sequence m = tr_sequence t \<and> tr_node m = tr_node t \<and> tr_status m = tr_status t \<and> tr_node t \<noteq> []"
  by (induction its arbitrary: ms) (fastforce simp: node_run_model_def)+

lemma created_from:
  assumes "create_node_runs h tenant batch now db = Inr (created, db')" "s \<in> set created"
  shows "\<exists>t \<in> (\<lambda>b. snd (snd b)) ` set batch.
    tr_sequence s = tr_sequence t \<and> tr_node s = tr_node t \<and> tr_status s = tr_status t \<and> tr_node t \<noteq> []"
proof -
  obtain owner known ms where models: "node_run_models h tenant owner now (map (\<lambda>(i, _, x). (i, x)) batch) = Inr ms"
    and placed: "created = place_runs known ms"
  proof (cases batch)
    case Nil
    with assms show ?thesis by (simp add: create_node_runs_def)
  next
    case (Cons b bs)
    with assms(1) show ?thesis by (cases b) (auto simp: create_node_runs_def Let_def simp del: node_run_models.simps place_runs.simps intro: that)
  qed
  obtain m where m: "m \<in> set ms" "tr_sequence s = tr_sequence m" "tr_node s = tr_node m" "tr_status s = tr_status m"
    using placed_from assms(2) unfolding placed by blast
  obtain t where t: "t \<in> snd ` set (map (\<lambda>(i, _, x). (i, x)) batch)" "tr_sequence m = tr_sequence t" "tr_node m = tr_node t"
    "tr_status m = tr_status t" "tr_node t \<noteq> []"
    using models_from [OF models m(1)] by blast
  from t(1) have "t \<in> (\<lambda>b. snd (snd b)) ` set batch" by force
  moreover have "tr_sequence s = tr_sequence t \<and> tr_node s = tr_node t \<and> tr_status s = tr_status t \<and> tr_node t \<noteq> []"
    using t(2-5) m(2-4) by simp
  ultimately show ?thesis by (rule bexI [rotated])
qed

lemma announced_events:
  assumes "trace_rows h rn r kinds base now rows = Inr pairs"
    and "create_node_runs h tenant (batch_of r ids (map fst pairs)) now db = Inr (created, db')"
  shows "map (\<lambda>e. (ev_sequence e, ev_node e, ev_status e)) (node_events (announced pairs created)) =
    map (\<lambda>t. (tr_sequence t, tr_node t, tr_status t)) created"
proof -
  have event: "\<exists>p. find (\<lambda>p. tr_sequence (fst p) = tr_sequence s) pairs = Some p \<and> ev_sequence (snd p) = tr_sequence s \<and>
      ev_node (snd p) = tr_node s \<and> ev_status (snd p) = tr_status s \<and> tr_node s \<noteq> []" if member: "s \<in> set created" for s
  proof -
    obtain t where t: "t \<in> set (map fst pairs)" "tr_sequence s = tr_sequence t" "tr_node s = tr_node t"
      "tr_status s = tr_status t" "tr_node t \<noteq> []"
      using created_from [OF assms(2) member] by (auto simp: batch_of_def)
    then obtain p where p: "find (\<lambda>p. tr_sequence (fst p) = tr_sequence s) pairs = Some p"
      by (cases "find (\<lambda>p. tr_sequence (fst p) = tr_sequence s) pairs") (auto simp: find_None_iff)
    then have "p \<in> set pairs" "tr_sequence (fst p) = tr_sequence t" using t(2) by (auto simp: find_Some_iff)
    then have "fst p = t"
      using trace_rows_sequences [OF assms(1)] t(1) by (auto simp: distinct_map dest!: inj_onD)
    with p \<open>p \<in> set pairs\<close> trace_rows_facts [OF assms(1)] t show ?thesis by fastforce
  qed
  then show ?thesis unfolding announced_def
    by (induction created) (fastforce simp: node_events_def)+
qed

text \<open>C17: the live feed tells what the trace holds: when a worker settles its run, the node events it publishes then are
  those of the rows it adds, in their order, each with its row's number, node and status, and no row that was
  stored before is announced again.\<close>

theorem rows_announced:
  assumes "ended = end_work sv job report token asked written data ids now db"
    and "\<not> parks sv report token asked now" "en_error ended = None"
  shows "\<exists>created. db_runs (en_db ended) = db_runs db @ created \<and>
    map (\<lambda>e. (ev_sequence e, ev_node e, ev_status e)) (node_events (en_notices ended)) =
      map (\<lambda>t. (tr_sequence t, tr_node t, tr_status t)) created"
proof -
  obtain report' where ended: "ended = finish_work sv job report' data ids now db"
    using assms(1,2) by (simp add: end_work_cases)
  let ?r = "jb_record job"
  have gone: "en_error (fail_persist sv ?r name cause notices now db') = Some (NotPersisted cause)" for name cause notices db'
    by (auto simp: fail_persist_def gave_up_def split: sum.splits)
  obtain pairs created db1 where work:
      "trace_rows (sv_host sv) (sv_rendering sv) ?r (kinds_of (jb_document job)) (seq_base job) now (rt_rows report') = Inr pairs"
      "create_node_runs (sv_host sv) (ex_tenant ?r) (batch_of ?r ids (map fst pairs)) now db = Inr (created, db1)"
    using assms(3) unfolding ended finish_work_def Let_def by (auto simp: gone split: sum.splits)
  have settles: "db_runs (en_db ended) = db_runs db1 \<and> node_events (en_notices ended) = node_events (announced pairs created)"
    using assms(3) unfolding ended finish_work_def Let_def
    by (auto simp: work gone settle_failed_def settle_done_def gave_up_def Let_def update_runtime_runs
        split: report_end.splits sum.splits option.splits prod.splits)
  show ?thesis
    using settles created_runs(3) [OF work(2)] announced_events [OF work] by auto
qed

theorem rows_announced_example:
  "\<exists>t. db_runs (en_db (end_work example_service example_job example_finished [] example_asked [] None (\<lambda>_. ''r1'') 30 example_claimed)) =
     db_runs example_claimed @ [t] \<and> tr_node t = ''n1'' \<and> tr_status t = StSucceeded \<and> tr_sequence t = 1"
proof -
  define ended where "ended = end_work example_service example_job example_finished [] example_asked [] None (\<lambda>_. ''r1'') 30 example_claimed"
  have fine: "en_error ended = None" unfolding ended_def by code_simp
  have events: "map (\<lambda>e. (ev_sequence e, ev_node e, ev_status e)) (node_events (en_notices ended)) = [(1, ''n1'', StSucceeded)]"
    unfolding ended_def by code_simp
  have "\<not> parks example_service example_finished [] example_asked 30" by (simp add: parks_def example_finished_def)
  from rows_announced [OF ended_def this fine] show ?thesis unfolding events ended_def [symmetric] by auto
qed

end
