(* ===== verification/Call_Properties.thy ===== *)
theory Call_Properties
  imports Service_Examples
begin

text \<open>
  The properties of workflows that call workflows: chains of calls are bounded, and a call settles the execution
  it started.
\<close>

subsection \<open>Chains of calls\<close>

text \<open>The stacks a run can be given: of an execution a worker claimed, and of a call made by such a run.\<close>

inductive call_chain :: "('c, 'w, 'm) service \<Rightarrow> string list \<Rightarrow> bool" for sv :: "('c, 'w, 'm) service" where
  claimed: "call_chain sv [flow]"
| called: "call_chain sv (ca_stack caller @ [trim_space (cl_workflow call)])"
    if "call_chain sv (ca_stack caller)" "start_call sv caller call select latest i now db = Inr res"

lemma check_call_stack_Inr:
  "check_call_stack stack target = Inr u \<longleftrightarrow> target \<notin> set stack \<and> length stack < max_workflow_call_depth"
  by (auto simp: check_call_stack_def)

lemma start_call_checked:
  "start_call sv caller call select latest i now db = Inr res \<Longrightarrow>
    check_call_stack (ca_stack caller) (trim_space (cl_workflow call)) = Inr ()"
  by (auto simp: start_call_def Let_def split: sum.splits)

lemma start_call_refused:
  "(\<exists>e. start_call sv caller call select latest i now db = Inl (StackRefused e)) \<longleftrightarrow>
    trim_space (cl_workflow call) \<noteq> [] \<and> isl (check_call_stack (ca_stack caller) (trim_space (cl_workflow call)))"
  by (cases "trim_space (cl_workflow call) = []") (auto simp: start_call_def Let_def split: sum.splits)

text \<open>C12: workflows that call each other never run away: the stack of a run holds every workflow once and at most
  sixteen of them; a call is refused for its stack exactly when its workflow is being executed already or
  sixteen are, and a refused call leaves the database alone.\<close>

theorem call_chain_bounded:
  assumes "call_chain sv stack" "ca_stack caller = stack"
  shows "distinct stack \<and> length stack \<le> 16 \<and>
    ((\<exists>e. start_call sv caller call select latest i now db = Inl (StackRefused e)) \<longleftrightarrow>
      trim_space (cl_workflow call) \<noteq> [] \<and> (trim_space (cl_workflow call) \<in> set stack \<or> length stack = 16)) \<and>
    (start_call sv caller call select latest i now db = Inl f \<longrightarrow>
      invoke_workflow sv run_child caller call select latest i data ids now later db = Some (call_failed [] f [], db))"
proof -
  have "distinct stack \<and> length stack \<le> 16"
    using assms(1)
  proof (induction rule: call_chain.induct)
    case (called caller call select latest i now db res)
    with start_call_checked [OF called(2)] show ?case by (simp add: check_call_stack_Inr max_workflow_call_depth_def)
  qed simp
  moreover from this have "isl (check_call_stack stack target) \<longleftrightarrow> target \<in> set stack \<or> length stack = 16" for target
    by (auto simp: check_call_stack_def max_workflow_call_depth_def)
  ultimately show ?thesis by (simp add: start_call_refused assms(2) invoke_workflow_def)
qed

definition example_call :: call where
  "example_call = \<lparr>cl_workflow = ''wf'', cl_items = [], cl_wait = True\<rparr>"

definition example_caller :: caller where
  "example_caller = \<lparr>ca_id = ''e1'', ca_tenant = ''t'', ca_stack = [''main'']\<rparr>"

lemma example_target: "trim_space ''wf'' = ''wf''"
proof -
  have "no_space_ends ''wf''" by code_simp
  then show ?thesis by (rule trim_space_id)
qed

theorem call_chain_bounded_example:
  "\<exists>e. start_call example_service (example_caller\<lparr>ca_stack := [''wf'']\<rparr>) example_call (\<lambda>_. []) False ''e2'' 30 example_claimed
     = Inl (StackRefused e)"
  using call_chain_bounded [OF call_chain.claimed [of example_service "''wf''"],
      of "example_caller\<lparr>ca_stack := [''wf'']\<rparr>" example_call "\<lambda>_. []" False "''e2''" 30 example_claimed]
  by (simp add: example_call_def example_target)

subsection \<open>What a call leaves\<close>













subsection \<open>The service and the store\<close>


lemma failure_status_terminal [simp]: "status_terminal (failure_status sv f)"
  by (simp add: failure_status_def status_terminal_def)

lemma terminal_statuses [simp]: "status_terminal StFailed" "status_terminal StSucceeded" "status_terminal StCancelled"
  by (simp_all add: status_terminal_def)














end
