(* ===== verification/Events.thy ===== *)
theory Events
  imports Trace_Rows
begin

text \<open>
  The broker of the live feed (\<open>internal/events/events.go\<close>): events are numbered per execution, the newest are
  retained for replay, and every subscriber has a bounded queue.

  A subscription is a pointer in the source and an identifier here, which \<open>Subscribe\<close> is given. \<open>Publish\<close> numbers
  and retains an event under the broker's lock (\<open>publish_append\<close>) and delivers it to the subscribers of that
  moment after releasing it, one \<open>deliver\<close> each; \<open>Close\<close> and \<open>Forget\<close> have two parts for the same reason. The time
  of an event is left out.
\<close>

subsection \<open>State\<close>

type_synonym stream_key = "string \<times> string"
type_synonym numbered = "nat \<times> event"

record stream =
  sm_last :: nat
  sm_history :: "numbered list"
  sm_subscribers :: "nat list"

record subscription =
  sb_key :: stream_key
  sb_queue :: "numbered list"
  sb_room :: nat
  sb_closed :: bool
  sb_lagged :: bool
  sb_truncated :: bool

record broker =
  bk_queue :: nat
  bk_buffer :: nat
  bk_streams :: "stream_key \<rightharpoonup> stream"
  bk_subscriptions :: "nat \<rightharpoonup> subscription"

definition default_subscriber_queue :: nat where "default_subscriber_queue = 64"
definition default_buffer :: nat where "default_buffer = 256"

definition new_broker :: "int \<Rightarrow> int \<Rightarrow> broker" where
  "new_broker queue buffer =
     \<lparr>bk_queue = (if queue \<le> 0 then default_subscriber_queue else nat queue),
      bk_buffer = (if buffer \<le> 0 then default_buffer else nat buffer),
      bk_streams = Map.empty, bk_subscriptions = Map.empty\<rparr>"

definition terminal_event :: "string \<Rightarrow> bool" where
  "terminal_event kind \<longleftrightarrow> kind \<in> {''execution.completed'', ''execution.failed'', ''execution.cancelled''}"

definition empty_stream :: stream where
  "empty_stream = \<lparr>sm_last = 0, sm_history = [], sm_subscribers = []\<rparr>"

definition stream_at :: "broker \<Rightarrow> stream_key \<Rightarrow> stream" where
  "stream_at b key = (case bk_streams b key of None \<Rightarrow> empty_stream | Some st \<Rightarrow> st)"

subsection \<open>Operations\<close>

definition event_key :: "event \<Rightarrow> stream_key" where
  "event_key e = (ev_tenant e, ev_execution e)"

text \<open>The part under the lock: the broker, and the event with the subscribers it is to be delivered to.\<close>

definition publish_append :: "host \<Rightarrow> event \<Rightarrow> broker \<Rightarrow> broker \<times> (nat \<times> numbered) list" where
  "publish_append h e b =
     (if ev_execution e = [] then (b, [])
      else
        (let event = e\<lparr>ev_data := redact h (ev_data e)\<rparr>;
             st = stream_at b (event_key e);
             entry = (sm_last st + 1, event);
             history = sm_history st @ [entry];
             st' = st\<lparr>sm_last := sm_last st + 1, sm_history := drop (length history - bk_buffer b) history\<rparr>
         in (b\<lparr>bk_streams := (bk_streams b)(event_key e \<mapsto> st')\<rparr>, map (\<lambda>s. (s, entry)) (sm_subscribers st))))"

text \<open>A full queue drops the event for its subscriber, which is marked.\<close>

definition deliver_to :: "numbered \<Rightarrow> subscription \<Rightarrow> subscription" where
  "deliver_to entry sub =
     (if sb_closed sub then sub
      else if length (sb_queue sub) < sb_room sub then sub\<lparr>sb_queue := sb_queue sub @ [entry]\<rparr>
      else sub\<lparr>sb_lagged := True\<rparr>)"

definition change_subscription :: "nat \<Rightarrow> (subscription \<Rightarrow> subscription) \<Rightarrow> broker \<Rightarrow> broker" where
  "change_subscription s f b = b\<lparr>bk_subscriptions := (bk_subscriptions b)(s := map_option f (bk_subscriptions b s))\<rparr>"

definition deliver :: "nat \<times> numbered \<Rightarrow> broker \<Rightarrow> broker" where
  "deliver d = change_subscription (fst d) (deliver_to (snd d))"

definition publish :: "host \<Rightarrow> event \<Rightarrow> broker \<Rightarrow> broker" where
  "publish h e b = (case publish_append h e b of (b', owed) \<Rightarrow> fold deliver owed b')"

definition subscribe :: "string \<Rightarrow> string \<Rightarrow> nat \<Rightarrow> nat \<Rightarrow> broker \<Rightarrow> broker" where
  "subscribe tenant execution after_id s b =
     (let key = (tenant, execution);
          st = stream_at b key;
          replay = filter (\<lambda>entry. after_id < fst entry) (sm_history st);
          sub = \<lparr>sb_key = key, sb_queue = replay, sb_room = length replay + bk_queue b, sb_closed = False,
                 sb_lagged = False, sb_truncated = (case replay of [] \<Rightarrow> False | entry # _ \<Rightarrow> after_id + 1 < fst entry)\<rparr>
      in b\<lparr>bk_streams := (bk_streams b)(key \<mapsto> st\<lparr>sm_subscribers := sm_subscribers st @ [s]\<rparr>),
           bk_subscriptions := (bk_subscriptions b)(s \<mapsto> sub)\<rparr>)"

text \<open>Reading from the channel of a subscription; nothing is there, or the oldest entry is taken.\<close>

definition receive :: "nat \<Rightarrow> broker \<Rightarrow> (numbered \<times> broker) option" where
  "receive s b =
     (case Option.bind (bk_subscriptions b s) (\<lambda>sub. case sb_queue sub of [] \<Rightarrow> None | entry # _ \<Rightarrow> Some entry) of
        None \<Rightarrow> None
      | Some entry \<Rightarrow> Some (entry, change_subscription s (\<lambda>sub. sub\<lparr>sb_queue := tl (sb_queue sub)\<rparr>) b))"

text \<open>\<open>Close\<close> ends the channel, then detaches the subscription from its stream, if that still exists.\<close>

definition shut :: "nat \<Rightarrow> broker \<Rightarrow> broker" where
  "shut s = change_subscription s (\<lambda>sub. sub\<lparr>sb_closed := True\<rparr>)"

definition detach :: "nat \<Rightarrow> broker \<Rightarrow> broker" where
  "detach s b =
     (case bk_subscriptions b s of
        None \<Rightarrow> b
      | Some sub \<Rightarrow>
          (case bk_streams b (sb_key sub) of
             None \<Rightarrow> b
           | Some st \<Rightarrow> b\<lparr>bk_streams := (bk_streams b)(sb_key sub \<mapsto> st\<lparr>sm_subscribers := removeAll s (sm_subscribers st)\<rparr>)\<rparr>))"

definition close_subscription :: "nat \<Rightarrow> broker \<Rightarrow> broker" where
  "close_subscription s b =
     (case bk_subscriptions b s of
        None \<Rightarrow> b
      | Some sub \<Rightarrow> if sb_closed sub then b else detach s (shut s b))"

text \<open>\<open>Forget\<close> drops a stream and then closes its subscribers.\<close>

definition drop_stream :: "stream_key \<Rightarrow> broker \<Rightarrow> broker" where
  "drop_stream key b = b\<lparr>bk_streams := (bk_streams b)(key := None)\<rparr>"

definition forget :: "string \<Rightarrow> string \<Rightarrow> broker \<Rightarrow> broker" where
  "forget tenant execution b =
     (case bk_streams b (tenant, execution) of
        None \<Rightarrow> b
      | Some st \<Rightarrow> fold close_subscription (sm_subscribers st) (drop_stream (tenant, execution) b))"

end
