(* ===== verification/Event_Properties.thy ===== *)
theory Event_Properties
  imports Events Store_Properties
begin

text \<open>
  The live feed under interleaved publishers and readers, as the transition system \<open>feed_step\<close>: what a subscriber
  was sent, what waits in its queue and what is still on its way to it.
\<close>

subsection \<open>Publishers and readers\<close>

text \<open>Beside the broker, the deliveries that publishers still owe, and what each reader has read and asked for.\<close>

record feed =
  fd_broker :: broker
  fd_owed :: "(nat \<times> numbered) list"
  fd_read :: "nat \<Rightarrow> numbered list"
  fd_after :: "nat \<Rightarrow> nat"
  fd_from :: "nat \<Rightarrow> nat"

definition new_feed :: "int \<Rightarrow> int \<Rightarrow> feed" where
  "new_feed queue buffer =
     \<lparr>fd_broker = new_broker queue buffer, fd_owed = [], fd_read = (\<lambda>_. []), fd_after = (\<lambda>_. 0), fd_from = (\<lambda>_. 0)\<rparr>"

text \<open>\<open>fd_from\<close> is the number the replay of a subscription follows.\<close>

definition replay_start :: "broker \<Rightarrow> stream_key \<Rightarrow> nat \<Rightarrow> nat" where
  "replay_start b key after_id =
     sm_last (stream_at b key) - length (filter (\<lambda>entry. after_id < fst entry) (sm_history (stream_at b key)))"

inductive feed_step :: "host \<Rightarrow> feed \<Rightarrow> feed \<Rightarrow> bool" for h where
  publishes: "feed_step h f (f\<lparr>fd_broker := b, fd_owed := fd_owed f @ owed\<rparr>)"
    if "publish_append h e (fd_broker f) = (b, owed)"
| delivers: "feed_step h f (f\<lparr>fd_broker := deliver d (fd_broker f), fd_owed := xs @ ys\<rparr>)"
    if "fd_owed f = xs @ d # ys"
| subscribes: "feed_step h f (f\<lparr>fd_broker := subscribe tenant execution after_id s (fd_broker f),
      fd_after := (fd_after f)(s := after_id),
      fd_from := (fd_from f)(s := replay_start (fd_broker f) (tenant, execution) after_id)\<rparr>)"
    if "bk_subscriptions (fd_broker f) s = None"
| reads: "feed_step h f (f\<lparr>fd_broker := b, fd_read := (fd_read f)(s := fd_read f s @ [entry])\<rparr>)"
    if "receive s (fd_broker f) = Some (entry, b)"
| shuts: "feed_step h f (f\<lparr>fd_broker := shut s (fd_broker f)\<rparr>)"
| detaches: "feed_step h f (f\<lparr>fd_broker := detach s (fd_broker f)\<rparr>)"
    if "bk_subscriptions (fd_broker f) s = Some sub" "sb_closed sub"
| drops: "feed_step h f (f\<lparr>fd_broker := drop_stream key (fd_broker f)\<rparr>)"

definition attached :: "broker \<Rightarrow> nat \<Rightarrow> stream_key \<Rightarrow> bool" where
  "attached b s key \<longleftrightarrow> s \<in> set (sm_subscribers (stream_at b key))"

text \<open>Everything that was meant for a subscriber and was not dropped: read, queued, or owed.\<close>

definition meant_for :: "feed \<Rightarrow> nat \<Rightarrow> subscription \<Rightarrow> numbered list" where
  "meant_for f s sub = fd_read f s @ sb_queue sub @ map snd (filter (\<lambda>d. fst d = s) (fd_owed f))"

subsection \<open>The invariant\<close>

definition stream_ok :: "nat \<Rightarrow> stream \<Rightarrow> bool" where
  "stream_ok buffer st \<longleftrightarrow>
     length (sm_history st) = min buffer (sm_last st) \<and>
     map fst (sm_history st) = [Suc (sm_last st - length (sm_history st))..<Suc (sm_last st)]"

definition entry_ok :: "host \<Rightarrow> stream_key \<Rightarrow> numbered \<Rightarrow> bool" where
  "entry_ok h key entry \<longleftrightarrow> event_key (snd entry) = key \<and> (\<exists>d. ev_data (snd entry) = redact h d)"

definition sub_ok :: "host \<Rightarrow> feed \<Rightarrow> nat \<Rightarrow> subscription \<Rightarrow> bool" where
  "sub_ok h f s sub \<longleftrightarrow>
     list_all (entry_ok h (sb_key sub)) (meant_for f s sub) \<and>
     (attached (fd_broker f) s (sb_key sub) \<and> \<not> sb_closed sub \<longrightarrow>
        fd_from f s \<le> sm_last (stream_at (fd_broker f) (sb_key sub)) \<and>
        distinct (map fst (meant_for f s sub)) \<and>
        fst ` set (meant_for f s sub) \<subseteq> {fd_from f s<..sm_last (stream_at (fd_broker f) (sb_key sub))} \<and>
        (\<not> sb_lagged sub \<longrightarrow>
           {fd_from f s<..sm_last (stream_at (fd_broker f) (sb_key sub))} \<subseteq> fst ` set (meant_for f s sub))) \<and>
     (sb_truncated sub \<longleftrightarrow> fd_after f s < fd_from f s)"

definition feed_ok :: "host \<Rightarrow> feed \<Rightarrow> bool" where
  "feed_ok h f \<longleftrightarrow>
     (\<forall>key. stream_ok (bk_buffer (fd_broker f)) (stream_at (fd_broker f) key) \<and>
        list_all (entry_ok h key) (sm_history (stream_at (fd_broker f) key)) \<and>
        distinct (sm_subscribers (stream_at (fd_broker f) key))) \<and>
     0 < bk_buffer (fd_broker f) \<and>
     (\<forall>s key. attached (fd_broker f) s key \<longrightarrow> (\<exists>sub. bk_subscriptions (fd_broker f) s = Some sub \<and> sb_key sub = key)) \<and>
     (\<forall>d \<in> set (fd_owed f). bk_subscriptions (fd_broker f) (fst d) \<noteq> None) \<and>
     (\<forall>s. bk_subscriptions (fd_broker f) s = None \<longrightarrow> fd_read f s = []) \<and>
     (\<forall>s sub. bk_subscriptions (fd_broker f) s = Some sub \<longrightarrow> sub_ok h f s sub)"

lemma stream_at_simps [simp]:
  "stream_at (b\<lparr>bk_streams := (bk_streams b)(k \<mapsto> st)\<rparr>) key = (if key = k then st else stream_at b key)"
  "stream_at (b\<lparr>bk_streams := (bk_streams b)(k := None)\<rparr>) key = (if key = k then empty_stream else stream_at b key)"
  "stream_at (b\<lparr>bk_subscriptions := subs\<rparr>) key = stream_at b key"
  by (simp_all add: stream_at_def)

lemma change_subscription_simps [simp]:
  "bk_streams (change_subscription s f b) = bk_streams b"
  "bk_buffer (change_subscription s f b) = bk_buffer b"
  "stream_at (change_subscription s f b) key = stream_at b key"
  "attached (change_subscription s f b) s' key = attached b s' key"
  "bk_subscriptions (change_subscription s f b) s' =
     (if s' = s then map_option f (bk_subscriptions b s) else bk_subscriptions b s')"
  by (simp_all add: change_subscription_def attached_def)

lemma empty_stream_ok [simp]: "stream_ok buffer empty_stream" "sm_history empty_stream = []" "sm_subscribers empty_stream = []"
  by (simp_all add: stream_ok_def empty_stream_def)

lemma deliver_to_simps [simp]:
  "sb_key (deliver_to entry sub) = sb_key sub" "sb_closed (deliver_to entry sub) = sb_closed sub"
  "sb_truncated (deliver_to entry sub) = sb_truncated sub"
  by (simp_all add: deliver_to_def)

lemma owed_once: "distinct ss \<Longrightarrow> map snd (filter (\<lambda>d. fst d = s) (map (\<lambda>s. (s, entry)) ss)) = (if s \<in> set ss then [entry] else [])"
  by (induction ss) auto

lemma stream_ok_appended:
  assumes "stream_ok buffer st" "0 < buffer"
    and "history = sm_history st @ [(sm_last st + 1, e)]"
  shows "stream_ok buffer (st\<lparr>sm_last := sm_last st + 1, sm_history := drop (length history - buffer) history\<rparr>)"
proof -
  define n where "n = length (sm_history st)"
  have n: "n = min buffer (sm_last st)" "map fst (sm_history st) = [Suc (sm_last st - n)..<Suc (sm_last st)]"
    using assms(1) by (simp_all add: stream_ok_def n_def)
  have len: "length history = Suc n" by (simp add: assms(3) n_def)
  have ids: "map fst history = [Suc (sm_last st - n)..<Suc (Suc (sm_last st))]"
    using n by (simp add: assms(3))
  have "length (drop (length history - buffer) history) = min buffer (Suc (sm_last st))"
    using n(1) assms(2) by (simp add: len)
  moreover have "map fst (drop (length history - buffer) history) = drop (Suc n - buffer) [Suc (sm_last st - n)..<Suc (Suc (sm_last st))]"
    by (simp only: drop_map [symmetric] ids len)
  moreover have "Suc (sm_last st - n) + (Suc n - buffer) = Suc (Suc (sm_last st) - min buffer (Suc (sm_last st)))"
    using n(1) assms(2) by (auto simp: min_def)
  ultimately show ?thesis by (simp add: stream_ok_def del: upt_Suc)
qed

text \<open>The replay of a subscription.\<close>

lemma replay_ids:
  assumes "stream_ok buffer st" "0 < buffer"
    and "replay = filter (\<lambda>entry. after_id < fst entry) (sm_history st)" "start = sm_last st - length replay"
  shows "map fst replay = [Suc start..<Suc (sm_last st)]"
    "(case replay of [] \<Rightarrow> False | entry # _ \<Rightarrow> after_id + 1 < fst entry) \<longleftrightarrow> after_id < start"
proof -
  define a where "a = sm_last st - length (sm_history st)"
  have upto: "filter (\<lambda>i. k < i) [Suc m..<Suc n] = [Suc (max m k)..<Suc n]" for k m n :: nat
    by (induction n) (auto simp: max_def)
  have "map fst replay = filter (\<lambda>i. after_id < i) (map fst (sm_history st))"
    by (simp add: assms(3) filter_map comp_def)
  also have "\<dots> = [Suc (max a after_id)..<Suc (sm_last st)]"
    using assms(1) by (simp only: stream_ok_def a_def upto)
  finally have ids: "map fst replay = [Suc (max a after_id)..<Suc (sm_last st)]" .
  have len: "length replay = sm_last st - max a after_id"
    using arg_cong [OF ids, of length] by (simp del: upt_Suc)
  then have start: "start = min (sm_last st) (max a after_id)" using assms(4) by linarith
  show all: "map fst replay = [Suc start..<Suc (sm_last st)]"
    using ids by (auto simp: start min_def)
  show "(case replay of [] \<Rightarrow> False | entry # _ \<Rightarrow> after_id + 1 < fst entry) \<longleftrightarrow> after_id < start"
  proof (cases replay)
    case Nil
    have "sm_last st \<le> after_id" if "0 < sm_last st"
    proof -
      have "a < sm_last st" using that assms(1,2) by (simp add: stream_ok_def a_def)
      with Nil len show ?thesis by simp
    qed
    with Nil show ?thesis by (auto simp: start)
  next
    case (Cons entry rest)
    then have "[Suc start..<Suc (sm_last st)] = fst entry # map fst rest" using all by (simp del: upt_Suc)
    then have "fst entry = Suc start" by (simp add: upt_eq_Cons_conv del: upt_Suc)
    with Cons show ?thesis by simp
  qed
qed

subsection \<open>Every step keeps the invariant\<close>

text \<open>A subscription whose share changed no more than this is still as it should be.\<close>

lemma sub_ok_kept:
  assumes "sub_ok h f s sub" "meant_for f' s sub' = meant_for f s sub" "sb_key sub' = sb_key sub"
    and "sb_lagged sub' = sb_lagged sub" "sb_truncated sub' = sb_truncated sub"
    and "fd_after f' s = fd_after f s" "fd_from f' s = fd_from f s"
    and "attached (fd_broker f') s (sb_key sub) \<and> \<not> sb_closed sub' \<Longrightarrow>
      attached (fd_broker f) s (sb_key sub) \<and> \<not> sb_closed sub \<and>
      sm_last (stream_at (fd_broker f') (sb_key sub)) = sm_last (stream_at (fd_broker f) (sb_key sub))"
  shows "sub_ok h f' s sub'"
  using assms by (auto simp: sub_ok_def)

lemma feed_okD:
  assumes "feed_ok h f"
  shows "stream_ok (bk_buffer (fd_broker f)) (stream_at (fd_broker f) key)"
    "list_all (entry_ok h key) (sm_history (stream_at (fd_broker f) key))"
    "distinct (sm_subscribers (stream_at (fd_broker f) key))" "0 < bk_buffer (fd_broker f)"
    "attached (fd_broker f) s key \<Longrightarrow> \<exists>sub. bk_subscriptions (fd_broker f) s = Some sub \<and> sb_key sub = key"
    "d \<in> set (fd_owed f) \<Longrightarrow> bk_subscriptions (fd_broker f) (fst d) \<noteq> None"
    "bk_subscriptions (fd_broker f) s = None \<Longrightarrow> fd_read f s = []"
    "bk_subscriptions (fd_broker f) s = Some sub \<Longrightarrow> sub_ok h f s sub"
  using assms unfolding feed_ok_def by blast+

text \<open>Steps that change one subscription at most.\<close>

lemma feed_ok_changed:
  assumes "feed_ok h f" "fd_broker f' = change_subscription s g (fd_broker f)"
    and "set (fd_owed f') \<subseteq> set (fd_owed f)" "fd_after f' = fd_after f" "fd_from f' = fd_from f"
    and "\<And>s'. s' \<noteq> s \<Longrightarrow> fd_read f' s' = fd_read f s'" "\<And>sub. sb_key (g sub) = sb_key sub"
    and "bk_subscriptions (fd_broker f) s = None \<Longrightarrow> fd_read f' s = fd_read f s"
    and "\<And>s'. s' \<noteq> s \<Longrightarrow> filter (\<lambda>d. fst d = s') (fd_owed f') = filter (\<lambda>d. fst d = s') (fd_owed f)"
    and "\<And>sub. bk_subscriptions (fd_broker f) s = Some sub \<Longrightarrow> sub_ok h f s sub \<Longrightarrow> sub_ok h f' s (g sub)"
  shows "feed_ok h f'"
proof -
  note old = feed_okD [OF assms(1)]
  have subs: "sub_ok h f' s' sub" if sub: "bk_subscriptions (fd_broker f') s' = Some sub" for s' sub
  proof (cases "s' = s")
    case True
    with sub assms(2) obtain sub0 where "bk_subscriptions (fd_broker f) s = Some sub0" "sub = g sub0" by auto
    with True assms(10) old(8) show ?thesis by blast
  next
    case False
    with sub assms(2) have "bk_subscriptions (fd_broker f) s' = Some sub" by simp
    from old(8) [OF this] show ?thesis by (rule sub_ok_kept) (simp_all add: meant_for_def assms(2,4-6,9) False)
  qed
  have owed: "bk_subscriptions (fd_broker f') (fst d) \<noteq> None" if "d \<in> set (fd_owed f')" for d
    using old(6) [of d] assms(3) that by (auto simp: assms(2))
  have attached_sub: "\<exists>sub. bk_subscriptions (fd_broker f') s' = Some sub \<and> sb_key sub = key" if "attached (fd_broker f') s' key" for s' key
    using old(5) [of s' key] that assms(7) by (auto simp: assms(2))
  have unread: "fd_read f' s' = []" if "bk_subscriptions (fd_broker f') s' = None" for s'
    using old(7) [of s'] that assms(6,8) by (cases "s' = s") (auto simp: assms(2))
  show ?thesis using old(1-4) attached_sub owed unread subs unfolding feed_ok_def by (simp add: assms(2))
qed

lemma feed_ok_delivers:
  assumes "feed_ok h f" "fd_owed f = xs @ d # ys"
  shows "feed_ok h (f\<lparr>fd_broker := deliver d (fd_broker f), fd_owed := xs @ ys\<rparr>)"
proof (rule feed_ok_changed [OF assms(1), where s = "fst d" and g = "deliver_to (snd d)"])
  fix sub
  let ?f' = "f\<lparr>fd_broker := deliver d (fd_broker f), fd_owed := xs @ ys\<rparr>"
  assume sub: "sub_ok h f (fst d) sub"
  have parts: "meant_for f (fst d) sub = fd_read f (fst d) @ sb_queue sub @ map snd (filter (\<lambda>e. fst e = fst d) xs) @
      snd d # map snd (filter (\<lambda>e. fst e = fst d) ys)"
    by (simp add: meant_for_def assms(2))
  show "sub_ok h ?f' (fst d) (deliver_to (snd d) sub)"
    using sub unfolding sub_ok_def parts
    by (auto simp: meant_for_def deliver_to_def deliver_def)
qed (auto simp: deliver_def assms(2))

lemma feed_ok_reads:
  assumes "feed_ok h f" "receive s (fd_broker f) = Some (entry, b)"
  shows "feed_ok h (f\<lparr>fd_broker := b, fd_read := (fd_read f)(s := fd_read f s @ [entry])\<rparr>)"
proof -
  obtain sub0 where sub0: "bk_subscriptions (fd_broker f) s = Some sub0"
    using assms(2) by (cases "bk_subscriptions (fd_broker f) s") (auto simp: receive_def)
  obtain rest where queue: "sb_queue sub0 = entry # rest"
    using assms(2) sub0 by (cases "sb_queue sub0") (auto simp: receive_def)
  have b: "b = change_subscription s (\<lambda>sub. sub\<lparr>sb_queue := tl (sb_queue sub)\<rparr>) (fd_broker f)"
    using assms(2) sub0 queue by (simp add: receive_def)
  show ?thesis
  proof (rule feed_ok_changed [OF assms(1), where s = s and g = "\<lambda>sub. sub\<lparr>sb_queue := tl (sb_queue sub)\<rparr>"])
    fix sub
    assume "bk_subscriptions (fd_broker f) s = Some sub" "sub_ok h f s sub"
    with sub0 queue show "sub_ok h (f\<lparr>fd_broker := b, fd_read := (fd_read f)(s := fd_read f s @ [entry])\<rparr>) s (sub\<lparr>sb_queue := tl (sb_queue sub)\<rparr>)"
      by (elim sub_ok_kept) (simp_all add: meant_for_def b)
  qed (simp_all add: b sub0)
qed

lemma feed_ok_shuts:
  assumes "feed_ok h f"
  shows "feed_ok h (f\<lparr>fd_broker := shut s (fd_broker f)\<rparr>)"
proof (rule feed_ok_changed [OF assms, where s = s and g = "\<lambda>sub. sub\<lparr>sb_closed := True\<rparr>"])
  show "sub_ok h f s sub \<Longrightarrow> sub_ok h (f\<lparr>fd_broker := shut s (fd_broker f)\<rparr>) s (sub\<lparr>sb_closed := True\<rparr>)" for sub
    by (elim sub_ok_kept) (simp_all add: meant_for_def shut_def)
qed (simp_all add: shut_def)

text \<open>Steps that take subscribers from a stream, or the stream.\<close>

lemma feed_ok_fewer:
  assumes "feed_ok h f" "f' = f\<lparr>fd_broker := (fd_broker f)\<lparr>bk_streams := m\<rparr>\<rparr>"
    and "\<And>key. stream_at (fd_broker f') key = stream_at (fd_broker f) key \<or> stream_at (fd_broker f') key = empty_stream \<or>
      (\<exists>ss. stream_at (fd_broker f') key = (stream_at (fd_broker f) key)\<lparr>sm_subscribers := ss\<rparr> \<and>
        distinct ss \<and> set ss \<subseteq> set (sm_subscribers (stream_at (fd_broker f) key)))"
  shows "feed_ok h f'"
proof -
  note old = feed_okD [OF assms(1)]
  have still: "attached (fd_broker f) s key \<and> sm_last (stream_at (fd_broker f') key) = sm_last (stream_at (fd_broker f) key)"
    if "attached (fd_broker f') s key" for s key
    using assms(3) [of key] that unfolding attached_def by (auto simp: empty_stream_def)
  have streams: "stream_ok (bk_buffer (fd_broker f')) (stream_at (fd_broker f') key)"
    "list_all (entry_ok h key) (sm_history (stream_at (fd_broker f') key))"
    "distinct (sm_subscribers (stream_at (fd_broker f') key))" for key
    using assms(3) [of key] old(1-3) [of key] by (auto simp: assms(2) stream_ok_def empty_stream_def)
  have subs: "sub_ok h f' s sub" if "bk_subscriptions (fd_broker f') s = Some sub" for s sub
  proof -
    have "bk_subscriptions (fd_broker f) s = Some sub" using that by (simp add: assms(2))
    from old(8) [OF this] show ?thesis
      by (rule sub_ok_kept) (use still [of s "sb_key sub"] in \<open>auto simp: meant_for_def assms(2)\<close>)
  qed
  show ?thesis using streams old(4-7) subs still unfolding feed_ok_def by (auto simp: assms(2))
qed

lemma feed_ok_detaches:
  assumes "feed_ok h f" "bk_subscriptions (fd_broker f) s = Some sub"
  shows "feed_ok h (f\<lparr>fd_broker := detach s (fd_broker f)\<rparr>)"
proof (cases "bk_streams (fd_broker f) (sb_key sub)")
  case None
  with assms show ?thesis by (simp add: detach_def)
next
  case (Some st)
  then have at: "stream_at (fd_broker f) (sb_key sub) = st" by (simp add: stream_at_def)
  have "distinct (removeAll s (sm_subscribers st))" using feed_okD(3) [OF assms(1), of "sb_key sub"] at by (simp add: distinct_removeAll)
  then show ?thesis using assms(2) Some at
    by (intro feed_ok_fewer [OF assms(1), where m = "(bk_streams (fd_broker f))(sb_key sub \<mapsto> st\<lparr>sm_subscribers := removeAll s (sm_subscribers st)\<rparr>)"])
      (auto simp: detach_def feed_okD(3) [OF assms(1)] intro: exI [of _ "removeAll s (sm_subscribers st)"])
qed

lemma feed_ok_drops: "feed_ok h f \<Longrightarrow> feed_ok h (f\<lparr>fd_broker := drop_stream key (fd_broker f)\<rparr>)"
  by (erule feed_ok_fewer [where m = "(bk_streams (fd_broker f))(key := None)"])
    (auto simp: drop_stream_def feed_okD(3))

lemma feed_ok_publishes:
  assumes "feed_ok h f" "publish_append h e (fd_broker f) = (b, owed)"
  shows "feed_ok h (f\<lparr>fd_broker := b, fd_owed := fd_owed f @ owed\<rparr>)"
proof (cases "ev_execution e = []")
  case True
  with assms(2) have "b = fd_broker f" "owed = []" by (simp_all add: publish_append_def)
  with assms(1) show ?thesis by simp
next
  case False
  let ?f' = "f\<lparr>fd_broker := b, fd_owed := fd_owed f @ owed\<rparr>"
  define st where "st = stream_at (fd_broker f) (event_key e)"
  define entry where "entry = (sm_last st + 1, e\<lparr>ev_data := redact h (ev_data e)\<rparr>)"
  define history where "history = sm_history st @ [entry]"
  define st' where "st' = st\<lparr>sm_last := sm_last st + 1, sm_history := drop (length history - bk_buffer (fd_broker f)) history\<rparr>"
  have b: "b = (fd_broker f)\<lparr>bk_streams := (bk_streams (fd_broker f))(event_key e \<mapsto> st')\<rparr>"
    and owed: "owed = map (\<lambda>s. (s, entry)) (sm_subscribers st)"
    using assms(2) False by (simp_all add: publish_append_def Let_def st'_def st_def history_def entry_def)
  note old = feed_okD [OF assms(1)]
  have ok: "entry_ok h (event_key e) entry" by (auto simp: entry_ok_def entry_def event_key_def)
  have same: "attached b s key = attached (fd_broker f) s key" for s key
    by (auto simp: b attached_def st'_def st_def)
  have streams: "stream_ok (bk_buffer b) (stream_at b key) \<and> list_all (entry_ok h key) (sm_history (stream_at b key)) \<and>
      distinct (sm_subscribers (stream_at b key))" for key
  proof (cases "key = event_key e")
    case True
    have "stream_ok (bk_buffer b) st'"
      using stream_ok_appended [OF old(1,4), of history "event_key e" "snd entry"]
      by (simp add: b st'_def st_def history_def entry_def)
    moreover have "list_all (entry_ok h key) history"
      using old(2) [of "event_key e"] ok True by (simp add: history_def st_def)
    then have "list_all (entry_ok h key) (sm_history st')"
      unfolding st'_def by (auto simp: list_all_iff dest: in_set_dropD)
    ultimately show ?thesis using True old(3) [of "event_key e"] by (simp add: b st'_def st_def)
  next
    case other: False
    with old(1-3) [of key] show ?thesis by (simp add: b)
  qed
  have subs: "sub_ok h ?f' s sub" if sub: "bk_subscriptions b s = Some sub" for s sub
  proof -
    have kept: "bk_subscriptions (fd_broker f) s = Some sub" using sub by (simp add: b)
    note known = old(8) [OF this]
    have added: "map snd (filter (\<lambda>d. fst d = s) owed) = (if s \<in> set (sm_subscribers st) then [entry] else [])"
      unfolding owed by (rule owed_once) (simp add: st_def old(3))
    have meant: "meant_for ?f' s sub = meant_for f s sub @ (if s \<in> set (sm_subscribers st) then [entry] else [])"
      by (simp add: meant_for_def added)
    show ?thesis
    proof (cases "s \<in> set (sm_subscribers st)")
      case True
      then have key: "sb_key sub = event_key e" and att: "attached (fd_broker f) s (sb_key sub)"
        using old(5) [of s "event_key e"] kept by (auto simp: attached_def st_def)
      have last: "sm_last (stream_at b (sb_key sub)) = Suc (sm_last st)" by (simp add: b key st'_def)
      have kept_last: "sm_last (stream_at (fd_broker f) (sb_key sub)) = sm_last st" by (simp add: key st_def)
      have ids: "fst entry = Suc (sm_last st)" by (simp add: entry_def)
      show ?thesis
      proof (cases "sb_closed sub")
        case True
        with known ok key show ?thesis
          by (auto simp: sub_ok_def meant)
      next
        case open_sub: False
        with known att have facts: "fd_from f s \<le> sm_last st" "distinct (map fst (meant_for f s sub))"
          "fst ` set (meant_for f s sub) \<subseteq> {fd_from f s<..sm_last st}"
          "\<not> sb_lagged sub \<Longrightarrow> {fd_from f s<..sm_last st} \<subseteq> fst ` set (meant_for f s sub)"
          "list_all (entry_ok h (sb_key sub)) (meant_for f s sub)" "sb_truncated sub \<longleftrightarrow> fd_after f s < fd_from f s"
          by (simp_all add: sub_ok_def kept_last)
        have more: "{fd_from f s<..Suc (sm_last st)} = insert (Suc (sm_last st)) {fd_from f s<..sm_last st}"
          using facts(1) by auto
        have "Suc (sm_last st) \<notin> fst ` set (meant_for f s sub)" using facts(3) by auto
        then have "distinct (map fst (meant_for ?f' s sub))" using facts(2) True by (simp add: meant ids)
        moreover have "fst ` set (meant_for ?f' s sub) = insert (Suc (sm_last st)) (fst ` set (meant_for f s sub))"
          using True by (simp add: meant ids)
        moreover have "list_all (entry_ok h (sb_key sub)) (meant_for ?f' s sub)" using facts(5) ok key by (simp add: meant)
        ultimately show ?thesis using facts more unfolding sub_ok_def by (simp add: last) blast
      qed
    next
      case unattached: False
      have other: "sb_key sub \<noteq> event_key e" if "attached (fd_broker f) s (sb_key sub)"
        using that unattached by (auto simp: attached_def st_def)
      have last: "sm_last (stream_at b (sb_key sub)) = sm_last (stream_at (fd_broker f) (sb_key sub))"
        if "sb_key sub \<noteq> event_key e"
        using that by (simp add: b)
      show ?thesis
        by (rule sub_ok_kept [OF known]) (use other last in \<open>auto simp: meant unattached same\<close>)
    qed
  qed
  have kept: "bk_buffer b = bk_buffer (fd_broker f)" "bk_subscriptions b = bk_subscriptions (fd_broker f)" by (simp_all add: b)
  have "bk_subscriptions b (fst d) \<noteq> None" if "d \<in> set (fd_owed f @ owed)" for d
  proof (cases "d \<in> set (fd_owed f)")
    case True
    then show ?thesis using old(6) by (simp add: kept)
  next
    case False
    with that have "attached (fd_broker f) (fst d) (event_key e)" by (auto simp: owed attached_def st_def)
    from old(5) [OF this] show ?thesis by (auto simp: kept)
  qed
  then show ?thesis using streams old(4,5,7) subs unfolding feed_ok_def by (simp add: same kept)
qed

lemma feed_ok_subscribes:
  assumes "feed_ok h f" "bk_subscriptions (fd_broker f) s = None"
  shows "feed_ok h (f\<lparr>fd_broker := subscribe tenant execution after_id s (fd_broker f),
    fd_after := (fd_after f)(s := after_id), fd_from := (fd_from f)(s := replay_start (fd_broker f) (tenant, execution) after_id)\<rparr>)"
    (is "feed_ok h ?f'")
proof -
  define key where "key = (tenant, execution)"
  define st where "st = stream_at (fd_broker f) key"
  define replay where "replay = filter (\<lambda>entry. after_id < fst entry) (sm_history st)"
  define start where "start = sm_last st - length replay"
  define sub where "sub = \<lparr>sb_key = key, sb_queue = replay, sb_room = length replay + bk_queue (fd_broker f), sb_closed = False,
    sb_lagged = False, sb_truncated = (case replay of [] \<Rightarrow> False | entry # _ \<Rightarrow> after_id + 1 < fst entry)\<rparr>"
  define b where "b = subscribe tenant execution after_id s (fd_broker f)"
  note old = feed_okD [OF assms(1)]
  have b: "bk_buffer b = bk_buffer (fd_broker f)" "bk_subscriptions b = (bk_subscriptions (fd_broker f))(s \<mapsto> sub)"
    "stream_at b k = (if k = key then st\<lparr>sm_subscribers := sm_subscribers st @ [s]\<rparr> else stream_at (fd_broker f) k)" for k
    by (simp_all add: b_def subscribe_def Let_def sub_def key_def st_def replay_def stream_at_def)
  have start: "replay_start (fd_broker f) (tenant, execution) after_id = start"
    by (simp add: replay_start_def start_def replay_def st_def key_def)
  have stok: "stream_ok (bk_buffer (fd_broker f)) st" using old(1) by (simp add: st_def)
  note ids = replay_ids [OF stok old(4) replay_def start_def]
  have fresh: "\<not> attached (fd_broker f) s k" for k using old(5) [of s k] assms(2) by auto
  have same: "attached b s' k = attached (fd_broker f) s' k" if "s' \<noteq> s" for s' k
    using that by (simp add: attached_def b st_def)
  have streams: "stream_ok (bk_buffer b) (stream_at b k) \<and> list_all (entry_ok h k) (sm_history (stream_at b k)) \<and>
      distinct (sm_subscribers (stream_at b k))" for k
    using old(1-3) [of k] fresh [of k] by (auto simp: b st_def stream_ok_def attached_def)
  have "fst d \<noteq> s" if "d \<in> set (fd_owed f)" for d using old(6) [OF that] assms(2) by auto
  then have unread: "fd_read f s = []" "filter (\<lambda>d. fst d = s) (fd_owed f) = []"
    using old(7) [OF assms(2)] by (simp_all add: filter_empty_conv)
  have subs: "sub_ok h ?f' s' sub'" if sub': "bk_subscriptions b s' = Some sub'" for s' sub'
  proof (cases "s' = s")
    case True
    have meant: "meant_for ?f' s sub = replay" using unread by (simp add: meant_for_def sub_def)
    have "list_all (entry_ok h key) replay" using old(2) [of key] by (auto simp: replay_def st_def list_all_iff)
    moreover have "distinct (map fst replay)" unfolding ids(1) by (rule distinct_upt)
    moreover have "fst ` set replay = {start<..sm_last st}"
      using arg_cong [OF ids(1), of set] by (simp del: upt_Suc add: atLeastSucLessThan_greaterThanLessThan) auto
    moreover have "sm_last (stream_at b key) = sm_last st" "start \<le> sm_last st" by (simp_all add: b start_def)
    moreover have "sb_key sub = key" "sb_truncated sub \<longleftrightarrow> after_id < start" by (simp_all add: sub_def ids(2))
    ultimately have "sub_ok h ?f' s sub" unfolding sub_ok_def meant by (simp add: start b_def [symmetric])
    moreover have "sub' = sub" using True sub' by (simp add: b)
    ultimately show ?thesis using True by simp
  next
    case False
    then have "bk_subscriptions (fd_broker f) s' = Some sub'" using sub' by (simp add: b)
    from old(8) [OF this] show ?thesis
      by (rule sub_ok_kept) (use False same in \<open>auto simp: meant_for_def b_def [symmetric] b st_def\<close>)
  qed
  have attached_sub: "\<exists>sub. bk_subscriptions b s' = Some sub \<and> sb_key sub = k" if "attached b s' k" for s' k
  proof (cases "s' = s")
    case True
    with that fresh [of k] have "k = key" by (auto simp: attached_def b split: if_splits)
    with True show ?thesis by (simp add: b sub_def)
  next
    case False
    with that old(5) [of s' k] same show ?thesis by (simp add: b)
  qed
  have rest: "d \<in> set (fd_owed f) \<Longrightarrow> bk_subscriptions b (fst d) \<noteq> None" "bk_subscriptions b s' = None \<Longrightarrow> fd_read f s' = []" for d s'
    using old(6) [of d] old(7) [of s'] by (auto simp: b split: if_splits)
  show ?thesis using streams old(4) attached_sub rest subs unfolding feed_ok_def by (simp add: b_def [symmetric] b(1))
qed

lemma new_feed_ok: "feed_ok h (new_feed queue buffer)"
  by (auto simp: feed_ok_def new_feed_def new_broker_def stream_at_def attached_def default_buffer_def)

lemma feed_step_ok: "feed_step h f f' \<Longrightarrow> feed_ok h f \<Longrightarrow> feed_ok h f'"
  by (induction rule: feed_step.induct)
    (simp_all add: feed_ok_publishes feed_ok_delivers feed_ok_subscribes feed_ok_reads feed_ok_shuts feed_ok_detaches feed_ok_drops)

lemma feed_steps_ok: "(feed_step h)\<^sup>*\<^sup>* f f' \<Longrightarrow> feed_ok h f \<Longrightarrow> feed_ok h f'"
  by (induction rule: rtranclp_induct) (auto intro: feed_step_ok)

text \<open>C13: the live feed loses nothing in silence: however publishers, readers and closing subscribers interleave, what
  a subscriber of an execution has read, what waits in its queue and what is on its way to it are events of that
  execution and its tenant, redacted, none of them twice; and unless the subscription is marked as lagged or
  truncated they hold every event after the one it asked for, up to the newest.\<close>

theorem feed_complete:
  assumes "(feed_step h)\<^sup>*\<^sup>* (new_feed queue buffer) f" "bk_subscriptions (fd_broker f) s = Some sub"
    and "attached (fd_broker f) s (sb_key sub)" "\<not> sb_closed sub"
    and "got = fd_read f s @ sb_queue sub @ map snd (filter (\<lambda>d. fst d = s) (fd_owed f))"
  shows "(\<forall>(i, e) \<in> set got. (ev_tenant e, ev_execution e) = sb_key sub \<and> (\<exists>d. ev_data e = redact h d) \<and>
      i \<le> sm_last (stream_at (fd_broker f) (sb_key sub))) \<and>
    distinct (map fst got) \<and>
    (\<not> sb_lagged sub \<and> \<not> sb_truncated sub \<longrightarrow>
      (\<forall>i. fd_after f s < i \<and> i \<le> sm_last (stream_at (fd_broker f) (sb_key sub)) \<longrightarrow> i \<in> fst ` set got))"
proof -
  let ?last = "sm_last (stream_at (fd_broker f) (sb_key sub))"
  have sub: "sub_ok h f s sub" using feed_steps_ok [OF assms(1) new_feed_ok] assms(2) by (rule feed_okD(8))
  have got: "got = meant_for f s sub" by (simp add: assms(5) meant_for_def)
  have entries: "\<forall>x \<in> set got. entry_ok h (sb_key sub) x"
    and facts: "distinct (map fst got)" "fst ` set got \<subseteq> {fd_from f s<..?last}"
      "\<not> sb_lagged sub \<Longrightarrow> {fd_from f s<..?last} \<subseteq> fst ` set got" "sb_truncated sub \<longleftrightarrow> fd_after f s < fd_from f s"
    using sub assms(3,4) by (simp_all add: sub_ok_def got list_all_iff)
  have "\<forall>(i, e) \<in> set got. (ev_tenant e, ev_execution e) = sb_key sub \<and> (\<exists>d. ev_data e = redact h d) \<and> i \<le> ?last"
  proof (intro ballI, clarify)
    fix i e
    assume "(i, e) \<in> set got"
    then have "entry_ok h (sb_key sub) (i, e)" "i \<in> fst ` set got" using entries by force+
    with facts(2) show "(ev_tenant e, ev_execution e) = sb_key sub \<and> (\<exists>d. ev_data e = redact h d) \<and> i \<le> ?last"
      by (auto simp: entry_ok_def event_key_def)
  qed
  moreover have "\<forall>i. fd_after f s < i \<and> i \<le> ?last \<longrightarrow> i \<in> fst ` set got" if "\<not> sb_lagged sub" "\<not> sb_truncated sub"
    using facts(3) [OF that(1)] facts(4) that(2) by auto
  ultimately show ?thesis using facts(1) by blast
qed

definition example_event :: event where
  "example_event =
     \<lparr>ev_type = ''node.completed'', ev_tenant = ''t'', ev_execution = ''e1'', ev_workflow = ''wf'', ev_node = ''n1'',
      ev_status = StSucceeded, ev_sequence = 1, ev_data = RawEmpty\<rparr>"

definition watched_feed :: feed where
  "watched_feed =
     (new_feed 0 0)\<lparr>fd_broker := subscribe ''t'' ''e1'' 0 1 (fd_broker (new_feed 0 0)), fd_after := (\<lambda>_. 0)(1 := 0),
        fd_from := (\<lambda>_. 0)(1 := replay_start (fd_broker (new_feed 0 0)) (''t'', ''e1'') 0)\<rparr>"

definition announced_feed :: "host \<Rightarrow> feed" where
  "announced_feed h =
     watched_feed\<lparr>fd_broker := fst (publish_append h example_event (fd_broker watched_feed)),
        fd_owed := fd_owed watched_feed @ snd (publish_append h example_event (fd_broker watched_feed))\<rparr>"

lemma announced_feed_reached: "(feed_step h)\<^sup>*\<^sup>* (new_feed 0 0) (announced_feed h)"
proof -
  have "feed_step h (new_feed 0 0) watched_feed"
    using feed_step.subscribes [of "new_feed 0 0" 1 h "''t''" "''e1''" 0]
    by (simp add: watched_feed_def new_feed_def new_broker_def)
  moreover have "feed_step h watched_feed (announced_feed h)"
    unfolding announced_feed_def by (rule feed_step.publishes [where e = example_event]) simp
  ultimately show ?thesis by simp
qed

theorem feed_complete_example:
  "\<exists>sub. bk_subscriptions (fd_broker (announced_feed plain_host)) 1 = Some sub \<and>
     1 \<in> fst ` set (fd_read (announced_feed plain_host) 1 @ sb_queue sub @ map snd (filter (\<lambda>d. fst d = 1) (fd_owed (announced_feed plain_host))))"
proof -
  let ?sub = "\<lparr>sb_key = (''t'', ''e1''), sb_queue = [], sb_room = 64, sb_closed = False, sb_lagged = False, sb_truncated = False\<rparr>"
  have sub: "bk_subscriptions (fd_broker (announced_feed plain_host)) 1 = Some ?sub"
    by (simp add: announced_feed_def watched_feed_def publish_append_def Let_def example_event_def subscribe_def new_feed_def
        new_broker_def stream_at_def empty_stream_def default_subscriber_queue_def event_key_def)
  have last: "sm_last (stream_at (fd_broker (announced_feed plain_host)) (sb_key ?sub)) = 1"
    and here: "attached (fd_broker (announced_feed plain_host)) 1 (sb_key ?sub)"
    by (simp_all add: announced_feed_def watched_feed_def publish_append_def Let_def example_event_def subscribe_def new_feed_def
        new_broker_def stream_at_def empty_stream_def event_key_def attached_def)
  have "fd_after (announced_feed plain_host) 1 = 0" by (simp add: announced_feed_def watched_feed_def)
  then show ?thesis using feed_complete [OF announced_feed_reached sub here _ refl] last sub by auto
qed

end
