(* ===== verification/Rate_Limit.thy ===== *)
theory Rate_Limit
  imports Prelude
begin

text \<open>
  The allowance every tenant has on an ingress (\<open>internal/ratelimit\<close>): token buckets, one per tenant and surface,
  in memory (\<open>ratelimit.go\<close>) or in the database (\<open>store.go\<close>).

  Times are nanoseconds and the source's floating-point tokens are rationals. A transaction of the database
  store holds its row, so spends come one after the other; a failure of the database is left out.
\<close>

subsection \<open>A bucket\<close>

record bucket =
  tb_tokens :: rat
  tb_updated :: int

definition rate_second :: int where "rate_second = 10 ^ 9"
definition rate_minute :: int where "rate_minute = 60 * rate_second"

definition in_seconds :: "int \<Rightarrow> rat" where
  "in_seconds d = of_int d / of_int rate_second"

text \<open>How long a number of tokens takes, in whole seconds and at least one.\<close>

definition wait_for :: "rat \<Rightarrow> rat \<Rightarrow> int" where
  "wait_for tokens refill =
     (if tokens \<le> 0 \<or> refill \<le> 0 then rate_second
      else (let wait = \<lfloor>tokens / refill * of_int rate_second\<rfloor>;
                whole = (if wait mod rate_second \<noteq> 0 then wait + (rate_second - wait mod rate_second) else wait)
            in if whole < rate_second then rate_second else whole))"

definition refilled :: "rat \<Rightarrow> rat \<Rightarrow> int \<Rightarrow> bucket \<Rightarrow> rat" where
  "refilled capacity refill now held =
     (let elapsed = in_seconds (now - tb_updated held)
      in if 0 < elapsed
         then (if capacity < tb_tokens held + elapsed * refill then capacity else tb_tokens held + elapsed * refill)
         else tb_tokens held)"

text \<open>The answer: whether a token was spent, and otherwise how long to wait.\<close>

definition settle_bucket :: "rat \<Rightarrow> rat \<Rightarrow> int \<Rightarrow> bucket \<Rightarrow> (bool \<times> int) \<times> bucket" where
  "settle_bucket capacity refill now held =
     (let tokens = refilled capacity refill now held
      in if 1 \<le> tokens then ((True, 0), \<lparr>tb_tokens = tokens - 1, tb_updated = now\<rparr>)
         else ((False, wait_for (1 - tokens) refill), \<lparr>tb_tokens = tokens, tb_updated = now\<rparr>))"

subsection \<open>The store in memory\<close>

definition max_tracked_keys :: nat where "max_tracked_keys = 10000"

record memory_store =
  ms_buckets :: "(string \<times> bucket) list"
  ms_pruned :: "int option"

definition new_memory_store :: memory_store where
  "new_memory_store = \<lparr>ms_buckets = [], ms_pruned = None\<rparr>"

definition bucket_key :: "string \<Rightarrow> string \<Rightarrow> string" where
  "bucket_key tenant name = tenant @ CHR 0x00 # name"

text \<open>A store that was never pruned has pruned at Go's zero time, longer ago than any interval.\<close>

definition prune_buckets :: "int \<Rightarrow> memory_store \<Rightarrow> memory_store" where
  "prune_buckets now store =
     (if (case ms_pruned store of None \<Rightarrow> False | Some t \<Rightarrow> now - t < rate_minute) then store
      else store\<lparr>ms_pruned := Some now,
             ms_buckets := filter (\<lambda>kb. \<not> 2 * rate_minute < now - tb_updated (snd kb)) (ms_buckets store)\<rparr>)"

definition memory_spend ::
  "string \<Rightarrow> string \<Rightarrow> rat \<Rightarrow> rat \<Rightarrow> int \<Rightarrow> memory_store \<Rightarrow> (bool \<times> int) \<times> memory_store" where
  "memory_spend tenant name capacity refill now store =
     (let store = prune_buckets now store; key = bucket_key tenant name
      in case aget (ms_buckets store) key of
           Some held \<Rightarrow>
             (case settle_bucket capacity refill now held of
                (answer, held') \<Rightarrow> (answer, store\<lparr>ms_buckets := aput key held' (ms_buckets store)\<rparr>))
         | None \<Rightarrow>
             if max_tracked_keys \<le> length (ms_buckets store) then ((False, wait_for 1 refill), store)
             else (case settle_bucket capacity refill now \<lparr>tb_tokens = capacity, tb_updated = now\<rparr> of
                     (answer, held') \<Rightarrow> (answer, store\<lparr>ms_buckets := aput key held' (ms_buckets store)\<rparr>)))"

subsection \<open>The store in the database\<close>

type_synonym bucket_table = "string \<times> string \<rightharpoonup> bucket"

text \<open>The first spend of a bucket inserts it spent; without a tenant or a name the store refuses.\<close>

definition table_spend ::
  "string \<Rightarrow> string \<Rightarrow> rat \<Rightarrow> rat \<Rightarrow> int \<Rightarrow> bucket_table \<Rightarrow> ((bool \<times> int) \<times> bucket_table) option" where
  "table_spend tenant name capacity refill now rows =
     (if tenant = [] \<or> name = [] then None
      else case rows (tenant, name) of
             Some held \<Rightarrow>
               (case settle_bucket capacity refill now held of
                  (answer, held') \<Rightarrow> Some (answer, rows((tenant, name) \<mapsto> held')))
           | None \<Rightarrow> Some ((True, 0), rows((tenant, name) \<mapsto> \<lparr>tb_tokens = capacity - 1, tb_updated = now\<rparr>)))"

subsection \<open>The limiter\<close>

definition bucket_webhook :: string where "bucket_webhook = ''webhook''"
definition bucket_run :: string where "bucket_run = ''run''"
definition bucket_events :: string where "bucket_events = ''events''"

record limiter =
  lm_overrides :: "(string \<Rightarrow> string \<Rightarrow> int) option"
  lm_defaults :: "string \<Rightarrow> int"

definition allowance :: "limiter \<Rightarrow> string \<Rightarrow> string \<Rightarrow> int" where
  "allowance limiter tenant name =
     (case lm_overrides limiter of
        None \<Rightarrow> lm_defaults limiter name
      | Some override \<Rightarrow> if 0 < override tenant name then override tenant name else lm_defaults limiter name)"

text \<open>\<open>spend\<close> is the store's; a surface without an allowance is not limited.\<close>

definition allow ::
  "limiter \<Rightarrow> (string \<Rightarrow> string \<Rightarrow> rat \<Rightarrow> rat \<Rightarrow> int \<Rightarrow> 's \<Rightarrow> (bool \<times> int) \<times> 's) \<Rightarrow> string \<Rightarrow> string \<Rightarrow> int \<Rightarrow> 's
     \<Rightarrow> (bool \<times> int) \<times> 's" where
  "allow limiter spend tenant name now store =
     (let per_minute = allowance limiter tenant name
      in if per_minute \<le> 0 then ((True, 0), store)
         else spend tenant name (of_int per_minute) (of_int per_minute / in_seconds rate_minute) now store)"

end
