(* ===== verification/Rate_Properties.thy ===== *)
theory Rate_Properties
  imports Rate_Limit
begin

text \<open>
  What both stores of allowances promise, as the locale \<open>allowance_store\<close> over the tokens a bucket holds at a time;
  the bound on what is granted, and that the two stores answer alike.
\<close>

subsection \<open>Refilling\<close>

lemma refilled_min:
  assumes "tb_updated held \<le> now" "tb_tokens held \<le> capacity"
  shows "refilled capacity refill now held = min capacity (tb_tokens held + in_seconds (now - tb_updated held) * refill)"
  using assms by (auto simp: refilled_def in_seconds_def rate_second_def Let_def min_def)

lemma in_seconds_add: "in_seconds (a + b) = in_seconds a + in_seconds b"
  by (simp add: in_seconds_def add_divide_distrib)

lemma in_seconds_nonneg [simp]: "0 \<le> in_seconds d \<longleftrightarrow> 0 \<le> d"
  by (simp add: in_seconds_def rate_second_def zero_le_divide_iff)

lemma in_minute [simp]: "in_seconds rate_minute = 60"
  by (simp add: in_seconds_def rate_minute_def rate_second_def)

lemma min_more: "0 \<le> d \<Longrightarrow> min c (x + (b + d)) = min c (min c (x + b) + d)" for c :: rat
  by (auto simp: min_def)

lemma refilled_later:
  assumes "tb_updated held \<le> t" "t \<le> t'" "tb_tokens held \<le> capacity" "0 \<le> refill"
  shows "refilled capacity refill t' held = min capacity (refilled capacity refill t held + in_seconds (t' - t) * refill)"
proof -
  have "in_seconds (t' - tb_updated held) = in_seconds (t - tb_updated held) + in_seconds (t' - t)"
    using in_seconds_add [of "t - tb_updated held" "t' - t"] by simp
  moreover have "0 \<le> in_seconds (t' - t) * refill" using assms by simp
  ultimately show ?thesis
    using assms by (simp add: refilled_min distrib_right min_more)
qed

lemma wait_for_rounds_up:
  assumes "0 < x" "0 < r"
  shows "\<lfloor>x / r * of_int rate_second\<rfloor> \<le> wait_for x r" "0 \<le> wait_for x r"
proof -
  define w where "w = \<lfloor>x / r * of_int rate_second\<rfloor>"
  have s: "0 < rate_second" by (simp add: rate_second_def)
  define m where "m = w mod rate_second"
  have "m < rate_second" "0 \<le> m" using s by (simp_all add: m_def)
  moreover have "wait_for x r = (let whole = (if m \<noteq> 0 then w + (rate_second - m) else w)
      in if whole < rate_second then rate_second else whole)"
    using assms unfolding wait_for_def w_def [symmetric] m_def by simp
  ultimately show "\<lfloor>x / r * of_int rate_second\<rfloor> \<le> wait_for x r" "0 \<le> wait_for x r"
    using s unfolding w_def [symmetric] Let_def by (auto split: if_splits)
qed

subsection \<open>What a store promises\<close>

locale allowance_store =
  fixes spend :: "'k \<Rightarrow> int \<Rightarrow> 's \<Rightarrow> (bool \<times> int) \<times> 's"
    and level :: "'s \<Rightarrow> 'k \<Rightarrow> int \<Rightarrow> rat"
    and valid :: "int \<Rightarrow> 's \<Rightarrow> bool"
    and keys :: "'k set"
    and capacity :: "'k \<Rightarrow> rat"
  assumes capacity_some: "k \<in> keys \<Longrightarrow> 1 \<le> capacity k"
    and valid_later: "valid t s \<Longrightarrow> t \<le> t' \<Longrightarrow> valid t' s"
    and level_bounds: "valid t s \<Longrightarrow> k \<in> keys \<Longrightarrow> 0 \<le> level s k t \<and> level s k t \<le> capacity k"
    and level_later: "valid t s \<Longrightarrow> k \<in> keys \<Longrightarrow> t \<le> t' \<Longrightarrow>
      level s k t' = min (capacity k) (level s k t + in_seconds (t' - t) * (capacity k / 60))"
    and spend_valid: "valid t s \<Longrightarrow> k \<in> keys \<Longrightarrow> valid t (snd (spend k t s))"
    and spend_answer: "valid t s \<Longrightarrow> k \<in> keys \<Longrightarrow> fst (spend k t s) =
      (if 1 \<le> level s k t then (True, 0) else (False, wait_for (1 - level s k t) (capacity k / 60)))"
    and spend_level: "valid t s \<Longrightarrow> k \<in> keys \<Longrightarrow> k' \<in> keys \<Longrightarrow> level (snd (spend k t s)) k' t =
      (if k' = k \<and> 1 \<le> level s k t then level s k t - 1 else level s k' t)"

text \<open>Requests are a key and a time each, in the order of their times.\<close>

fun serve :: "('k \<Rightarrow> int \<Rightarrow> 's \<Rightarrow> (bool \<times> int) \<times> 's) \<Rightarrow> ('k \<times> int) list \<Rightarrow> 's \<Rightarrow> (bool \<times> int) list \<times> 's" where
  "serve spend [] s = ([], s)"
| "serve spend ((k, t) # rs) s =
     (case spend k t s of (answer, s') \<Rightarrow> (case serve spend rs s' of (answers, s'') \<Rightarrow> (answer # answers, s'')))"

definition granted :: "'k \<Rightarrow> ('k \<times> int) list \<Rightarrow> (bool \<times> int) list \<Rightarrow> nat" where
  "granted k rs answers = length (filter (\<lambda>(r, answer). fst r = k \<and> fst answer) (zip rs answers))"

context allowance_store
begin

text \<open>What was granted and what is left never exceed what there was and what time brought.\<close>

lemma granted_level:
  assumes "valid t s" "set (map fst rs) \<subseteq> keys" "sorted (t # map snd rs @ [t'])" "k \<in> keys"
  shows "of_nat (granted k rs (fst (serve spend rs s))) + level (snd (serve spend rs s)) k t'
    \<le> level s k t + in_seconds (t' - t) * (capacity k / 60)"
  using assms
proof (induction rs arbitrary: t s)
  case Nil
  then show ?case using level_later [of t s k t'] by (simp add: granted_def)
next
  case (Cons r rs)
  obtain k0 t0 where r: "r = (k0, t0)" by (cases r)
  from Cons.prems have k0: "k0 \<in> keys" and t0: "t \<le> t0" "sorted (t0 # map snd rs @ [t'])" by (auto simp: r)
  have valid0: "valid t0 s" using Cons.prems(1) t0(1) by (rule valid_later)
  obtain answer s' where step: "spend k0 t0 s = (answer, s')" by (cases "spend k0 t0 s")
  obtain answers s'' where rest: "serve spend rs s' = (answers, s'')" by (cases "serve spend rs s'")
  have valid': "valid t0 s'" using spend_valid [OF valid0 k0] step by simp
  have ih: "of_nat (granted k rs answers) + level s'' k t' \<le> level s' k t0 + in_seconds (t' - t0) * (capacity k / 60)"
    using Cons.IH [OF valid' _ t0(2) Cons.prems(4)] Cons.prems(2) rest by (simp add: r)
  have count: "granted k (r # rs) (answer # answers) = (if k0 = k \<and> fst answer then 1 else 0) + granted k rs answers"
    by (simp add: granted_def r)
  have spent: "level s' k t0 + (if k0 = k \<and> fst answer then 1 else 0) = level s k t0"
    using spend_level [OF valid0 k0 Cons.prems(4)] spend_answer [OF valid0 k0] step by auto
  have "level s k t0 \<le> level s k t + in_seconds (t0 - t) * (capacity k / 60)"
    using level_later [OF Cons.prems(1,4) t0(1)] by simp
  moreover have "in_seconds (t' - t) * (capacity k / 60) = in_seconds (t0 - t) * (capacity k / 60) + in_seconds (t' - t0) * (capacity k / 60)"
    using in_seconds_add [of "t0 - t" "t' - t0"] by (simp only: distrib_right [symmetric]) simp
  moreover have "of_nat (granted k (r # rs) (answer # answers)) = (if k0 = k \<and> fst answer then 1 else 0) + (of_nat (granted k rs answers) :: rat)"
    by (simp add: count)
  ultimately have "of_nat (granted k (r # rs) (answer # answers)) + level s'' k t' \<le> level s k t + in_seconds (t' - t) * (capacity k / 60)"
    using ih spent by linarith
  then show ?case by (simp add: r step rest)
qed

lemma serve_valid:
  "valid t s \<Longrightarrow> set (map fst rs) \<subseteq> keys \<Longrightarrow> sorted (t # map snd rs @ [t']) \<Longrightarrow> valid t' (snd (serve spend rs s))"
proof (induction rs arbitrary: t s)
  case (Cons r rs)
  obtain k0 t0 where r: "r = (k0, t0)" by (cases r)
  have "valid t0 (snd (spend k0 t0 s))"
    using Cons.prems by (auto simp: r intro: spend_valid valid_later)
  with Cons.IH [OF this] Cons.prems show ?case by (auto simp: r split: prod.splits)
qed (auto intro: valid_later)

lemma granted_bound:
  assumes "valid t s" "set (map fst rs) \<subseteq> keys" "sorted (t # map snd rs @ [t'])" "k \<in> keys"
  shows "of_nat (granted k rs (fst (serve spend rs s))) \<le> capacity k + in_seconds (t' - t) * (capacity k / 60)"
  using granted_level [OF assms] level_bounds [OF assms(1,4)] level_bounds [OF serve_valid [OF assms(1-3)] assms(4)] by linarith

text \<open>The time a refused caller is told to wait is enough, up to the nanosecond that rounding loses.\<close>

lemma wait_enough:
  assumes "valid t s" "k \<in> keys" "spend k t s = ((False, wait), s')" "t + wait < t'"
  shows "fst (fst (spend k t' s'))"
proof -
  let ?x = "level s k t" and ?r = "capacity k / 60"
  have low: "?x < 1" "wait = wait_for (1 - ?x) ?r" using spend_answer [OF assms(1,2)] assms(3) by (auto split: if_splits)
  have r: "0 < ?r" using capacity_some [OF assms(2)] by simp
  have valid': "valid t s'" "level s' k t = ?x"
    using spend_valid [OF assms(1,2)] spend_level [OF assms(1,2,2)] assms(3) low(1) by simp_all
  have "\<lfloor>(1 - ?x) / ?r * of_int rate_second\<rfloor> \<le> wait"
    unfolding low(2) by (rule wait_for_rounds_up) (use low(1) r in simp_all)
  then have "(1 - ?x) / ?r * of_int rate_second < of_int wait + 1"
    by (simp add: floor_le_iff)
  also have "\<dots> \<le> of_int (t' - t)"
    using assms(4) by linarith
  finally have "1 - ?x \<le> in_seconds (t' - t) * ?r"
    using r by (simp add: in_seconds_def rate_second_def field_simps)
  moreover have "0 \<le> wait" unfolding low(2) by (rule wait_for_rounds_up) (use low(1) r in simp_all)
  then have later: "t \<le> t'" using assms(4) by simp
  ultimately have "1 \<le> level s' k t'"
    using level_later [OF valid'(1) assms(2) later] capacity_some [OF assms(2)] valid'(2) by simp
  then show ?thesis using spend_answer [OF valid_later [OF valid'(1) later] assms(2)] by simp
qed

end

subsection \<open>Both stores promise it\<close>

text \<open>The buckets that a limiter is asked for: of named tenants and surfaces it limits, no more than are tracked.\<close>

type_synonym bucket_id = "string \<times> string"

definition asked_for :: "limiter \<Rightarrow> bucket_id set \<Rightarrow> bool" where
  "asked_for limiter ids \<longleftrightarrow>
     finite ids \<and> card ids \<le> max_tracked_keys \<and>
     (\<forall>(tenant, name) \<in> ids. tenant \<noteq> [] \<and> name \<noteq> [] \<and> CHR 0x00 \<notin> set name \<and> 0 < allowance limiter tenant name)"

definition limited :: "limiter \<Rightarrow> bucket_id set \<Rightarrow> bucket_id set" where
  "limited limiter ids = (if asked_for limiter ids then ids else {})"

definition per_minute :: "limiter \<Rightarrow> bucket_id \<Rightarrow> rat" where
  "per_minute limiter k = of_int (allowance limiter (fst k) (snd k))"

definition bucket_level :: "rat \<Rightarrow> int \<Rightarrow> bucket option \<Rightarrow> rat" where
  "bucket_level capacity t held = (case held of None \<Rightarrow> capacity | Some b \<Rightarrow> refilled capacity (capacity / 60) t b)"

definition bucket_ok :: "rat \<Rightarrow> int \<Rightarrow> bucket \<Rightarrow> bool" where
  "bucket_ok capacity t b \<longleftrightarrow> tb_updated b \<le> t \<and> 0 \<le> tb_tokens b \<and> tb_tokens b \<le> capacity"

definition ask_memory :: "limiter \<Rightarrow> bucket_id \<Rightarrow> int \<Rightarrow> memory_store \<Rightarrow> (bool \<times> int) \<times> memory_store" where
  "ask_memory limiter k = allow limiter memory_spend (fst k) (snd k)"

definition ask_table :: "limiter \<Rightarrow> bucket_id \<Rightarrow> int \<Rightarrow> bucket_table \<Rightarrow> (bool \<times> int) \<times> bucket_table" where
  "ask_table limiter k =
     allow limiter (\<lambda>tenant name capacity refill now rows.
       case table_spend tenant name capacity refill now rows of Some res \<Rightarrow> res | None \<Rightarrow> ((False, 0), rows)) (fst k) (snd k)"

definition memory_level :: "limiter \<Rightarrow> memory_store \<Rightarrow> bucket_id \<Rightarrow> int \<Rightarrow> rat" where
  "memory_level limiter store k t = bucket_level (per_minute limiter k) t (aget (ms_buckets store) (bucket_key (fst k) (snd k)))"

definition table_level :: "limiter \<Rightarrow> bucket_table \<Rightarrow> bucket_id \<Rightarrow> int \<Rightarrow> rat" where
  "table_level limiter rows k t = bucket_level (per_minute limiter k) t (rows k)"

definition memory_valid :: "limiter \<Rightarrow> bucket_id set \<Rightarrow> int \<Rightarrow> memory_store \<Rightarrow> bool" where
  "memory_valid limiter ids t store \<longleftrightarrow>
     distinct (map fst (ms_buckets store)) \<and>
     (\<forall>(key, b) \<in> set (ms_buckets store). \<exists>k \<in> ids. key = bucket_key (fst k) (snd k) \<and> bucket_ok (per_minute limiter k) t b)"

definition table_valid :: "limiter \<Rightarrow> bucket_id set \<Rightarrow> int \<Rightarrow> bucket_table \<Rightarrow> bool" where
  "table_valid limiter ids t rows \<longleftrightarrow> (\<forall>k \<in> ids. \<forall>b. rows k = Some b \<longrightarrow> bucket_ok (per_minute limiter k) t b)"

lemma limited_facts:
  assumes "k \<in> limited limiter ids"
  shows "1 \<le> per_minute limiter k" "0 < allowance limiter (fst k) (snd k)" "CHR 0x00 \<notin> set (snd k)" "fst k \<noteq> []" "snd k \<noteq> []"
    "finite (limited limiter ids)" "card (limited limiter ids) \<le> max_tracked_keys"
proof -
  have asked: "asked_for limiter ids" "k \<in> ids" using assms by (auto simp: limited_def split: if_splits)
  then show "0 < allowance limiter (fst k) (snd k)" "CHR 0x00 \<notin> set (snd k)" "fst k \<noteq> []" "snd k \<noteq> []"
    "finite (limited limiter ids)" "card (limited limiter ids) \<le> max_tracked_keys"
    by (auto simp: asked_for_def limited_def)
  then show "1 \<le> per_minute limiter k" by (simp add: per_minute_def)
qed

lemma bucket_key_eq:
  assumes "bucket_key t n = bucket_key t' n'" "CHR 0x00 \<notin> set n" "CHR 0x00 \<notin> set n'"
  shows "t = t' \<and> n = n'"
proof -
  have split: "takeWhile (\<lambda>c. c \<noteq> CHR 0x00) (rev (bucket_key t n)) = rev n" if "CHR 0x00 \<notin> set n" for t n
    using that by (simp add: bucket_key_def takeWhile_append)
  then have "rev n = rev n'" using assms by metis
  with assms(1) show ?thesis by (simp add: bucket_key_def)
qed

lemma level_ok:
  assumes "1 \<le> capacity" "\<And>b. held = Some b \<Longrightarrow> bucket_ok capacity t b"
  shows "0 \<le> bucket_level capacity t held \<and> bucket_level capacity t held \<le> capacity"
proof (cases held)
  case None
  with assms(1) show ?thesis by (simp add: bucket_level_def)
next
  case (Some b)
  with assms show ?thesis
    using refilled_min [of b t capacity "capacity / 60"] by (auto simp: bucket_level_def bucket_ok_def)
qed

lemma level_later_ok:
  assumes "1 \<le> capacity" "\<And>b. held = Some b \<Longrightarrow> bucket_ok capacity t b" "t \<le> t'"
  shows "bucket_level capacity t' held = min capacity (bucket_level capacity t held + in_seconds (t' - t) * (capacity / 60))"
proof (cases held)
  case None
  have "0 \<le> in_seconds (t' - t) * (capacity / 60)" using assms(1,3) by simp
  with None show ?thesis by (simp add: bucket_level_def)
next
  case (Some b)
  with assms show ?thesis
    using refilled_later [of b t t' capacity "capacity / 60"] by (auto simp: bucket_level_def bucket_ok_def)
qed

lemma settled_bucket:
  assumes "1 \<le> capacity" "bucket_ok capacity t b"
  shows "fst (settle_bucket capacity (capacity / 60) t b) =
      (if 1 \<le> bucket_level capacity t (Some b) then (True, 0)
       else (False, wait_for (1 - bucket_level capacity t (Some b)) (capacity / 60)))"
    "bucket_ok capacity t (snd (settle_bucket capacity (capacity / 60) t b))"
    "bucket_level capacity t (Some (snd (settle_bucket capacity (capacity / 60) t b))) =
      (if 1 \<le> bucket_level capacity t (Some b) then bucket_level capacity t (Some b) - 1 else bucket_level capacity t (Some b))"
proof -
  note bounds = level_ok [of capacity "Some b" t, OF assms(1)]
  from assms bounds show "bucket_ok capacity t (snd (settle_bucket capacity (capacity / 60) t b))"
    by (auto simp: settle_bucket_def bucket_level_def bucket_ok_def Let_def)
  show "fst (settle_bucket capacity (capacity / 60) t b) =
      (if 1 \<le> bucket_level capacity t (Some b) then (True, 0)
       else (False, wait_for (1 - bucket_level capacity t (Some b)) (capacity / 60)))"
    by (simp add: settle_bucket_def bucket_level_def Let_def)
  show "bucket_level capacity t (Some (snd (settle_bucket capacity (capacity / 60) t b))) =
      (if 1 \<le> bucket_level capacity t (Some b) then bucket_level capacity t (Some b) - 1 else bucket_level capacity t (Some b))"
    by (simp add: settle_bucket_def bucket_level_def Let_def refilled_def in_seconds_def)
qed

lemma per_minute_refill: "of_int (allowance limiter tenant name) / in_seconds rate_minute = per_minute limiter (tenant, name) / 60"
  by (simp add: per_minute_def)

text \<open>A bucket that is read or new, and what the table then holds.\<close>

lemma ask_table_settles:
  assumes "k \<in> limited limiter ids" "table_valid limiter (limited limiter ids) t rows"
  shows "\<exists>held'. ask_table limiter k t rows =
      ((if 1 \<le> table_level limiter rows k t then (True, 0)
        else (False, wait_for (1 - table_level limiter rows k t) (per_minute limiter k / 60))), rows(k \<mapsto> held')) \<and>
    bucket_ok (per_minute limiter k) t held' \<and>
    bucket_level (per_minute limiter k) t (Some held') =
      (if 1 \<le> table_level limiter rows k t then table_level limiter rows k t - 1 else table_level limiter rows k t)"
proof (cases k)
  case (Pair tenant name)
  note facts = limited_facts [OF assms(1)]
  have asked: "ask_table limiter k t rows = (case table_spend tenant name (per_minute limiter k) (per_minute limiter k / 60) t rows of
      Some res \<Rightarrow> res | None \<Rightarrow> ((False, 0), rows))"
    using facts(2) by (simp add: ask_table_def allow_def Let_def Pair per_minute_refill) (simp add: per_minute_def)
  show ?thesis
  proof (cases "rows k")
    case None
    have "bucket_ok (per_minute limiter k) t \<lparr>tb_tokens = per_minute limiter k - 1, tb_updated = t\<rparr>"
      using facts(1) by (simp add: bucket_ok_def)
    moreover have "bucket_level (per_minute limiter k) t (Some \<lparr>tb_tokens = per_minute limiter k - 1, tb_updated = t\<rparr>) = per_minute limiter k - 1"
      by (simp add: bucket_level_def refilled_def in_seconds_def)
    moreover have "table_level limiter rows k t = per_minute limiter k" by (simp add: table_level_def bucket_level_def None)
    moreover have "ask_table limiter k t rows = ((True, 0), rows(k \<mapsto> \<lparr>tb_tokens = per_minute limiter k - 1, tb_updated = t\<rparr>))"
      unfolding asked using None facts(4,5) by (simp add: table_spend_def Pair)
    ultimately show ?thesis using facts(1) by auto
  next
    case (Some b)
    then have "bucket_ok (per_minute limiter k) t b" using assms by (auto simp: table_valid_def)
    note settled = settled_bucket [OF facts(1) this]
    obtain answer held' where b: "settle_bucket (per_minute limiter k) (per_minute limiter k / 60) t b = (answer, held')"
      by (cases "settle_bucket (per_minute limiter k) (per_minute limiter k / 60) t b")
    have "ask_table limiter k t rows = (answer, rows(k \<mapsto> held'))"
      unfolding asked using Some facts(4,5) b by (simp add: table_spend_def Pair)
    moreover have "table_level limiter rows k t = bucket_level (per_minute limiter k) t (Some b)"
      by (simp add: table_level_def Some)
    ultimately show ?thesis using settled unfolding b fst_conv snd_conv by auto
  qed
qed

interpretation table: allowance_store "ask_table limiter" "table_level limiter"
  "table_valid limiter (limited limiter ids)" "limited limiter ids" "per_minute limiter" for limiter ids
proof unfold_locales
  fix k k' t t' rows
  show "k \<in> limited limiter ids \<Longrightarrow> 1 \<le> per_minute limiter k" by (rule limited_facts)
  show "table_valid limiter (limited limiter ids) t rows \<Longrightarrow> t \<le> t' \<Longrightarrow> table_valid limiter (limited limiter ids) t' rows"
    by (fastforce simp: table_valid_def bucket_ok_def)
  assume valid: "table_valid limiter (limited limiter ids) t rows" and k: "k \<in> limited limiter ids"
  note one = limited_facts(1) [OF k]
  have ok: "rows k = Some b \<Longrightarrow> bucket_ok (per_minute limiter k) t b" for b using valid k by (auto simp: table_valid_def)
  show "0 \<le> table_level limiter rows k t \<and> table_level limiter rows k t \<le> per_minute limiter k"
    unfolding table_level_def by (rule level_ok [OF one ok])
  show "table_level limiter rows k t' = min (per_minute limiter k) (table_level limiter rows k t + in_seconds (t' - t) * (per_minute limiter k / 60))"
    if "t \<le> t'"
    unfolding table_level_def by (rule level_later_ok [OF one ok that])
  obtain held' where asked: "ask_table limiter k t rows =
      ((if 1 \<le> table_level limiter rows k t then (True, 0)
        else (False, wait_for (1 - table_level limiter rows k t) (per_minute limiter k / 60))), rows(k \<mapsto> held'))"
    "bucket_ok (per_minute limiter k) t held'"
    "bucket_level (per_minute limiter k) t (Some held') =
      (if 1 \<le> table_level limiter rows k t then table_level limiter rows k t - 1 else table_level limiter rows k t)"
    using ask_table_settles [OF k valid] by blast
  show "table_valid limiter (limited limiter ids) t (snd (ask_table limiter k t rows))"
    using valid asked(2) by (auto simp: asked(1) table_valid_def)
  show "fst (ask_table limiter k t rows) = (if 1 \<le> table_level limiter rows k t then (True, 0)
      else (False, wait_for (1 - table_level limiter rows k t) (per_minute limiter k / 60)))"
    by (simp add: asked(1))
  show "table_level limiter (snd (ask_table limiter k t rows)) k' t =
      (if k' = k \<and> 1 \<le> table_level limiter rows k t then table_level limiter rows k t - 1 else table_level limiter rows k' t)"
    using asked(3) unfolding asked(1) by (simp add: table_level_def)
qed

text \<open>In memory, pruning loses nothing: what has been idle for two minutes is full.\<close>

lemma aget_filter: "distinct (map fst xs) \<Longrightarrow>
  aget (filter (\<lambda>kb. P (snd kb)) xs) key = (case aget xs key of Some b \<Rightarrow> if P b then Some b else None | None \<Rightarrow> None)"
  by (induction xs) (auto simp: aget_def map_of_eq_None_iff [symmetric] dest: map_of_SomeD split: option.splits)


lemma memory_bucket_ok:
  assumes "k \<in> limited limiter ids" "memory_valid limiter (limited limiter ids) t store"
    "aget (ms_buckets store) (bucket_key (fst k) (snd k)) = Some b"
  shows "bucket_ok (per_minute limiter k) t b"
proof -
  have "(bucket_key (fst k) (snd k), b) \<in> set (ms_buckets store)" using assms(3) by (rule aget_in)
  then obtain k' where k': "k' \<in> limited limiter ids" "bucket_key (fst k) (snd k) = bucket_key (fst k') (snd k')"
      "bucket_ok (per_minute limiter k') t b"
    using assms(2) by (auto simp: memory_valid_def)
  moreover have "k = k'"
    using bucket_key_eq [OF k'(2) limited_facts(3) [OF assms(1)] limited_facts(3) [OF k'(1)]] by (simp add: prod_eq_iff)
  ultimately show ?thesis by simp
qed

lemma aput_in: "(k', v') \<in> set (aput k v m) \<Longrightarrow> k' = k \<and> v' = v \<or> (k', v') \<in> set m"
  by (induction k v m rule: aput.induct) (auto split: if_splits)

lemma idle_is_full:
  assumes "1 \<le> capacity" "bucket_ok capacity t b" "2 * rate_minute < t - tb_updated b"
  shows "bucket_level capacity t (Some b) = capacity"
proof -
  have "in_seconds (2 * rate_minute) \<le> in_seconds (t - tb_updated b)"
    using assms(3) in_seconds_add [of "2 * rate_minute" "t - tb_updated b - 2 * rate_minute"]
      in_seconds_nonneg [of "t - tb_updated b - 2 * rate_minute"] by simp
  moreover have "in_seconds (2 * rate_minute) = 120" by (simp add: in_seconds_def rate_minute_def rate_second_def)
  ultimately have "120 * (capacity / 60) \<le> in_seconds (t - tb_updated b) * (capacity / 60)"
    using assms(1) by (intro mult_right_mono) simp_all
  then have "capacity \<le> tb_tokens b + in_seconds (t - tb_updated b) * (capacity / 60)"
    using assms(1,2) unfolding bucket_ok_def by linarith
  with assms show ?thesis by (simp add: bucket_level_def bucket_ok_def refilled_min min_absorb1)
qed

lemma pruned_store:
  assumes "k \<in> limited limiter ids" "memory_valid limiter (limited limiter ids) t store"
  shows "memory_valid limiter (limited limiter ids) t (prune_buckets t store)"
    "memory_level limiter (prune_buckets t store) k t = memory_level limiter store k t"
proof -
  have keys: "distinct (map fst (ms_buckets store))" using assms(2) by (simp add: memory_valid_def)
  then show "memory_valid limiter (limited limiter ids) t (prune_buckets t store)"
    using assms(2) by (auto simp: memory_valid_def prune_buckets_def distinct_map_filter)
  let ?held = "aget (ms_buckets store) (bucket_key (fst k) (snd k))"
  have pruned: "aget (ms_buckets (prune_buckets t store)) (bucket_key (fst k) (snd k)) \<in>
      {?held, case ?held of Some b \<Rightarrow> if \<not> 2 * rate_minute < t - tb_updated b then Some b else None | None \<Rightarrow> None}"
    using aget_filter [OF keys, of "\<lambda>b. \<not> 2 * rate_minute < t - tb_updated b" "bucket_key (fst k) (snd k)"]
    by (simp add: prune_buckets_def)
  show "memory_level limiter (prune_buckets t store) k t = memory_level limiter store k t"
  proof (cases ?held)
    case None
    with pruned show ?thesis by (simp add: memory_level_def)
  next
    case (Some b)
    have "bucket_ok (per_minute limiter k) t b" by (rule memory_bucket_ok [OF assms Some])
    note full = idle_is_full [OF limited_facts(1) [OF assms(1)] this]
    have none: "bucket_level (per_minute limiter k) t None = per_minute limiter k" by (simp add: bucket_level_def)
    show ?thesis using pruned full none unfolding memory_level_def Some by (auto split: if_splits)
  qed
qed

lemma room_for_asked:
  assumes "k \<in> limited limiter ids" "memory_valid limiter (limited limiter ids) t store"
    "aget (ms_buckets store) (bucket_key (fst k) (snd k)) = None"
  shows "length (ms_buckets store) < max_tracked_keys"
proof -
  note facts = limited_facts [OF assms(1)]
  let ?key = "\<lambda>k. bucket_key (fst k) (snd k)"
  have "fst ` set (ms_buckets store) \<subseteq> ?key ` limited limiter ids - {?key k}"
  proof
    fix key
    assume key: "key \<in> fst ` set (ms_buckets store)"
    then have "key \<noteq> ?key k" using assms(3) by (metis aget_None_iff)
    moreover from key obtain b where "(key, b) \<in> set (ms_buckets store)" by auto
    then have "key \<in> ?key ` limited limiter ids" using assms(2) by (auto simp: memory_valid_def)
    ultimately show "key \<in> ?key ` limited limiter ids - {?key k}" by simp
  qed
  also have "\<dots> \<subset> ?key ` limited limiter ids" using assms(1) by blast
  finally have "card (fst ` set (ms_buckets store)) < card (?key ` limited limiter ids)"
    using facts(6) by (intro psubset_card_mono) simp_all
  also have "\<dots> \<le> max_tracked_keys"
    using card_image_le [OF facts(6), of ?key] facts(7) by simp
  finally show ?thesis
    using assms(2) distinct_card [of "map fst (ms_buckets store)"] by (simp add: memory_valid_def)
qed


lemma ask_memory_settles:
  assumes "k \<in> limited limiter ids" "memory_valid limiter (limited limiter ids) t store"
  shows "\<exists>held'. ask_memory limiter k t store =
      ((if 1 \<le> memory_level limiter store k t then (True, 0)
        else (False, wait_for (1 - memory_level limiter store k t) (per_minute limiter k / 60))),
       (prune_buckets t store)\<lparr>ms_buckets := aput (bucket_key (fst k) (snd k)) held' (ms_buckets (prune_buckets t store))\<rparr>) \<and>
    bucket_ok (per_minute limiter k) t held' \<and>
    bucket_level (per_minute limiter k) t (Some held') =
      (if 1 \<le> memory_level limiter store k t then memory_level limiter store k t - 1 else memory_level limiter store k t)"
proof -
  note facts = limited_facts [OF assms(1)]
  note pruned = pruned_store [OF assms]
  let ?store = "prune_buckets t store" and ?key = "bucket_key (fst k) (snd k)"
  have asked: "ask_memory limiter k t store = memory_spend (fst k) (snd k) (per_minute limiter k) (per_minute limiter k / 60) t store"
    using facts(2) by (simp add: ask_memory_def allow_def Let_def per_minute_def)
  define b where "b = (case aget (ms_buckets ?store) ?key of Some b \<Rightarrow> b | None \<Rightarrow> \<lparr>tb_tokens = per_minute limiter k, tb_updated = t\<rparr>)"
  have ok: "bucket_ok (per_minute limiter k) t b"
    using memory_bucket_ok [OF assms(1) pruned(1)] facts(1) by (auto simp: b_def bucket_ok_def split: option.split)
  have level: "bucket_level (per_minute limiter k) t (Some b) = memory_level limiter store k t"
    unfolding pruned(2) [symmetric]
    by (auto simp: memory_level_def b_def bucket_level_def refilled_def in_seconds_def split: option.split)
  obtain answer held' where settled: "settle_bucket (per_minute limiter k) (per_minute limiter k / 60) t b = (answer, held')"
    by (cases "settle_bucket (per_minute limiter k) (per_minute limiter k / 60) t b")
  have "ask_memory limiter k t store = (answer, ?store\<lparr>ms_buckets := aput ?key held' (ms_buckets ?store)\<rparr>)"
  proof (cases "aget (ms_buckets ?store) ?key")
    case None
    then have "length (ms_buckets ?store) < max_tracked_keys" by (rule room_for_asked [OF assms(1) pruned(1)])
    with None settled show ?thesis by (simp add: asked memory_spend_def b_def Let_def)
  next
    case (Some held)
    with settled show ?thesis by (simp add: asked memory_spend_def b_def Let_def)
  qed
  then show ?thesis using settled_bucket [OF facts(1) ok] unfolding settled level fst_conv snd_conv by auto
qed

interpretation memory: allowance_store "ask_memory limiter" "memory_level limiter"
  "memory_valid limiter (limited limiter ids)" "limited limiter ids" "per_minute limiter" for limiter ids
proof unfold_locales
  fix k k' t t' store
  let ?key = "\<lambda>k. bucket_key (fst k) (snd k)"
  show "k \<in> limited limiter ids \<Longrightarrow> 1 \<le> per_minute limiter k" by (rule limited_facts)
  show "memory_valid limiter (limited limiter ids) t store \<Longrightarrow> t \<le> t' \<Longrightarrow> memory_valid limiter (limited limiter ids) t' store"
    by (fastforce simp: memory_valid_def bucket_ok_def)
  assume valid: "memory_valid limiter (limited limiter ids) t store" and k: "k \<in> limited limiter ids"
  note one = limited_facts(1) [OF k] and ok = memory_bucket_ok [OF k valid]
  show "0 \<le> memory_level limiter store k t \<and> memory_level limiter store k t \<le> per_minute limiter k"
    unfolding memory_level_def by (rule level_ok [OF one ok])
  show "memory_level limiter store k t' = min (per_minute limiter k) (memory_level limiter store k t + in_seconds (t' - t) * (per_minute limiter k / 60))"
    if "t \<le> t'"
    unfolding memory_level_def by (rule level_later_ok [OF one ok that])
  obtain held' where asked: "ask_memory limiter k t store =
      ((if 1 \<le> memory_level limiter store k t then (True, 0)
        else (False, wait_for (1 - memory_level limiter store k t) (per_minute limiter k / 60))),
       (prune_buckets t store)\<lparr>ms_buckets := aput (?key k) held' (ms_buckets (prune_buckets t store))\<rparr>)"
    "bucket_ok (per_minute limiter k) t held'"
    "bucket_level (per_minute limiter k) t (Some held') =
      (if 1 \<le> memory_level limiter store k t then memory_level limiter store k t - 1 else memory_level limiter store k t)"
    using ask_memory_settles [OF k valid] by blast
  show "memory_valid limiter (limited limiter ids) t (snd (ask_memory limiter k t store))"
    using pruned_store(1) [OF k valid] asked(2) k
    by (auto simp: asked(1) memory_valid_def aput_distinct dest!: aput_in)
  show "fst (ask_memory limiter k t store) = (if 1 \<le> memory_level limiter store k t then (True, 0)
      else (False, wait_for (1 - memory_level limiter store k t) (per_minute limiter k / 60)))"
    by (simp add: asked(1))
  show "memory_level limiter (snd (ask_memory limiter k t store)) k' t =
      (if k' = k \<and> 1 \<le> memory_level limiter store k t then memory_level limiter store k t - 1 else memory_level limiter store k' t)"
    if k': "k' \<in> limited limiter ids"
  proof (cases "k' = k")
    case True
    then show ?thesis using asked(3) unfolding asked(1) by (simp add: memory_level_def)
  next
    case False
    then have "?key k' \<noteq> ?key k"
      using bucket_key_eq [OF _ limited_facts(3) [OF k'] limited_facts(3) [OF k]] by (auto simp: prod_eq_iff)
    with False show ?thesis using pruned_store(2) [OF k' valid] unfolding asked(1) by (simp add: memory_level_def)
  qed
qed


subsection \<open>Two stores that promise it answer alike\<close>

locale two_stores = first: allowance_store spend level valid keys capacity + second: allowance_store spend' level' valid' keys capacity
  for spend :: "'k \<Rightarrow> int \<Rightarrow> 's \<Rightarrow> (bool \<times> int) \<times> 's" and level valid keys capacity
    and spend' :: "'k \<Rightarrow> int \<Rightarrow> 'r \<Rightarrow> (bool \<times> int) \<times> 'r" and level' valid'
begin

lemma serve_alike:
  assumes "valid t s" "valid' t r" "\<forall>k \<in> keys. level s k t = level' r k t"
    "set (map fst rs) \<subseteq> keys" "sorted (t # map snd rs)"
  shows "fst (serve spend rs s) = fst (serve spend' rs r)"
  using assms
proof (induction rs arbitrary: t s r)
  case (Cons req rs)
  obtain k0 t0 where req: "req = (k0, t0)" by (cases req)
  from Cons.prems have k0: "k0 \<in> keys" and t0: "t \<le> t0" "sorted (t0 # map snd rs)" by (auto simp: req)
  note valid0 = first.valid_later [OF Cons.prems(1) t0(1)] second.valid_later [OF Cons.prems(2) t0(1)]
  have same: "level s k t0 = level' r k t0" if "k \<in> keys" for k
    using first.level_later [OF Cons.prems(1) that t0(1)] second.level_later [OF Cons.prems(2) that t0(1)] Cons.prems(3) that
    by simp
  have answer: "fst (spend k0 t0 s) = fst (spend' k0 t0 r)"
    using first.spend_answer [OF valid0(1) k0] second.spend_answer [OF valid0(2) k0] same [OF k0] by simp
  have "level (snd (spend k0 t0 s)) k t0 = level' (snd (spend' k0 t0 r)) k t0" if "k \<in> keys" for k
    using first.spend_level [OF valid0(1) k0 that] second.spend_level [OF valid0(2) k0 that] same [OF k0] same [OF that] by simp
  then have "fst (serve spend rs (snd (spend k0 t0 s))) = fst (serve spend' rs (snd (spend' k0 t0 r)))"
    using Cons.IH [OF first.spend_valid [OF valid0(1) k0] second.spend_valid [OF valid0(2) k0] _ _ t0(2)] Cons.prems(4) by simp
  with answer show ?case by (simp add: req case_prod_beta)
qed simp

end

interpretation stores: two_stores "ask_memory limiter" "memory_level limiter" "memory_valid limiter (limited limiter ids)"
  "limited limiter ids" "per_minute limiter" "ask_table limiter" "table_level limiter" "table_valid limiter (limited limiter ids)"
  for limiter ids
  by unfold_locales

subsection \<open>From the start of the process\<close>

lemma new_stores [simp]:
  "memory_valid limiter ids t new_memory_store" "table_valid limiter ids t Map.empty"
  "memory_level limiter new_memory_store k t = per_minute limiter k" "table_level limiter Map.empty k t = per_minute limiter k"
  by (simp_all add: memory_valid_def table_valid_def new_memory_store_def memory_level_def table_level_def bucket_level_def)

lemma asked_for_limited: "asked_for limiter ids \<Longrightarrow> limited limiter ids = ids"
  by (simp add: limited_def)


text \<open>C15: the store in memory and the store in the database answer every sequence of requests alike, though the first forgets
  the buckets that have been idle and counts how many it tracks.
\<close>

theorem stores_agree:
  assumes "asked_for limiter ids" "set (map fst rs) \<subseteq> ids" "sorted (map snd rs)"
  shows "fst (serve (ask_memory limiter) rs new_memory_store) = fst (serve (ask_table limiter) rs Map.empty)"
proof (cases rs)
  case (Cons r rs')
  then show ?thesis
    using stores.serve_alike [of limiter ids "snd r" new_memory_store Map.empty rs] assms
    by (auto simp: asked_for_limited)
qed simp

text \<open>C16: a refused caller who waits longer than it was told to, while nobody else spends, is let through by either store.
\<close>

theorem refusal_ends:
  assumes "asked_for limiter ids" "set (map fst before) \<subseteq> ids" "sorted (map snd before @ [t])" "k \<in> ids"
    and "ask_memory limiter k t (snd (serve (ask_memory limiter) before new_memory_store)) = ((False, wait), store)"
    and "ask_table limiter k t (snd (serve (ask_table limiter) before Map.empty)) = ((False, wait'), rows)"
    and "t + wait < t'" "t + wait' < t'"
  shows "fst (fst (ask_memory limiter k t' store)) \<and> fst (fst (ask_table limiter k t' rows))"
proof -
  note ids = asked_for_limited [OF assms(1)]
  obtain t0 where t0: "sorted (t0 # map snd before @ [t])"
  proof
    show "sorted (hd (map snd before @ [t]) # map snd before @ [t])" using assms(3) by (cases before) (auto simp: sorted_append)
  qed
  have known: "set (map fst before) \<subseteq> limited limiter ids" "k \<in> limited limiter ids"
    using assms(2,4) by (simp_all add: ids)
  show ?thesis
    using memory.wait_enough [OF memory.serve_valid [OF new_stores(1) known(1) t0] known(2) assms(5,7)]
      table.wait_enough [OF table.serve_valid [OF new_stores(2) known(1) t0] known(2) assms(6,8)]
    by simp
qed


subsection \<open>Examples\<close>

text \<open>One request a minute: the second within a second is refused, as is one half a minute later.\<close>

definition once_a_minute :: limiter where
  "once_a_minute = \<lparr>lm_overrides = None, lm_defaults = (\<lambda>_. 1)\<rparr>"

definition caller :: bucket_id where "caller = (''acme'', bucket_run)"

lemma once_a_minute_asked: "asked_for once_a_minute {caller}"
  by (simp add: asked_for_def caller_def bucket_run_def allowance_def once_a_minute_def max_tracked_keys_def)


lemma caller_served:
  "serve (ask_memory once_a_minute) [(caller, 0), (caller, rate_second), (caller, 30 * rate_second)] new_memory_store =
     ([(True, 0), (False, 59 * rate_second), (False, 30 * rate_second)],
      \<lparr>ms_buckets = [(bucket_key ''acme'' ''run'', \<lparr>tb_tokens = 1 / 2, tb_updated = 30 * rate_second\<rparr>)], ms_pruned = Some 0\<rparr>)"
  "fst (serve (ask_table once_a_minute) [(caller, 0), (caller, rate_second), (caller, 30 * rate_second)] Map.empty) =
     [(True, 0), (False, 59 * rate_second), (False, 30 * rate_second)]"
  by (code_simp, code_simp)



lemma stores_agree_example:
  "fst (serve (ask_table once_a_minute) [(caller, 0), (caller, rate_second), (caller, 30 * rate_second)] Map.empty) =
     [(True, 0), (False, 59 * rate_second), (False, 30 * rate_second)]"
proof -
  have "sorted (map snd [(caller, 0), (caller, rate_second), (caller, 30 * rate_second)])" by (simp add: rate_second_def)
  from stores_agree [OF once_a_minute_asked _ this] show ?thesis unfolding caller_served(1) by simp
qed

lemma refusal_ends_example:
  "fst (fst (ask_memory once_a_minute caller (60 * rate_second + 1)
     (snd (ask_memory once_a_minute caller rate_second
       (snd (serve (ask_memory once_a_minute) [(caller, 0)] new_memory_store))))))"
proof -
  have "ask_memory once_a_minute caller rate_second (snd (serve (ask_memory once_a_minute) [(caller, 0)] new_memory_store)) =
      ((False, 59 * rate_second), snd (ask_memory once_a_minute caller rate_second
        (snd (serve (ask_memory once_a_minute) [(caller, 0)] new_memory_store))))"
    by code_simp
  moreover have "fst (ask_table once_a_minute caller rate_second (snd (serve (ask_table once_a_minute) [(caller, 0)] Map.empty))) =
      (False, 59 * rate_second)"
    by code_simp
  then have "ask_table once_a_minute caller rate_second (snd (serve (ask_table once_a_minute) [(caller, 0)] Map.empty)) =
      ((False, 59 * rate_second), snd (ask_table once_a_minute caller rate_second
        (snd (serve (ask_table once_a_minute) [(caller, 0)] Map.empty))))"
    by (metis prod.collapse)
  ultimately show ?thesis
    by (rule refusal_ends [OF once_a_minute_asked, of "[(caller, 0)]" rate_second caller, THEN conjunct1, rotated 3])
      (simp_all add: rate_second_def)
qed

end
