(* ===== verification/Deviations.thy ===== *)
theory Deviations
  imports Example_Workflow Resume_Correct Sql_Properties Wait_Properties Trace_Properties Service_Examples Event_Properties Rate_Properties
begin

text \<open>
  Inputs on which the code does not do what its comments say or what its callers expect, each evaluated
  on the model.
\<close>

subsection \<open>Versions\<close>

lemmas reading = parse_int_def parse_digits_def digits_val_def is_digit_def digit_val_def fits_i64_def of_char_def

text \<open>\<open>ParseTypeVersion\<close> reads the fraction with a signed parser, so a sign after the point is taken.\<close>

lemma signed_fraction_accepted: "parse_type_version ''4.-5'' = Inr \<lparr>scaled = 3950000\<rparr>"
proof -
  have "trim_space ''4.-5'' = ''4.-5''" by (rule trim_space_digits) (simp_all add: is_digit_def)
  moreover have "\<not> is_prefix ''-'' ''4.-5''" by (simp add: is_prefix_def)
  moreover have "cut_point ''4.-5'' = (''4'', Some ''-5'')" by simp
  moreover have "parse_int ''4'' = Some 4" "parse_int ''-50000'' = Some (- 50000)" by (simp_all add: reading)
  moreover have "''-5'' @ replicate (6 - length ''-5'') (CHR ''0'') = ''-50000''" by (simp add: numeral_eq_Suc)
  ultimately show ?thesis by (simp add: parse_type_version_def version_scale_def i64_def)
qed

text \<open>A whole part beyond 9223372036854 overflows, and a positive version reads as a negative one.\<close>

lemma version_overflows: "parse_type_version (dec_nat 9300000000000) = Inr \<lparr>scaled = - 9146744073709551616\<rparr>"
  by (subst parse_type_version_whole) (simp_all add: dec_nat_digits version_scale_def i64_def)

subsection \<open>Secrets\<close>

text \<open>Secrets are replaced in the order they were resolved, so a secret that begins another leaves the
  other's rest in the text.\<close>

lemma longer_secret_left: "scrub_text ''k abcd'' [''ab'', ''abcd''] = ''k [redacted]cd''"
  by (simp add: replace_all.simps redacted_value_def is_prefix_def)

subsection \<open>Per-item runs\<close>

text \<open>A node without outputs that tolerates failures per item indexes an output that is not there.\<close>

lemma sink_panics:
  assumes "invoke en g n (single_item_input input it) policy (pr_capture pr, st, w) = (FailedAttempts cause code tries, cap, st', w')"
    and "def_outputs (in_definition n) = []" "pr_assembled pr = empty_output n"
  shows "resolve_items en trigger g n input policy position (it # its) pr st w = (Panicked, st', w')"
proof -
  have "empty_output n = []" using assms(2) by (simp add: empty_output_def)
  then show ?thesis using assms(1,3) by (simp add: append_at_def Let_def)
qed

subsection \<open>Resuming\<close>

text \<open>\<open>Resume\<close> leaves a resumed output without items empty although the node always outputs data, where
  the node's own answer gets an item.\<close>

lemma resumed_stays_empty:
  assumes "setting_bool (in_settings n) ''alwaysOutputData''" "lineage_sources (incoming g (in_id n)) input = []"
    and "def_outputs (in_definition n) = [p]" "error_port_index n = None"
  shows "with_empty_item 0 n [] input (pad_error_port n [[]]) \<noteq> pad_error_port n [[]]"
  using assms by (simp add: with_empty_item_def pad_error_port_def)

subsection \<open>A conflict clause inside a name\<close>

text \<open>
  The conflict clause of an insert is placed before the first \<open> RETURNING \<close> of the text; when the table's name
  contains that text, the clause lands inside the quoted name and another table is addressed.
\<close>

lemma conflict_clause_in_name:
  "build_insert (postgres_build double_quoted) \<lparr>tg_schema = [], tg_table = ''a RETURNING b''\<rparr> [(''c'', v)] True =
     Inr \<lparr>ss_sql = ''INSERT INTO '' @ [CHR 0x22] @ ''a ON CONFLICT DO NOTHING RETURNING b'' @ [CHR 0x22] @
            '' ('' @ [CHR 0x22] @ ''c'' @ [CHR 0x22] @ '') VALUES ($1) RETURNING *'',
          ss_parameters = [v], ss_returning = True\<rparr>"
  by (simp add: build_insert_def build_evaluation sorted_keys_def insert_head_def dec_nat_examples
      returns_row_def postgres_skip_conflict_def)

subsection \<open>Stored payloads\<close>

text \<open>A payload that is valid JSON with a number outside the range of \<open>float64\<close> is stored as it came, credentials
  and all: decoding it fails, and redaction gives up.\<close>

lemma huge_number_unredacted:
  "stored_payload h (RawJson (JObj [(''token'', JStr ''s''), (''n'', JNum (2 ^ 1024))]))
   = Inr (RawJson (JObj [(''token'', JStr ''s''), (''n'', JNum (2 ^ 1024))]))"
  by (simp add: stored_payload_def trigger_payload_def redact_def raw_valid_def unmarshal_def float_limit_def)

text \<open>Numbers pass through \<open>float64\<close>: an identifier it cannot hold is stored as another one, also where only the
  headers of a trigger's payload are redacted.\<close>

lemma large_number_changed:
  assumes "h_number h (2 ^ 53 + 1) = 2 ^ 53"
  shows "stored_payload h (RawJson (JNum (2 ^ 53 + 1))) = Inr (RawJson (JNum (2 ^ 53)))"
    and "redact_trigger_headers h (RawJson (JObj [(''headers'', JObj []), (''body'', JNum (2 ^ 53 + 1))])) =
      RawJson (JObj [(''headers'', JObj []), (''body'', JNum (2 ^ 53))])"
  using assms
  by (simp_all add: stored_payload_def trigger_payload_def redact_def raw_valid_def unmarshal_def float_limit_def
      redact_trigger_headers_def trigger_headers_key_def redact_map_def redact_object)

subsection \<open>Pruning executions that waited\<close>

text \<open>Pruning deletes the trace of an execution but not its waits, which restrict the deletion: as soon as one
  execution of the oldest batch ever waited, nothing is removed, at this and at every later attempt.\<close>

lemma pruning_stuck:
  assumes "w \<in> set (db_waits db)" "wt_execution w = ex_id r"
    and "r \<in> set (expired_executions cutoff batch db)" "\<And>t i. discard t i"
  shows "prune_loop discard cutoff batch n db = (n, Some (RowInUse ''execution_waits''), db)"
proof -
  let ?cs = "expired_executions cutoff batch db"
  let ?p = "\<lambda>x. ex_id x \<in> set (map ex_id ?cs) \<and> prunable cutoff x"
  have "r \<in> set (db_executions db)" "prunable cutoff r" using assms(3) expired_executions_set(1) by blast+
  then have "r \<in> set (filter ?p (db_executions db))" using assms(3) by simp
  then have "wt_execution w \<in> ex_id ` set (filter ?p (db_executions db))" unfolding assms(2) by (rule imageI)
  with assms(1) have "\<not> (\<forall>w \<in> set (db_waits db). wt_execution w \<notin> ex_id ` set (filter ?p (db_executions db)))" by blast
  moreover have "\<forall>t \<in> set (filter (\<lambda>t. tr_execution t \<notin> set (map ex_id ?cs)) (db_runs db)).
      tr_execution t \<notin> ex_id ` set (filter ?p (db_executions db))" by auto
  ultimately have "delete_executions cutoff ?cs db = Inl (RowInUse ''execution_waits'')"
    unfolding delete_executions_def Let_def need_def
    by - (subst if_P, assumption, subst if_not_P, assumption, rule refl)
  moreover have "?cs \<noteq> []" using assms(3) by auto
  moreover have "list_all (\<lambda>c. discard (ex_tenant c) (ex_id c)) ?cs" using assms(4) by (simp add: list_all_iff)
  ultimately show ?thesis by (subst prune_loop.simps) simp
qed

subsection \<open>Cancelling what changed in between\<close>

text \<open>\<open>Cancel\<close> writes what the status it read calls for without asking whether the row still has it: an execution
  that parked itself in between is left cancelling without a lease, and no worker ever claims it.\<close>

definition raced_cancel :: "exec_row \<times> nat database" where
  "raced_cancel = projr (cancel_rest ''t'' (the (row_at example_running ''e1'')) ''r'' 60 example_waiting)"

lemma cancel_strands:
  "map_option (\<lambda>r. (ex_status r, ex_owner r, ex_expires r)) (row_at (snd raced_cancel) ''e1'') = Some (StCancelling, [], None)"
  "\<not> claimable now (the (row_at (snd raced_cancel) ''e1''))"
  "map wt_consumed (db_waits (snd raced_cancel)) = [None]"
proof -
  show row: "map_option (\<lambda>r. (ex_status r, ex_owner r, ex_expires r)) (row_at (snd raced_cancel) ''e1'')
      = Some (StCancelling, [], None)"
    by code_simp
  then show "\<not> claimable now (the (row_at (snd raced_cancel) ''e1''))" by (auto simp: claimable_def expired_lease_def)
  show "map wt_consumed (db_waits (snd raced_cancel)) = [None]" by code_simp
qed

subsection \<open>Reclaiming a resumed run\<close>

text \<open>A worker that takes over a run under an expired lease clears its trace, the part from before a wait too;
  the run goes on from the checkpoint and never writes that part again.\<close>

definition example_resumed_and_lost :: "nat database" where
  "example_resumed_and_lost =
     (let traced = taken (create_node_runs plain_host ''t'' [(''r1'', ''w/l1'', example_trace)] 25 example_running);
          waiting = taken (suspend_execution ''t'' example_params 30 traced);
          answered = taken (resume_wait [] ''h1'' (RawJson JNull) 40 waiting);
          claimed = taken (claim_next ''w'' ''l2'' 100 50 answered)
      in taken (claim_next ''w'' ''l3'' 900 200 claimed))"

lemma earlier_trace_lost:
  "db_runs example_resumed_and_lost = []"
  "map wt_run_count (db_waits example_resumed_and_lost) = [3]"
  by code_simp+

subsection \<open>What the trace shows of a datastore node\<close>

text \<open>A top-level run's row holds counts and identifiers; the event of a row written as the run is parked, and the rows
  of a called workflow, hold the cells.\<close>

definition example_cells :: rendering where
  "example_cells = example_rendering\<lparr>rn_output := (\<lambda>_. Some (JArr [JObj [(''id'', JNum 1), (''city'', JStr ''Jakarta'')]]))\<rparr>"

lemma cells_shown:
  "case trace_row_of plain_host example_cells (jb_record example_job) (\<lambda>_. datastore_type) 1 30 (node_run0 ''d'' no_input) of
     Inl e \<Rightarrow> False
   | Inr (t, e) \<Rightarrow> tr_output t = RawJson (JObj [(''datastore'', JObj [(''ids'', JArr [JNum 1]), (''rows'', JNum 1)])])"
  "ev_data (suspend_event example_cells (jb_record example_job) 1 (node_run0 ''d'' no_input)) =
     RawJson (JArr [JObj [(''id'', JNum 1), (''city'', JStr ''Jakarta'')]])"
  "case child_row_of example_cells (jb_record example_job) 1 30 (node_run0 ''d'' no_input) of
     Inl e \<Rightarrow> False
   | Inr t \<Rightarrow> tr_output t = RawJson (JArr [JObj [(''id'', JNum 1), (''city'', JStr ''Jakarta'')]])"
  by (simp_all add: example_cells_def example_rendering_def trace_row_of_def trace_row_with_def project_trace_def raw_valid_def
      unmarshal_def float_limit_def plain_host_def row_id_of_def count_row_def float_to_int64_def max_trace_ids_def
      trace_envelope_def suspend_event_def node_event_of_def child_row_of_def Let_def)

subsection \<open>A called workflow's rows without a JSON form\<close>

text \<open>The caller gets the error; the child stays at work, until its lease expires and a worker runs it again.\<close>

lemma child_stranded:
  assumes "nr \<in> set (rt_rows report)" "rn_output (sv_rendering sv) (nr_output nr) = None"
  shows "ce_db (persist_child sv r name report data ids now db) = db \<and> ce_notices (persist_child sv r name report data ids now db) = []"
proof -
  have "\<exists>e. child_rows (sv_rendering sv) r sequence now rows = Inl e" if "nr \<in> set rows" for sequence rows
    using that
  proof (induction rows arbitrary: sequence)
    case (Cons nr' rows)
    show ?case
    proof (cases "nr = nr'")
      case True
      with assms(2) have "\<exists>e. child_row_of (sv_rendering sv) r sequence now nr' = Inl e"
        by (cases "rn_input (sv_rendering sv) (nr_input nr)") (auto simp: child_row_of_def)
      then show ?thesis by auto
    next
      case False
      with Cons obtain e where "child_rows (sv_rendering sv) r (sequence + 1) now rows = Inl e" by auto
      then show ?thesis by (cases "child_row_of (sv_rendering sv) r sequence now nr'") auto
    qed
  qed simp
  from this [OF assms(1), of 1] show ?thesis by (auto simp: persist_child_def child_gave_up_def)
qed

subsection \<open>The live feed out of order\<close>

text \<open>Two publishers that number their events one after the other may deliver them the other way round.\<close>

lemma feed_out_of_order:
  assumes "b1 = fst (publish_append plain_host example_event (fd_broker watched_feed))"
    and "d1 = hd (snd (publish_append plain_host example_event (fd_broker watched_feed)))"
    and "d2 = hd (snd (publish_append plain_host example_event b1))"
  shows "map_option (\<lambda>sub. map fst (sb_queue sub))
    (bk_subscriptions (deliver d1 (deliver d2 (fst (publish_append plain_host example_event b1)))) 1) = Some [2, 1]"
  by (simp add: assms watched_feed_def publish_append_def Let_def example_event_def subscribe_def new_feed_def
      new_broker_def stream_at_def empty_stream_def event_key_def default_subscriber_queue_def deliver_def
      change_subscription_def deliver_to_def)

text \<open>A subscriber that asks for what follows an event of a process that is gone is not told of what it misses.\<close>

lemma feed_restarted:
  "map_option (\<lambda>sub. (sb_queue sub, sb_truncated sub))
     (bk_subscriptions (subscribe ''t'' ''e1'' 50 2 (publish plain_host example_event (fd_broker watched_feed))) 2) = Some ([], False)"
  by (simp add: publish_def watched_feed_def publish_append_def Let_def example_event_def subscribe_def new_feed_def
      new_broker_def stream_at_def empty_stream_def event_key_def default_subscriber_queue_def deliver_def
      change_subscription_def deliver_to_def default_buffer_def)

subsection \<open>Allowances and skewed clocks\<close>

text \<open>
  Processes that share the database's buckets spend with their own clocks. A clock that is behind takes the bucket's time
  back, so that the same minute is refilled again: two spends of a bucket of one token, a minute apart, become three.
\<close>

lemma refilled_twice:
  "map fst (fst (serve (ask_table once_a_minute)
     [(caller, 0), (caller, rate_minute), (caller, 0), (caller, rate_minute)] Map.empty)) = [True, True, False, True]"
  "map fst (fst (serve (ask_table once_a_minute)
     [(caller, 0), (caller, rate_minute), (caller, rate_minute)] Map.empty)) = [True, True, False]"
  by (code_simp, code_simp)

end
