(* ===== verification/Spec2Isabelle.thy ===== *)
theory Spec2Isabelle
  imports Compiler_Properties Engine_Properties Item_Properties Resume_Properties Sql_Properties
    Store_Properties Wait_Properties Trace_Properties Service_Properties Service_Examples Trace_Row_Properties
    Call_Properties Event_Properties Rate_Properties Deviations
begin

text \<open>
  The core of Kilas Flow, a workflow automation server in Go: how a workflow document is checked and
  compiled into an execution plan (\<open>internal/workflow\<close>), how a plan is executed, suspended and
  resumed, how a worker claims an execution, runs and settles it, and how workflows call workflows
  (\<open>internal/engine\<close>), how executions are queued, leased, parked and pruned in the database
  (\<open>internal/repository\<close>, \<open>internal/execution\<close>), and how the SQL nodes build statements from names and values and guard
  the SQL text of a user (\<open>internal/sqlbuild\<close>, \<open>internal/sqlguard\<close>).

  \<^bold>\<open>The program.\<close> A client stores a document: nodes of registered types, connections between their
  ports, settings, tags and pinned data. \<open>ValidateDraft\<close> accepts it as a draft; \<open>Compile\<close> resolves every
  node against the catalogue, checks nodes, connections and the whole graph, and returns an \<open>IR\<close> or the
  issues found. The runner prepares the part of the IR a trigger reaches and keeps a stack of owed
  invocations: it takes the newest that is ready, calls the node's executor under its retry policy, and
  delivers the output along the node's edges, which owes new invocations. An executor may suspend the
  run; the runner then snapshots its state into a checkpoint, and \<open>Resume\<close> restores it later and goes on.
  Around the runner, the store queues executions, leases them to workers (again after a lease expired),
  takes their trace and result, parks a suspended one with its checkpoint under a token, puts it back into
  the queue when the token is answered or its deadline passes, and prunes what ended long ago. The service
  joins the two: a worker claims an execution, runs or resumes it, and writes what the run left under its
  lease: the trace and a terminal status, or the wait that parks it; a node may call a workflow, which runs
  inline as an execution of its own, and a failure may start an error workflow.

  \<^bold>\<open>Theories and code.\<close>

  \<^item> \<open>Prelude\<close>: 64-bit integers, decimal digits, Go's string functions, association lists as Go maps.
  \<^item> \<open>Type_Version\<close>: \<open>typeversion.go\<close>, versions as millionths in an \<open>int64\<close>. \<open>Tags\<close>: UTF-8 and \<open>tags.go\<close>.
  \<^item> \<open>Document\<close>: \<open>document.go\<close>, the document's types, \<open>validateJSONSchemaShape\<close>, \<open>ValidateDraft\<close>.
  \<^item> \<open>Graph\<close>: the breadth-first searches the compiler and the runner share (\<open>reaches\<close>, the walks of
    \<open>validateExecutableTopology\<close> and \<open>activeNodes\<close>), with the contract \<open>worklist\<close>. \<open>Cycles\<close>: \<open>cycle.go\<close>,
    Tarjan's components and the shortest cycle of each.
  \<^item> \<open>Catalog\<close> and \<open>Compiler\<close>: \<open>compiler.go\<close>, \<open>catalog_scope.go\<close>, \<open>shape.go\<close>; \<open>compile_node\<close> and
    \<open>compile_connection\<close> are the bodies of the two loops of \<open>Compile\<close>, \<open>compile_state\<close> its local variables.
  \<^item> \<open>Lineage\<close>: the item stamps of \<open>runner.go\<close> and the pairing of \<open>expression/roots.go\<close>. \<open>Policies\<close>: how
    \<open>runner.go\<close> reads settings and failures, \<open>item_outcomes.go\<close>, \<open>secret_scrub.go\<close>, \<open>credentials/scrub.go\<close>.
  \<^item> \<open>Scheduler\<close>: \<open>prepareGraph\<close>, the run's state \<open>run_state\<close> (\<open>runState\<close>), \<open>next\<close>, \<open>push\<close>, \<open>complete\<close>,
    \<open>recordSkips\<close>, \<open>node_branches.go\<close>. \<open>Runner\<close>: \<open>invoke\<close>, \<open>resolveItems\<close>, \<open>runNode\<close>, \<open>runLoop\<close>, \<open>Run\<close>,
    \<open>checkpoint.go\<close>, \<open>Resume\<close>.

  \<^item> \<open>Sql_Guard\<close>: \<open>sqlguard.go\<close>, \<open>admit.go\<close> and \<open>dialect.go\<close> of \<open>sqlguard\<close>, the lexer under each reading of
    a backslash, the grammars of the three servers and the decision. \<open>Sql_Build\<close>: \<open>internal/sqlbuild\<close>, the
    two dialects and the five builders.

  \<^item> \<open>Redact\<close>: \<open>execution/redact.go\<close> and the two forms in which payloads are stored. \<open>Store\<close> and \<open>Waits\<close>:
    \<open>repository/executions.go\<close>, \<open>waits.go\<close> and \<open>execution_retention.go\<close>, the tables as lists of rows
    (\<open>database\<close>) and one definition per operation, which is one transaction. \<open>Wait_Service\<close>: the part of
    \<open>engine/wait_service.go\<close> around the store and the registry of \<open>approval.go\<close>.

  \<^item> \<open>Trace_Rows\<close>: how a run's rows become the stored trace and the events of the live feed, with
    \<open>datastore/trace.go\<close>. \<open>Terminal_Log\<close>: \<open>terminal_log.go\<close>. \<open>Static_Data\<close>: \<open>static_data.go\<close>.
  \<^item> \<open>Service_Run\<close>: the record \<open>service\<close> (\<open>Service\<close> of \<open>engine/service.go\<close>), leases, budgets and links,
    \<open>runWithStack\<close> and \<open>resumeRun\<close>. \<open>Service\<close>: \<open>runOnce\<close> in three parts, \<open>begin_work\<close> (the claim), \<open>run_job\<close>
    (the run) and \<open>end_work\<close> (what it left), with \<open>failPersist\<close> and \<open>suspend\<close>; \<open>ended\<close> is what an iteration
    answers. \<open>Service_Calls\<close>: \<open>invokeWorkflow\<close>, \<open>persistChild\<close>, \<open>runErrorWorkflow\<close>, \<open>Cancel\<close> and the queueing.
  \<^item> \<open>Events\<close>: \<open>internal/events\<close>, the broker of the live feed, with the parts of \<open>Publish\<close>, \<open>Close\<close> and \<open>Forget\<close>
    that run under different locks as operations of their own.
  \<^item> \<open>Rate_Limit\<close>: \<open>internal/ratelimit\<close>, the allowance a tenant has on an ingress and the two stores of its buckets.

  \<^bold>\<open>Lemmas.\<close> \<open>Compiler_Correct\<close> proves the two passes and every check of the whole graph equal to the
  predicate \<open>executable\<close>. \<open>Policies_Correct\<close> and \<open>Scheduler_Correct\<close> state the operations' contracts:
  shapes of outputs, bounds, deliveries, the live part of a plan. \<open>Steps\<close> defines the run as a transition
  system (\<open>move\<close>) and proves that the runner refines it; \<open>Invariants\<close> states the invariants of a run, each
  an interpretation of the locale \<open>run_invariant\<close>; \<open>Termination\<close> proves that a run whose item edges have no
  cycle returns; \<open>Plan_Correct\<close> joins compiler and runner; \<open>Run_Correct\<close>, \<open>Resume_Correct\<close> and \<open>Branches\<close>
  hold what is true of ends of runs, of checkpoints and of the default branches. The properties are in
  \<open>Compiler_Properties\<close>, \<open>Engine_Properties\<close>, \<open>Item_Properties\<close> and \<open>Resume_Properties\<close>, each tried on
  the workflow of \<open>Example_Workflow\<close>. \<open>Sql_Correct\<close> describes what the lexer makes of a text by the
  relation \<open>reads\<close>; \<open>Sql_Built\<close> states what a dialect promises (locales \<open>sql_spelling\<close> and \<open>sql_served\<close>)
  and proves built statements clean; \<open>Sql_Values\<close> is about their values, \<open>Sql_Conflict\<close> about the conflict
  clause, and \<open>Sql_Properties\<close> holds their properties. \<open>Store_Correct\<close> states the life cycle of one
  execution (\<open>row_change\<close>) and what an update does to the rows, \<open>Claims\<close> what a claim finds; \<open>Store_Steps\<close>
  makes the store a transition system (\<open>store_step\<close>), proves that every operation keeps the invariant
  \<open>sound\<close> and follows the life cycle, and carries invariants of single executions over (locale
  \<open>execution_invariant\<close>); \<open>Store_Properties\<close>, \<open>Wait_Properties\<close> and \<open>Trace_Properties\<close> hold the properties. \<open>Service_Correct\<close>
  describes what each write of a worker does to an execution it holds (\<open>holds_row\<close>, \<open>leaves\<close>);
  \<open>Service_Properties\<close> is about one worker, \<open>Trace_Row_Properties\<close> about what it reports and \<open>Call_Properties\<close>
  about calls and the refinement of the store, with the small service of \<open>Service_Examples\<close> as the input. \<open>Event_Properties\<close>
  interleaves publishers and readers (\<open>feed_step\<close>) and carries the invariant \<open>feed_ok\<close>. \<open>Rate_Properties\<close> states what a
  store of buckets promises (locale \<open>allowance_store\<close>, interpreted on both stores) and what follows for any two of them
  (\<open>two_stores\<close>).
  \<open>Deviations\<close> evaluates the inputs on which the code surprises.

  \<^bold>\<open>Outside the model.\<close> \<open>host\<close> (quoting, float rendering, time zones, the lower-case table) and \<open>env\<close>
  (executors, the context, sleeping) are arguments, and so are the upper-case table of the guard and the
  identifier quoting of the PostgreSQL driver; nothing is assumed of them, except where a property says
  so (\<open>quotes_names\<close>: the driver doubles the quotes of a name and puts quotes around it;
  \<open>stable_numbers\<close>: a number written after a round trip through \<open>float64\<close> is written the same again). The source's maps are association lists or functions; values are immutable, so the source's deep
  copies are identities; the runner's rows have no start and finish times. JSON numbers and the tokens of a
  bucket are rationals. For
  the store, the clock's readings, new identifiers, the text of a cursor, hashing and the JSON forms of
  checkpoints are arguments; a failure of the database itself (which rolls back) is left out. For the
  service, the JSON forms of inputs, outputs and checkpoints (\<open>rendering\<close>, \<open>static_codec\<close>, fields of
  \<open>service\<close>), the texts of errors, which errors wrap \<open>context.Canceled\<close> and the run of a child are arguments;
  what the executors, the live writer, renewals of the lease and other workers do to the database between the
  claim and the end of a run is any sequence of the store's steps.

  \<^bold>\<open>Loops.\<close> \<open>Tarjan\<close> runs with fuel in \<open>Cycles\<close>: the number of nodes and edges bounds its depth, and
  \<open>strongly_connected_groups\<close> and \<open>cycles_named\<close> prove that it always returns. The runner's loop is a
  \<open>partial_function\<close>: a loop node's graph may run forever, and \<open>compiled_run_returns\<close> proves that without
  loop nodes it returns. Every other loop terminates by its own measure.

  \<^bold>\<open>Not modelled.\<close> The executors of the node types (\<open>nodes\<close>), the JavaScript runtime (\<open>internal/jsrun\<close>),
  the n8n importer (\<open>internal/interop\<close>), the expression evaluator, the HTTP API, the persistence of
  everything but executions, configuration, the AI runtime and the commands: services around the core, most
  of them input and output over third-party libraries. Of \<open>service.go\<close>, the worker pool, the timers and
  heartbeats, metrics, credentials' resolution and construction.
\<close>

end
